(* ===== verification/Prelude.thy ===== *)
theory Prelude
  imports Main "HOL-Library.AList" "HOL-Library.Multiset" "HOL-Library.Char_ord"
    "HOL-Library.List_Lexorder" "HOL-Library.Product_Lexorder" "HOL-Library.Word"
begin

text \<open>
  The part of Go and of its standard library that the components share.

  \<^item> A Go \<^verbatim>\<open>map[string]T\<close> is an association list with distinct keys
    (\<open>gm_ok\<close>). The order of the list is the order in which one particular \<^verbatim>\<open>range\<close>
    loop visits the map; Go leaves that order open, so a result that the code promises to be
    deterministic has to be proved independent of it (\<open>gm_eq\<close>: same lookups, any order).
  \<^item> A Go \<^verbatim>\<open>map[string]struct{}\<close> (a set) is a list without repetitions.
  \<^item> \<^verbatim>\<open>time.Time\<close> is the number of nanoseconds since Go's zero time (1 January of year 1,
    UTC), so \<^verbatim>\<open>IsZero\<close> is the comparison with 0, and a \<^verbatim>\<open>time.Duration\<close> is a number
    of nanoseconds; \<^verbatim>\<open>Time.Sub\<close> saturates at the ends of the int64 range as Go's does.
  \<^item> Strings are byte lists (\<open>char\<close> is a byte); \<^verbatim>\<open><\<close> on them is the bytewise
    lexicographic order of Go.
\<close>

named_theorems gm_simps \<open>lookups in updated Go maps\<close>
named_theorems gm_intros \<open>distinctness of the keys of updated Go maps\<close>

section \<open>Go maps\<close>

type_synonym ('k, 'v) gomap = "('k \<times> 'v) list"

abbreviation gm_get :: "('k, 'v) gomap \<Rightarrow> 'k \<Rightarrow> 'v option" where
  "gm_get \<equiv> map_of"

abbreviation gm_put :: "'k \<Rightarrow> 'v \<Rightarrow> ('k, 'v) gomap \<Rightarrow> ('k, 'v) gomap" where
  "gm_put \<equiv> AList.update"

abbreviation gm_del :: "'k \<Rightarrow> ('k, 'v) gomap \<Rightarrow> ('k, 'v) gomap" where
  "gm_del \<equiv> AList.delete"

definition gm_ok :: "('k, 'v) gomap \<Rightarrow> bool" where
  "gm_ok m \<longleftrightarrow> distinct (map fst m)"

definition gm_eq :: "('k, 'v) gomap \<Rightarrow> ('k, 'v) gomap \<Rightarrow> bool" where
  "gm_eq m n \<longleftrightarrow> map_of m = map_of n"

text \<open>A \<^verbatim>\<open>range\<close> loop that rewrites every value of a map in place.\<close>

definition gm_map :: "('v \<Rightarrow> 'v) \<Rightarrow> ('k, 'v) gomap \<Rightarrow> ('k, 'v) gomap" where
  "gm_map f m = map (\<lambda>(k, v). (k, f v)) m"

text \<open>A \<^verbatim>\<open>range\<close> loop that deletes the entries whose value satisfies a condition.\<close>

definition gm_reject :: "('v \<Rightarrow> bool) \<Rightarrow> ('k, 'v) gomap \<Rightarrow> ('k, 'v) gomap" where
  "gm_reject P m = filter (\<lambda>(k, v). \<not> P v) m"

lemma gm_ok_Nil [simp, gm_intros]: "gm_ok []"
  by (simp add: gm_ok_def)

lemma gm_ok_put [simp, gm_intros]: "gm_ok m \<Longrightarrow> gm_ok (gm_put k v m)"
  by (simp add: gm_ok_def distinct_update)

lemma gm_ok_del [simp, gm_intros]: "gm_ok m \<Longrightarrow> gm_ok (gm_del k m)"
  by (simp add: gm_ok_def distinct_delete)

lemma gm_ok_map [simp, gm_intros]: "gm_ok m \<Longrightarrow> gm_ok (gm_map f m)"
  by (simp add: gm_ok_def gm_map_def comp_def case_prod_beta)

lemma gm_ok_reject [simp, gm_intros]: "gm_ok m \<Longrightarrow> gm_ok (gm_reject P m)"
  by (auto simp: gm_ok_def gm_reject_def distinct_map intro: inj_on_subset)

lemma gm_get_put [simp, gm_simps]:
  "gm_get (gm_put k v m) j = (if j = k then Some v else gm_get m j)"
  by (simp add: update_conv')

lemma gm_get_del [simp, gm_simps]:
  "gm_get (gm_del k m) j = (if j = k then None else gm_get m j)"
  by (simp add: delete_conv')

lemma gm_get_map [simp, gm_simps]: "gm_get (gm_map f m) k = map_option f (gm_get m k)"
  by (induction m) (auto simp: gm_map_def)

lemma gm_get_reject [gm_simps]:
  "gm_ok m \<Longrightarrow> gm_get (gm_reject P m) k =
     (case gm_get m k of None \<Rightarrow> None | Some v \<Rightarrow> if P v then None else Some v)"
proof (induction m)
  case Nil
  then show ?case by (simp add: gm_reject_def)
next
  case (Cons kv m)
  obtain j v where kv: "kv = (j, v)" by (cases kv)
  from Cons.prems have ok: "gm_ok m" and fresh: "gm_get m j = None"
    by (auto simp: gm_ok_def kv map_of_eq_None_iff)
  from Cons.IH [OF ok] fresh show ?case
    by (auto simp: kv gm_reject_def)
qed

lemma gm_ok_Cons:
  "gm_ok ((k, v) # m) \<longleftrightarrow> gm_ok m \<and> gm_get m k = None"
  by (auto simp: gm_ok_def map_of_eq_None_iff)

lemma gm_get_in: "gm_ok m \<Longrightarrow> gm_get m k = Some v \<longleftrightarrow> (k, v) \<in> set m"
  by (simp add: gm_ok_def)

lemma gm_get_val: "gm_get m k = Some v \<Longrightarrow> v \<in> snd ` set m"
  by (force dest: map_of_SomeD)

lemma gm_vals_iff: "gm_ok m \<Longrightarrow> v \<in> set (map snd m) \<longleftrightarrow> (\<exists>k. gm_get m k = Some v)"
  by (force simp: gm_get_in)

lemma gm_keys_iff: "k \<in> set (map fst m) \<longleftrightarrow> (\<exists>v. gm_get m k = Some v)"
  by (induction m) (auto split: if_splits)

lemma gm_eq_refl [simp]: "gm_eq m m"
  by (simp add: gm_eq_def)

lemma gm_eq_mset:
  assumes "gm_ok m" and "gm_ok n" and "gm_eq m n"
  shows "mset m = mset n"
proof -
  have "set m = set n"
    using assms by (metis gm_eq_def gm_ok_def map_of_inject_set)
  moreover have "distinct m" "distinct n"
    using assms by (auto simp: gm_ok_def distinct_map)
  ultimately show ?thesis by (simp add: set_eq_iff_mset_eq_distinct)
qed

lemma gm_eq_length: "gm_ok m \<Longrightarrow> gm_ok n \<Longrightarrow> gm_eq m n \<Longrightarrow> length m = length n"
  by (metis gm_eq_mset size_mset)

lemma gm_eq_vals: "gm_ok m \<Longrightarrow> gm_ok n \<Longrightarrow> gm_eq m n \<Longrightarrow> mset (map snd m) = mset (map snd n)"
  by (metis gm_eq_mset mset_map)

section \<open>Sorting\<close>

text \<open>
  \<^verbatim>\<open>sort.Slice\<close> with a comparison on a key. Go's sort is not stable, so its result is
  determined only where the key separates the elements; \<open>sort_key_mset_eq\<close> says that it
  then depends on the elements alone, not on the order in which they came.
\<close>

lemma sort_key_mset_eq:
  assumes "mset xs = mset ys" and "inj_on f (set xs)"
  shows "sort_key f xs = sort_key f ys"
proof -
  have "map f (sort_key f xs) = sort (map f xs)" for xs :: "'a list"
    by (metis mset_map mset_sort properties_for_sort sorted_sort_key)
  moreover have "sort (map f xs) = sort (map f ys)"
    using assms(1) by (metis mset_map mset_sort properties_for_sort sorted_sort)
  ultimately have eq: "map f (sort_key f xs) = map f (sort_key f ys)" by simp
  have "set ys = set xs" using assms(1) by (metis set_mset_mset)
  then show ?thesis
    using eq assms(2) by (auto intro: map_inj_on simp: inj_on_def)
qed

section \<open>Sets of strings\<close>

abbreviation set_put :: "'a \<Rightarrow> 'a list \<Rightarrow> 'a list" where
  "set_put \<equiv> List.insert"

abbreviation set_del :: "'a \<Rightarrow> 'a list \<Rightarrow> 'a list" where
  "set_del \<equiv> removeAll"

lemma set_map_filter: "y \<in> set (List.map_filter f xs) \<longleftrightarrow> (\<exists>x \<in> set xs. f x = Some y)"
  by (induction xs) (auto simp: map_filter_simps split: option.splits)

section \<open>Results\<close>

text \<open>
  A fallible call returns \<open>Inl e\<close> where the code returns a non-nil error, and \<open>Inr\<close> of the
  value otherwise. A call that may also change the state returns the pair of its error (if any)
  and the new state.
\<close>

type_synonym ('e, 'a) result = "'e + 'a"

definition is_err :: "('e, 'a) result \<Rightarrow> bool" where
  "is_err r = (case r of Inl _ \<Rightarrow> True | Inr _ \<Rightarrow> False)"

lemma is_err_simps [simp]: "is_err (Inl e)" "\<not> is_err (Inr x)"
  by (simp_all add: is_err_def)

section \<open>Time\<close>

type_synonym gotime = int
type_synonym duration = int

definition zero_time :: gotime where
  "zero_time = 0"

definition is_zero :: "gotime \<Rightarrow> bool" where
  "is_zero t \<longleftrightarrow> t = zero_time"

definition max_duration :: duration where
  "max_duration = 2 ^ 63 - 1"

definition min_duration :: duration where
  "min_duration = - (2 ^ 63)"

definition time_sub :: "gotime \<Rightarrow> gotime \<Rightarrow> duration" where
  "time_sub t u = max min_duration (min max_duration (t - u))"

definition second :: duration where
  "second = 1000000000"

lemma is_zero_zero [simp]: "is_zero zero_time"
  by (simp add: is_zero_def)

lemma time_sub_gt: "d < max_duration \<Longrightarrow> min_duration \<le> d \<Longrightarrow> time_sub t u > d \<longleftrightarrow> t - u > d"
  by (auto simp: time_sub_def)

section \<open>Strings\<close>

text \<open>
  \<^verbatim>\<open>strings.ToLower\<close> on ASCII bytes. The bytes of a non-ASCII rune are left as they are:
  Unicode case folding is not modelled.
\<close>

definition char_in :: "char \<Rightarrow> char \<Rightarrow> char \<Rightarrow> bool" where
  "char_in lo hi c \<longleftrightarrow> lo \<le> c \<and> c \<le> hi"

definition lower_char :: "char \<Rightarrow> char" where
  "lower_char c = (if char_in CHR ''A'' CHR ''Z'' c then char_of (of_char c + (32 :: nat)) else c)"

definition to_lower :: "string \<Rightarrow> string" where
  "to_lower s = map lower_char s"

definition is_digit :: "char \<Rightarrow> bool" where
  "is_digit c \<longleftrightarrow> char_in CHR ''0'' CHR ''9'' c"

definition is_alpha :: "char \<Rightarrow> bool" where
  "is_alpha c \<longleftrightarrow> char_in CHR ''a'' CHR ''z'' c \<or> char_in CHR ''A'' CHR ''Z'' c"

definition is_alnum :: "char \<Rightarrow> bool" where
  "is_alnum c \<longleftrightarrow> is_alpha c \<or> is_digit c"

text \<open>The class \<^verbatim>\<open>[A-Za-z0-9._-]\<close>, which the name and trace-id patterns share.\<close>

definition is_name_char :: "char \<Rightarrow> bool" where
  "is_name_char c \<longleftrightarrow> is_alnum c \<or> c = CHR ''.'' \<or> c = CHR ''_'' \<or> c = CHR ''-''"

text \<open>\<^verbatim>\<open>^[A-Za-z0-9][A-Za-z0-9._-]{lo,hi}$\<close>.\<close>

definition name_re :: "nat \<Rightarrow> nat \<Rightarrow> string \<Rightarrow> bool" where
  "name_re lo hi s = (case s of [] \<Rightarrow> False
     | c # cs \<Rightarrow> is_alnum c \<and> lo \<le> length cs \<and> length cs \<le> hi \<and> list_all is_name_char cs)"

definition has_prefix :: "string \<Rightarrow> string \<Rightarrow> bool" where
  "has_prefix s p \<longleftrightarrow> take (length p) s = p"

text \<open>\<^verbatim>\<open>strings.Contains\<close>.\<close>

fun contains :: "string \<Rightarrow> string \<Rightarrow> bool" where
  "contains [] p \<longleftrightarrow> p = []"
| "contains (c # cs) p \<longleftrightarrow> has_prefix (c # cs) p \<or> contains cs p"

lemma name_re_nonempty: "name_re lo hi s \<Longrightarrow> s \<noteq> []"
  by (auto simp: name_re_def)

lemma has_prefix_append: "has_prefix s p \<longleftrightarrow> (\<exists>t. s = p @ t)"
  by (auto simp: has_prefix_def) (metis append_take_drop_id)

lemma contains_append: "contains s p \<longleftrightarrow> (\<exists>a b. s = a @ p @ b)"
proof (induction s)
  case Nil
  then show ?case by auto
next
  case (Cons c cs)
  show ?case
  proof
    assume "contains (c # cs) p"
    then consider "has_prefix (c # cs) p" | "contains cs p" by auto
    then show "\<exists>a b. c # cs = a @ p @ b"
    proof cases
      case 1
      then show ?thesis by (metis append_Nil has_prefix_append)
    next
      case 2
      then show ?thesis using Cons.IH by (metis append_Cons)
    qed
  next
    assume "\<exists>a b. c # cs = a @ p @ b"
    then obtain a b where ab: "c # cs = a @ p @ b" by blast
    show "contains (c # cs) p"
    proof (cases a)
      case Nil
      with ab have "has_prefix (c # cs) p" by (auto simp: has_prefix_append)
      then show ?thesis by simp
    next
      case (Cons d ds)
      with ab Cons.IH show ?thesis by auto
    qed
  qed
qed

text \<open>The ASCII part of \<^verbatim>\<open>unicode.IsSpace\<close>, and \<^verbatim>\<open>strings.TrimSpace\<close>.\<close>

definition is_space :: "char \<Rightarrow> bool" where
  "is_space c \<longleftrightarrow> c = CHR '' '' \<or> c = CHR 0x09 \<or> c = CHR 0x0A \<or> c = CHR 0x0B \<or> c = CHR 0x0C \<or> c = CHR 0x0D"

definition trim_space :: "string \<Rightarrow> string" where
  "trim_space s = rev (dropWhile is_space (rev (dropWhile is_space s)))"

text \<open>\<^verbatim>\<open>strings.Join\<close>.\<close>

fun join_with :: "string \<Rightarrow> string list \<Rightarrow> string" where
  "join_with sep [] = []"
| "join_with sep [w] = w"
| "join_with sep (w # ws) = w @ sep @ join_with sep ws"

section \<open>The first match in a sorted list\<close>

lemma find_sorted_least:
  assumes "sorted (map f xs)" and "find Q xs = Some x"
  shows "x \<in> set xs \<and> Q x \<and> (\<forall>y \<in> set xs. Q y \<longrightarrow> f x \<le> f y)"
proof -
  from assms(2) obtain i where i: "i < length xs" "Q (xs ! i)" "x = xs ! i" "\<And>j. j < i \<Longrightarrow> \<not> Q (xs ! j)"
    by (auto simp: find_Some_iff)
  have "f x \<le> f y" if "y \<in> set xs" "Q y" for y
  proof -
    from that obtain j where "j < length xs" "y = xs ! j" by (auto simp: in_set_conv_nth)
    with that(2) i show ?thesis using sorted_nth_mono [OF assms(1), of i j] by (cases "j < i") auto
  qed
  with i show ?thesis by auto
qed

end
