(* ===== verification/Domain.thy ===== *)
theory Domain
  imports Prelude
begin

text \<open>
  The entities of \<^verbatim>\<open>src/internal/domain\<close>: one record per struct, with the struct's
  fields in the struct's order. Field names carry a short prefix (\<open>u\<close> for User, \<open>g\<close> for
  Group, \<open>p\<close> for Project, \<open>tk\<close> for APIToken, \<open>tm\<close> for TraceMeta, \<open>l\<close> for Lease) because
  record fields share one name space. A pointer field \<^verbatim>\<open>*time.Time\<close> is an option. The
  sentinel errors of \<^verbatim>\<open>identity.go\<close> and the error texts that are not sentinels are the
  constructors of \<open>error\<close>; wrapping an error with more text (\<^verbatim>\<open>fmt.Errorf("...%w")\<close>)
  keeps its constructor, as \<^verbatim>\<open>errors.Is\<close> sees through the wrapping. \<open>Panic\<close> is not an
  error value of the code: it is the outcome of a call that dereferences a nil pointer.
\<close>

section \<open>Errors\<close>

datatype error =
    ErrUnauthenticated | ErrForbidden | ErrNoGroups | ErrAgentUnavailable | ErrQuotaExhausted
  | ErrTokenExists | ErrNotFound | ErrInvalidCredential | ErrValidation | ErrTokenNotRecoverable
  | ErrNotLeader | ErrConflict | ErrRaftTimeout | ErrSessionRevoked
  | ErrOther string | Panic

section \<open>Users\<close>

type_synonym role = string

definition RoleAdmin :: role where "RoleAdmin = ''admin''"
definition RoleUser :: role where "RoleUser = ''user''"

definition ParseRole :: "string \<Rightarrow> (error, role) result" where
  "ParseRole s = (if s = RoleAdmin \<or> s = RoleUser then Inr s else Inl (ErrOther ''invalid role''))"

type_synonym i64 = "64 word"

record User =
  uID :: string
  uUsername :: string
  uRole :: role
  uPasswordHash :: string
  uOAuthProvider :: string
  uOAuthID :: string
  uOAuthTokenCiphertext :: string
  uOAuthGroupIDs :: "string list"
  uOAuthGroups :: "string list"
  uOAuthAdmin :: bool
  uDeactivatedAt :: "gotime option"
  uTokenVersion :: i64
  uCreatedAt :: gotime
  uUpdatedAt :: gotime

definition Deactivated :: "User \<Rightarrow> bool" where
  "Deactivated u \<longleftrightarrow> uDeactivatedAt u \<noteq> None"

section \<open>Groups and projects\<close>

record Group =
  gID :: string
  gName :: string
  gDescription :: string
  gMaxRunnerSessions :: int
  gAgentAvailable :: bool
  gAutoAssignPattern :: string
  gCreatedAt :: gotime
  gUpdatedAt :: gotime

record Project =
  pID :: string
  pName :: string
  pGroupID :: string
  pCreatedAt :: gotime
  pUpdatedAt :: gotime

section \<open>API tokens\<close>

record APIToken =
  tkID :: string
  tkUserID :: string
  tkTokenHash :: string
  tkTokenCiphertext :: string
  tkPrefix :: string
  tkCreatedAt :: gotime
  tkLastUsedAt :: "gotime option"

section \<open>Trace metadata\<close>

record TraceMeta =
  tmTraceID :: string
  tmUserID :: string
  tmGroupID :: string
  tmProjectName :: string
  tmStatus :: string
  tmFailureReason :: string
  tmVersion :: string
  tmCIProvider :: string
  tmCIRepo :: string
  tmDurationMS :: int
  tmStartedAt :: gotime
  tmUpdatedAt :: gotime

record TraceListResult =
  trMeta :: TraceMeta
  trGroupName :: string
  trUsername :: string

record TraceFilter =
  fGroupIDs :: "string list"
  fIncludeUnassigned :: bool
  fUnassignedOnly :: bool
  fUserID :: string
  fCIRepo :: string
  fUsername :: string
  fLimit :: int

definition DefaultTraceLimit :: int where "DefaultTraceLimit = 100"
definition MaxTraceLimit :: int where "MaxTraceLimit = 500"

definition is_hex :: "char \<Rightarrow> bool" where
  "is_hex c \<longleftrightarrow> is_digit c \<or> char_in CHR ''a'' CHR ''f'' c \<or> char_in CHR ''A'' CHR ''F'' c"

text \<open>\<^verbatim>\<open>^[a-fA-F0-9]{16,128}$\<close>.\<close>

definition ValidTraceID :: "string \<Rightarrow> bool" where
  "ValidTraceID id' \<longleftrightarrow> 16 \<le> length id' \<and> length id' \<le> 128 \<and> list_all is_hex id'"

text \<open>\<^verbatim>\<open>^[A-Za-z0-9][A-Za-z0-9._-]{0,127}$\<close>.\<close>

definition ValidTraceIDKey :: "string \<Rightarrow> bool" where
  "ValidTraceIDKey id' = name_re 0 127 id'"

text \<open>The two statuses that end a trace, and the two that count as running.\<close>

definition terminal :: "string \<Rightarrow> bool" where
  "terminal s \<longleftrightarrow> s = ''success'' \<or> s = ''failed''"

definition running :: "string \<Rightarrow> bool" where
  "running s \<longleftrightarrow> s = [] \<or> s = ''running''"

section \<open>Sessions and identities\<close>

record Lease =
  lCertFP :: string
  lVersion :: string
  lReplicaPod :: string
  lInstanceID :: string
  lLastActivity :: gotime
  lInFlight :: int
  lTraceID :: string
  lUserID :: string
  lGroupID :: string

datatype auth_method = AuthJWT | AuthAPIToken | AuthLegacyTok

record Identity =
  iUserID :: string
  iUsername :: string
  iRole :: role
  iGroupIDs :: "string list"
  iMethod :: auth_method

text \<open>The receivers of the two methods are pointers that may be nil.\<close>

definition IsAdmin :: "Identity option \<Rightarrow> bool" where
  "IsAdmin i = (case i of None \<Rightarrow> False | Some i \<Rightarrow> iRole i = RoleAdmin)"

definition HasGroup :: "Identity option \<Rightarrow> string \<Rightarrow> bool" where
  "HasGroup i gid = (case i of None \<Rightarrow> False
     | Some i \<Rightarrow> if gid = [] then False else List.member (iGroupIDs i) gid)"

section \<open>Facts shared by the components\<close>

lemma terminal_not_running: "terminal s \<Longrightarrow> \<not> running s"
  by (auto simp: terminal_def running_def)

lemma is_hex_alnum: "is_hex c \<Longrightarrow> is_alnum c"
  by (auto simp: is_hex_def is_alnum_def is_alpha_def char_in_def less_eq_char_def)

lemma ValidTraceID_key: "ValidTraceID s \<Longrightarrow> ValidTraceIDKey s"
  by (cases s)
    (auto simp: ValidTraceID_def ValidTraceIDKey_def name_re_def is_name_char_def is_hex_alnum
      elim!: list.pred_mono_strong)

end
