(* ===== verification/Session_Store.thy ===== *)
theory Session_Store
  imports Domain
begin

text \<open>
  The pod-local session store, \<^verbatim>\<open>src/internal/service/session.go\<close>: the leases of the
  client certificates, keyed by certificate fingerprint. Each method runs under the store's
  mutex, so a method is one step; a reading of the clock (\<^verbatim>\<open>time.Now\<close>) is the argument
  \<open>now\<close>. \<open>store_op\<close> collects the methods that change the store, and \<open>store_inv\<close> is what
  every sequence of them keeps.
\<close>

record Store =
  leases :: "(string, Lease) gomap"
  ttl :: duration

definition NewStore :: "duration \<Rightarrow> Store" where
  "NewStore d = \<lparr>leases = [], ttl = d\<rparr>"

section \<open>Operations\<close>

definition ApplySessionRegistered :: "Lease \<Rightarrow> Store \<Rightarrow> Store" where
  "ApplySessionRegistered l s = s\<lparr>leases := gm_put (lCertFP l) l (leases s)\<rparr>"

definition ApplySessionTouched :: "string \<Rightarrow> gotime \<Rightarrow> Store \<Rightarrow> Store" where
  "ApplySessionTouched fp at' s = (case gm_get (leases s) fp of
     None \<Rightarrow> s
   | Some l \<Rightarrow> s\<lparr>leases := gm_put fp (l\<lparr>lLastActivity := at'\<rparr>) (leases s)\<rparr>)"

definition Register ::
    "gotime \<Rightarrow> string \<Rightarrow> string \<Rightarrow> string \<Rightarrow> string \<Rightarrow> string \<Rightarrow> string \<Rightarrow> Store \<Rightarrow> Lease \<times> Store" where
  "Register now certFP version replicaPod instanceID traceID userID s =
     (let l = \<lparr>lCertFP = certFP, lVersion = version, lReplicaPod = replicaPod,
               lInstanceID = instanceID, lLastActivity = now, lInFlight = 0,
               lTraceID = traceID, lUserID = userID, lGroupID = []\<rparr>
      in (l, s\<lparr>leases := gm_put certFP l (leases s)\<rparr>))"

definition lease :: "string \<Rightarrow> Store \<Rightarrow> (error, Lease) result" where
  "lease fp s = (case gm_get (leases s) fp of
     None \<Rightarrow> Inl (ErrOther ''lease not found'') | Some l \<Rightarrow> Inr l)"

definition expired :: "gotime \<Rightarrow> Store \<Rightarrow> Lease \<Rightarrow> bool" where
  "expired now s l \<longleftrightarrow> time_sub now (lLastActivity l) > ttl s"

definition Get :: "gotime \<Rightarrow> string \<Rightarrow> Store \<Rightarrow> (error, Lease) result" where
  "Get now fp s = (case lease fp s of
     Inl e \<Rightarrow> Inl e
   | Inr l \<Rightarrow> if expired now s l then Inl (ErrOther ''lease expired'') else Inr l)"

definition Touch :: "gotime \<Rightarrow> string \<Rightarrow> Store \<Rightarrow> error option \<times> Store" where
  "Touch now fp s = (case lease fp s of
     Inl e \<Rightarrow> (Some e, s)
   | Inr l \<Rightarrow> (None, s\<lparr>leases := gm_put fp (l\<lparr>lLastActivity := now\<rparr>) (leases s)\<rparr>))"

definition IncInFlight :: "string \<Rightarrow> Store \<Rightarrow> error option \<times> Store" where
  "IncInFlight fp s = (case lease fp s of
     Inl e \<Rightarrow> (Some e, s)
   | Inr l \<Rightarrow> (None, s\<lparr>leases := gm_put fp (l\<lparr>lInFlight := lInFlight l + 1\<rparr>) (leases s)\<rparr>))"

definition DecInFlightAndGet :: "string \<Rightarrow> Store \<Rightarrow> (error, int) result \<times> Store" where
  "DecInFlightAndGet fp s = (case lease fp s of
     Inl e \<Rightarrow> (Inl e, s)
   | Inr l \<Rightarrow>
       let l' = (if lInFlight l > 0 then l\<lparr>lInFlight := lInFlight l - 1\<rparr> else l)
       in (Inr (lInFlight l'), s\<lparr>leases := gm_put fp l' (leases s)\<rparr>))"

definition DecInFlight :: "string \<Rightarrow> Store \<Rightarrow> error option \<times> Store" where
  "DecInFlight fp s = (case DecInFlightAndGet fp s of
     (Inl e, s') \<Rightarrow> (Some e, s') | (Inr _, s') \<Rightarrow> (None, s'))"

definition Remove :: "string \<Rightarrow> Store \<Rightarrow> Store" where
  "Remove fp s = s\<lparr>leases := gm_del fp (leases s)\<rparr>"

definition PinnedSessionsOnReplica :: "string \<Rightarrow> Store \<Rightarrow> nat" where
  "PinnedSessionsOnReplica pod s =
     length (filter (\<lambda>l. lReplicaPod l = pod) (map snd (leases s)))"

definition CountByUser :: "string \<Rightarrow> Store \<Rightarrow> nat" where
  "CountByUser uid s = length (filter (\<lambda>l. lUserID l = uid) (map snd (leases s)))"

definition SetGroupID :: "string \<Rightarrow> string \<Rightarrow> Store \<Rightarrow> Store" where
  "SetGroupID fp gid s = (case gm_get (leases s) fp of
     None \<Rightarrow> s
   | Some l \<Rightarrow> s\<lparr>leases := gm_put fp (l\<lparr>lGroupID := gid\<rparr>) (leases s)\<rparr>)"

definition ReapOrphans :: "gotime \<Rightarrow> Store \<Rightarrow> string list \<times> Store" where
  "ReapOrphans now s =
     (map fst (filter (\<lambda>(fp, l). expired now s l) (leases s)),
      s\<lparr>leases := gm_reject (expired now s) (leases s)\<rparr>)"

definition ListLeases :: "Store \<Rightarrow> Lease list" where
  "ListLeases s = map snd (leases s)"

lemmas store_defs = ApplySessionRegistered_def ApplySessionTouched_def Register_def lease_def
  Touch_def IncInFlight_def DecInFlightAndGet_def DecInFlight_def Remove_def SetGroupID_def
  ReapOrphans_def Let_def

section \<open>Invariant\<close>

datatype store_op =
    OpApplyRegistered Lease
  | OpApplyTouched string gotime
  | OpRegister gotime string string string string string string
  | OpTouch gotime string
  | OpInc string
  | OpDec string
  | OpRemove string
  | OpSetGroup string string
  | OpReap gotime

fun store_step :: "store_op \<Rightarrow> Store \<Rightarrow> Store" where
  "store_step (OpApplyRegistered l) s = ApplySessionRegistered l s"
| "store_step (OpApplyTouched fp t) s = ApplySessionTouched fp t s"
| "store_step (OpRegister now fp v pod inst tr uid) s = snd (Register now fp v pod inst tr uid s)"
| "store_step (OpTouch now fp) s = snd (Touch now fp s)"
| "store_step (OpInc fp) s = snd (IncInFlight fp s)"
| "store_step (OpDec fp) s = snd (DecInFlightAndGet fp s)"
| "store_step (OpRemove fp) s = Remove fp s"
| "store_step (OpSetGroup fp gid) s = SetGroupID fp gid s"
| "store_step (OpReap now) s = snd (ReapOrphans now s)"

text \<open>A replicated lease arrives with the in-flight count its sender wrote; it is not negative.\<close>

fun op_ok :: "store_op \<Rightarrow> bool" where
  "op_ok (OpApplyRegistered l) \<longleftrightarrow> 0 \<le> lInFlight l"
| "op_ok _ \<longleftrightarrow> True"

definition lease_ok :: "string \<Rightarrow> Lease \<Rightarrow> bool" where
  "lease_ok fp l \<longleftrightarrow> lCertFP l = fp \<and> 0 \<le> lInFlight l"

definition store_inv :: "Store \<Rightarrow> bool" where
  "store_inv s \<longleftrightarrow> gm_ok (leases s) \<and> (\<forall>fp l. gm_get (leases s) fp = Some l \<longrightarrow> lease_ok fp l)"

lemma store_inv_ok [simp]: "store_inv s \<Longrightarrow> gm_ok (leases s)"
  by (simp add: store_inv_def)

lemma store_invD: "store_inv s \<Longrightarrow> gm_get (leases s) fp = Some l \<Longrightarrow> lease_ok fp l"
  by (auto simp: store_inv_def)

lemma store_inv_new [simp]: "store_inv (NewStore d)"
  by (simp add: store_inv_def NewStore_def)

lemma store_inv_put:
  "store_inv s \<Longrightarrow> lease_ok fp l \<Longrightarrow> store_inv (s\<lparr>leases := gm_put fp l (leases s)\<rparr>)"
  by (auto simp: store_inv_def split: if_splits)

lemma store_inv_del: "store_inv s \<Longrightarrow> store_inv (s\<lparr>leases := gm_del fp (leases s)\<rparr>)"
  by (auto simp: store_inv_def split: if_splits)

lemma store_inv_reject: "store_inv s \<Longrightarrow> store_inv (s\<lparr>leases := gm_reject P (leases s)\<rparr>)"
  by (auto simp: store_inv_def gm_get_reject split: option.splits if_splits)

lemma store_step_inv:
  assumes "store_inv s" and "op_ok op"
  shows "store_inv (store_step op s)"
proof (cases op)
  case (OpApplyRegistered l)
  with assms show ?thesis
    by (auto simp: ApplySessionRegistered_def lease_ok_def intro: store_inv_put)
next
  case (OpRegister now fp v pod inst tr uid)
  with assms show ?thesis
    by (auto simp: Register_def Let_def lease_ok_def intro: store_inv_put)
next
  case (OpReap now)
  with assms show ?thesis by (simp add: ReapOrphans_def store_inv_reject)
next
  case (OpRemove fp)
  with assms show ?thesis by (simp add: Remove_def store_inv_del)
qed (use assms in \<open>auto simp: store_defs lease_ok_def split: option.splits
       dest: store_invD intro!: store_inv_put\<close>)

definition store_run :: "store_op list \<Rightarrow> Store \<Rightarrow> Store" where
  "store_run ops s = fold store_step ops s"

lemma store_run_simps [simp]:
  "store_run [] s = s" "store_run (op # ops) s = store_run ops (store_step op s)"
  by (simp_all add: store_run_def)

lemma store_run_inv: "store_inv s \<Longrightarrow> list_all op_ok ops \<Longrightarrow> store_inv (store_run ops s)"
  by (induction ops arbitrary: s) (auto simp: store_step_inv)

section \<open>Expiry\<close>

lemma lease_Inr: "lease fp s = Inr l \<longleftrightarrow> gm_get (leases s) fp = Some l"
  by (simp add: lease_def split: option.splits)

lemma Get_Inr: "Get now fp s = Inr l \<longleftrightarrow> gm_get (leases s) fp = Some l \<and> \<not> expired now s l"
  by (auto simp: Get_def lease_def split: option.splits)

lemma ReapOrphans_get:
  "store_inv s \<Longrightarrow> gm_get (leases (snd (ReapOrphans now s))) fp = Some l
     \<longleftrightarrow> gm_get (leases s) fp = Some l \<and> \<not> expired now s l"
  by (auto simp: ReapOrphans_def gm_get_reject split: option.splits if_splits)

lemma ReapOrphans_expired:
  "store_inv s \<Longrightarrow> fp \<in> set (fst (ReapOrphans now s))
     \<longleftrightarrow> (\<exists>l. gm_get (leases s) fp = Some l \<and> expired now s l)"
  by (force simp: ReapOrphans_def gm_get_in)

section \<open>In-flight tunnels\<close>

text \<open>The in-flight count of a lease, 0 when the lease is gone.\<close>

definition inflight :: "string \<Rightarrow> Store \<Rightarrow> int" where
  "inflight fp s = (case gm_get (leases s) fp of None \<Rightarrow> 0 | Some l \<Rightarrow> lInFlight l)"

lemma inflight_inc:
  "gm_get (leases s) fp = Some l \<Longrightarrow>
     inflight fq (snd (IncInFlight fp s)) = inflight fq s + (if fq = fp then 1 else 0)"
  by (auto simp: inflight_def IncInFlight_def lease_def)

lemma inflight_dec:
  "store_inv s \<Longrightarrow> gm_get (leases s) fp = Some l \<Longrightarrow>
     inflight fq (snd (DecInFlightAndGet fp s)) =
       (if fq = fp then max 0 (inflight fq s - 1) else inflight fq s)"
  by (auto simp: inflight_def DecInFlightAndGet_def lease_def Let_def lease_ok_def dest: store_invD)

section \<open>The view of the store its clients use\<close>

text \<open>
  The fleet manager and the quota service read the store through three methods; what they rely
  on is that the two counters count the listed leases.
\<close>

locale session_view =
  fixes view_list :: "'s \<Rightarrow> Lease list"
    and view_pinned :: "string \<Rightarrow> 's \<Rightarrow> nat"
    and view_count :: "string \<Rightarrow> 's \<Rightarrow> nat"
  assumes pinned_counts: "view_pinned pod s = length (filter (\<lambda>l. lReplicaPod l = pod) (view_list s))"
    and count_counts: "view_count uid s = length (filter (\<lambda>l. lUserID l = uid) (view_list s))"
begin

lemma pinned_pos: "view_pinned pod s > 0 \<longleftrightarrow> (\<exists>l \<in> set (view_list s). lReplicaPod l = pod)"
  by (auto simp: pinned_counts filter_empty_conv)

lemma count_pos: "view_count uid s > 0 \<longleftrightarrow> (\<exists>l \<in> set (view_list s). lUserID l = uid)"
  by (auto simp: count_counts filter_empty_conv)

lemma pinned_le: "view_pinned pod s \<le> length (view_list s)"
  by (simp add: pinned_counts)

end

interpretation store: session_view ListLeases PinnedSessionsOnReplica CountByUser
  by unfold_locales (simp_all add: ListLeases_def PinnedSessionsOnReplica_def CountByUser_def)

end
