(* ===== verification/Index.thy ===== *)
theory Index
  imports Prelude
begin

text \<open>
  Tables with unique secondary indices, and adjacency maps: the two shapes of the replicated
  state. A table maps an id to a row that carries its id (\<open>tbl_ok\<close>); an index maps a key to the
  id of the one row with that key (\<open>idx_ok\<close>, where a row may have no key). An adjacency map
  holds one direction of a many-to-many relation and never an empty set (\<open>adj_ok\<close>). The
  lemmas say which index update goes with which table update.
\<close>

section \<open>Tables and unique indices\<close>

definition tbl_ok :: "('r \<Rightarrow> string) \<Rightarrow> (string, 'r) gomap \<Rightarrow> bool" where
  "tbl_ok rid tbl \<longleftrightarrow> gm_ok tbl \<and> (\<forall>i r. gm_get tbl i = Some r \<longrightarrow> rid r = i)"

definition idx_ok ::
    "('r \<Rightarrow> string option) \<Rightarrow> (string, 'r) gomap \<Rightarrow> (string, string) gomap \<Rightarrow> bool" where
  "idx_ok key tbl idx \<longleftrightarrow> gm_ok idx \<and>
     (\<forall>k i. gm_get idx k = Some i \<longleftrightarrow> (\<exists>r. gm_get tbl i = Some r \<and> key r = Some k))"

definition idx_rm :: "string option \<Rightarrow> (string, string) gomap \<Rightarrow> (string, string) gomap" where
  "idx_rm k idx = (case k of None \<Rightarrow> idx | Some k \<Rightarrow> gm_del k idx)"

definition idx_add :: "'k option \<Rightarrow> 'v \<Rightarrow> ('k, 'v) gomap \<Rightarrow> ('k, 'v) gomap" where
  "idx_add k i idx = (case k of None \<Rightarrow> idx | Some k \<Rightarrow> gm_put k i idx)"

lemma idx_add_simps [simp]: "idx_add None i idx = idx" "idx_add (Some k) i idx = gm_put k i idx"
  by (simp_all add: idx_add_def)

lemma idx_add_Some: "idx_add (Some k) i = gm_put k i"
  by (rule ext) simp

lemma idx_rm_simps [simp]: "idx_rm None idx = idx" "idx_rm (Some k) idx = gm_del k idx"
  by (simp_all add: idx_rm_def)

lemma tbl_ok_Nil [simp]: "tbl_ok rid []"
  by (simp add: tbl_ok_def)

lemma tbl_ok_gm [dest]: "tbl_ok rid tbl \<Longrightarrow> gm_ok tbl"
  by (simp add: tbl_ok_def)

lemma tbl_okD: "tbl_ok rid tbl \<Longrightarrow> gm_get tbl i = Some r \<Longrightarrow> rid r = i"
  by (simp add: tbl_ok_def)

lemma tbl_ok_put: "tbl_ok rid tbl \<Longrightarrow> rid r = i \<Longrightarrow> tbl_ok rid (gm_put i r tbl)"
  by (auto simp: tbl_ok_def split: if_splits)

lemma tbl_ok_del: "tbl_ok rid tbl \<Longrightarrow> tbl_ok rid (gm_del i tbl)"
  by (auto simp: tbl_ok_def split: if_splits)

lemma tbl_ok_map: "tbl_ok rid tbl \<Longrightarrow> (\<And>r. rid (f r) = rid r) \<Longrightarrow> tbl_ok rid (gm_map f tbl)"
  by (auto simp: tbl_ok_def)

lemma idx_ok_Nil [simp]: "idx_ok key [] []"
  by (simp add: idx_ok_def)

lemma idx_ok_gm: "idx_ok key tbl idx \<Longrightarrow> gm_ok idx"
  by (simp add: idx_ok_def)

lemma idx_okD:
  "idx_ok key tbl idx \<Longrightarrow> gm_get idx k = Some i \<Longrightarrow> \<exists>r. gm_get tbl i = Some r \<and> key r = Some k"
  by (simp add: idx_ok_def)

lemma idx_okI_get:
  "idx_ok key tbl idx \<Longrightarrow> gm_get tbl i = Some r \<Longrightarrow> key r = Some k \<Longrightarrow> gm_get idx k = Some i"
  by (auto simp: idx_ok_def)

lemma idx_ok_cong:
  "gm_eq tbl tbl' \<Longrightarrow> gm_eq idx idx' \<Longrightarrow> gm_ok idx' \<Longrightarrow> idx_ok key tbl idx \<Longrightarrow> idx_ok key tbl' idx'"
  by (simp add: idx_ok_def gm_eq_def)

text \<open>Two rows with the same key are the same row.\<close>

lemma idx_ok_unique:
  assumes "idx_ok key tbl idx" and "gm_get tbl i = Some r" and "gm_get tbl j = Some q"
    and "key r = Some k" and "key q = Some k"
  shows "i = j"
  using idx_okI_get [OF assms(1,2,4)] idx_okI_get [OF assms(1,3,5)] by simp

lemma idx_okI:
  assumes "gm_ok idx"
    and "\<And>k i. gm_get idx k = Some i \<Longrightarrow> \<exists>r. gm_get tbl i = Some r \<and> key r = Some k"
    and "\<And>k i r. gm_get tbl i = Some r \<Longrightarrow> key r = Some k \<Longrightarrow> gm_get idx k = Some i"
  shows "idx_ok key tbl idx"
  using assms unfolding idx_ok_def by blast

lemma idx_ok_insert:
  assumes ok: "idx_ok key tbl idx" and new: "gm_get tbl i = None"
    and free: "\<And>k. key r = Some k \<Longrightarrow> gm_get idx k = None"
  shows "idx_ok key (gm_put i r tbl) (idx_add (key r) i idx)"
proof (rule idx_okI)
  show "gm_ok (idx_add (key r) i idx)"
    using idx_ok_gm [OF ok] by (cases "key r") simp_all
next
  fix k j
  assume get: "gm_get (idx_add (key r) i idx) k = Some j"
  show "\<exists>q. gm_get (gm_put i r tbl) j = Some q \<and> key q = Some k"
  proof (cases "key r = Some k")
    case True
    with get have "j = i" by simp
    with True show ?thesis by simp
  next
    case False
    with get have "gm_get idx k = Some j" by (cases "key r") (auto split: if_splits)
    then obtain q where "gm_get tbl j = Some q" "key q = Some k" using idx_okD [OF ok] by blast
    with new show ?thesis by auto
  qed
next
  fix k j q
  assume "gm_get (gm_put i r tbl) j = Some q" "key q = Some k"
  with idx_okI_get [OF ok] free show "gm_get (idx_add (key r) i idx) k = Some j"
    by (cases "key r") (auto split: if_splits)
qed

lemma idx_ok_delete:
  assumes ok: "idx_ok key tbl idx" and old: "gm_get tbl i = Some r"
  shows "idx_ok key (gm_del i tbl) (idx_rm (key r) idx)"
proof (rule idx_okI)
  show "gm_ok (idx_rm (key r) idx)"
    using idx_ok_gm [OF ok] by (cases "key r") simp_all
next
  fix k j
  assume get: "gm_get (idx_rm (key r) idx) k = Some j"
  then have "gm_get idx k = Some j" "key r \<noteq> Some k" by (cases "key r"; simp split: if_splits)+
  then obtain q where q: "gm_get tbl j = Some q" "key q = Some k" using idx_okD [OF ok] by blast
  with old \<open>key r \<noteq> Some k\<close> have "j \<noteq> i" by auto
  with q show "\<exists>q. gm_get (gm_del i tbl) j = Some q \<and> key q = Some k" by simp
next
  fix k j q
  assume "gm_get (gm_del i tbl) j = Some q" and k: "key q = Some k"
  then have q: "gm_get tbl j = Some q" "j \<noteq> i" by (simp_all split: if_splits)
  then have "key r \<noteq> Some k" using idx_ok_unique [OF ok q(1) old k] by blast
  then show "gm_get (idx_rm (key r) idx) k = Some j"
    using idx_okI_get [OF ok q(1) k] by (cases "key r") auto
qed

lemma idx_ok_put_del: "idx_ok key (gm_put i r (gm_del i tbl)) idx = idx_ok key (gm_put i r tbl) idx"
  by (simp add: idx_ok_def)

lemma idx_ok_replace:
  assumes "idx_ok key tbl idx" and "gm_get tbl i = Some old"
    and "\<And>k. key r = Some k \<Longrightarrow> gm_get idx k = None \<or> gm_get idx k = Some i"
  shows "idx_ok key (gm_put i r tbl) (idx_add (key r) i (idx_rm (key old) idx))"
proof -
  have "gm_get (idx_rm (key old) idx) k = None" if "key r = Some k" for k
  proof (cases "gm_get idx k")
    case None
    then show ?thesis by (cases "key old") simp_all
  next
    case (Some j)
    with assms(3) [OF that] have "gm_get idx k = Some i" by simp
    with assms(1,2) have "key old = Some k" by (auto dest: idx_okD)
    then show ?thesis by simp
  qed
  then show ?thesis
    using idx_ok_insert [OF idx_ok_delete [OF assms(1,2)], where i = i and r = r]
    by (simp add: idx_ok_put_del)
qed

lemma idx_ok_same:
  assumes "idx_ok key tbl idx" and "gm_get tbl i = Some old" and "key r = key old"
  shows "idx_ok key (gm_put i r tbl) idx"
proof (rule idx_okI)
  show "gm_ok idx" using assms(1) by (rule idx_ok_gm)
next
  fix k j
  assume "gm_get idx k = Some j"
  with assms show "\<exists>q. gm_get (gm_put i r tbl) j = Some q \<and> key q = Some k"
    by (auto dest: idx_okD)
next
  fix k j q
  assume "gm_get (gm_put i r tbl) j = Some q" and "key q = Some k"
  with assms idx_okI_get [OF assms(1)] show "gm_get idx k = Some j"
    by (cases "j = i") simp_all
qed

lemma idx_ok_map: "idx_ok key tbl idx \<Longrightarrow> (\<And>r. key (f r) = key r) \<Longrightarrow> idx_ok key (gm_map f tbl) idx"
  by (auto simp: idx_ok_def)

text \<open>A map is rebuilt from the rows that give its entries, whatever the order of the rows.\<close>

lemma rebuild_other:
  "(\<And>r. r \<in> set rs \<Longrightarrow> key r \<noteq> Some k) \<Longrightarrow>
     gm_get (fold (\<lambda>r. idx_add (key r) (val r)) rs m) k = gm_get m k"
proof (induction rs arbitrary: m)
  case (Cons r rs)
  then show ?case by (cases "key r") auto
qed simp

lemma rebuild_same:
  assumes "\<And>r. r \<in> set rs \<Longrightarrow> key r = Some k \<Longrightarrow> val r = v"
    and "gm_get m k = Some v \<or> (\<exists>r \<in> set rs. key r = Some k)"
  shows "gm_get (fold (\<lambda>r. idx_add (key r) (val r)) rs m) k = Some v"
  using assms
proof (induction rs arbitrary: m)
  case (Cons r rs)
  have "gm_get (idx_add (key r) (val r) m) k = Some v \<or> (\<exists>r \<in> set rs. key r = Some k)"
    using Cons.prems by (cases "key r") auto
  then show ?case using Cons by auto
qed simp

lemma rebuild:
  assumes "\<And>k v. gm_get m k = Some v \<longleftrightarrow> (\<exists>r \<in> set rs. key r = Some k \<and> val r = v)"
  shows "gm_eq (fold (\<lambda>r. idx_add (key r) (val r)) rs []) m"
  unfolding gm_eq_def
proof
  fix k
  show "gm_get (fold (\<lambda>r. idx_add (key r) (val r)) rs []) k = gm_get m k"
  proof (cases "gm_get m k")
    case None
    then have "key r \<noteq> Some k" if "r \<in> set rs" for r using that assms [of k "val r"] by auto
    with None show ?thesis by (subst rebuild_other) simp_all
  next
    case (Some v)
    then have "val r = v" if "r \<in> set rs" "key r = Some k" for r using that assms [of k "val r"] by auto
    moreover have "\<exists>r \<in> set rs. key r = Some k" using Some assms [of k v] by auto
    ultimately show ?thesis using Some by (simp add: rebuild_same)
  qed
qed

lemma tbl_ok_row: "tbl_ok rid tbl \<Longrightarrow> r \<in> set (map snd tbl) \<longleftrightarrow> gm_get tbl (rid r) = Some r"
  unfolding tbl_ok_def using gm_vals_iff [of tbl r] by metis

lemma rebuild_table:
  assumes "tbl_ok rid tbl"
  shows "gm_eq (fold (\<lambda>r. gm_put (rid r) r) (map snd tbl) []) tbl"
proof -
  have "gm_get tbl k = Some v \<longleftrightarrow> (\<exists>r \<in> set (map snd tbl). Some (rid r) = Some k \<and> r = v)" for k v
    unfolding tbl_ok_row [OF assms] Bex_def using tbl_okD [OF assms] by blast
  from rebuild [OF this] show ?thesis by (simp only: idx_add_Some)
qed

lemma rebuild_index:
  assumes "tbl_ok rid tbl" and "idx_ok key tbl idx"
  shows "gm_eq (fold (\<lambda>r. idx_add (key r) (rid r)) (map snd tbl) []) idx"
proof -
  have "gm_get idx k = Some v \<longleftrightarrow> (\<exists>r \<in> set (map snd tbl). key r = Some k \<and> rid r = v)" for k v
    unfolding tbl_ok_row [OF assms(1)] Bex_def
    using tbl_okD [OF assms(1)] idx_okD [OF assms(2)] idx_okI_get [OF assms(2)] by blast
  from rebuild [OF this] show ?thesis .
qed

section \<open>Adjacency maps\<close>

definition adj_ok :: "('a, 'b list) gomap \<Rightarrow> bool" where
  "adj_ok m \<longleftrightarrow> gm_ok m \<and> (\<forall>a bs. gm_get m a = Some bs \<longrightarrow> bs \<noteq> [] \<and> distinct bs)"

lemma adj_ok_Nil [simp]: "adj_ok []"
  by (simp add: adj_ok_def)

lemma adj_ok_gm: "adj_ok m \<Longrightarrow> gm_ok m"
  by (simp add: adj_ok_def)

lemma adj_okD: "adj_ok m \<Longrightarrow> gm_get m a = Some bs \<Longrightarrow> bs \<noteq> [] \<and> distinct bs"
  by (simp add: adj_ok_def)

lemma adj_ok_put: "adj_ok m \<Longrightarrow> bs \<noteq> [] \<Longrightarrow> distinct bs \<Longrightarrow> adj_ok (gm_put a bs m)"
  by (auto simp: adj_ok_def split: if_splits)

lemma adj_ok_del: "adj_ok m \<Longrightarrow> adj_ok (gm_del a m)"
  by (auto simp: adj_ok_def split: if_splits)

lemma fold_set_put_set: "set (fold set_put xs acc) = set acc \<union> set xs"
  by (induction xs arbitrary: acc) auto

lemma fold_set_put_distinct: "distinct acc \<Longrightarrow> distinct (fold set_put xs acc)"
  by (induction xs arbitrary: acc) auto

end
