(* ===== verification/FSM_State.thy ===== *)
theory FSM_State
  imports Session_Store Index
begin

text \<open>
  The replicated state machine, \<^verbatim>\<open>src/internal/repository/fsm.go\<close>: the commands of the
  Raft log, the state they act on, and \<open>applyCommand\<close>, which dispatches a command to the
  operation of its kind. Every operation runs under the state's write lock, so it is one step. A
  command's JSON payload is a value of \<open>payload\<close>; a payload that does not decode as the type its
  kind asks for is any other constructor, and gives the decode error.

  The maps are \<open>gomap\<close>s with the field names of \<^verbatim>\<open>fsmState\<close>; the sets of user and group
  ids in \<open>memberships\<close> and \<open>membershipsByUser\<close> are lists without repetitions.
\<close>

section \<open>Commands\<close>

type_synonym commandKind = nat

definition kindUpsertUser :: commandKind where "kindUpsertUser = 1"
definition kindDeleteUser :: commandKind where "kindDeleteUser = 2"
definition kindUpsertGroup :: commandKind where "kindUpsertGroup = 3"
definition kindDeleteGroup :: commandKind where "kindDeleteGroup = 4"
definition kindSetMembers :: commandKind where "kindSetMembers = 5"
definition kindUpsertProject :: commandKind where "kindUpsertProject = 6"
definition kindDeleteProject :: commandKind where "kindDeleteProject = 7"
definition kindUpsertToken :: commandKind where "kindUpsertToken = 8"
definition kindDeleteToken :: commandKind where "kindDeleteToken = 9"
definition kindTouchToken :: commandKind where "kindTouchToken = 10"
definition kindUpsertTraceProvision :: commandKind where "kindUpsertTraceProvision = 11"
definition kindUpsertTraceIngest :: commandKind where "kindUpsertTraceIngest = 12"
definition kindMarkTraceFailed :: commandKind where "kindMarkTraceFailed = 13"
definition kindSetMeta :: commandKind where "kindSetMeta = 14"
definition kindUpsertManifestRoute :: commandKind where "kindUpsertManifestRoute = 15"
definition kindDeleteManifestRoute :: commandKind where "kindDeleteManifestRoute = 16"
definition kindUpsertBlobRoute :: commandKind where "kindUpsertBlobRoute = 18"
definition kindRecordUpload :: commandKind where "kindRecordUpload = 19"
definition kindDeleteUpload :: commandKind where "kindDeleteUpload = 20"
definition kindReapUploads :: commandKind where "kindReapUploads = 21"
definition kindDeleteTrace :: commandKind where "kindDeleteTrace = 22"
definition kindUpsertSession :: commandKind where "kindUpsertSession = 23"
definition kindTouchSession :: commandKind where "kindTouchSession = 24"
definition kindTouchManifestRoute :: commandKind where "kindTouchManifestRoute = 25"

lemmas kind_defs = kindUpsertUser_def kindDeleteUser_def kindUpsertGroup_def kindDeleteGroup_def
  kindSetMembers_def kindUpsertProject_def kindDeleteProject_def kindUpsertToken_def
  kindDeleteToken_def kindTouchToken_def kindUpsertTraceProvision_def kindUpsertTraceIngest_def
  kindMarkTraceFailed_def kindSetMeta_def kindUpsertManifestRoute_def kindDeleteManifestRoute_def
  kindUpsertBlobRoute_def kindRecordUpload_def kindDeleteUpload_def kindReapUploads_def
  kindDeleteTrace_def kindUpsertSession_def kindTouchSession_def kindTouchManifestRoute_def

record cmdUser =
  cuID :: string
  cuUsername :: string
  cuRole :: role
  cuPasswordHash :: string
  cuOAuthProvider :: string
  cuOAuthID :: string
  cuOAuthTokenCiphertext :: string
  cuOAuthGroupIDs :: "string list"
  cuOAuthGroups :: "string list"
  cuOAuthAdmin :: bool
  cuDeactivatedAt :: "gotime option"
  cuTokenVersion :: i64
  cuCreatedAt :: gotime
  cuUpdatedAt :: gotime
  cuCreate :: bool

record cmdToken =
  ctID :: string
  ctUserID :: string
  ctTokenHash :: string
  ctTokenCiphertext :: string
  ctPrefix :: string
  ctCreatedAt :: gotime
  ctLastUsedAt :: "gotime option"

record cmdUpsertTraceProvision =
  cpTraceID :: string
  cpUserID :: string
  cpVersion :: string
  cpUpdatedAt :: gotime

record cmdMarkTraceFailed =
  cfTraceID :: string
  cfReason :: string
  cfUpdatedAt :: gotime

datatype payload =
    PUser cmdUser
  | PString string
  | PGroup Group bool
  | PProject Project bool
  | PToken cmdToken
  | PSetMembers string "string list"
  | PDeleteToken string
  | PTouchToken string gotime
  | PProvision cmdUpsertTraceProvision
  | PIngest TraceMeta
  | PMarkFailed cmdMarkTraceFailed
  | PSetMeta string string
  | PDeleteTrace string
  | PUpsertSession Lease gotime
  | PTouchSession string gotime
  | PRaw

record command =
  cKind :: commandKind
  cData :: payload

definition newCommand :: "commandKind \<Rightarrow> payload \<Rightarrow> command" where
  "newCommand k d = \<lparr>cKind = k, cData = d\<rparr>"

definition cmdUser_toDomain :: "cmdUser \<Rightarrow> User" where
  "cmdUser_toDomain c = \<lparr>uID = cuID c, uUsername = cuUsername c, uRole = cuRole c,
     uPasswordHash = cuPasswordHash c, uOAuthProvider = cuOAuthProvider c, uOAuthID = cuOAuthID c,
     uOAuthTokenCiphertext = cuOAuthTokenCiphertext c, uOAuthGroupIDs = cuOAuthGroupIDs c,
     uOAuthGroups = cuOAuthGroups c, uOAuthAdmin = cuOAuthAdmin c,
     uDeactivatedAt = cuDeactivatedAt c, uTokenVersion = cuTokenVersion c,
     uCreatedAt = cuCreatedAt c, uUpdatedAt = cuUpdatedAt c\<rparr>"

definition cmdUserFrom :: "User \<Rightarrow> cmdUser" where
  "cmdUserFrom u = \<lparr>cuID = uID u, cuUsername = uUsername u, cuRole = uRole u,
     cuPasswordHash = uPasswordHash u, cuOAuthProvider = uOAuthProvider u, cuOAuthID = uOAuthID u,
     cuOAuthTokenCiphertext = uOAuthTokenCiphertext u, cuOAuthGroupIDs = uOAuthGroupIDs u,
     cuOAuthGroups = uOAuthGroups u, cuOAuthAdmin = uOAuthAdmin u,
     cuDeactivatedAt = uDeactivatedAt u, cuTokenVersion = uTokenVersion u,
     cuCreatedAt = uCreatedAt u, cuUpdatedAt = uUpdatedAt u, cuCreate = False\<rparr>"

definition cmdToken_toDomain :: "cmdToken \<Rightarrow> APIToken" where
  "cmdToken_toDomain c = \<lparr>tkID = ctID c, tkUserID = ctUserID c, tkTokenHash = ctTokenHash c,
     tkTokenCiphertext = ctTokenCiphertext c, tkPrefix = ctPrefix c, tkCreatedAt = ctCreatedAt c,
     tkLastUsedAt = ctLastUsedAt c\<rparr>"

definition cmdTokenFrom :: "APIToken \<Rightarrow> cmdToken" where
  "cmdTokenFrom t = \<lparr>ctID = tkID t, ctUserID = tkUserID t, ctTokenHash = tkTokenHash t,
     ctTokenCiphertext = tkTokenCiphertext t, ctPrefix = tkPrefix t, ctCreatedAt = tkCreatedAt t,
     ctLastUsedAt = tkLastUsedAt t\<rparr>"

lemma cmdUser_round [simp]: "cmdUser_toDomain (cmdUserFrom u) = u"
  by (simp add: cmdUser_toDomain_def cmdUserFrom_def)

lemma cmdUser_toDomain_name [simp]: "uUsername (cmdUser_toDomain c) = cuUsername c"
  by (simp add: cmdUser_toDomain_def)

lemma cmdToken_round [simp]: "cmdToken_toDomain (cmdTokenFrom t) = t"
  by (simp add: cmdToken_toDomain_def cmdTokenFrom_def)

section \<open>State\<close>

record fsmState =
  users :: "(string, User) gomap"
  usersByName :: "(string, string) gomap"
  usersByOAuth :: "(string, string) gomap"
  groups :: "(string, Group) gomap"
  groupsByName :: "(string, string) gomap"
  memberships :: "(string, string list) gomap"
  membershipsByUser :: "(string, string list) gomap"
  tokens :: "(string, APIToken) gomap"
  tokensByHash :: "(string, string) gomap"
  tokensByUser :: "(string, string) gomap"
  projects :: "(string, Project) gomap"
  projectsByName :: "(string, string) gomap"
  traces :: "(string, TraceMeta) gomap"
  meta :: "(string, string) gomap"
  sessionSink :: "Store option"

definition newState :: fsmState where
  "newState = \<lparr>users = [], usersByName = [], usersByOAuth = [], groups = [], groupsByName = [],
     memberships = [], membershipsByUser = [], tokens = [], tokensByHash = [], tokensByUser = [],
     projects = [], projectsByName = [], traces = [], meta = [], sessionSink = None\<rparr>"

definition oauthKey :: "string \<Rightarrow> string \<Rightarrow> string" where
  "oauthKey provider oauthID = provider @ CHR 0x00 # oauthID"

text \<open>\<^verbatim>\<open>other, ok := idx[k]; ok && other != id\<close>: the key belongs to another entity.\<close>

definition taken_by_other :: "(string, string) gomap \<Rightarrow> string \<Rightarrow> string \<Rightarrow> bool" where
  "taken_by_other idx k i = (case gm_get idx k of None \<Rightarrow> False | Some j \<Rightarrow> j \<noteq> i)"

section \<open>Users\<close>

definition storeUser :: "User \<Rightarrow> fsmState \<Rightarrow> fsmState" where
  "storeUser u s =
     (let s = s\<lparr>users := gm_put (uID u) u (users s),
                usersByName := gm_put (to_lower (uUsername u)) (uID u) (usersByName s)\<rparr>
      in if uOAuthID u \<noteq> []
         then s\<lparr>usersByOAuth := gm_put (oauthKey (uOAuthProvider u) (uOAuthID u)) (uID u) (usersByOAuth s)\<rparr>
         else s)"

definition upsertUser :: "User \<Rightarrow> bool \<Rightarrow> fsmState \<Rightarrow> error option \<times> fsmState" where
  "upsertUser u create s =
     (let lower = to_lower (uUsername u); okey = oauthKey (uOAuthProvider u) (uOAuthID u) in
      case gm_get (users s) (uID u) of
        Some existing \<Rightarrow>
          if create then (Some ErrConflict, s)
          else if taken_by_other (usersByName s) lower (uID u) then (Some ErrConflict, s)
          else if uOAuthID u \<noteq> [] \<and> taken_by_other (usersByOAuth s) okey (uID u)
          then (Some ErrConflict, s)
          else
            let u = u\<lparr>uCreatedAt := uCreatedAt existing\<rparr>;
                u = (if is_zero (uUpdatedAt u) then u\<lparr>uUpdatedAt := uUpdatedAt existing\<rparr> else u);
                s = (if uUsername existing \<noteq> []
                     then s\<lparr>usersByName := gm_del (to_lower (uUsername existing)) (usersByName s)\<rparr>
                     else s);
                s = (if uOAuthID existing \<noteq> []
                     then s\<lparr>usersByOAuth := gm_del (oauthKey (uOAuthProvider existing) (uOAuthID existing)) (usersByOAuth s)\<rparr>
                     else s)
            in (None, storeUser u s)
      | None \<Rightarrow>
          if \<not> create then (Some ErrNotFound, s)
          else if gm_get (usersByName s) lower \<noteq> None then (Some ErrConflict, s)
          else if uOAuthID u \<noteq> [] \<and> gm_get (usersByOAuth s) okey \<noteq> None then (Some ErrConflict, s)
          else
            let u = (if is_zero (uUpdatedAt u) then u\<lparr>uUpdatedAt := uCreatedAt u\<rparr> else u)
            in (None, storeUser u s))"

section \<open>Tokens\<close>

definition storeToken :: "APIToken \<Rightarrow> fsmState \<Rightarrow> fsmState" where
  "storeToken t s = s\<lparr>tokens := gm_put (tkID t) t (tokens s),
     tokensByHash := gm_put (tkTokenHash t) (tkID t) (tokensByHash s),
     tokensByUser := gm_put (tkUserID t) (tkID t) (tokensByUser s)\<rparr>"

definition removeToken :: "string \<Rightarrow> fsmState \<Rightarrow> fsmState" where
  "removeToken i s = (case gm_get (tokens s) i of
     None \<Rightarrow> s
   | Some t \<Rightarrow> s\<lparr>tokens := gm_del i (tokens s),
       tokensByHash := gm_del (tkTokenHash t) (tokensByHash s),
       tokensByUser := gm_del (tkUserID t) (tokensByUser s)\<rparr>)"

definition upsertToken :: "APIToken \<Rightarrow> fsmState \<Rightarrow> error option \<times> fsmState" where
  "upsertToken t s = (case gm_get (tokensByUser s) (tkUserID t) of
     Some existingID \<Rightarrow> (case gm_get (tokens s) existingID of
         None \<Rightarrow> (Some Panic, s)
       | Some old \<Rightarrow>
           if tkTokenHash t \<noteq> tkTokenHash old \<and> taken_by_other (tokensByHash s) (tkTokenHash t) existingID
           then (Some ErrConflict, s)
           else (None, storeToken t (removeToken existingID s)))
   | None \<Rightarrow>
       if gm_get (tokensByHash s) (tkTokenHash t) \<noteq> None then (Some ErrConflict, s)
       else (None, storeToken t s))"

definition deleteToken :: "string \<Rightarrow> fsmState \<Rightarrow> fsmState" where
  "deleteToken uid s = (case gm_get (tokensByUser s) uid of
     None \<Rightarrow> s | Some i \<Rightarrow> removeToken i s)"

definition touchToken :: "string \<Rightarrow> gotime \<Rightarrow> fsmState \<Rightarrow> fsmState" where
  "touchToken i at' s = (case gm_get (tokens s) i of
     None \<Rightarrow> s
   | Some t \<Rightarrow> s\<lparr>tokens := gm_put i (t\<lparr>tkLastUsedAt := Some at'\<rparr>) (tokens s)\<rparr>)"

section \<open>Memberships\<close>

text \<open>
  One direction of the membership relation is a map from an id to a set of ids. \<open>unlink a b\<close> is
  \<^verbatim>\<open>delete(m[a], b); if len(m[a]) == 0 { delete(m, a) }\<close> (both deletes are no-ops when
  \<open>a\<close> is absent), the statement pair that \<^verbatim>\<open>deleteUser\<close>, \<^verbatim>\<open>deleteGroup\<close> and
  \<^verbatim>\<open>setMembers\<close> share; \<open>link a b\<close> is the insertion of \<^verbatim>\<open>addMembership\<close>.
\<close>

definition edges :: "(string, string list) gomap \<Rightarrow> string \<Rightarrow> string list" where
  "edges m a = (case gm_get m a of None \<Rightarrow> [] | Some bs \<Rightarrow> bs)"

definition unlink :: "string \<Rightarrow> string \<Rightarrow> (string, string list) gomap \<Rightarrow> (string, string list) gomap" where
  "unlink a b m = (case gm_get m a of
     None \<Rightarrow> m
   | Some bs \<Rightarrow> let bs' = set_del b bs in if bs' = [] then gm_del a m else gm_put a bs' m)"

definition link :: "string \<Rightarrow> string \<Rightarrow> (string, string list) gomap \<Rightarrow> (string, string list) gomap" where
  "link a b m = gm_put a (set_put b (edges m a)) m"

definition addMembership :: "string \<Rightarrow> string \<Rightarrow> fsmState \<Rightarrow> fsmState" where
  "addMembership gid uid s = s\<lparr>memberships := link gid uid (memberships s),
     membershipsByUser := link uid gid (membershipsByUser s)\<rparr>"

definition setMembers :: "string \<Rightarrow> string list \<Rightarrow> fsmState \<Rightarrow> error option \<times> fsmState" where
  "setMembers gid uids s =
     (if gm_get (groups s) gid = None then (Some ErrNotFound, s)
      else if \<not> list_all (\<lambda>uid. gm_get (users s) uid \<noteq> None) uids then (Some ErrNotFound, s)
      else
        let s = s\<lparr>membershipsByUser :=
                    fold (\<lambda>uid. unlink uid gid) (edges (memberships s) gid) (membershipsByUser s)\<rparr>;
            set' = fold set_put uids []
        in if set' = [] then (None, s\<lparr>memberships := gm_del gid (memberships s)\<rparr>)
           else (None, fold (addMembership gid) set' (s\<lparr>memberships := gm_put gid set' (memberships s)\<rparr>)))"

definition deleteUser :: "string \<Rightarrow> fsmState \<Rightarrow> error option \<times> fsmState" where
  "deleteUser i s = (case gm_get (users s) i of
     None \<Rightarrow> (Some ErrNotFound, s)
   | Some u \<Rightarrow>
       let s = deleteToken i s;
           s = s\<lparr>memberships :=
                   fold (\<lambda>gid. unlink gid i) (edges (membershipsByUser s) i) (memberships s)\<rparr>;
           s = s\<lparr>membershipsByUser := gm_del i (membershipsByUser s)\<rparr>;
           s = s\<lparr>traces := gm_map (\<lambda>m. if tmUserID m = i then m\<lparr>tmUserID := []\<rparr> else m) (traces s)\<rparr>;
           s = s\<lparr>users := gm_del i (users s),
                 usersByName := gm_del (to_lower (uUsername u)) (usersByName s)\<rparr>;
           s = (if uOAuthID u \<noteq> []
                then s\<lparr>usersByOAuth := gm_del (oauthKey (uOAuthProvider u) (uOAuthID u)) (usersByOAuth s)\<rparr>
                else s)
       in (None, s))"

section \<open>Groups and projects\<close>

definition storeGroup :: "Group \<Rightarrow> fsmState \<Rightarrow> fsmState" where
  "storeGroup g s = s\<lparr>groups := gm_put (gID g) g (groups s),
     groupsByName := gm_put (to_lower (gName g)) (gID g) (groupsByName s)\<rparr>"

definition upsertGroup :: "Group \<Rightarrow> bool \<Rightarrow> fsmState \<Rightarrow> error option \<times> fsmState" where
  "upsertGroup g create s =
     (let lower = to_lower (gName g) in
      case gm_get (groups s) (gID g) of
        Some existing \<Rightarrow>
          if create then (Some ErrConflict, s)
          else if taken_by_other (groupsByName s) lower (gID g) then (Some ErrConflict, s)
          else
            let g = g\<lparr>gCreatedAt := gCreatedAt existing\<rparr>;
                g = (if is_zero (gUpdatedAt g) then g\<lparr>gUpdatedAt := gUpdatedAt existing\<rparr> else g);
                s = s\<lparr>groupsByName := gm_del (to_lower (gName existing)) (groupsByName s)\<rparr>
            in (None, storeGroup g s)
      | None \<Rightarrow>
          if \<not> create then (Some ErrNotFound, s)
          else if gm_get (groupsByName s) lower \<noteq> None then (Some ErrConflict, s)
          else
            let g = (if is_zero (gUpdatedAt g) then g\<lparr>gUpdatedAt := gCreatedAt g\<rparr> else g)
            in (None, storeGroup g s))"

definition deleteGroup :: "string \<Rightarrow> fsmState \<Rightarrow> error option \<times> fsmState" where
  "deleteGroup i s = (case gm_get (groups s) i of
     None \<Rightarrow> (Some ErrNotFound, s)
   | Some g \<Rightarrow>
       let s = s\<lparr>membershipsByUser :=
                   fold (\<lambda>uid. unlink uid i) (edges (memberships s) i) (membershipsByUser s)\<rparr>;
           s = s\<lparr>memberships := gm_del i (memberships s)\<rparr>;
           s = s\<lparr>projects := gm_map (\<lambda>p. if pGroupID p = i then p\<lparr>pGroupID := []\<rparr> else p) (projects s)\<rparr>;
           s = s\<lparr>traces := gm_map (\<lambda>m. if tmGroupID m = i then m\<lparr>tmGroupID := []\<rparr> else m) (traces s)\<rparr>;
           s = s\<lparr>groups := gm_del i (groups s),
                 groupsByName := gm_del (to_lower (gName g)) (groupsByName s)\<rparr>
       in (None, s))"

definition storeProject :: "Project \<Rightarrow> fsmState \<Rightarrow> fsmState" where
  "storeProject p s = s\<lparr>projects := gm_put (pID p) p (projects s),
     projectsByName := gm_put (to_lower (pName p)) (pID p) (projectsByName s)\<rparr>"

definition upsertProject :: "Project \<Rightarrow> bool \<Rightarrow> fsmState \<Rightarrow> error option \<times> fsmState" where
  "upsertProject p create s =
     (let lower = to_lower (pName p) in
      case gm_get (projects s) (pID p) of
        None \<Rightarrow>
          if \<not> create then (Some ErrNotFound, s)
          else if gm_get (projectsByName s) lower \<noteq> None then (Some ErrConflict, s)
          else
            let p = (if is_zero (pUpdatedAt p) then p\<lparr>pUpdatedAt := pCreatedAt p\<rparr> else p)
            in (None, storeProject p s)
      | Some existing \<Rightarrow>
          if create then (Some ErrConflict, s)
          else if taken_by_other (projectsByName s) lower (pID p) then (Some ErrConflict, s)
          else
            let p = p\<lparr>pCreatedAt := pCreatedAt existing\<rparr>;
                p = (if is_zero (pUpdatedAt p) then p\<lparr>pUpdatedAt := pUpdatedAt existing\<rparr> else p);
                s = s\<lparr>projectsByName := gm_del (to_lower (pName existing)) (projectsByName s)\<rparr>
            in (None, storeProject p s))"

definition deleteProject :: "string \<Rightarrow> fsmState \<Rightarrow> error option \<times> fsmState" where
  "deleteProject i s = (case gm_get (projects s) i of
     None \<Rightarrow> (Some ErrNotFound, s)
   | Some p \<Rightarrow> (None, s\<lparr>projects := gm_del i (projects s),
       projectsByName := gm_del (to_lower (pName p)) (projectsByName s)\<rparr>))"

section \<open>Trace metadata\<close>

definition upsertTraceProvision :: "cmdUpsertTraceProvision \<Rightarrow> fsmState \<Rightarrow> fsmState" where
  "upsertTraceProvision p s = (case gm_get (traces s) (cpTraceID p) of
     None \<Rightarrow> s\<lparr>traces := gm_put (cpTraceID p)
         \<lparr>tmTraceID = cpTraceID p, tmUserID = cpUserID p, tmGroupID = [], tmProjectName = [],
          tmStatus = [], tmFailureReason = [], tmVersion = cpVersion p, tmCIProvider = [],
          tmCIRepo = [], tmDurationMS = 0, tmStartedAt = zero_time, tmUpdatedAt = cpUpdatedAt p\<rparr>
         (traces s)\<rparr>
   | Some m \<Rightarrow>
       let m = (if tmUserID m = [] then m\<lparr>tmUserID := cpUserID p\<rparr> else m);
           m = (if cpVersion p \<noteq> [] then m\<lparr>tmVersion := cpVersion p\<rparr> else m);
           m = m\<lparr>tmUpdatedAt := cpUpdatedAt p\<rparr>
       in s\<lparr>traces := gm_put (cpTraceID p) m (traces s)\<rparr>)"

text \<open>The merge of an OTLP-derived row \<open>m\<close> into the row that is already stored.\<close>

definition mergeIngest :: "TraceMeta \<Rightarrow> TraceMeta \<Rightarrow> TraceMeta" where
  "mergeIngest m e =
     (let e = (if tmGroupID e = [] then e\<lparr>tmGroupID := tmGroupID m\<rparr> else e);
          e = (if tmProjectName m \<noteq> [] then e\<lparr>tmProjectName := tmProjectName m\<rparr> else e);
          e = (if tmStatus m = ''success'' \<or> tmStatus m = ''failed''
               then e\<lparr>tmStatus := tmStatus m, tmFailureReason := []\<rparr>
               else if tmStatus m \<noteq> [] \<and> tmStatus e \<noteq> ''success'' \<and> tmStatus e \<noteq> ''failed''
               then e\<lparr>tmStatus := tmStatus m\<rparr> else e);
          e = (if tmVersion m \<noteq> [] then e\<lparr>tmVersion := tmVersion m\<rparr> else e);
          e = (if tmCIProvider m \<noteq> [] then e\<lparr>tmCIProvider := tmCIProvider m\<rparr> else e);
          e = (if tmCIRepo m \<noteq> [] then e\<lparr>tmCIRepo := tmCIRepo m\<rparr> else e);
          e = (if tmDurationMS m \<noteq> 0 then e\<lparr>tmDurationMS := tmDurationMS m\<rparr> else e);
          e = (if \<not> is_zero (tmStartedAt m) then e\<lparr>tmStartedAt := tmStartedAt m\<rparr> else e)
      in e\<lparr>tmUpdatedAt := tmUpdatedAt m\<rparr>)"

definition upsertTraceIngest :: "TraceMeta \<Rightarrow> fsmState \<Rightarrow> fsmState" where
  "upsertTraceIngest m s = (case gm_get (traces s) (tmTraceID m) of
     None \<Rightarrow> s\<lparr>traces := gm_put (tmTraceID m) m (traces s)\<rparr>
   | Some e \<Rightarrow> s\<lparr>traces := gm_put (tmTraceID m) (mergeIngest m e) (traces s)\<rparr>)"

definition markTraceFailed :: "cmdMarkTraceFailed \<Rightarrow> fsmState \<Rightarrow> bool \<times> fsmState" where
  "markTraceFailed p s = (case gm_get (traces s) (cfTraceID p) of
     None \<Rightarrow> (False, s)
   | Some m \<Rightarrow>
       if tmStatus m = ''success'' \<or> tmStatus m = ''failed'' then (False, s)
       else (True, s\<lparr>traces := gm_put (cfTraceID p)
              (m\<lparr>tmStatus := ''failed'', tmFailureReason := cfReason p, tmUpdatedAt := cfUpdatedAt p\<rparr>)
              (traces s)\<rparr>))"

section \<open>Dispatch\<close>

datatype response = RespNil | RespBool bool

definition decode_err :: error where
  "decode_err = ErrOther ''decode''"

text \<open>
  The three dispatchers return \<open>None\<close> where the code returns \<^verbatim>\<open>handled == false\<close>.
\<close>

definition applyEntityCommand :: "command \<Rightarrow> fsmState \<Rightarrow> (error option \<times> fsmState) option" where
  "applyEntityCommand cmd s =
     (if cKind cmd = kindUpsertUser then Some
        (case cData cmd of PUser p \<Rightarrow> upsertUser (cmdUser_toDomain p) (cuCreate p) s
                         | _ \<Rightarrow> (Some decode_err, s))
      else if cKind cmd = kindDeleteUser then Some
        (case cData cmd of PString i \<Rightarrow> deleteUser i s | _ \<Rightarrow> (Some decode_err, s))
      else if cKind cmd = kindUpsertGroup then Some
        (case cData cmd of PGroup g create \<Rightarrow> upsertGroup g create s | _ \<Rightarrow> (Some decode_err, s))
      else if cKind cmd = kindDeleteGroup then Some
        (case cData cmd of PString i \<Rightarrow> deleteGroup i s | _ \<Rightarrow> (Some decode_err, s))
      else if cKind cmd = kindSetMembers then Some
        (case cData cmd of PSetMembers gid uids \<Rightarrow> setMembers gid uids s | _ \<Rightarrow> (Some decode_err, s))
      else if cKind cmd = kindUpsertProject then Some
        (case cData cmd of PProject p create \<Rightarrow> upsertProject p create s | _ \<Rightarrow> (Some decode_err, s))
      else if cKind cmd = kindDeleteProject then Some
        (case cData cmd of PString i \<Rightarrow> deleteProject i s | _ \<Rightarrow> (Some decode_err, s))
      else if cKind cmd = kindUpsertToken then Some
        (case cData cmd of PToken t \<Rightarrow> upsertToken (cmdToken_toDomain t) s | _ \<Rightarrow> (Some decode_err, s))
      else if cKind cmd = kindDeleteToken then Some
        (case cData cmd of PDeleteToken uid \<Rightarrow> (None, deleteToken uid s) | _ \<Rightarrow> (Some decode_err, s))
      else if cKind cmd = kindTouchToken then Some
        (case cData cmd of PTouchToken i at' \<Rightarrow> (None, touchToken i at' s) | _ \<Rightarrow> (Some decode_err, s))
      else None)"

definition applyTraceCacheCommand ::
    "command \<Rightarrow> fsmState \<Rightarrow> ((error, response) result \<times> fsmState) option" where
  "applyTraceCacheCommand cmd s =
     (if cKind cmd = kindUpsertTraceProvision then Some
        (case cData cmd of PProvision p \<Rightarrow> (Inr RespNil, upsertTraceProvision p s)
                         | _ \<Rightarrow> (Inl decode_err, s))
      else if cKind cmd = kindUpsertTraceIngest then Some
        (case cData cmd of PIngest m \<Rightarrow> (Inr RespNil, upsertTraceIngest m s) | _ \<Rightarrow> (Inl decode_err, s))
      else if cKind cmd = kindMarkTraceFailed then Some
        (case cData cmd of PMarkFailed p \<Rightarrow> (let (b, s') = markTraceFailed p s in (Inr (RespBool b), s'))
                         | _ \<Rightarrow> (Inl decode_err, s))
      else if cKind cmd = kindSetMeta then Some
        (case cData cmd of PSetMeta k v \<Rightarrow> (Inr RespNil, s\<lparr>meta := gm_put k v (meta s)\<rparr>)
                         | _ \<Rightarrow> (Inl decode_err, s))
      else if cKind cmd = kindUpsertManifestRoute \<or> cKind cmd = kindDeleteManifestRoute
           \<or> cKind cmd = kindUpsertBlobRoute \<or> cKind cmd = kindRecordUpload
           \<or> cKind cmd = kindDeleteUpload \<or> cKind cmd = kindReapUploads
      then Some (Inr RespNil, s)
      else if cKind cmd = kindDeleteTrace then Some
        (case cData cmd of PDeleteTrace tid \<Rightarrow> (Inr RespNil, s\<lparr>traces := gm_del tid (traces s)\<rparr>)
                         | _ \<Rightarrow> (Inl decode_err, s))
      else None)"

definition applySessionCommand :: "command \<Rightarrow> fsmState \<Rightarrow> (error option \<times> fsmState) option" where
  "applySessionCommand cmd s =
     (if cKind cmd = kindUpsertSession then Some
        (case cData cmd of
           PUpsertSession l at' \<Rightarrow>
             (None, s\<lparr>sessionSink :=
                       map_option (ApplySessionRegistered (l\<lparr>lLastActivity := at'\<rparr>)) (sessionSink s)\<rparr>)
         | _ \<Rightarrow> (Some decode_err, s))
      else if cKind cmd = kindTouchSession then Some
        (case cData cmd of
           PTouchSession fp at' \<Rightarrow>
             (None, s\<lparr>sessionSink := map_option (ApplySessionTouched fp at') (sessionSink s)\<rparr>)
         | _ \<Rightarrow> (Some decode_err, s))
      else if cKind cmd = kindTouchManifestRoute then Some (None, s)
      else None)"

definition err_result :: "error option \<Rightarrow> (error, response) result" where
  "err_result e = (case e of None \<Rightarrow> Inr RespNil | Some e \<Rightarrow> Inl e)"

definition applyCommand :: "command \<Rightarrow> fsmState \<Rightarrow> (error, response) result \<times> fsmState" where
  "applyCommand cmd s = (case applyEntityCommand cmd s of
     Some (e, s') \<Rightarrow> (err_result e, s')
   | None \<Rightarrow> (case applyTraceCacheCommand cmd s of
       Some (r, s') \<Rightarrow> (r, s')
     | None \<Rightarrow> (case applySessionCommand cmd s of
         Some (e, s') \<Rightarrow> (err_result e, s')
       | None \<Rightarrow> (Inl (ErrOther ''unknown raft command kind''), s))))"

text \<open>\<^verbatim>\<open>FSM.Apply\<close> on a log entry; \<open>None\<close> stands for log data that is not a command.\<close>

definition Apply :: "command option \<Rightarrow> fsmState \<Rightarrow> (error, response) result \<times> fsmState" where
  "Apply log s = (case log of
     None \<Rightarrow> (Inl decode_err, s) | Some cmd \<Rightarrow> applyCommand cmd s)"

end
