(* ===== verification/FSM_Invariant.thy ===== *)
theory FSM_Invariant
  imports FSM_State
begin

text \<open>
  What every state of the replicated state machine satisfies. \<open>fsm_inv\<close> says that each
  secondary index (user names, OAuth identities, group names, project names, token hashes, token
  owners) holds exactly the keys of its table, that the two directions of the membership
  relation agree, have no empty sets and only name existing groups and users, and that the
  session store behind the sink is in order. Each operation keeps it; \<open>cmd_ok\<close> states what the
  operations rely on from their callers: user names are not empty, and the id of a new token is
  not the id of another user's token.
\<close>

named_theorems fsm_op_inv \<open>the operations of the state machine keep its invariant\<close>

section \<open>The invariant\<close>

definition user_name_key :: "User \<Rightarrow> string option" where
  "user_name_key u = Some (to_lower (uUsername u))"

definition user_oauth_key :: "User \<Rightarrow> string option" where
  "user_oauth_key u = (if uOAuthID u = [] then None else Some (oauthKey (uOAuthProvider u) (uOAuthID u)))"

definition group_name_key :: "Group \<Rightarrow> string option" where
  "group_name_key g = Some (to_lower (gName g))"

definition project_name_key :: "Project \<Rightarrow> string option" where
  "project_name_key p = Some (to_lower (pName p))"

definition token_hash_key :: "APIToken \<Rightarrow> string option" where
  "token_hash_key t = Some (tkTokenHash t)"

definition token_user_key :: "APIToken \<Rightarrow> string option" where
  "token_user_key t = Some (tkUserID t)"

definition users_inv :: "fsmState \<Rightarrow> bool" where
  "users_inv s \<longleftrightarrow> tbl_ok uID (users s)
     \<and> (\<forall>i u. gm_get (users s) i = Some u \<longrightarrow> uUsername u \<noteq> [])
     \<and> idx_ok user_name_key (users s) (usersByName s)
     \<and> idx_ok user_oauth_key (users s) (usersByOAuth s)"

definition groups_inv :: "fsmState \<Rightarrow> bool" where
  "groups_inv s \<longleftrightarrow> tbl_ok gID (groups s) \<and> idx_ok group_name_key (groups s) (groupsByName s)"

definition projects_inv :: "fsmState \<Rightarrow> bool" where
  "projects_inv s \<longleftrightarrow> tbl_ok pID (projects s) \<and> idx_ok project_name_key (projects s) (projectsByName s)"

definition tokens_inv :: "fsmState \<Rightarrow> bool" where
  "tokens_inv s \<longleftrightarrow> tbl_ok tkID (tokens s)
     \<and> idx_ok token_hash_key (tokens s) (tokensByHash s)
     \<and> idx_ok token_user_key (tokens s) (tokensByUser s)"

definition member_of :: "fsmState \<Rightarrow> string \<Rightarrow> string \<Rightarrow> bool" where
  "member_of s gid uid \<longleftrightarrow> uid \<in> set (edges (memberships s) gid)"

definition mem_inv :: "fsmState \<Rightarrow> bool" where
  "mem_inv s \<longleftrightarrow> adj_ok (memberships s) \<and> adj_ok (membershipsByUser s)
     \<and> (\<forall>gid uid. member_of s gid uid \<longleftrightarrow> gid \<in> set (edges (membershipsByUser s) uid))
     \<and> (\<forall>gid uid. member_of s gid uid \<longrightarrow>
          gm_get (groups s) gid \<noteq> None \<and> gm_get (users s) uid \<noteq> None)"

definition rest_inv :: "fsmState \<Rightarrow> bool" where
  "rest_inv s \<longleftrightarrow> tbl_ok tmTraceID (traces s) \<and> gm_ok (meta s)
     \<and> (\<forall>st. sessionSink s = Some st \<longrightarrow> store_inv st)"

definition fsm_inv :: "fsmState \<Rightarrow> bool" where
  "fsm_inv s \<longleftrightarrow> users_inv s \<and> groups_inv s \<and> projects_inv s \<and> tokens_inv s \<and> mem_inv s \<and> rest_inv s"

lemmas key_defs = user_name_key_def user_oauth_key_def group_name_key_def project_name_key_def
  token_hash_key_def token_user_key_def

lemmas table_inv_defs = users_inv_def groups_inv_def projects_inv_def tokens_inv_def rest_inv_def

lemma fsm_inv_newState: "fsm_inv newState"
  by (simp add: fsm_inv_def table_inv_defs mem_inv_def member_of_def newState_def edges_def)

lemma fsm_invI:
  "\<lbrakk>users_inv s; groups_inv s; projects_inv s; tokens_inv s; mem_inv s; rest_inv s\<rbrakk> \<Longrightarrow> fsm_inv s"
  by (simp add: fsm_inv_def)

lemma fsm_invD:
  assumes "fsm_inv s"
  shows "users_inv s" "groups_inv s" "projects_inv s" "tokens_inv s" "mem_inv s" "rest_inv s"
  using assms by (simp_all add: fsm_inv_def)

text \<open>The parts of the invariant depend on their own fields only.\<close>

lemma users_inv_cong:
  "users s' = users s \<Longrightarrow> usersByName s' = usersByName s \<Longrightarrow> usersByOAuth s' = usersByOAuth s \<Longrightarrow>
     users_inv s \<Longrightarrow> users_inv s'"
  by (simp add: users_inv_def)

lemma mem_inv_cong:
  "memberships s' = memberships s \<Longrightarrow> membershipsByUser s' = membershipsByUser s \<Longrightarrow>
     (\<And>i. gm_get (groups s) i \<noteq> None \<Longrightarrow> gm_get (groups s') i \<noteq> None) \<Longrightarrow>
     (\<And>i. gm_get (users s) i \<noteq> None \<Longrightarrow> gm_get (users s') i \<noteq> None) \<Longrightarrow>
     mem_inv s \<Longrightarrow> mem_inv s'"
  unfolding mem_inv_def member_of_def by metis

section \<open>Users\<close>

definition user_ok :: "User \<Rightarrow> bool" where
  "user_ok u \<longleftrightarrow> uUsername u \<noteq> []"

lemma storeUser_fields:
  "users (storeUser u s) = gm_put (uID u) u (users s)"
  "usersByName (storeUser u s) = idx_add (user_name_key u) (uID u) (usersByName s)"
  "usersByOAuth (storeUser u s) = idx_add (user_oauth_key u) (uID u) (usersByOAuth s)"
  by (simp_all add: storeUser_def key_defs Let_def)

lemma storeUser_frame:
  "groups (storeUser u s) = groups s" "groupsByName (storeUser u s) = groupsByName s"
  "memberships (storeUser u s) = memberships s"
  "membershipsByUser (storeUser u s) = membershipsByUser s"
  "tokens (storeUser u s) = tokens s" "tokensByHash (storeUser u s) = tokensByHash s"
  "tokensByUser (storeUser u s) = tokensByUser s" "projects (storeUser u s) = projects s"
  "projectsByName (storeUser u s) = projectsByName s" "traces (storeUser u s) = traces s"
  "meta (storeUser u s) = meta s" "sessionSink (storeUser u s) = sessionSink s"
  by (simp_all add: storeUser_def Let_def)

text \<open>
  The stored row of an update or a creation: the creation time of an existing row is kept, and a
  missing update time is filled in.
\<close>

definition stored_user :: "User option \<Rightarrow> User \<Rightarrow> User" where
  "stored_user old u = (case old of
     None \<Rightarrow> (if is_zero (uUpdatedAt u) then u\<lparr>uUpdatedAt := uCreatedAt u\<rparr> else u)
   | Some e \<Rightarrow> (if is_zero (uUpdatedAt u) then u\<lparr>uCreatedAt := uCreatedAt e, uUpdatedAt := uUpdatedAt e\<rparr>
                 else u\<lparr>uCreatedAt := uCreatedAt e\<rparr>))"

lemma stored_user_keys [simp]:
  "uID (stored_user old u) = uID u" "user_name_key (stored_user old u) = user_name_key u"
  "user_oauth_key (stored_user old u) = user_oauth_key u" "uUsername (stored_user old u) = uUsername u"
  "uOAuthID (stored_user old u) = uOAuthID u" "uOAuthProvider (stored_user old u) = uOAuthProvider u"
  by (simp_all add: stored_user_def key_defs split: option.splits)

text \<open>The four outcomes of \<open>upsertUser\<close>.\<close>

lemma upsertUser_cases:
  assumes "upsertUser u create s = (e, s')"
  obtains (conflict) "e = Some ErrConflict" "s' = s"
  | (missing) "e = Some ErrNotFound" "s' = s" "\<not> create" "gm_get (users s) (uID u) = None"
  | (update) old where "e = None" "\<not> create" "gm_get (users s) (uID u) = Some old"
      "\<not> taken_by_other (usersByName s) (to_lower (uUsername u)) (uID u)"
      "uOAuthID u \<noteq> [] \<Longrightarrow> \<not> taken_by_other (usersByOAuth s) (oauthKey (uOAuthProvider u) (uOAuthID u)) (uID u)"
      "uUsername old \<noteq> [] \<Longrightarrow> s' = storeUser (stored_user (Some old) u)
         (s\<lparr>usersByName := idx_rm (user_name_key old) (usersByName s),
            usersByOAuth := idx_rm (user_oauth_key old) (usersByOAuth s)\<rparr>)"
  | (create) "e = None" "create" "gm_get (users s) (uID u) = None"
      "gm_get (usersByName s) (to_lower (uUsername u)) = None"
      "uOAuthID u \<noteq> [] \<Longrightarrow> gm_get (usersByOAuth s) (oauthKey (uOAuthProvider u) (uOAuthID u)) = None"
      "s' = storeUser (stored_user None u) s"
proof (cases "gm_get (users s) (uID u)")
  case None
  with assms conflict missing create show ?thesis
    by (auto simp: upsertUser_def Let_def stored_user_def split: if_splits)
next
  case (Some old)
  show ?thesis
  proof (cases "create \<or> taken_by_other (usersByName s) (to_lower (uUsername u)) (uID u)
      \<or> uOAuthID u \<noteq> [] \<and> taken_by_other (usersByOAuth s) (oauthKey (uOAuthProvider u) (uOAuthID u)) (uID u)")
    case True
    with Some assms conflict show ?thesis by (auto simp: upsertUser_def Let_def split: if_splits)
  next
    case False
    with Some assms update [of old] show ?thesis
      by (auto simp: upsertUser_def Let_def stored_user_def key_defs split: if_splits)
  qed
qed

lemma taken_by_other_free:
  "\<not> taken_by_other idx k i \<Longrightarrow> gm_get idx k = None \<or> gm_get idx k = Some i"
  by (auto simp: taken_by_other_def split: option.splits)

lemma users_inv_create:
  assumes inv: "users_inv s" and new: "gm_get (users s) (uID u) = None" and ok: "user_ok u"
    and name: "gm_get (usersByName s) (to_lower (uUsername u)) = None"
    and oauth: "uOAuthID u \<noteq> [] \<Longrightarrow>
      gm_get (usersByOAuth s) (oauthKey (uOAuthProvider u) (uOAuthID u)) = None"
  shows "users_inv (storeUser u s)"
proof -
  have "idx_ok user_name_key (gm_put (uID u) u (users s))
      (idx_add (user_name_key u) (uID u) (usersByName s))"
    using inv new name by (intro idx_ok_insert) (auto simp: users_inv_def user_name_key_def)
  moreover have "idx_ok user_oauth_key (gm_put (uID u) u (users s))
      (idx_add (user_oauth_key u) (uID u) (usersByOAuth s))"
    using inv new oauth
    by (intro idx_ok_insert) (auto simp: users_inv_def user_oauth_key_def split: if_splits)
  ultimately show ?thesis
    using inv ok by (auto simp: users_inv_def storeUser_fields user_ok_def intro: tbl_ok_put)
qed

lemma users_inv_update:
  assumes inv: "users_inv s" and old: "gm_get (users s) (uID u) = Some old" and ok: "user_ok u"
    and name: "\<not> taken_by_other (usersByName s) (to_lower (uUsername u)) (uID u)"
    and oauth: "uOAuthID u \<noteq> [] \<Longrightarrow>
      \<not> taken_by_other (usersByOAuth s) (oauthKey (uOAuthProvider u) (uOAuthID u)) (uID u)"
  shows "users_inv (storeUser u (s\<lparr>usersByName := idx_rm (user_name_key old) (usersByName s),
            usersByOAuth := idx_rm (user_oauth_key old) (usersByOAuth s)\<rparr>))"
proof -
  have "idx_ok user_name_key (gm_put (uID u) u (users s))
      (idx_add (user_name_key u) (uID u) (idx_rm (user_name_key old) (usersByName s)))"
    using inv old taken_by_other_free [OF name]
    by (intro idx_ok_replace) (auto simp: users_inv_def user_name_key_def)
  moreover have "idx_ok user_oauth_key (gm_put (uID u) u (users s))
      (idx_add (user_oauth_key u) (uID u) (idx_rm (user_oauth_key old) (usersByOAuth s)))"
    using inv old taken_by_other_free [OF oauth]
    by (intro idx_ok_replace) (auto simp: users_inv_def user_oauth_key_def split: if_splits)
  ultimately show ?thesis
    using inv ok by (auto simp: users_inv_def storeUser_fields user_ok_def intro: tbl_ok_put)
qed

lemma fsm_inv_storeUser:
  assumes "fsm_inv s" and "users_inv (storeUser u (s\<lparr>usersByName := n, usersByOAuth := ou\<rparr>))"
  shows "fsm_inv (storeUser u (s\<lparr>usersByName := n, usersByOAuth := ou\<rparr>))"
proof -
  have "mem_inv (storeUser u (s\<lparr>usersByName := n, usersByOAuth := ou\<rparr>))"
    using fsm_invD(5) [OF assms(1)]
    by (rule mem_inv_cong [rotated -1]) (simp_all add: storeUser_frame storeUser_fields)
  with assms show ?thesis by (simp add: fsm_inv_def table_inv_defs storeUser_frame storeUser_fields)
qed

lemma upsertUser_inv [fsm_op_inv]:
  assumes inv: "fsm_inv s" and ok: "uUsername u \<noteq> []" and up: "upsertUser u create s = (e, s')"
  shows "fsm_inv s'"
  using up
proof (cases rule: upsertUser_cases)
  case (update old)
  have "uUsername old \<noteq> []" using fsm_invD(1) [OF inv] update(3) by (auto simp: users_inv_def)
  moreover have "users_inv (storeUser (stored_user (Some old) u)
      (s\<lparr>usersByName := idx_rm (user_name_key old) (usersByName s),
         usersByOAuth := idx_rm (user_oauth_key old) (usersByOAuth s)\<rparr>))"
    using fsm_invD(1) [OF inv] update ok
    by (intro users_inv_update) (auto simp: user_ok_def)
  ultimately show ?thesis using fsm_inv_storeUser [OF inv] update(6) by simp
next
  case create
  have "users_inv (storeUser (stored_user None u) s)"
    using fsm_invD(1) [OF inv] create ok
    by (intro users_inv_create) (auto simp: user_ok_def)
  then show ?thesis
    using fsm_inv_storeUser [OF inv, where n = "usersByName s" and ou = "usersByOAuth s"] create by simp
qed (use inv in simp_all)

section \<open>Tokens\<close>

lemma removeToken_frame:
  "users (removeToken i s) = users s" "usersByName (removeToken i s) = usersByName s"
  "usersByOAuth (removeToken i s) = usersByOAuth s"
  "groups (removeToken i s) = groups s" "groupsByName (removeToken i s) = groupsByName s"
  "memberships (removeToken i s) = memberships s"
  "membershipsByUser (removeToken i s) = membershipsByUser s" "projects (removeToken i s) = projects s"
  "projectsByName (removeToken i s) = projectsByName s" "traces (removeToken i s) = traces s"
  "meta (removeToken i s) = meta s" "sessionSink (removeToken i s) = sessionSink s"
  by (simp_all add: removeToken_def split: option.splits)

lemma deleteToken_frame:
  "users (deleteToken i s) = users s" "usersByName (deleteToken i s) = usersByName s"
  "usersByOAuth (deleteToken i s) = usersByOAuth s"
  "groups (deleteToken i s) = groups s" "groupsByName (deleteToken i s) = groupsByName s"
  "memberships (deleteToken i s) = memberships s"
  "membershipsByUser (deleteToken i s) = membershipsByUser s" "projects (deleteToken i s) = projects s"
  "projectsByName (deleteToken i s) = projectsByName s" "traces (deleteToken i s) = traces s"
  "meta (deleteToken i s) = meta s" "sessionSink (deleteToken i s) = sessionSink s"
  by (simp_all add: deleteToken_def removeToken_frame split: option.splits)

lemma fsm_inv_tokens_cong:
  assumes "fsm_inv s" and "tokens_inv (s\<lparr>tokens := t, tokensByHash := h, tokensByUser := u\<rparr>)"
  shows "fsm_inv (s\<lparr>tokens := t, tokensByHash := h, tokensByUser := u\<rparr>)"
  using assms by (simp add: fsm_inv_def table_inv_defs mem_inv_def member_of_def)

lemma removeToken_inv:
  assumes inv: "fsm_inv s"
  shows "fsm_inv (removeToken i s)"
proof (cases "gm_get (tokens s) i")
  case (Some t)
  have "idx_ok token_hash_key (gm_del i (tokens s)) (idx_rm (token_hash_key t) (tokensByHash s))"
    "idx_ok token_user_key (gm_del i (tokens s)) (idx_rm (token_user_key t) (tokensByUser s))"
    using fsm_invD(4) [OF inv] Some by (auto simp: tokens_inv_def intro: idx_ok_delete)
  with fsm_invD(4) [OF inv] Some show ?thesis
    unfolding removeToken_def
    by (simp add: fsm_inv_tokens_cong [OF inv] tokens_inv_def tbl_ok_del token_hash_key_def [of t]
        token_user_key_def [of t])
qed (use inv in \<open>simp add: removeToken_def\<close>)

lemma storeToken_inv:
  assumes inv: "fsm_inv s" and new: "gm_get (tokens s) (tkID t) = None"
    and hash: "gm_get (tokensByHash s) (tkTokenHash t) = None"
    and user: "gm_get (tokensByUser s) (tkUserID t) = None"
  shows "fsm_inv (storeToken t s)"
proof -
  have "idx_ok token_hash_key (gm_put (tkID t) t (tokens s)) (idx_add (token_hash_key t) (tkID t) (tokensByHash s))"
    "idx_ok token_user_key (gm_put (tkID t) t (tokens s)) (idx_add (token_user_key t) (tkID t) (tokensByUser s))"
    using fsm_invD(4) [OF inv] new hash user
    by (intro idx_ok_insert; auto simp: tokens_inv_def token_hash_key_def token_user_key_def)+
  with fsm_invD(4) [OF inv] show ?thesis
    unfolding storeToken_def
    by (simp add: fsm_inv_tokens_cong [OF inv] tokens_inv_def tbl_ok_put token_hash_key_def [of t]
        token_user_key_def [of t])
qed

lemma deleteToken_inv [fsm_op_inv]: "fsm_inv s \<Longrightarrow> fsm_inv (deleteToken uid s)"
  by (simp add: deleteToken_def removeToken_inv split: option.splits)

lemma touchToken_inv [fsm_op_inv]:
  assumes inv: "fsm_inv s"
  shows "fsm_inv (touchToken i at' s)"
proof (cases "gm_get (tokens s) i")
  case (Some t)
  let ?t = "t\<lparr>tkLastUsedAt := Some at'\<rparr>"
  have "idx_ok token_hash_key (gm_put i ?t (tokens s)) (tokensByHash s)"
    "idx_ok token_user_key (gm_put i ?t (tokens s)) (tokensByUser s)"
    using fsm_invD(4) [OF inv] Some
    by (auto simp: tokens_inv_def key_defs intro: idx_ok_same)
  then show ?thesis
    using fsm_invD(4) [OF inv] Some tbl_okD [of tkID "tokens s" i t]
      fsm_inv_tokens_cong [OF inv, where t = "gm_put i ?t (tokens s)" and h = "tokensByHash s"
        and u = "tokensByUser s"]
    by (simp add: touchToken_def tokens_inv_def tbl_ok_put)
qed (use inv in \<open>simp add: touchToken_def\<close>)

text \<open>What the state says of the token of a user, through its two indices.\<close>

lemma token_of_user:
  assumes "fsm_inv s"
  shows "gm_get (tokensByUser s) uid = Some i \<longleftrightarrow> (\<exists>t. gm_get (tokens s) i = Some t \<and> tkUserID t = uid)"
  using fsm_invD(4) [OF assms] by (auto simp: tokens_inv_def idx_ok_def token_user_key_def)

lemma token_of_hash:
  assumes "fsm_inv s"
  shows "gm_get (tokensByHash s) h = Some i \<longleftrightarrow> (\<exists>t. gm_get (tokens s) i = Some t \<and> tkTokenHash t = h)"
  using fsm_invD(4) [OF assms] by (auto simp: tokens_inv_def idx_ok_def token_hash_key_def)

definition token_ok :: "fsmState \<Rightarrow> APIToken \<Rightarrow> bool" where
  "token_ok s t = (case gm_get (tokens s) (tkID t) of
     None \<Rightarrow> True | Some old \<Rightarrow> tkUserID old = tkUserID t)"

lemma removeToken_gets:
  assumes "gm_get (tokens s) i = Some t"
  shows "tokens (removeToken i s) = gm_del i (tokens s)"
    "tokensByHash (removeToken i s) = gm_del (tkTokenHash t) (tokensByHash s)"
    "tokensByUser (removeToken i s) = gm_del (tkUserID t) (tokensByUser s)"
  using assms by (simp_all add: removeToken_def)

text \<open>The three outcomes of \<open>upsertToken\<close> in a state of the invariant; there is no panic.\<close>

lemma upsertToken_cases:
  assumes inv: "fsm_inv s" and "upsertToken t s = (e, s')"
  obtains (conflict) "e = Some ErrConflict" "s' = s"
  | (replace) i old where "e = None" "gm_get (tokensByUser s) (tkUserID t) = Some i"
      "gm_get (tokens s) i = Some old" "tkUserID old = tkUserID t"
      "gm_get (tokensByHash (removeToken i s)) (tkTokenHash t) = None"
      "s' = storeToken t (removeToken i s)"
  | (fresh) "e = None" "gm_get (tokensByUser s) (tkUserID t) = None"
      "gm_get (tokensByHash s) (tkTokenHash t) = None" "s' = storeToken t s"
proof (cases "gm_get (tokensByUser s) (tkUserID t)")
  case None
  with assms(2) conflict fresh show ?thesis
    by (auto simp: upsertToken_def split: if_splits)
next
  case (Some i)
  then obtain old where old: "gm_get (tokens s) i = Some old" "tkUserID old = tkUserID t"
    using token_of_user [OF inv] by blast
  show ?thesis
  proof (cases "tkTokenHash t \<noteq> tkTokenHash old \<and> taken_by_other (tokensByHash s) (tkTokenHash t) i")
    case True
    with Some old assms(2) conflict show ?thesis by (simp add: upsertToken_def)
  next
    case False
    with old have "gm_get (tokensByHash (removeToken i s)) (tkTokenHash t) = None"
      using token_of_hash [OF inv, of "tkTokenHash t" i]
      by (auto simp: removeToken_gets dest: taken_by_other_free)
    moreover have "e = None" "s' = storeToken t (removeToken i s)"
      using False Some old(1) assms(2) by (auto simp: upsertToken_def)
    ultimately show ?thesis using replace [OF _ Some old] by blast
  qed
qed

lemma upsertToken_inv [fsm_op_inv]:
  assumes inv: "fsm_inv s" and ok: "token_ok s t" and up: "upsertToken t s = (e, s')"
  shows "fsm_inv s'"
  using inv up
proof (cases rule: upsertToken_cases)
  case (replace i old)
  have "gm_get (tokens (removeToken i s)) (tkID t) = None"
    using ok replace(2,3) token_of_user [OF inv, of "tkUserID t" "tkID t"]
    by (auto simp: removeToken_gets token_ok_def split: option.splits)
  moreover have "gm_get (tokensByUser (removeToken i s)) (tkUserID t) = None"
    using replace(3,4) by (simp add: removeToken_gets)
  ultimately show ?thesis
    using replace by (simp add: storeToken_inv removeToken_inv inv)
next
  case fresh
  have "gm_get (tokens s) (tkID t) = None"
    using ok fresh(2) token_of_user [OF inv, of "tkUserID t" "tkID t"]
    by (auto simp: token_ok_def split: option.splits)
  with fresh show ?thesis by (simp add: storeToken_inv inv)
qed (use inv in simp)

section \<open>Memberships\<close>

lemma edges_put [simp]: "edges (gm_put a bs m) x = (if x = a then bs else edges m x)"
  by (simp add: edges_def)

lemma edges_del [simp]: "edges (gm_del a m) x = (if x = a then [] else edges m x)"
  by (simp add: edges_def)

lemma edges_unlink [simp]:
  "edges (unlink a b m) x = (if x = a then set_del b (edges m x) else edges m x)"
  by (simp add: edges_def unlink_def Let_def split: option.splits)

lemma edges_link [simp]:
  "edges (link a b m) x = (if x = a then set_put b (edges m x) else edges m x)"
  by (simp add: link_def)

lemma adj_ok_edges: "adj_ok m \<Longrightarrow> distinct (edges m a)"
  by (cases "gm_get m a") (auto simp: edges_def dest: adj_okD)

lemma adj_ok_unlink: "adj_ok m \<Longrightarrow> adj_ok (unlink a b m)"
  by (cases "gm_get m a")
    (auto simp: unlink_def Let_def intro!: adj_ok_put adj_ok_del distinct_removeAll dest: adj_okD)

lemma adj_ok_link: "adj_ok m \<Longrightarrow> adj_ok (link a b m)"
  unfolding link_def
  by (rule adj_ok_put) (auto simp: adj_ok_edges List.insert_def)

lemma adj_ok_fold_unlink: "adj_ok m \<Longrightarrow> adj_ok (fold (\<lambda>a. unlink a b) as m)"
  by (induction as arbitrary: m) (simp_all add: adj_ok_unlink)

lemma edges_fold_unlink:
  "set (edges (fold (\<lambda>a. unlink a b) as m) x) =
     (if x \<in> set as then set (edges m x) - {b} else set (edges m x))"
  by (induction as arbitrary: m) auto

lemma addMembership_fields:
  "memberships (fold (addMembership gid) us s) = fold (link gid) us (memberships s)"
  "membershipsByUser (fold (addMembership gid) us s) = fold (\<lambda>u. link u gid) us (membershipsByUser s)"
  by (induction us arbitrary: s) (simp_all add: addMembership_def)

lemma addMembership_frame:
  "users (fold (addMembership gid) us s) = users s"
  "usersByName (fold (addMembership gid) us s) = usersByName s"
  "usersByOAuth (fold (addMembership gid) us s) = usersByOAuth s"
  "groups (fold (addMembership gid) us s) = groups s"
  "groupsByName (fold (addMembership gid) us s) = groupsByName s"
  "tokens (fold (addMembership gid) us s) = tokens s"
  "tokensByHash (fold (addMembership gid) us s) = tokensByHash s"
  "tokensByUser (fold (addMembership gid) us s) = tokensByUser s"
  "projects (fold (addMembership gid) us s) = projects s"
  "projectsByName (fold (addMembership gid) us s) = projectsByName s"
  "traces (fold (addMembership gid) us s) = traces s"
  "meta (fold (addMembership gid) us s) = meta s"
  "sessionSink (fold (addMembership gid) us s) = sessionSink s"
  by (induction us arbitrary: s) (simp_all add: addMembership_def)

lemma adj_ok_fold_link1: "adj_ok m \<Longrightarrow> adj_ok (fold (link a) bs m)"
  by (induction bs arbitrary: m) (simp_all add: adj_ok_link)

lemma adj_ok_fold_link2: "adj_ok m \<Longrightarrow> adj_ok (fold (\<lambda>a. link a b) as m)"
  by (induction as arbitrary: m) (simp_all add: adj_ok_link)

lemma edges_fold_link1:
  "set (edges (fold (link a) bs m) x) = set (edges m x) \<union> (if x = a then set bs else {})"
  by (induction bs arbitrary: m) auto

lemma edges_fold_link2:
  "set (edges (fold (\<lambda>a. link a b) as m) x) = set (edges m x) \<union> (if x \<in> set as then {b} else {})"
  by (induction as arbitrary: m) auto

lemma mem_invI:
  assumes "adj_ok (memberships s)" and "adj_ok (membershipsByUser s)"
    and "\<And>gid uid. uid \<in> set (edges (memberships s) gid) \<longleftrightarrow> gid \<in> set (edges (membershipsByUser s) uid)"
    and "\<And>gid uid. uid \<in> set (edges (memberships s) gid) \<Longrightarrow>
      gm_get (groups s) gid \<noteq> None \<and> gm_get (users s) uid \<noteq> None"
  shows "mem_inv s"
  using assms unfolding mem_inv_def member_of_def by blast

lemma mem_invD:
  assumes "mem_inv s"
  shows "adj_ok (memberships s)" "adj_ok (membershipsByUser s)"
    "uid \<in> set (edges (memberships s) gid) \<longleftrightarrow> gid \<in> set (edges (membershipsByUser s) uid)"
    "uid \<in> set (edges (memberships s) gid) \<Longrightarrow> gm_get (groups s) gid \<noteq> None"
    "uid \<in> set (edges (memberships s) gid) \<Longrightarrow> gm_get (users s) uid \<noteq> None"
  using assms unfolding mem_inv_def member_of_def by blast+

text \<open>The two outcomes of \<open>setMembers\<close>; after a success the members are exactly the given ids.\<close>

lemma setMembers_cases:
  assumes "setMembers gid uids s = (e, s')"
  obtains (missing) "e = Some ErrNotFound" "s' = s"
      "gm_get (groups s) gid = None \<or> (\<exists>uid \<in> set uids. gm_get (users s) uid = None)"
  | (applied) "e = None" "gm_get (groups s) gid \<noteq> None" "\<And>uid. uid \<in> set uids \<Longrightarrow> gm_get (users s) uid \<noteq> None"
      "s' = (let b = fold (\<lambda>uid. unlink uid gid) (edges (memberships s) gid) (membershipsByUser s);
                 us = fold set_put uids []
             in if us = [] then s\<lparr>membershipsByUser := b, memberships := gm_del gid (memberships s)\<rparr>
                else fold (addMembership gid) us
                  (s\<lparr>membershipsByUser := b, memberships := gm_put gid us (memberships s)\<rparr>))"
proof (cases "gm_get (groups s) gid = None \<or> (\<exists>uid \<in> set uids. gm_get (users s) uid = None)")
  case True
  then have "\<not> list_all (\<lambda>uid. gm_get (users s) uid \<noteq> None) uids \<or> gm_get (groups s) gid = None"
    by (auto simp: list_all_iff)
  with assms have "e = Some ErrNotFound" "s' = s" unfolding setMembers_def by (simp_all split: if_splits)
  with True show ?thesis by (rule missing [rotated 2])
next
  case False
  then have "list_all (\<lambda>uid. gm_get (users s) uid \<noteq> None) uids" "gm_get (groups s) gid \<noteq> None"
    by (auto simp: list_all_iff)
  with assms False show ?thesis unfolding setMembers_def
    by (intro applied) (auto simp: Let_def split: if_splits)
qed

lemma setMembers_frame:
  assumes "setMembers gid uids s = (e, s')"
  shows "users s' = users s" "usersByName s' = usersByName s" "usersByOAuth s' = usersByOAuth s"
    "groups s' = groups s" "groupsByName s' = groupsByName s" "tokens s' = tokens s"
    "tokensByHash s' = tokensByHash s" "tokensByUser s' = tokensByUser s" "projects s' = projects s"
    "projectsByName s' = projectsByName s" "traces s' = traces s" "meta s' = meta s"
    "sessionSink s' = sessionSink s"
  using assms
  by (cases rule: setMembers_cases; simp add: Let_def addMembership_frame)+

lemma setMembers_edges:
  assumes inv: "mem_inv s" and set_ok: "setMembers gid uids s = (None, s')"
  shows "set (edges (memberships s') x) = (if x = gid then set uids else set (edges (memberships s) x))"
    and "set (edges (membershipsByUser s') y) =
      (if y \<in> set uids then insert gid (set (edges (membershipsByUser s) y))
       else set (edges (membershipsByUser s) y) - {gid})"
proof -
  have us: "set (fold set_put uids []) = set uids" by (simp add: fold_set_put_set)
  from set_ok show "set (edges (memberships s') x) =
      (if x = gid then set uids else set (edges (memberships s) x))"
    by (cases rule: setMembers_cases)
      (use us in \<open>auto simp: Let_def addMembership_fields edges_fold_link1 split: if_splits\<close>)
  have rev: "gid \<in> set (edges (membershipsByUser s) y) \<Longrightarrow> y \<in> set (edges (memberships s) gid)"
    using mem_invD(3) [OF inv] by blast
  from set_ok show "set (edges (membershipsByUser s') y) =
      (if y \<in> set uids then insert gid (set (edges (membershipsByUser s) y))
       else set (edges (membershipsByUser s) y) - {gid})"
    by (cases rule: setMembers_cases)
      (use us rev in \<open>auto simp: Let_def addMembership_fields edges_fold_link2 edges_fold_unlink
        split: if_splits\<close>)
qed

lemma setMembers_adj:
  assumes inv: "mem_inv s" and set_ok: "setMembers gid uids s = (None, s')"
  shows "adj_ok (memberships s')" "adj_ok (membershipsByUser s')"
  using set_ok mem_invD(1,2) [OF inv]
  by (cases rule: setMembers_cases;
      auto simp: Let_def addMembership_fields adj_ok_del adj_ok_put fold_set_put_distinct
        intro!: adj_ok_fold_link1 adj_ok_fold_link2 adj_ok_fold_unlink)+

lemma setMembers_inv [fsm_op_inv]:
  assumes inv: "fsm_inv s" and set_ok: "setMembers gid uids s = (e, s')"
  shows "fsm_inv s'"
  using set_ok
proof (cases rule: setMembers_cases)
  case applied
  have ok: "setMembers gid uids s = (None, s')" using set_ok applied by simp
  note mem = mem_invD [OF fsm_invD(5) [OF inv]]
  have "mem_inv s'"
    using setMembers_adj [OF fsm_invD(5) [OF inv] ok] setMembers_edges [OF fsm_invD(5) [OF inv] ok]
      applied(2,3) mem(3-5)
    by (intro mem_invI) (auto simp: setMembers_frame [OF ok] split: if_splits)
  then show ?thesis
    using inv by (simp add: fsm_inv_def table_inv_defs setMembers_frame [OF ok])
qed (use inv in simp)

section \<open>Deleting a user\<close>

lemma deleteUser_fields:
  assumes "gm_get (users s) i = Some u"
  shows "fst (deleteUser i s) = None"
    "users (snd (deleteUser i s)) = gm_del i (users s)"
    "usersByName (snd (deleteUser i s)) = idx_rm (user_name_key u) (usersByName s)"
    "usersByOAuth (snd (deleteUser i s)) = idx_rm (user_oauth_key u) (usersByOAuth s)"
    "groups (snd (deleteUser i s)) = groups s"
    "groupsByName (snd (deleteUser i s)) = groupsByName s"
    "memberships (snd (deleteUser i s)) =
       fold (\<lambda>gid. unlink gid i) (edges (membershipsByUser s) i) (memberships s)"
    "membershipsByUser (snd (deleteUser i s)) = gm_del i (membershipsByUser s)"
    "tokens (snd (deleteUser i s)) = tokens (deleteToken i s)"
    "tokensByHash (snd (deleteUser i s)) = tokensByHash (deleteToken i s)"
    "tokensByUser (snd (deleteUser i s)) = tokensByUser (deleteToken i s)"
    "projects (snd (deleteUser i s)) = projects s"
    "projectsByName (snd (deleteUser i s)) = projectsByName s"
    "traces (snd (deleteUser i s)) =
       gm_map (\<lambda>m. if tmUserID m = i then m\<lparr>tmUserID := []\<rparr> else m) (traces s)"
    "meta (snd (deleteUser i s)) = meta s"
    "sessionSink (snd (deleteUser i s)) = sessionSink s"
  using assms by (simp_all add: deleteUser_def Let_def deleteToken_frame key_defs)

lemma deleteUser_mem_inv:
  assumes inv: "mem_inv s" and u: "gm_get (users s) i = Some u"
  shows "mem_inv (snd (deleteUser i s))"
proof (rule mem_invI)
  show "adj_ok (memberships (snd (deleteUser i s)))" "adj_ok (membershipsByUser (snd (deleteUser i s)))"
    using mem_invD(1,2) [OF inv] by (simp_all add: deleteUser_fields [OF u] adj_ok_fold_unlink adj_ok_del)
next
  fix gid uid
  have e: "uid \<in> set (edges (memberships (snd (deleteUser i s))) gid)
      \<longleftrightarrow> uid \<in> set (edges (memberships s) gid) \<and> uid \<noteq> i"
    using mem_invD(3) [OF inv, of i gid] by (auto simp: deleteUser_fields [OF u] edges_fold_unlink)
  show "uid \<in> set (edges (memberships (snd (deleteUser i s))) gid)
      \<longleftrightarrow> gid \<in> set (edges (membershipsByUser (snd (deleteUser i s))) uid)"
    using mem_invD(3) [OF inv, of uid gid] unfolding e by (simp add: deleteUser_fields [OF u])
  show "gm_get (groups (snd (deleteUser i s))) gid \<noteq> None \<and> gm_get (users (snd (deleteUser i s))) uid \<noteq> None"
    if "uid \<in> set (edges (memberships (snd (deleteUser i s))) gid)"
    using that mem_invD(4,5) [OF inv, of uid gid] unfolding e by (simp add: deleteUser_fields [OF u])
qed

lemma deleteUser_inv [fsm_op_inv]:
  assumes inv: "fsm_inv s"
  shows "fsm_inv (snd (deleteUser i s))"
proof (cases "gm_get (users s) i")
  case (Some u)
  note f = deleteUser_fields [OF Some]
  have us: "users_inv (snd (deleteUser i s))"
    using fsm_invD(1) [OF inv] Some
    by (auto simp: users_inv_def f intro: tbl_ok_del idx_ok_delete split: if_splits)
  have tk: "tokens_inv (snd (deleteUser i s))"
    using fsm_invD(4) [OF deleteToken_inv [OF inv]] by (simp add: tokens_inv_def f)
  have "rest_inv (snd (deleteUser i s))"
    using fsm_invD(6) [OF inv] by (auto simp: rest_inv_def f intro: tbl_ok_map)
  with us tk show ?thesis
    using deleteUser_mem_inv [OF fsm_invD(5) [OF inv] Some] inv
    by (simp add: fsm_inv_def groups_inv_def projects_inv_def f)
qed (use inv in \<open>simp add: deleteUser_def\<close>)

section \<open>Groups\<close>

lemma fsm_inv_groups_cong:
  assumes "fsm_inv s" and "groups_inv (s\<lparr>groups := g, groupsByName := n\<rparr>)"
    and "\<And>i. gm_get (groups s) i \<noteq> None \<Longrightarrow> gm_get g i \<noteq> None"
  shows "fsm_inv (s\<lparr>groups := g, groupsByName := n\<rparr>)"
proof -
  have "mem_inv (s\<lparr>groups := g, groupsByName := n\<rparr>)"
    using fsm_invD(5) [OF assms(1)] by (rule mem_inv_cong [rotated -1]) (simp_all add: assms(3))
  with assms show ?thesis by (simp add: fsm_inv_def table_inv_defs)
qed

definition stored_group :: "Group option \<Rightarrow> Group \<Rightarrow> Group" where
  "stored_group old g = (case old of
     None \<Rightarrow> (if is_zero (gUpdatedAt g) then g\<lparr>gUpdatedAt := gCreatedAt g\<rparr> else g)
   | Some e \<Rightarrow> (if is_zero (gUpdatedAt g) then g\<lparr>gCreatedAt := gCreatedAt e, gUpdatedAt := gUpdatedAt e\<rparr>
                 else g\<lparr>gCreatedAt := gCreatedAt e\<rparr>))"

lemma stored_group_keys [simp]:
  "gID (stored_group old g) = gID g" "gName (stored_group old g) = gName g"
  by (simp_all add: stored_group_def split: option.splits)

lemma upsertGroup_cases:
  assumes "upsertGroup g create s = (e, s')"
  obtains (conflict) "e = Some ErrConflict" "s' = s"
  | (missing) "e = Some ErrNotFound" "s' = s" "gm_get (groups s) (gID g) = None"
  | (update) old where "e = None" "\<not> create" "gm_get (groups s) (gID g) = Some old"
      "\<not> taken_by_other (groupsByName s) (to_lower (gName g)) (gID g)"
      "s' = storeGroup (stored_group (Some old) g)
        (s\<lparr>groupsByName := gm_del (to_lower (gName old)) (groupsByName s)\<rparr>)"
  | (create) "e = None" "create" "gm_get (groups s) (gID g) = None"
      "gm_get (groupsByName s) (to_lower (gName g)) = None" "s' = storeGroup (stored_group None g) s"
proof (cases "gm_get (groups s) (gID g)")
  case None
  with assms conflict missing create show ?thesis
    by (auto simp: upsertGroup_def Let_def stored_group_def split: if_splits)
next
  case (Some old)
  show ?thesis
  proof (cases "create \<or> taken_by_other (groupsByName s) (to_lower (gName g)) (gID g)")
    case True
    with Some assms conflict show ?thesis by (auto simp: upsertGroup_def Let_def split: if_splits)
  next
    case False
    with Some assms update [of old] show ?thesis
      by (auto simp: upsertGroup_def Let_def stored_group_def split: if_splits)
  qed
qed

lemma upsertGroup_inv [fsm_op_inv]:
  assumes inv: "fsm_inv s" and up: "upsertGroup g create s = (e, s')"
  shows "fsm_inv s'"
  using up
proof (cases rule: upsertGroup_cases)
  case (update old)
  have "idx_ok group_name_key (gm_put (gID g) (stored_group (Some old) g) (groups s))
      (idx_add (group_name_key (stored_group (Some old) g)) (gID g)
        (idx_rm (group_name_key old) (groupsByName s)))"
    using fsm_invD(2) [OF inv] update taken_by_other_free [OF update(4)]
    by (intro idx_ok_replace) (auto simp: groups_inv_def group_name_key_def)
  then show ?thesis
    using fsm_invD(2) [OF inv] update(5)
      fsm_inv_groups_cong [OF inv, where g = "groups s'" and n = "groupsByName s'"]
    by (simp add: groups_inv_def storeGroup_def tbl_ok_put group_name_key_def)
next
  case create
  have "idx_ok group_name_key (gm_put (gID g) (stored_group None g) (groups s))
      (idx_add (group_name_key (stored_group None g)) (gID g) (groupsByName s))"
    using fsm_invD(2) [OF inv] create by (intro idx_ok_insert) (auto simp: groups_inv_def group_name_key_def)
  then show ?thesis
    using fsm_invD(2) [OF inv] create(5)
      fsm_inv_groups_cong [OF inv, where g = "groups s'" and n = "groupsByName s'"]
    by (simp add: groups_inv_def storeGroup_def tbl_ok_put group_name_key_def)
qed (use inv in simp_all)

lemma deleteGroup_fields:
  assumes "gm_get (groups s) i = Some g"
  shows "fst (deleteGroup i s) = None"
    "users (snd (deleteGroup i s)) = users s"
    "usersByName (snd (deleteGroup i s)) = usersByName s"
    "usersByOAuth (snd (deleteGroup i s)) = usersByOAuth s"
    "groups (snd (deleteGroup i s)) = gm_del i (groups s)"
    "groupsByName (snd (deleteGroup i s)) = idx_rm (group_name_key g) (groupsByName s)"
    "memberships (snd (deleteGroup i s)) = gm_del i (memberships s)"
    "membershipsByUser (snd (deleteGroup i s)) =
       fold (\<lambda>uid. unlink uid i) (edges (memberships s) i) (membershipsByUser s)"
    "tokens (snd (deleteGroup i s)) = tokens s"
    "tokensByHash (snd (deleteGroup i s)) = tokensByHash s"
    "tokensByUser (snd (deleteGroup i s)) = tokensByUser s"
    "projects (snd (deleteGroup i s)) =
       gm_map (\<lambda>p. if pGroupID p = i then p\<lparr>pGroupID := []\<rparr> else p) (projects s)"
    "projectsByName (snd (deleteGroup i s)) = projectsByName s"
    "traces (snd (deleteGroup i s)) =
       gm_map (\<lambda>m. if tmGroupID m = i then m\<lparr>tmGroupID := []\<rparr> else m) (traces s)"
    "meta (snd (deleteGroup i s)) = meta s"
    "sessionSink (snd (deleteGroup i s)) = sessionSink s"
  using assms by (simp_all add: deleteGroup_def Let_def key_defs)

lemma deleteGroup_mem_inv:
  assumes inv: "mem_inv s" and g: "gm_get (groups s) i = Some g"
  shows "mem_inv (snd (deleteGroup i s))"
proof (rule mem_invI)
  show "adj_ok (memberships (snd (deleteGroup i s)))" "adj_ok (membershipsByUser (snd (deleteGroup i s)))"
    using mem_invD(1,2) [OF inv] by (simp_all add: deleteGroup_fields [OF g] adj_ok_fold_unlink adj_ok_del)
next
  fix gid uid
  show "uid \<in> set (edges (memberships (snd (deleteGroup i s))) gid)
      \<longleftrightarrow> gid \<in> set (edges (membershipsByUser (snd (deleteGroup i s))) uid)"
    using mem_invD(3) [OF inv, of uid gid] mem_invD(3) [OF inv, of uid i]
    by (auto simp: deleteGroup_fields [OF g] edges_fold_unlink)
  show "gm_get (groups (snd (deleteGroup i s))) gid \<noteq> None \<and> gm_get (users (snd (deleteGroup i s))) uid \<noteq> None"
    if "uid \<in> set (edges (memberships (snd (deleteGroup i s))) gid)"
    using that mem_invD(4,5) [OF inv, of uid gid] by (simp add: deleteGroup_fields [OF g] split: if_splits)
qed

lemma deleteGroup_inv [fsm_op_inv]:
  assumes inv: "fsm_inv s"
  shows "fsm_inv (snd (deleteGroup i s))"
proof (cases "gm_get (groups s) i")
  case (Some g)
  note f = deleteGroup_fields [OF Some]
  have gr: "groups_inv (snd (deleteGroup i s))"
    using fsm_invD(2) [OF inv] Some by (auto simp: groups_inv_def f intro: tbl_ok_del idx_ok_delete)
  have pr: "projects_inv (snd (deleteGroup i s))"
    using fsm_invD(3) [OF inv]
    by (auto simp: projects_inv_def f project_name_key_def intro!: tbl_ok_map idx_ok_map)
  have "rest_inv (snd (deleteGroup i s))"
    using fsm_invD(6) [OF inv] by (auto simp: rest_inv_def f intro: tbl_ok_map)
  with gr pr show ?thesis
    using deleteGroup_mem_inv [OF fsm_invD(5) [OF inv] Some] inv
    by (simp add: fsm_inv_def users_inv_def tokens_inv_def f)
qed (use inv in \<open>simp add: deleteGroup_def\<close>)

section \<open>Projects\<close>

lemma fsm_inv_projects_cong:
  "fsm_inv s \<Longrightarrow> projects_inv (s\<lparr>projects := p, projectsByName := n\<rparr>) \<Longrightarrow>
     fsm_inv (s\<lparr>projects := p, projectsByName := n\<rparr>)"
  by (simp add: fsm_inv_def table_inv_defs mem_inv_def member_of_def)

definition stored_project :: "Project option \<Rightarrow> Project \<Rightarrow> Project" where
  "stored_project old p = (case old of
     None \<Rightarrow> (if is_zero (pUpdatedAt p) then p\<lparr>pUpdatedAt := pCreatedAt p\<rparr> else p)
   | Some e \<Rightarrow> (if is_zero (pUpdatedAt p) then p\<lparr>pCreatedAt := pCreatedAt e, pUpdatedAt := pUpdatedAt e\<rparr>
                 else p\<lparr>pCreatedAt := pCreatedAt e\<rparr>))"

lemma stored_project_keys [simp]:
  "pID (stored_project old p) = pID p" "pName (stored_project old p) = pName p"
  by (simp_all add: stored_project_def split: option.splits)

lemma upsertProject_cases:
  assumes "upsertProject p create s = (e, s')"
  obtains (conflict) "e = Some ErrConflict" "s' = s"
  | (missing) "e = Some ErrNotFound" "s' = s" "gm_get (projects s) (pID p) = None"
  | (update) old where "e = None" "\<not> create" "gm_get (projects s) (pID p) = Some old"
      "\<not> taken_by_other (projectsByName s) (to_lower (pName p)) (pID p)"
      "s' = storeProject (stored_project (Some old) p)
        (s\<lparr>projectsByName := gm_del (to_lower (pName old)) (projectsByName s)\<rparr>)"
  | (create) "e = None" "create" "gm_get (projects s) (pID p) = None"
      "gm_get (projectsByName s) (to_lower (pName p)) = None" "s' = storeProject (stored_project None p) s"
proof (cases "gm_get (projects s) (pID p)")
  case None
  with assms conflict missing create show ?thesis
    by (auto simp: upsertProject_def Let_def stored_project_def split: if_splits)
next
  case (Some old)
  show ?thesis
  proof (cases "create \<or> taken_by_other (projectsByName s) (to_lower (pName p)) (pID p)")
    case True
    with Some assms conflict show ?thesis by (auto simp: upsertProject_def Let_def split: if_splits)
  next
    case False
    with Some assms update [of old] show ?thesis
      by (auto simp: upsertProject_def Let_def stored_project_def split: if_splits)
  qed
qed

lemma upsertProject_inv [fsm_op_inv]:
  assumes inv: "fsm_inv s" and up: "upsertProject p create s = (e, s')"
  shows "fsm_inv s'"
  using up
proof (cases rule: upsertProject_cases)
  case (update old)
  have "idx_ok project_name_key (gm_put (pID p) (stored_project (Some old) p) (projects s))
      (idx_add (project_name_key (stored_project (Some old) p)) (pID p)
        (idx_rm (project_name_key old) (projectsByName s)))"
    using fsm_invD(3) [OF inv] update taken_by_other_free [OF update(4)]
    by (intro idx_ok_replace) (auto simp: projects_inv_def project_name_key_def)
  then show ?thesis
    using fsm_invD(3) [OF inv] update(5)
      fsm_inv_projects_cong [OF inv, where p = "projects s'" and n = "projectsByName s'"]
    by (simp add: projects_inv_def storeProject_def tbl_ok_put project_name_key_def)
next
  case create
  have "idx_ok project_name_key (gm_put (pID p) (stored_project None p) (projects s))
      (idx_add (project_name_key (stored_project None p)) (pID p) (projectsByName s))"
    using fsm_invD(3) [OF inv] create
    by (intro idx_ok_insert) (auto simp: projects_inv_def project_name_key_def)
  then show ?thesis
    using fsm_invD(3) [OF inv] create(5)
      fsm_inv_projects_cong [OF inv, where p = "projects s'" and n = "projectsByName s'"]
    by (simp add: projects_inv_def storeProject_def tbl_ok_put project_name_key_def)
qed (use inv in simp_all)

lemma deleteProject_inv [fsm_op_inv]:
  assumes inv: "fsm_inv s"
  shows "fsm_inv (snd (deleteProject i s))"
proof (cases "gm_get (projects s) i")
  case (Some p)
  have "idx_ok project_name_key (gm_del i (projects s)) (idx_rm (project_name_key p) (projectsByName s))"
    using fsm_invD(3) [OF inv] Some by (auto simp: projects_inv_def intro: idx_ok_delete)
  then show ?thesis
    using fsm_invD(3) [OF inv] Some
    by (simp add: deleteProject_def fsm_inv_projects_cong [OF inv] projects_inv_def tbl_ok_del
        project_name_key_def [of p])
qed (use inv in \<open>simp add: deleteProject_def\<close>)

section \<open>Trace metadata and sessions\<close>

lemma fsm_inv_traces: "fsm_inv s \<Longrightarrow> tbl_ok tmTraceID t \<Longrightarrow> fsm_inv (s\<lparr>traces := t\<rparr>)"
  by (simp add: fsm_inv_def table_inv_defs mem_inv_def member_of_def)

lemma fsm_inv_meta: "fsm_inv s \<Longrightarrow> gm_ok m \<Longrightarrow> fsm_inv (s\<lparr>meta := m\<rparr>)"
  by (simp add: fsm_inv_def table_inv_defs mem_inv_def member_of_def)

lemma fsm_inv_sink:
  "fsm_inv s \<Longrightarrow> (\<And>st. sink = Some st \<Longrightarrow> store_inv st) \<Longrightarrow> fsm_inv (s\<lparr>sessionSink := sink\<rparr>)"
  by (simp add: fsm_inv_def table_inv_defs mem_inv_def member_of_def)

lemma fsm_inv_rest:
  assumes "fsm_inv s"
  shows "tbl_ok tmTraceID (traces s)" "gm_ok (meta s)" "sessionSink s = Some st \<Longrightarrow> store_inv st"
  using assms by (auto simp: fsm_inv_def rest_inv_def)

lemma mergeIngest_id [simp]: "tmTraceID (mergeIngest m e) = tmTraceID e"
  by (simp add: mergeIngest_def Let_def)

lemma upsertTraceProvision_inv [fsm_op_inv]:
  assumes "fsm_inv s"
  shows "fsm_inv (upsertTraceProvision p s)"
  using fsm_inv_rest(1) [OF assms]
  by (auto simp: upsertTraceProvision_def Let_def split: option.splits
      intro!: fsm_inv_traces [OF assms] tbl_ok_put dest: tbl_okD)

lemma upsertTraceIngest_inv [fsm_op_inv]:
  assumes "fsm_inv s"
  shows "fsm_inv (upsertTraceIngest m s)"
  using fsm_inv_rest(1) [OF assms]
  by (auto simp: upsertTraceIngest_def split: option.splits
      intro!: fsm_inv_traces [OF assms] tbl_ok_put dest: tbl_okD)

lemma markTraceFailed_inv [fsm_op_inv]:
  assumes "fsm_inv s"
  shows "fsm_inv (snd (markTraceFailed p s))"
  using fsm_inv_rest(1) [OF assms]
  by (auto simp: markTraceFailed_def assms split: option.splits
      intro!: fsm_inv_traces [OF assms] tbl_ok_put dest: tbl_okD)

lemma sink_registered_inv [fsm_op_inv]:
  assumes "fsm_inv s" and "0 \<le> lInFlight l"
  shows "fsm_inv (s\<lparr>sessionSink := map_option (ApplySessionRegistered (l\<lparr>lLastActivity := t\<rparr>)) (sessionSink s)\<rparr>)"
  using assms store_step_inv [where op = "OpApplyRegistered (l\<lparr>lLastActivity := t\<rparr>)"]
  by (auto intro!: fsm_inv_sink dest: fsm_inv_rest(3))

lemma sink_touched_inv [fsm_op_inv]:
  assumes "fsm_inv s"
  shows "fsm_inv (s\<lparr>sessionSink := map_option (ApplySessionTouched fp t) (sessionSink s)\<rparr>)"
  using assms store_step_inv [where op = "OpApplyTouched fp t"]
  by (auto intro!: fsm_inv_sink dest: fsm_inv_rest(3))

section \<open>Commands\<close>

definition cmd_ok :: "fsmState \<Rightarrow> command \<Rightarrow> bool" where
  "cmd_ok s cmd = (case cData cmd of
     PUser p \<Rightarrow> cuUsername p \<noteq> []
   | PToken t \<Rightarrow> token_ok s (cmdToken_toDomain t)
   | PUpsertSession l at' \<Rightarrow> 0 \<le> lInFlight l
   | _ \<Rightarrow> True)"

lemma applyEntityCommand_inv:
  assumes inv: "fsm_inv s" and ok: "cmd_ok s cmd" and ap: "applyEntityCommand cmd s = Some (e, s')"
  shows "fsm_inv s'"
proof (cases "cData cmd")
  case (PUser p)
  with ap inv ok show ?thesis
    by (auto simp: applyEntityCommand_def cmd_ok_def split: if_splits
        intro: upsertUser_inv [where u = "cmdUser_toDomain p"])
next
  case (PString i)
  then have "deleteUser i s = (e, s') \<or> deleteGroup i s = (e, s') \<or> deleteProject i s = (e, s') \<or> s' = s"
    using ap by (auto simp: applyEntityCommand_def split: if_splits)
  with inv deleteUser_inv [OF inv, of i] deleteGroup_inv [OF inv, of i] deleteProject_inv [OF inv, of i]
  show ?thesis by auto
next
  case (PToken t)
  with ap inv ok show ?thesis
    by (auto simp: applyEntityCommand_def cmd_ok_def split: if_splits intro: upsertToken_inv)
qed (use ap inv in \<open>auto simp: applyEntityCommand_def split: if_splits
       intro: upsertGroup_inv upsertProject_inv setMembers_inv deleteToken_inv touchToken_inv\<close>)

lemma applyTraceCacheCommand_inv:
  assumes inv: "fsm_inv s" and ap: "applyTraceCacheCommand cmd s = Some (e, s')"
  shows "fsm_inv s'"
proof (cases "cData cmd")
  case (PMarkFailed p)
  with ap inv markTraceFailed_inv [OF inv, of p] show ?thesis
    by (auto simp: applyTraceCacheCommand_def split: if_splits prod.splits)
qed (use ap inv fsm_inv_rest(1,2) [OF inv] in \<open>auto simp: applyTraceCacheCommand_def tbl_ok_del
       split: if_splits intro: fsm_op_inv fsm_inv_traces fsm_inv_meta\<close>)

lemma applySessionCommand_inv:
  assumes inv: "fsm_inv s" and ok: "cmd_ok s cmd" and ap: "applySessionCommand cmd s = Some (e, s')"
  shows "fsm_inv s'"
  by (cases "cData cmd")
    (use ap inv ok in \<open>auto simp: applySessionCommand_def cmd_ok_def
       split: if_splits intro: fsm_op_inv\<close>)

lemma applyCommand_inv:
  assumes "fsm_inv s" and "cmd_ok s cmd"
  shows "fsm_inv (snd (applyCommand cmd s))"
  using assms
  by (auto simp: applyCommand_def split: option.splits
      intro: applyEntityCommand_inv applyTraceCacheCommand_inv applySessionCommand_inv)

end
