(* ===== verification/FSM_Run.thy ===== *)
theory FSM_Run
  imports FSM_Invariant
begin

text \<open>
  Runs of the replicated state machine. \<open>fsm_reach\<close> is the inductive set of states that a log of
  well-formed commands leads to, starting from the empty state that \<^verbatim>\<open>NewFSM\<close> installs and
  with the session store attached by \<^verbatim>\<open>SetSessionSink\<close>; its invariant is proved by rule
  induction. \<open>run\<close> applies a whole log. \<open>sample_log\<close> is a small log with users, a group, tokens,
  traces and a session, whose final state \<open>sample\<close> the concrete examples of the other theories use.
\<close>

section \<open>Logs\<close>

definition run :: "command list \<Rightarrow> fsmState \<Rightarrow> fsmState" where
  "run log s = fold (\<lambda>c s. snd (applyCommand c s)) log s"

fun log_ok :: "command list \<Rightarrow> fsmState \<Rightarrow> bool" where
  "log_ok [] s \<longleftrightarrow> True"
| "log_ok (c # cs) s \<longleftrightarrow> cmd_ok s c \<and> log_ok cs (snd (applyCommand c s))"

lemma run_simps [simp]: "run [] s = s" "run (c # cs) s = run cs (snd (applyCommand c s))"
  by (simp_all add: run_def)

lemma run_append [simp]: "run (cs @ ds) s = run ds (run cs s)"
  by (simp add: run_def)

lemma run_inv: "fsm_inv s \<Longrightarrow> log_ok log s \<Longrightarrow> fsm_inv (run log s)"
  by (induction log arbitrary: s) (simp_all add: applyCommand_inv)

definition SetSessionSink :: "Store \<Rightarrow> fsmState \<Rightarrow> fsmState" where
  "SetSessionSink st s = s\<lparr>sessionSink := Some st\<rparr>"

section \<open>Reachable states\<close>

inductive fsm_reach :: "fsmState \<Rightarrow> bool" where
  init: "fsm_reach newState"
| attach: "fsm_reach s \<Longrightarrow> fsm_reach (SetSessionSink (NewStore d) s)"
| apply_log: "fsm_reach s \<Longrightarrow> cmd_ok s cmd \<Longrightarrow> Apply (Some cmd) s = (r, s') \<Longrightarrow> fsm_reach s'"
| apply_garbage: "fsm_reach s \<Longrightarrow> Apply None s = (r, s') \<Longrightarrow> fsm_reach s'"
| local_store: "fsm_reach s \<Longrightarrow> sessionSink s = Some st \<Longrightarrow> op_ok op \<Longrightarrow>
    fsm_reach (s\<lparr>sessionSink := Some (store_step op st)\<rparr>)"

lemma fsm_reach_inv: "fsm_reach s \<Longrightarrow> fsm_inv s"
proof (induction rule: fsm_reach.induct)
  case init
  then show ?case by (rule fsm_inv_newState)
next
  case (attach s d)
  then show ?case unfolding SetSessionSink_def by (intro fsm_inv_sink) auto
next
  case (apply_log s cmd r s')
  then show ?case using applyCommand_inv [of s cmd] by (simp add: Apply_def)
next
  case (apply_garbage s r s')
  then show ?case by (simp add: Apply_def)
next
  case (local_store s st op)
  then show ?case by (intro fsm_inv_sink) (auto intro: store_step_inv dest: fsm_inv_rest(3))
qed

section \<open>A sample log\<close>

definition sample_user :: "string \<Rightarrow> string \<Rightarrow> gotime \<Rightarrow> User" where
  "sample_user i name at' = \<lparr>uID = i, uUsername = name, uRole = RoleUser, uPasswordHash = ''pw'',
     uOAuthProvider = ''github'', uOAuthID = i, uOAuthTokenCiphertext = [], uOAuthGroupIDs = [],
     uOAuthGroups = [], uOAuthAdmin = False, uDeactivatedAt = None, uTokenVersion = 1,
     uCreatedAt = at', uUpdatedAt = zero_time\<rparr>"

definition sample_group :: "string \<Rightarrow> string \<Rightarrow> Group" where
  "sample_group i name = \<lparr>gID = i, gName = name, gDescription = [], gMaxRunnerSessions = 2,
     gAgentAvailable = True, gAutoAssignPattern = [], gCreatedAt = 10, gUpdatedAt = 10\<rparr>"

definition sample_project :: "string \<Rightarrow> string \<Rightarrow> string \<Rightarrow> Project" where
  "sample_project i name gid = \<lparr>pID = i, pName = name, pGroupID = gid, pCreatedAt = 10, pUpdatedAt = 10\<rparr>"

definition sample_token :: "string \<Rightarrow> string \<Rightarrow> string \<Rightarrow> APIToken" where
  "sample_token i uid h = \<lparr>tkID = i, tkUserID = uid, tkTokenHash = h, tkTokenCiphertext = [],
     tkPrefix = ''dgk_'', tkCreatedAt = 10, tkLastUsedAt = None\<rparr>"

definition sample_trace :: "string \<Rightarrow> string \<Rightarrow> string \<Rightarrow> string \<Rightarrow> gotime \<Rightarrow> TraceMeta" where
  "sample_trace i uid gid status at' = \<lparr>tmTraceID = i, tmUserID = uid, tmGroupID = gid,
     tmProjectName = ''web'', tmStatus = status, tmFailureReason = [], tmVersion = ''v0.19.1'',
     tmCIProvider = [], tmCIRepo = [], tmDurationMS = 5, tmStartedAt = at', tmUpdatedAt = at'\<rparr>"

definition sample_lease :: "string \<Rightarrow> Lease" where
  "sample_lease fp = \<lparr>lCertFP = fp, lVersion = ''v0.19.1'', lReplicaPod = ''pod-0'',
     lInstanceID = ''i'', lLastActivity = 0, lInFlight = 0, lTraceID = ''t1'', lUserID = ''u1'',
     lGroupID = ''g1''\<rparr>"

definition create_user :: "User \<Rightarrow> command" where
  "create_user u = newCommand kindUpsertUser (PUser ((cmdUserFrom u)\<lparr>cuCreate := True\<rparr>))"

definition sample_log :: "command list" where
  "sample_log = [
     create_user (sample_user ''u1'' ''Alice'' 10),
     create_user (sample_user ''u2'' ''bob'' 11),
     newCommand kindUpsertGroup (PGroup (sample_group ''g1'' ''Team'') True),
     newCommand kindUpsertGroup (PGroup (sample_group ''g2'' ''Ops'') True),
     newCommand kindSetMembers (PSetMembers ''g1'' [''u1'', ''u2'']),
     newCommand kindSetMembers (PSetMembers ''g2'' [''u1'']),
     newCommand kindUpsertProject (PProject (sample_project ''p1'' ''web'' ''g1'') True),
     newCommand kindUpsertToken (PToken (cmdTokenFrom (sample_token ''k1'' ''u1'' ''h1''))),
     newCommand kindUpsertTraceIngest (PIngest (sample_trace ''t1'' ''u1'' ''g1'' ''running'' 20)),
     newCommand kindUpsertTraceIngest (PIngest (sample_trace ''t2'' ''u2'' [] ''success'' 30)),
     newCommand kindUpsertTraceIngest (PIngest (sample_trace ''t3'' ''u1'' ''g2'' ''failed'' 25)),
     newCommand kindSetMeta (PSetMeta ''k'' ''v''),
     newCommand kindUpsertSession (PUpsertSession (sample_lease ''fp1'') 40)]"

definition sample :: fsmState where
  "sample = run sample_log (SetSessionSink (NewStore 100) newState)"

text \<open>The state in full, so that the evaluation of an example does not run the log again.\<close>

lemma sample_eval [code]:
  "sample = \<lparr>users = [(''u1'', \<lparr>uID = ''u1'', uUsername = ''Alice'', uRole = ''user'', uPasswordHash = ''pw'', uOAuthProvider = ''github'', uOAuthID
     = ''u1'', uOAuthTokenCiphertext = [], uOAuthGroupIDs = [], uOAuthGroups = [], uOAuthAdmin = False, uDeactivatedAt = None, uTokenVersion = 1,
     uCreatedAt = 10, uUpdatedAt = 10\<rparr>), (''u2'', \<lparr>uID = ''u2'', uUsername = ''bob'', uRole = ''user'', uPasswordHash = ''pw'',
     uOAuthProvider = ''github'', uOAuthID = ''u2'', uOAuthTokenCiphertext = [], uOAuthGroupIDs = [], uOAuthGroups = [], uOAuthAdmin = False,
     uDeactivatedAt = None, uTokenVersion = 1, uCreatedAt = 11, uUpdatedAt = 11\<rparr>)], usersByName = [(''alice'', ''u1''), (''bob'', ''u2'')],
     usersByOAuth = [([CHR ''g'', CHR ''i'', CHR ''t'', CHR ''h'', CHR ''u'', CHR ''b'', CHR 0x00, CHR ''u'', CHR ''1''], ''u1''), ([CHR ''g'', CHR ''i'',
     CHR ''t'', CHR ''h'', CHR ''u'', CHR ''b'', CHR 0x00, CHR ''u'', CHR ''2''], ''u2'')], groups = [(''g1'', \<lparr>gID = ''g1'', gName = ''Team'',
     gDescription = [], gMaxRunnerSessions = 2, gAgentAvailable = True, gAutoAssignPattern = [], gCreatedAt = 10, gUpdatedAt = 10\<rparr>), (''g2'',
     \<lparr>gID = ''g2'', gName = ''Ops'', gDescription = [], gMaxRunnerSessions = 2, gAgentAvailable = True, gAutoAssignPattern = [], gCreatedAt = 10,
     gUpdatedAt = 10\<rparr>)], groupsByName = [(''team'', ''g1''), (''ops'', ''g2'')], memberships = [(''g1'', [''u2'', ''u1'']), (''g2'', [''u1''])],
     membershipsByUser = [(''u2'', [''g1'']), (''u1'', [''g2'', ''g1''])], tokens = [(''k1'', \<lparr>tkID = ''k1'', tkUserID = ''u1'', tkTokenHash =
     ''h1'', tkTokenCiphertext = [], tkPrefix = ''dgk_'', tkCreatedAt = 10, tkLastUsedAt = None\<rparr>)], tokensByHash = [(''h1'', ''k1'')], tokensByUser
     = [(''u1'', ''k1'')], projects = [(''p1'', \<lparr>pID = ''p1'', pName = ''web'', pGroupID = ''g1'', pCreatedAt = 10, pUpdatedAt = 10\<rparr>)],
     projectsByName = [(''web'', ''p1'')], traces = [(''t1'', \<lparr>tmTraceID = ''t1'', tmUserID = ''u1'', tmGroupID = ''g1'', tmProjectName = ''web'',
     tmStatus = ''running'', tmFailureReason = [], tmVersion = ''v0.19.1'', tmCIProvider = [], tmCIRepo = [], tmDurationMS = 5, tmStartedAt = 20,
     tmUpdatedAt = 20\<rparr>), (''t2'', \<lparr>tmTraceID = ''t2'', tmUserID = ''u2'', tmGroupID = [], tmProjectName = ''web'', tmStatus = ''success'',
     tmFailureReason = [], tmVersion = ''v0.19.1'', tmCIProvider = [], tmCIRepo = [], tmDurationMS = 5, tmStartedAt = 30, tmUpdatedAt = 30\<rparr>),
     (''t3'', \<lparr>tmTraceID = ''t3'', tmUserID = ''u1'', tmGroupID = ''g2'', tmProjectName = ''web'', tmStatus = ''failed'', tmFailureReason = [],
     tmVersion = ''v0.19.1'', tmCIProvider = [], tmCIRepo = [], tmDurationMS = 5, tmStartedAt = 25, tmUpdatedAt = 25\<rparr>)], meta = [(''k'', ''v'')],
     sessionSink = Some \<lparr>leases = [(''fp1'', \<lparr>lCertFP = ''fp1'', lVersion = ''v0.19.1'', lReplicaPod = ''pod-0'', lInstanceID = ''i'',
     lLastActivity = 40, lInFlight = 0, lTraceID = ''t1'', lUserID = ''u1'', lGroupID = ''g1''\<rparr>)], ttl = 100\<rparr>\<rparr>"
  by code_simp

lemma sample_inv: "fsm_inv sample"
proof -
  have "log_ok sample_log (SetSessionSink (NewStore 100) newState)" by code_simp
  moreover have "fsm_inv (SetSessionSink (NewStore 100) newState)"
    by (intro fsm_reach_inv fsm_reach.intros)
  ultimately show ?thesis unfolding sample_def by (simp add: run_inv)
qed

end
