(* ===== verification/FSM_Snapshot.thy ===== *)
theory FSM_Snapshot
  imports FSM_Run
begin

text \<open>
  Snapshots of the replicated state machine, \<^verbatim>\<open>src/internal/repository/fsm_snapshot.go\<close>.
  \<open>Snapshot\<close> copies the tables and the membership edges into a payload, \<open>Restore\<close> rebuilds every
  table and every index from it and swaps the maps in. A payload is the value the JSON document
  encodes; its lists may hold null entries (\<open>None\<close>), which \<open>Restore\<close> skips, and a document that
  does not decode is \<open>None\<close>. \<open>fsm_eq\<close> is equality of the replicated part of two states, up to the
  order in which maps and sets are visited.
\<close>

section \<open>Snapshot and restore\<close>

record fsmSnapshotPayload =
  spUsers :: "cmdUser option list"
  spGroups :: "Group option list"
  spMemberships :: "(string \<times> string) list"
  spTokens :: "cmdToken option list"
  spProjects :: "Project option list"
  spTraces :: "TraceMeta option list"
  spMeta :: "(string, string) gomap"

definition copySlice :: "(string, 'r) gomap \<Rightarrow> 'r option list" where
  "copySlice m = map (\<lambda>(k, v). Some v) m"

definition Snapshot :: "fsmState \<Rightarrow> fsmSnapshotPayload" where
  "Snapshot s = \<lparr>spUsers = map (\<lambda>(k, u). Some (cmdUserFrom u)) (users s),
     spGroups = copySlice (groups s),
     spMemberships = concat (map (\<lambda>(gid, set'). map (\<lambda>uid. (gid, uid)) set') (memberships s)),
     spTokens = map (\<lambda>(k, t). Some (cmdTokenFrom t)) (tokens s),
     spProjects = copySlice (projects s), spTraces = copySlice (traces s),
     spMeta = fold (\<lambda>(k, v). gm_put k v) (meta s) []\<rparr>"

definition adopt :: "fsmState \<Rightarrow> fsmState \<Rightarrow> fsmState" where
  "adopt other s = s\<lparr>users := users other, usersByName := usersByName other,
     usersByOAuth := usersByOAuth other, groups := groups other, groupsByName := groupsByName other,
     memberships := memberships other, membershipsByUser := membershipsByUser other,
     tokens := tokens other, tokensByHash := tokensByHash other, tokensByUser := tokensByUser other,
     projects := projects other, projectsByName := projectsByName other,
     traces := traces other, meta := meta other\<rparr>"

text \<open>A \<^verbatim>\<open>range\<close> loop that skips the nil entries of a list.\<close>

definition fold_some :: "('a \<Rightarrow> 's \<Rightarrow> 's) \<Rightarrow> 'a option list \<Rightarrow> 's \<Rightarrow> 's" where
  "fold_some f xs s = fold (\<lambda>x s. case x of None \<Rightarrow> s | Some x \<Rightarrow> f x s) xs s"

definition restore_state :: "fsmSnapshotPayload \<Rightarrow> fsmState" where
  "restore_state p =
     (let s = newState;
          s = fold_some (\<lambda>cu. storeUser (cmdUser_toDomain cu)) (spUsers p) s;
          s = fold_some storeGroup (spGroups p) s;
          s = fold_some (\<lambda>ct. storeToken (cmdToken_toDomain ct)) (spTokens p) s;
          s = fold_some storeProject (spProjects p) s;
          s = fold_some (\<lambda>m s. s\<lparr>traces := gm_put (tmTraceID m) m (traces s)\<rparr>) (spTraces p) s;
          s = fold (\<lambda>(k, v) s. s\<lparr>meta := gm_put k v (meta s)\<rparr>) (spMeta p) s
      in fold (\<lambda>(gid, uid). addMembership gid uid) (spMemberships p) s)"

definition Restore :: "fsmSnapshotPayload option \<Rightarrow> fsmState \<Rightarrow> error option \<times> fsmState" where
  "Restore rc s = (case rc of
     None \<Rightarrow> (Some (ErrOther ''decode snapshot''), s)
   | Some p \<Rightarrow> (None, adopt (restore_state p) s))"

section \<open>Equality of the replicated part\<close>

definition adj_eq :: "(string, string list) gomap \<Rightarrow> (string, string list) gomap \<Rightarrow> bool" where
  "adj_eq m n \<longleftrightarrow> (\<forall>a. set (edges m a) = set (edges n a))"

definition fsm_eq :: "fsmState \<Rightarrow> fsmState \<Rightarrow> bool" where
  "fsm_eq s t \<longleftrightarrow> gm_eq (users s) (users t) \<and> gm_eq (usersByName s) (usersByName t)
     \<and> gm_eq (usersByOAuth s) (usersByOAuth t) \<and> gm_eq (groups s) (groups t)
     \<and> gm_eq (groupsByName s) (groupsByName t) \<and> adj_eq (memberships s) (memberships t)
     \<and> adj_eq (membershipsByUser s) (membershipsByUser t) \<and> gm_eq (tokens s) (tokens t)
     \<and> gm_eq (tokensByHash s) (tokensByHash t) \<and> gm_eq (tokensByUser s) (tokensByUser t)
     \<and> gm_eq (projects s) (projects t) \<and> gm_eq (projectsByName s) (projectsByName t)
     \<and> gm_eq (traces s) (traces t) \<and> gm_eq (meta s) (meta t)"

lemma fsm_eq_refl [simp]: "fsm_eq s s"
  by (simp add: fsm_eq_def adj_eq_def)

section \<open>The state that is restored\<close>

lemma fold_some_rows:
  "(\<And>r. dec (enc r) = r) \<Longrightarrow>
     fold_some (\<lambda>c. f (dec c)) (map (\<lambda>(k, r). Some (enc r)) m) s = fold f (map snd m) s"
  by (induction m arbitrary: s) (auto simp: fold_some_def)

lemma fold_copySlice: "fold_some f (copySlice m) s = fold f (map snd m) s"
  unfolding copySlice_def by (rule fold_some_rows [of "\<lambda>r. r" "\<lambda>r. r"]) simp

lemma fold_storeUser:
  "fold storeUser us s = s\<lparr>users := fold (\<lambda>u. gm_put (uID u) u) us (users s),
     usersByName := fold (\<lambda>u. idx_add (user_name_key u) (uID u)) us (usersByName s),
     usersByOAuth := fold (\<lambda>u. idx_add (user_oauth_key u) (uID u)) us (usersByOAuth s)\<rparr>"
  by (induction us arbitrary: s) (simp_all add: storeUser_def key_defs Let_def)

lemma fold_storeGroup:
  "fold storeGroup gs s = s\<lparr>groups := fold (\<lambda>g. gm_put (gID g) g) gs (groups s),
     groupsByName := fold (\<lambda>g. idx_add (group_name_key g) (gID g)) gs (groupsByName s)\<rparr>"
  by (induction gs arbitrary: s) (simp_all add: storeGroup_def key_defs)

lemma fold_storeToken:
  "fold storeToken ts s = s\<lparr>tokens := fold (\<lambda>t. gm_put (tkID t) t) ts (tokens s),
     tokensByHash := fold (\<lambda>t. idx_add (token_hash_key t) (tkID t)) ts (tokensByHash s),
     tokensByUser := fold (\<lambda>t. idx_add (token_user_key t) (tkID t)) ts (tokensByUser s)\<rparr>"
  by (induction ts arbitrary: s) (simp_all add: storeToken_def key_defs)

lemma fold_storeProject:
  "fold storeProject ps s = s\<lparr>projects := fold (\<lambda>p. gm_put (pID p) p) ps (projects s),
     projectsByName := fold (\<lambda>p. idx_add (project_name_key p) (pID p)) ps (projectsByName s)\<rparr>"
  by (induction ps arbitrary: s) (simp_all add: storeProject_def key_defs)

lemma fold_storeTrace:
  "fold (\<lambda>m s. s\<lparr>traces := gm_put (tmTraceID m) m (traces s)\<rparr>) ms s =
     s\<lparr>traces := fold (\<lambda>m. gm_put (tmTraceID m) m) ms (traces s)\<rparr>"
  by (induction ms arbitrary: s) simp_all

lemma fold_setMeta:
  "fold (\<lambda>(k, v) s. s\<lparr>meta := gm_put k v (meta s)\<rparr>) kvs s =
     s\<lparr>meta := fold (\<lambda>(k, v). gm_put k v) kvs (meta s)\<rparr>"
  by (induction kvs arbitrary: s) auto

lemma fold_addMembership:
  "fold (\<lambda>(gid, uid). addMembership gid uid) es s = s\<lparr>
     memberships := fold (\<lambda>(gid, uid). link gid uid) es (memberships s),
     membershipsByUser := fold (\<lambda>(gid, uid). link uid gid) es (membershipsByUser s)\<rparr>"
  by (induction es arbitrary: s) (auto simp: addMembership_def)

lemma edges_fold_pairs:
  "set (edges (fold (\<lambda>(a, b). link a b) es m) x) = set (edges m x) \<union> {b. (x, b) \<in> set es}"
  "set (edges (fold (\<lambda>(b, a). link a b) es m) x) = set (edges m x) \<union> {b. (b, x) \<in> set es}"
  by (induction es arbitrary: m) (auto split: if_splits)

lemma rebuild_meta: "gm_ok m \<Longrightarrow> gm_eq (fold (\<lambda>(k, v). gm_put k v) m []) m"
  using rebuild [of m m "\<lambda>kv. Some (fst kv)" snd]
  by (auto simp: gm_get_in idx_add_Some case_prod_unfold Bex_def)

lemma restore_Snapshot:
  "restore_state (Snapshot s) = \<lparr>
     users = fold (\<lambda>u. gm_put (uID u) u) (map snd (users s)) [],
     usersByName = fold (\<lambda>u. idx_add (user_name_key u) (uID u)) (map snd (users s)) [],
     usersByOAuth = fold (\<lambda>u. idx_add (user_oauth_key u) (uID u)) (map snd (users s)) [],
     groups = fold (\<lambda>g. gm_put (gID g) g) (map snd (groups s)) [],
     groupsByName = fold (\<lambda>g. idx_add (group_name_key g) (gID g)) (map snd (groups s)) [],
     memberships = fold (\<lambda>(gid, uid). link gid uid) (spMemberships (Snapshot s)) [],
     membershipsByUser = fold (\<lambda>(gid, uid). link uid gid) (spMemberships (Snapshot s)) [],
     tokens = fold (\<lambda>t. gm_put (tkID t) t) (map snd (tokens s)) [],
     tokensByHash = fold (\<lambda>t. idx_add (token_hash_key t) (tkID t)) (map snd (tokens s)) [],
     tokensByUser = fold (\<lambda>t. idx_add (token_user_key t) (tkID t)) (map snd (tokens s)) [],
     projects = fold (\<lambda>p. gm_put (pID p) p) (map snd (projects s)) [],
     projectsByName = fold (\<lambda>p. idx_add (project_name_key p) (pID p)) (map snd (projects s)) [],
     traces = fold (\<lambda>m. gm_put (tmTraceID m) m) (map snd (traces s)) [],
     meta = fold (\<lambda>(k, v). gm_put k v) (fold (\<lambda>(k, v). gm_put k v) (meta s) []) [],
     sessionSink = None\<rparr>"
proof -
  have parts: "spUsers (Snapshot s) = map (\<lambda>(k, u). Some (cmdUserFrom u)) (users s)"
    "spTokens (Snapshot s) = map (\<lambda>(k, t). Some (cmdTokenFrom t)) (tokens s)"
    "spGroups (Snapshot s) = copySlice (groups s)" "spProjects (Snapshot s) = copySlice (projects s)"
    "spTraces (Snapshot s) = copySlice (traces s)"
    "spMeta (Snapshot s) = fold (\<lambda>(k, v). gm_put k v) (meta s) []"
    by (simp_all add: Snapshot_def)
  show ?thesis
    unfolding restore_state_def Let_def parts fold_some_rows [of cmdUser_toDomain cmdUserFrom, OF cmdUser_round]
      fold_some_rows [of cmdToken_toDomain cmdTokenFrom, OF cmdToken_round] fold_copySlice fold_storeUser fold_storeGroup fold_storeToken
      fold_storeProject fold_storeTrace fold_setMeta fold_addMembership newState_def
    by (simp only: fsmState.simps)
qed

lemma set_snapshot_edges:
  "adj_ok (memberships s) \<Longrightarrow>
     (gid, uid) \<in> set (spMemberships (Snapshot s)) \<longleftrightarrow> uid \<in> set (edges (memberships s) gid)"
  by (force simp: Snapshot_def edges_def gm_get_in [OF adj_ok_gm, symmetric] split: option.splits)

lemma gm_ok_fold_put: "gm_ok m \<Longrightarrow> gm_ok (fold (\<lambda>r. gm_put (f r) (g r)) rs m)"
  by (induction rs arbitrary: m) simp_all

lemma gm_ok_fold_kv: "gm_ok m \<Longrightarrow> gm_ok (fold (\<lambda>(k, v). gm_put k v) kvs m)"
  using gm_ok_fold_put [of m fst snd kvs] by (simp add: case_prod_unfold)

lemma gm_ok_fold_idx: "gm_ok m \<Longrightarrow> gm_ok (fold (\<lambda>r. idx_add (f r) (g r)) rs m)"
proof (induction rs arbitrary: m)
  case (Cons r rs)
  then show ?case by (cases "f r") simp_all
qed simp

lemma gm_eq_trans: "gm_eq m n \<Longrightarrow> gm_eq n p \<Longrightarrow> gm_eq m p"
  by (simp add: gm_eq_def)

lemma restored_meta:
  assumes "gm_ok m"
  shows "gm_eq (fold (\<lambda>(k, v). gm_put k v) (fold (\<lambda>(k, v). gm_put k v) m []) []) m"
proof -
  have "gm_ok (fold (\<lambda>(k, v). gm_put k v) m [])" by (simp add: gm_ok_fold_kv)
  from rebuild_meta [OF this] rebuild_meta [OF assms] show ?thesis by (rule gm_eq_trans)
qed

lemma restored_eq:
  assumes inv: "fsm_inv s"
  shows "fsm_eq (restore_state (Snapshot s)) s"
proof -
  note t = fsm_invD [OF inv]
  note m = mem_invD [OF t(5)]
  have us: "tbl_ok uID (users s)" "idx_ok user_name_key (users s) (usersByName s)"
    "idx_ok user_oauth_key (users s) (usersByOAuth s)" using t(1) by (simp_all add: users_inv_def)
  have gs: "tbl_ok gID (groups s)" "idx_ok group_name_key (groups s) (groupsByName s)"
    using t(2) by (simp_all add: groups_inv_def)
  have ps: "tbl_ok pID (projects s)" "idx_ok project_name_key (projects s) (projectsByName s)"
    using t(3) by (simp_all add: projects_inv_def)
  have ts: "tbl_ok tkID (tokens s)" "idx_ok token_hash_key (tokens s) (tokensByHash s)"
    "idx_ok token_user_key (tokens s) (tokensByUser s)" using t(4) by (simp_all add: tokens_inv_def)
  have "adj_eq (memberships (restore_state (Snapshot s))) (memberships s)"
    "adj_eq (membershipsByUser (restore_state (Snapshot s))) (membershipsByUser s)"
    using set_snapshot_edges [OF m(1)] m(3)
    by (auto simp: adj_eq_def restore_Snapshot edges_fold_pairs edges_def [of "[]"])
  then show ?thesis
    unfolding fsm_eq_def restore_Snapshot fsmState.simps
    using fsm_inv_rest(1,2) [OF inv]
    by (intro conjI rebuild_table rebuild_index restored_meta us gs ps ts) assumption+
qed

section \<open>Equality keeps the invariant\<close>

text \<open>What the invariant says of the representation alone: map keys are distinct, sets are not empty.\<close>

definition fsm_shape :: "fsmState \<Rightarrow> bool" where
  "fsm_shape s \<longleftrightarrow> gm_ok (users s) \<and> gm_ok (usersByName s) \<and> gm_ok (usersByOAuth s) \<and> gm_ok (groups s)
     \<and> gm_ok (groupsByName s) \<and> adj_ok (memberships s) \<and> adj_ok (membershipsByUser s)
     \<and> gm_ok (tokens s) \<and> gm_ok (tokensByHash s) \<and> gm_ok (tokensByUser s) \<and> gm_ok (projects s)
     \<and> gm_ok (projectsByName s) \<and> gm_ok (traces s) \<and> gm_ok (meta s)
     \<and> (\<forall>st. sessionSink s = Some st \<longrightarrow> store_inv st)"

lemma tbl_ok_cong: "gm_eq n m \<Longrightarrow> gm_ok n \<Longrightarrow> tbl_ok rid m \<Longrightarrow> tbl_ok rid n"
  by (simp add: tbl_ok_def gm_eq_def)

lemma idx_ok_eq: "gm_eq n m \<Longrightarrow> gm_eq jdx idx \<Longrightarrow> gm_ok jdx \<Longrightarrow> idx_ok key m idx \<Longrightarrow> idx_ok key n jdx"
  by (simp add: idx_ok_def gm_eq_def)

lemma fsm_inv_shape: "fsm_inv s \<Longrightarrow> fsm_shape s"
  by (auto simp: fsm_shape_def fsm_inv_def table_inv_defs mem_inv_def dest: idx_ok_gm)

lemma fsm_inv_eq:
  assumes eq: "fsm_eq r s" and inv: "fsm_inv s" and shape: "fsm_shape r"
  shows "fsm_inv r"
proof (rule fsm_invI)
  note e = eq [unfolded fsm_eq_def] and sh = shape [unfolded fsm_shape_def] and i = fsm_invD [OF inv]
  have "\<forall>k u. gm_get (users r) k = Some u \<longrightarrow> uUsername u \<noteq> []"
    using e i(1) by (simp add: users_inv_def gm_eq_def)
  then show "users_inv r"
    using e sh i(1) unfolding users_inv_def by (blast intro: tbl_ok_cong idx_ok_eq)
  show "groups_inv r" "projects_inv r" "tokens_inv r"
    using e sh i(2-4) unfolding groups_inv_def projects_inv_def tokens_inv_def
    by (blast intro: tbl_ok_cong idx_ok_eq)+
  show "rest_inv r"
    using e sh i(6) unfolding rest_inv_def by (blast intro: tbl_ok_cong)
  show "mem_inv r"
    using e sh i(5) by (simp add: mem_inv_def member_of_def adj_eq_def gm_eq_def)
qed

lemma adj_ok_fold_pairs:
  "adj_ok m \<Longrightarrow> adj_ok (fold (\<lambda>(a, b). link a b) es m)"
  "adj_ok m \<Longrightarrow> adj_ok (fold (\<lambda>(b, a). link a b) es m)"
  by (induction es arbitrary: m) (auto simp: adj_ok_link)

lemma restored_shape: "fsm_shape (restore_state (Snapshot s))"
  unfolding restore_Snapshot fsm_shape_def fsmState.simps
  by (simp only: gm_ok_fold_put gm_ok_fold_idx gm_ok_fold_kv adj_ok_fold_pairs gm_ok_Nil adj_ok_Nil) simp

lemma Restore_Snapshot:
  "Restore (Some (Snapshot s)) t = (None, (restore_state (Snapshot s))\<lparr>sessionSink := sessionSink t\<rparr>)"
  by (simp add: Restore_def adopt_def)

lemma fsm_eq_sink [simp]: "fsm_eq (s\<lparr>sessionSink := k\<rparr>) t \<longleftrightarrow> fsm_eq s t"
  by (simp add: fsm_eq_def)

lemma Restore_inv:
  assumes "fsm_inv s" and "fsm_inv t"
  shows "fsm_inv (snd (Restore (Some (Snapshot s)) t))"
proof (rule fsm_inv_eq [OF _ assms(1)])
  show "fsm_eq (snd (Restore (Some (Snapshot s)) t)) s"
    using restored_eq [OF assms(1)] by (simp add: Restore_Snapshot)
  show "fsm_shape (snd (Restore (Some (Snapshot s)) t))"
    using restored_shape [of s] fsm_inv_rest(3) [OF assms(2)] by (simp add: Restore_Snapshot fsm_shape_def)
qed

text \<open>
  C21: a snapshot restores the state it was taken from. Restoring it into any state of the
  invariant succeeds, gives every table, every index and the membership relation back as they were
  when the snapshot was taken (nothing of the old state is left), keeps the node's own
  session store, and gives a state of the invariant again.
\<close>

theorem snapshot_round_trip:
  assumes "fsm_inv s" and "fsm_inv t"
  shows "\<exists>t'. Restore (Some (Snapshot s)) t = (None, t') \<and> fsm_eq t' s
    \<and> sessionSink t' = sessionSink t \<and> fsm_inv t'"
  using restored_eq [OF assms(1)] Restore_inv [OF assms] by (simp add: Restore_Snapshot)

theorem snapshot_round_trip_witness:
  "\<exists>t'. Restore (Some (Snapshot sample)) newState = (None, t') \<and> fsm_eq t' sample"
  using snapshot_round_trip [OF sample_inv fsm_inv_newState] by blast

end
