(* ===== verification/FSM_Reads.thy ===== *)
theory FSM_Reads
  imports FSM_Run
begin

text \<open>
  The read helpers of the replicated state machine, \<^verbatim>\<open>src/internal/repository/fsm.go\<close>
  lines 862 to 1266. A helper that goes through a secondary index dereferences the row it finds
  there without a check: a missing row is a nil dereference, the value \<open>Inl Panic\<close>. The locale
  \<open>indexed_table\<close> states what a helper needs from the state, a table with a unique index, and
  proves once that a lookup through the index cannot panic and finds exactly the row with that key; it
  is interpreted on the six indices of the state. \<^verbatim>\<open>sort.Slice\<close> is \<open>sort_key\<close>, whose
  result is the only sorted one where the key separates the rows.
\<close>

section \<open>Lookups\<close>

definition read_row :: "(string, 'r) gomap \<Rightarrow> string \<Rightarrow> (error, 'r) result" where
  "read_row tbl i = (case gm_get tbl i of None \<Rightarrow> Inl ErrNotFound | Some r \<Rightarrow> Inr r)"

definition read_idx ::
    "(string, string) gomap \<Rightarrow> (string, 'r) gomap \<Rightarrow> string \<Rightarrow> (error, 'r) result" where
  "read_idx idx tbl k = (case gm_get idx k of
     None \<Rightarrow> Inl ErrNotFound
   | Some i \<Rightarrow> (case gm_get tbl i of None \<Rightarrow> Inl Panic | Some r \<Rightarrow> Inr r))"

definition readUserByID :: "string \<Rightarrow> fsmState \<Rightarrow> (error, User) result" where
  "readUserByID i s = read_row (users s) i"

definition readUserByUsername :: "string \<Rightarrow> fsmState \<Rightarrow> (error, User) result" where
  "readUserByUsername username s = read_idx (usersByName s) (users s) (to_lower username)"

definition readUserByOAuth :: "string \<Rightarrow> string \<Rightarrow> fsmState \<Rightarrow> (error, User) result" where
  "readUserByOAuth provider oauthID s =
     read_idx (usersByOAuth s) (users s) (oauthKey provider oauthID)"

definition readGroupByID :: "string \<Rightarrow> fsmState \<Rightarrow> (error, Group) result" where
  "readGroupByID i s = read_row (groups s) i"

definition readGroupByName :: "string \<Rightarrow> fsmState \<Rightarrow> (error, Group) result" where
  "readGroupByName name s = read_idx (groupsByName s) (groups s) (to_lower name)"

definition readProjectByID :: "string \<Rightarrow> fsmState \<Rightarrow> (error, Project) result" where
  "readProjectByID i s = read_row (projects s) i"

definition readProjectByName :: "string \<Rightarrow> fsmState \<Rightarrow> (error, Project) result" where
  "readProjectByName name s = read_idx (projectsByName s) (projects s) (to_lower name)"

text \<open>\<^verbatim>\<open>copyToken\<close> maps a nil token to nil, so a dangling index gives a nil token and no error.\<close>

definition copyToken :: "APIToken option \<Rightarrow> APIToken option" where
  "copyToken t = (case t of None \<Rightarrow> None
     | Some t \<Rightarrow> Some (case tkLastUsedAt t of None \<Rightarrow> t | Some at' \<Rightarrow> t\<lparr>tkLastUsedAt := Some at'\<rparr>))"

definition readTokenByHash :: "string \<Rightarrow> fsmState \<Rightarrow> (error, APIToken option) result" where
  "readTokenByHash hash s = (case gm_get (tokensByHash s) hash of
     None \<Rightarrow> Inl ErrNotFound | Some i \<Rightarrow> Inr (copyToken (gm_get (tokens s) i)))"

definition readTokenByUser :: "string \<Rightarrow> fsmState \<Rightarrow> (error, APIToken option) result" where
  "readTokenByUser userID s = (case gm_get (tokensByUser s) userID of
     None \<Rightarrow> Inl ErrNotFound | Some i \<Rightarrow> Inr (copyToken (gm_get (tokens s) i)))"

definition readTrace :: "string \<Rightarrow> fsmState \<Rightarrow> (error, TraceMeta) result" where
  "readTrace traceID s = read_row (traces s) traceID"

definition readMeta :: "string \<Rightarrow> fsmState \<Rightarrow> (error, string) result" where
  "readMeta k s = read_row (meta s) k"

section \<open>Lists\<close>

definition listUsers :: "fsmState \<Rightarrow> User list" where
  "listUsers s = sort_key (\<lambda>u. (uCreatedAt u, uID u)) (map snd (users s))"

definition countUsers :: "fsmState \<Rightarrow> nat" where
  "countUsers s = length (users s)"

definition listGroups :: "fsmState \<Rightarrow> Group list" where
  "listGroups s = sort_key gID (map snd (groups s))"

definition listProjects :: "fsmState \<Rightarrow> Project list" where
  "listProjects s = sort_key (\<lambda>p. (pCreatedAt p, pID p)) (map snd (projects s))"

definition members :: "string \<Rightarrow> fsmState \<Rightarrow> User list" where
  "members groupID s =
     sort_key uUsername (List.map_filter (gm_get (users s)) (edges (memberships s) groupID))"

definition groupsForUser :: "string \<Rightarrow> fsmState \<Rightarrow> Group list" where
  "groupsForUser userID s =
     sort_key gID (List.map_filter (gm_get (groups s)) (edges (membershipsByUser s) userID))"

definition allMemberships :: "fsmState \<Rightarrow> (string, string list) gomap" where
  "allMemberships s = gm_map sort (memberships s)"

section \<open>Traces\<close>

definition traceSortKey :: "TraceMeta \<Rightarrow> gotime" where
  "traceSortKey m = (if \<not> is_zero (tmStartedAt m) then tmStartedAt m else tmUpdatedAt m)"

definition containsFold :: "string \<Rightarrow> string \<Rightarrow> bool" where
  "containsFold s substr \<longleftrightarrow> (if substr = [] then True else contains (to_lower s) (to_lower substr))"

definition clampLimit :: "int \<Rightarrow> int" where
  "clampLimit n = (if n \<le> 0 then DefaultTraceLimit
     else if n > MaxTraceLimit then MaxTraceLimit else n)"

definition traceMatches :: "TraceFilter \<Rightarrow> TraceMeta \<Rightarrow> bool" where
  "traceMatches f m =
     (if fUnassignedOnly f then tmGroupID m = []
      else if fGroupIDs f \<noteq> [] then
        if List.member (fGroupIDs f) (tmGroupID m) then True
        else if fUserID f \<noteq> [] then tmGroupID m = [] \<and> tmUserID m = fUserID f
        else False
      else if \<not> fIncludeUnassigned f \<and> fUserID f \<noteq> [] then tmUserID m = fUserID f
      else True)"

definition listTracesBefore :: "gotime \<Rightarrow> bool \<Rightarrow> fsmState \<Rightarrow> TraceMeta list" where
  "listTracesBefore cutoff protectRunning s =
     sort_key traceSortKey (filter (\<lambda>m.
       \<not> is_zero (traceSortKey m) \<and> \<not> traceSortKey m > cutoff
       \<and> \<not> (protectRunning \<and> running (tmStatus m))) (map snd (traces s)))"

definition listRunningTraces :: "fsmState \<Rightarrow> TraceMeta list" where
  "listRunningTraces s =
     sort_key (\<lambda>m. (traceSortKey m, tmTraceID m))
       (filter (\<lambda>m. running (tmStatus m) \<and> tmVersion m \<noteq> []) (map snd (traces s)))"

fun oldest_key :: "TraceMeta list \<Rightarrow> gotime \<Rightarrow> gotime" where
  "oldest_key [] oldest = oldest"
| "oldest_key (m # ms) oldest =
     (let k = traceSortKey m in
      if is_zero k then oldest_key ms oldest
      else if is_zero oldest \<or> k < oldest then oldest_key ms k
      else oldest_key ms oldest)"

definition traceStats :: "fsmState \<Rightarrow> nat \<times> gotime" where
  "traceStats s = (length (traces s), oldest_key (map snd (traces s)) zero_time)"

text \<open>The row of one trace, joined with the names of its group and user, or none if filtered out.\<close>

definition trace_row :: "TraceFilter \<Rightarrow> fsmState \<Rightarrow> TraceMeta \<Rightarrow> TraceListResult option" where
  "trace_row f s m =
     (if \<not> traceMatches f m then None
      else
        let m' = (if tmStatus m = [] \<or> tmStatus m = ''unset'' then m\<lparr>tmStatus := ''running''\<rparr> else m);
            gname = (case gm_get (groups s) (tmGroupID m) of None \<Rightarrow> [] | Some g \<Rightarrow> gName g);
            uname = (case gm_get (users s) (tmUserID m) of None \<Rightarrow> [] | Some u \<Rightarrow> uUsername u);
            r = \<lparr>trMeta = m', trGroupName = gname, trUsername = uname\<rparr>
        in if fCIRepo f \<noteq> [] \<and> \<not> containsFold (tmCIRepo m') (fCIRepo f)
              \<and> \<not> containsFold (tmProjectName m') (fCIRepo f) then None
           else if fUsername f \<noteq> [] \<and> \<not> containsFold uname (fUsername f) then None
           else Some r)"

definition row_key :: "TraceListResult \<Rightarrow> int \<times> string" where
  "row_key r = (- traceSortKey (trMeta r), tmTraceID (trMeta r))"

definition listTraces :: "TraceFilter \<Rightarrow> fsmState \<Rightarrow> TraceListResult list" where
  "listTraces f s =
     (let out = sort_key row_key (List.map_filter (trace_row f s) (map snd (traces s)))
      in take (nat (clampLimit (fLimit f))) out)"

section \<open>Indexed tables\<close>

locale indexed_table =
  fixes inv :: "'s \<Rightarrow> bool"
    and tbl :: "'s \<Rightarrow> (string, 'r) gomap"
    and idx :: "'s \<Rightarrow> (string, string) gomap"
    and key :: "'r \<Rightarrow> string option"
    and rid :: "'r \<Rightarrow> string"
  assumes ids: "inv s \<Longrightarrow> tbl_ok rid (tbl s)"
    and index: "inv s \<Longrightarrow> idx_ok key (tbl s) (idx s)"
begin

lemma lookup_no_panic: "inv s \<Longrightarrow> read_idx (idx s) (tbl s) k \<noteq> Inl Panic"
  by (auto simp: read_idx_def split: option.splits dest: idx_okD [OF index])

lemma lookup_Inr:
  assumes inv: "inv s"
  shows "read_idx (idx s) (tbl s) k = Inr r \<longleftrightarrow> gm_get (tbl s) (rid r) = Some r \<and> key r = Some k"
proof (cases "gm_get (idx s) k")
  case None
  then have "read_idx (idx s) (tbl s) k = Inl ErrNotFound" by (simp add: read_idx_def)
  moreover have "\<not> (gm_get (tbl s) (rid r) = Some r \<and> key r = Some k)"
    using None idx_okI_get [OF index [OF inv], of "rid r" r k] by auto
  ultimately show ?thesis by simp
next
  case (Some i)
  then obtain q where q: "gm_get (tbl s) i = Some q" "key q = Some k"
    using idx_okD [OF index [OF inv]] by blast
  with Some have "read_idx (idx s) (tbl s) k = Inr q" by (simp add: read_idx_def)
  moreover have "gm_get (tbl s) (rid r) = Some r \<and> key r = Some k \<longleftrightarrow> q = r"
    using q tbl_okD [OF ids [OF inv] q(1)] idx_ok_unique [OF index [OF inv] _ q(1) _ q(2), of "rid r" r]
    by auto
  ultimately show ?thesis by simp
qed

lemma lookup_Inl:
  assumes inv: "inv s"
  shows "read_idx (idx s) (tbl s) k = Inl e \<longleftrightarrow>
     e = ErrNotFound \<and> (\<forall>i r. gm_get (tbl s) i = Some r \<longrightarrow> key r \<noteq> Some k)"
proof (cases "gm_get (idx s) k")
  case None
  then have "\<forall>i r. gm_get (tbl s) i = Some r \<longrightarrow> key r \<noteq> Some k"
    using idx_okI_get [OF index [OF inv]] by fastforce
  with None show ?thesis by (auto simp: read_idx_def)
next
  case (Some i)
  then obtain q where "gm_get (tbl s) i = Some q" "key q = Some k"
    using idx_okD [OF index [OF inv]] by blast
  with Some show ?thesis by (auto simp: read_idx_def)
qed

lemma key_unique:
  "inv s \<Longrightarrow> gm_get (tbl s) i = Some r \<Longrightarrow> gm_get (tbl s) j = Some q \<Longrightarrow>
     key r = key q \<Longrightarrow> key r \<noteq> None \<Longrightarrow> i = j"
  by (auto dest: idx_ok_unique [OF index])

lemma vals_ids_inj: "inv s \<Longrightarrow> inj_on rid (set (map snd (tbl s)))"
  using ids [of s] by (intro inj_onI) (auto simp: tbl_ok_def gm_vals_iff simp del: set_map)

end

interpretation by_name: indexed_table fsm_inv users usersByName user_name_key uID
  by unfold_locales (simp_all add: fsm_inv_def users_inv_def)

interpretation by_oauth: indexed_table fsm_inv users usersByOAuth user_oauth_key uID
  by unfold_locales (simp_all add: fsm_inv_def users_inv_def)

interpretation by_group: indexed_table fsm_inv groups groupsByName group_name_key gID
  by unfold_locales (simp_all add: fsm_inv_def groups_inv_def)

interpretation by_project: indexed_table fsm_inv projects projectsByName project_name_key pID
  by unfold_locales (simp_all add: fsm_inv_def projects_inv_def)

interpretation by_hash: indexed_table fsm_inv tokens tokensByHash token_hash_key tkID
  by unfold_locales (simp_all add: fsm_inv_def tokens_inv_def)

interpretation by_owner: indexed_table fsm_inv tokens tokensByUser token_user_key tkID
  by unfold_locales (simp_all add: fsm_inv_def tokens_inv_def)

section \<open>What the lookups return\<close>

lemma copyToken_id [simp]: "copyToken t = t"
  by (auto simp: copyToken_def split: option.splits)

lemma read_row_Inr [simp]: "read_row tbl i = Inr r \<longleftrightarrow> gm_get tbl i = Some r"
  by (simp add: read_row_def split: option.splits)

text \<open>
  in a state of the invariant the lookup of a user by name ignores case and returns
  exactly the stored user with that name: it finds a user if and only if the lookup by id finds the
  same row and the names agree up to case, and otherwise it reports that there is no such user.
\<close>

theorem readUserByUsername_exact:
  assumes "fsm_inv s"
  shows "(readUserByUsername name s = Inr u \<longleftrightarrow>
      readUserByID (uID u) s = Inr u \<and> to_lower (uUsername u) = to_lower name)
    \<and> (readUserByUsername name s = Inl e \<longrightarrow> e = ErrNotFound)"
  using by_name.lookup_Inr [OF assms] by_name.lookup_Inl [OF assms]
  by (auto simp: readUserByUsername_def readUserByID_def user_name_key_def)

theorem readUserByUsername_exact_witness:
  "readUserByUsername ''ALICE'' sample = Inr (stored_user None (sample_user ''u1'' ''Alice'' 10))"
proof -
  have "readUserByID ''u1'' sample = Inr (stored_user None (sample_user ''u1'' ''Alice'' 10))"
    "to_lower ''Alice'' = to_lower ''ALICE''" by code_simp+
  then show ?thesis
    using readUserByUsername_exact [OF sample_inv, of "''ALICE''" "stored_user None (sample_user ''u1'' ''Alice'' 10)"]
    by (simp add: sample_user_def)
qed

text \<open>
  no lookup through a secondary index dereferences a missing row. In a state of the
  invariant the lookups of users by name and by OAuth identity, of groups and of projects by name
  never panic, and the two token lookups never return a nil token without an error.
\<close>

theorem reads_never_dangle:
  assumes "fsm_inv s"
  shows "readUserByUsername name s \<noteq> Inl Panic \<and> readUserByOAuth provider oid s \<noteq> Inl Panic
    \<and> readGroupByName name s \<noteq> Inl Panic \<and> readProjectByName name s \<noteq> Inl Panic
    \<and> readTokenByHash h s \<noteq> Inr None \<and> readTokenByUser uid s \<noteq> Inr None"
  using by_name.lookup_no_panic [OF assms] by_oauth.lookup_no_panic [OF assms]
    by_group.lookup_no_panic [OF assms] by_project.lookup_no_panic [OF assms]
    token_of_hash [OF assms, of h] token_of_user [OF assms, of uid]
  by (auto simp: readUserByUsername_def readUserByOAuth_def readGroupByName_def
      readProjectByName_def readTokenByHash_def readTokenByUser_def split: option.splits)

theorem reads_never_dangle_witness:
  "readTokenByHash ''h1'' sample \<noteq> Inr None \<and> readUserByOAuth ''github'' ''u2'' sample \<noteq> Inl Panic"
  using reads_never_dangle [OF sample_inv] by blast

section \<open>What the lists contain\<close>

lemma vals_iff:
  "tbl_ok rid tbl \<Longrightarrow> r \<in> snd ` set tbl \<longleftrightarrow> gm_get tbl (rid r) = Some r"
  by (force simp: tbl_ok_def gm_get_in gm_vals_iff [simplified])

lemma set_members:
  assumes "fsm_inv s"
  shows "u \<in> set (members gid s) \<longleftrightarrow> gm_get (users s) (uID u) = Some u \<and> member_of s gid (uID u)"
  using tbl_okD [OF by_name.ids [OF assms]]
  by (auto simp: members_def member_of_def set_map_filter)

lemma set_groupsForUser:
  assumes "fsm_inv s"
  shows "g \<in> set (groupsForUser uid s) \<longleftrightarrow> gm_get (groups s) (gID g) = Some g \<and> member_of s (gID g) uid"
  using tbl_okD [OF by_group.ids [OF assms]] fsm_invD(5) [OF assms]
  by (auto simp: groupsForUser_def mem_inv_def set_map_filter)

lemma row_key_trace:
  assumes "trace_row f s m = Some r"
  shows "row_key r = (- traceSortKey m, tmTraceID m)" and "traceMatches f m"
    and "tmGroupID (trMeta r) = tmGroupID m" and "tmUserID (trMeta r) = tmUserID m"
  using assms
  by (auto simp: trace_row_def row_key_def traceSortKey_def Let_def split: if_splits)

definition rows :: "TraceFilter \<Rightarrow> fsmState \<Rightarrow> TraceListResult list" where
  "rows f s = List.map_filter (trace_row f s) (map snd (traces s))"

lemma set_rows:
  assumes "fsm_inv s"
  shows "r \<in> set (rows f s) \<longleftrightarrow> (\<exists>m. gm_get (traces s) (tmTraceID m) = Some m \<and> trace_row f s m = Some r)"
  unfolding rows_def set_map_filter set_map
  using vals_iff [OF fsm_inv_rest(1) [OF assms]] by (simp add: Bex_def)

lemma listTraces_rows: "listTraces f s = take (nat (clampLimit (fLimit f))) (sort_key row_key (rows f s))"
  by (simp add: listTraces_def rows_def Let_def)

lemma rows_distinct_keys:
  assumes "tbl_ok tmTraceID (traces s)"
  shows "distinct (map row_key (rows f s))"
proof -
  have ids: "distinct (map tmTraceID (map snd (traces s)))"
  proof -
    have "map tmTraceID (map snd (traces s)) = map fst (traces s)"
      using assms by (auto simp: tbl_ok_def gm_get_in)
    then show ?thesis using assms unfolding tbl_ok_def gm_ok_def by metis
  qed
  moreover have "distinct (map row_key (List.map_filter (trace_row f s) ms))"
    if "distinct (map tmTraceID ms)" for ms
    using that
  proof (induction ms)
    case (Cons m ms)
    have "row_key r \<notin> row_key ` set (List.map_filter (trace_row f s) ms)" if "trace_row f s m = Some r" for r
      using Cons.prems that by (auto simp: set_map_filter row_key_trace(1))
    with Cons show ?case by (auto simp: map_filter_simps split: option.splits)
  qed (simp add: map_filter_simps)
  ultimately show ?thesis by (simp add: rows_def)
qed

lemma clampLimit_bounds: "1 \<le> clampLimit n \<and> clampLimit n \<le> MaxTraceLimit"
  by (simp add: clampLimit_def DefaultTraceLimit_def MaxTraceLimit_def)

lemma sorted_distinct_take:
  assumes "sorted (map f xs)" and "distinct (map f xs)" and "x \<in> set (take n xs)" and "y \<in> set (drop n xs)"
  shows "f x < f y"
proof -
  have split: "map f (take n xs) @ map f (drop n xs) = map f xs" by (simp flip: map_append)
  have "sorted (map f (take n xs) @ map f (drop n xs))" "distinct (map f (take n xs) @ map f (drop n xs))"
    unfolding split by (fact assms)+
  then have "f x \<le> f y" "f x \<noteq> f y"
    using assms(3,4) unfolding sorted_append distinct_append by fastforce+
  then show ?thesis by simp
qed

text \<open>
  C35: the trace list is the newest part of the matching rows. It has at most
  500 rows, ordered by age (newest first) and then by trace id without repetitions;
  every row is the joined row of a stored trace that passes the filter; and a matching row is left
  out only when the limit is reached, and then every listed row comes before it.
\<close>

theorem listTraces_newest_matching:
  assumes "fsm_inv s"
  shows "length (listTraces f s) \<le> nat MaxTraceLimit \<and> sorted (map row_key (listTraces f s))
    \<and> distinct (listTraces f s)
    \<and> (\<forall>r \<in> set (listTraces f s). \<exists>m. gm_get (traces s) (tmTraceID m) = Some m \<and> trace_row f s m = Some r)
    \<and> (\<forall>m r. gm_get (traces s) (tmTraceID m) = Some m \<and> trace_row f s m = Some r
          \<and> r \<notin> set (listTraces f s) \<longrightarrow>
        int (length (listTraces f s)) = clampLimit (fLimit f)
        \<and> (\<forall>q \<in> set (listTraces f s). row_key q < row_key r))"
proof -
  let ?n = "nat (clampLimit (fLimit f))" and ?all = "sort_key row_key (rows f s)"
  have dist: "distinct (map row_key ?all)"
    using rows_distinct_keys [OF fsm_inv_rest(1) [OF assms]]
    by (metis distinct_map distinct_sort set_sort)
  have sorted_all: "sorted (map row_key ?all)" by (rule sorted_sort_key)
  have "length (take ?n ?all) \<le> nat MaxTraceLimit"
    using clampLimit_bounds [of "fLimit f"] by (simp add: min_le_iff_disj nat_mono)
  moreover have "sorted (map row_key (take ?n ?all))" "distinct (take ?n ?all)"
    using sorted_all dist by (simp_all add: take_map [symmetric] sorted_wrt_take distinct_map)
  moreover have "\<exists>m. gm_get (traces s) (tmTraceID m) = Some m \<and> trace_row f s m = Some r"
    if "r \<in> set (take ?n ?all)" for r
    using that set_rows [OF assms] by (metis in_set_takeD set_sort)
  moreover have "int (length (take ?n ?all)) = clampLimit (fLimit f)
      \<and> (\<forall>q \<in> set (take ?n ?all). row_key q < row_key r)"
    if "gm_get (traces s) (tmTraceID m) = Some m" "trace_row f s m = Some r" "r \<notin> set (take ?n ?all)" for m r
  proof -
    have "r \<in> set ?all" using that(1,2) set_rows [OF assms] by auto
    with that(3) have r: "r \<in> set (drop ?n ?all)" by (metis Un_iff append_take_drop_id set_append)
    then have "?n < length ?all" by (metis drop_all empty_iff empty_set not_le)
    then show ?thesis
      using sorted_distinct_take [OF sorted_all dist _ r] clampLimit_bounds [of "fLimit f"] by auto
  qed
  ultimately show ?thesis unfolding listTraces_rows by blast
qed

definition sample_filter :: TraceFilter where
  "sample_filter = \<lparr>fGroupIDs = [''g1''], fIncludeUnassigned = False, fUnassignedOnly = False,
     fUserID = ''u2'', fCIRepo = [], fUsername = [], fLimit = 1\<rparr>"

theorem listTraces_newest_matching_witness:
  "row_key (hd (listTraces sample_filter sample)) < (- 20, ''t1'') \<and> length (listTraces sample_filter sample) = 1"
proof -
  let ?m = "sample_trace ''t1'' ''u1'' ''g1'' ''running'' 20"
  let ?r = "\<lparr>trMeta = ?m, trGroupName = ''Team'', trUsername = ''Alice''\<rparr>"
  have "gm_get (traces sample) (tmTraceID ?m) = Some ?m \<and> trace_row sample_filter sample ?m = Some ?r
      \<and> ?r \<notin> set (listTraces sample_filter sample)" "hd (listTraces sample_filter sample) \<in> set (listTraces sample_filter sample)"
    by code_simp+
  then have "int (length (listTraces sample_filter sample)) = clampLimit (fLimit sample_filter)"
    "row_key (hd (listTraces sample_filter sample)) < row_key ?r"
    using listTraces_newest_matching [OF sample_inv, of sample_filter] by blast+
  moreover have "row_key ?r = (- 20, ''t1'')" "clampLimit (fLimit sample_filter) = 1" by code_simp+
  ultimately show ?thesis by simp
qed

text \<open>
  C34: a caller restricted to some groups sees no other group's trace. With group ids in the
  filter and without the unassigned-only switch, every listed trace belongs to one of those groups,
  or belongs to no group and to the user of the filter.
\<close>

theorem listTraces_visibility:
  assumes "r \<in> set (listTraces f s)" and "fGroupIDs f \<noteq> []" and "\<not> fUnassignedOnly f"
  shows "tmGroupID (trMeta r) \<in> set (fGroupIDs f)
    \<or> tmGroupID (trMeta r) = [] \<and> fUserID f \<noteq> [] \<and> tmUserID (trMeta r) = fUserID f"
proof -
  from assms(1) obtain m where "trace_row f s m = Some r"
    by (auto simp: listTraces_rows rows_def set_map_filter dest!: in_set_takeD)
  with assms(2,3) row_key_trace [OF this] show ?thesis
    by (auto simp: traceMatches_def List.member_iff split: if_splits)
qed

theorem listTraces_visibility_witness:
  "tmGroupID (trMeta (hd (listTraces sample_filter sample))) = []
   \<and> tmUserID (trMeta (hd (listTraces sample_filter sample))) = ''u2''"
proof -
  let ?r = "hd (listTraces sample_filter sample)"
  have "?r \<in> set (listTraces sample_filter sample)" "fGroupIDs sample_filter \<noteq> []"
    "\<not> fUnassignedOnly sample_filter" by code_simp+
  from listTraces_visibility [OF this] show ?thesis
    by (rule disjE) code_simp+
qed

text \<open>
  The purge candidates with the running protection on are exactly the stored traces of
  known age that are not younger than the cutoff and not running, oldest first: a running trace
  and a trace of unknown age are never candidates.
\<close>

theorem listTracesBefore_exact:
  assumes "fsm_inv s"
  shows "(m \<in> set (listTracesBefore cutoff True s) \<longleftrightarrow>
      readTrace (tmTraceID m) s = Inr m \<and> \<not> is_zero (traceSortKey m) \<and> traceSortKey m \<le> cutoff
      \<and> \<not> running (tmStatus m))
    \<and> sorted (map traceSortKey (listTracesBefore cutoff True s))"
  using vals_iff [OF fsm_inv_rest(1) [OF assms]]
  by (auto simp: listTracesBefore_def readTrace_def)

theorem listTracesBefore_exact_witness:
  "sample_trace ''t3'' ''u1'' ''g2'' ''failed'' 25 \<in> set (listTracesBefore 26 True sample)
   \<and> sample_trace ''t1'' ''u1'' ''g1'' ''running'' 20 \<notin> set (listTracesBefore 26 True sample)"
proof -
  let ?a = "sample_trace ''t3'' ''u1'' ''g2'' ''failed'' 25"
  have "readTrace (tmTraceID ?a) sample = Inr ?a \<and> \<not> is_zero (traceSortKey ?a) \<and> traceSortKey ?a \<le> 26
      \<and> \<not> running (tmStatus ?a)" by code_simp
  moreover have "running (tmStatus (sample_trace ''t1'' ''u1'' ''g1'' ''running'' 20))" by code_simp
  ultimately show ?thesis using listTracesBefore_exact [OF sample_inv, of _ 26] by blast
qed

text \<open>What the loop of \<open>traceStats\<close> keeps of the running minimum.\<close>

lemma oldest_key_bound: "\<not> is_zero k \<Longrightarrow> \<not> is_zero (oldest_key ms k) \<and> oldest_key ms k \<le> k"
proof (induction ms arbitrary: k)
  case (Cons m ms)
  show ?case
    using Cons.IH [OF Cons.prems] Cons.IH [of "traceSortKey m"] Cons.prems
    by (simp add: Let_def) (meson less_imp_le order_trans)
qed simp

lemma oldest_key_le:
  "m \<in> set ms \<Longrightarrow> \<not> is_zero (traceSortKey m) \<Longrightarrow>
     \<not> is_zero (oldest_key ms k) \<and> oldest_key ms k \<le> traceSortKey m"
proof (induction ms arbitrary: k)
  case (Cons a ms)
  show ?case
  proof (cases "m = a")
    case True
    with Cons.prems(2) show ?thesis
      using oldest_key_bound [of "traceSortKey a" ms] oldest_key_bound [of k ms]
      by (auto simp: Let_def intro: order_trans)
  next
    case False
    with Cons show ?thesis by (simp add: Let_def)
  qed
qed simp

lemma oldest_key_zero: "\<forall>m \<in> set ms. is_zero (traceSortKey m) \<Longrightarrow> oldest_key ms k = k"
  by (induction ms) (simp_all add: Let_def)

text \<open>
  the trace statistics count every stored trace, and the reported age is the age of the
  oldest trace of known age: it is the zero time exactly when no trace has a known age, and no
  trace of known age is older.
\<close>

theorem traceStats_exact:
  assumes "fsm_inv s"
  shows "fst (traceStats s) = card {i. gm_get (traces s) i \<noteq> None}
    \<and> (is_zero (snd (traceStats s)) \<longleftrightarrow>
        (\<forall>i m. gm_get (traces s) i = Some m \<longrightarrow> is_zero (traceSortKey m)))
    \<and> (\<forall>i m. gm_get (traces s) i = Some m \<longrightarrow> \<not> is_zero (traceSortKey m) \<longrightarrow>
        snd (traceStats s) \<le> traceSortKey m)"
proof -
  have ok: "gm_ok (traces s)" using fsm_inv_rest(1) [OF assms] by blast
  have "{i. gm_get (traces s) i \<noteq> None} = set (map fst (traces s))"
    using gm_keys_iff [of _ "traces s"] by auto
  then have "fst (traceStats s) = card {i. gm_get (traces s) i \<noteq> None}"
    using ok distinct_card [of "map fst (traces s)"] by (simp add: traceStats_def gm_ok_def)
  moreover have "is_zero (snd (traceStats s))" if "\<forall>i m. gm_get (traces s) i = Some m \<longrightarrow> is_zero (traceSortKey m)"
  proof -
    have "\<forall>m \<in> set (map snd (traces s)). is_zero (traceSortKey m)" using that gm_vals_iff [OF ok] by blast
    then show ?thesis by (simp only: traceStats_def snd_conv oldest_key_zero is_zero_zero)
  qed
  moreover have "\<not> is_zero (snd (traceStats s)) \<and> snd (traceStats s) \<le> traceSortKey m"
    if "gm_get (traces s) i = Some m" "\<not> is_zero (traceSortKey m)" for i m
    using oldest_key_le [OF _ that(2)] that(1) gm_vals_iff [OF ok] by (metis traceStats_def snd_conv)
  ultimately show ?thesis by blast
qed

theorem traceStats_exact_witness:
  "fst (traceStats sample) = 3 \<and> snd (traceStats sample) \<le> 20"
proof -
  let ?m = "sample_trace ''t1'' ''u1'' ''g1'' ''running'' 20"
  have "gm_get (traces sample) ''t1'' = Some ?m" "\<not> is_zero (traceSortKey ?m)" "traceSortKey ?m = 20"
    "fst (traceStats sample) = 3" by code_simp+
  with traceStats_exact [OF sample_inv] show ?thesis by metis
qed

section \<open>Tokens found by hash and by user\<close>

lemma storeToken_gets:
  "tokens (storeToken t s) = gm_put (tkID t) t (tokens s)"
  "tokensByHash (storeToken t s) = gm_put (tkTokenHash t) (tkID t) (tokensByHash s)"
  "tokensByUser (storeToken t s) = gm_put (tkUserID t) (tkID t) (tokensByUser s)"
  by (simp_all add: storeToken_def)

lemma readTokenByHash_Inr:
  assumes "fsm_inv s"
  shows "readTokenByHash h s = Inr (Some k) \<longleftrightarrow> gm_get (tokens s) (tkID k) = Some k \<and> tkTokenHash k = h"
proof -
  have "readTokenByHash h s = Inr (Some k) \<longleftrightarrow> read_idx (tokensByHash s) (tokens s) h = Inr k"
    by (simp add: readTokenByHash_def read_idx_def split: option.splits)
  then show ?thesis using by_hash.lookup_Inr [OF assms] by (simp add: token_hash_key_def)
qed

lemma readTokenByUser_Inr:
  assumes "fsm_inv s"
  shows "readTokenByUser uid s = Inr (Some k) \<longleftrightarrow> gm_get (tokens s) (tkID k) = Some k \<and> tkUserID k = uid"
proof -
  have "readTokenByUser uid s = Inr (Some k) \<longleftrightarrow> read_idx (tokensByUser s) (tokens s) uid = Inr k"
    by (simp add: readTokenByUser_def read_idx_def split: option.splits)
  then show ?thesis using by_owner.lookup_Inr [OF assms] by (simp add: token_user_key_def)
qed

lemma upsertToken_tokens:
  assumes inv: "fsm_inv s" and tok: "token_ok s t" and ok: "upsertToken t s = (None, s')"
  shows "gm_get (tokens s') j = Some k \<longleftrightarrow>
    j = tkID t \<and> k = t \<or> gm_get (tokens s) j = Some k \<and> tkUserID k \<noteq> tkUserID t"
proof -
  have same_user: "tkUserID k = tkUserID t" if "gm_get (tokens s) (tkID t) = Some k" for k
    using tok that by (simp add: token_ok_def)
  have only: "gm_get (tokensByUser s) (tkUserID t) = Some j"
    if "gm_get (tokens s) j = Some k" "tkUserID k = tkUserID t" for j k
    using token_of_user [OF inv] that by blast
  from inv ok show ?thesis
  proof (cases rule: upsertToken_cases)
    case (replace i old)
    then show ?thesis using same_user only [of j k] by (auto simp: storeToken_gets removeToken_gets)
  next
    case fresh
    then show ?thesis using same_user only [of j k] by (auto simp: storeToken_gets)
  qed simp
qed

lemma upsertToken_conflict:
  assumes inv: "fsm_inv s" and ok: "upsertToken t s = (Some e, s')"
  shows "e = ErrConflict \<and> (\<exists>k. gm_get (tokens s) (tkID k) = Some k \<and> tkTokenHash k = tkTokenHash t
    \<and> tkUserID k \<noteq> tkUserID t)"
proof -
  have e: "e = ErrConflict" using upsertToken_cases [OF inv ok] by auto
  obtain j where j: "gm_get (tokensByHash s) (tkTokenHash t) = Some j"
    "gm_get (tokensByUser s) (tkUserID t) \<noteq> Some j"
    using ok e by (auto simp: upsertToken_def taken_by_other_def split: option.splits if_splits)
  then obtain k where k: "gm_get (tokens s) j = Some k" "tkTokenHash k = tkTokenHash t"
    using token_of_hash [OF inv] by blast
  with j(2) have "tkUserID k \<noteq> tkUserID t" using token_of_user [OF inv] by blast
  then show ?thesis using e k tbl_okD [OF by_hash.ids [OF inv] k(1)] by auto
qed

end
