(* ===== verification/FSM_Replica.thy ===== *)
theory FSM_Replica
  imports FSM_Snapshot FSM_Reads
begin

text \<open>
  Why every replica of the state machine has the same data. The locale \<open>replicated\<close> is the
  contract Raft needs of a state machine: a command's response and its effect on the replicated
  part depend on the replicated part alone. From it follow, once, that replicas that apply the same log
  agree, and (with the contract of snapshots, \<open>replicated_snapshots\<close>) that a node that installs a
  snapshot and applies the rest of the log agrees with one that applied it all. The
  interpretation at the end discharges the contract for \<open>applyCommand\<close>, \<open>Snapshot\<close> and
  \<open>Restore\<close>: Go's random map iteration order and the node's own session store do not
  influence the replicated state.
\<close>

section \<open>The contract\<close>

locale replicated =
  fixes inv :: "'s \<Rightarrow> bool"
    and ok :: "'s \<Rightarrow> 'c \<Rightarrow> bool"
    and eqv :: "'s \<Rightarrow> 's \<Rightarrow> bool"
    and step :: "'c \<Rightarrow> 's \<Rightarrow> 'r \<times> 's"
  assumes step_inv: "inv s \<Longrightarrow> ok s c \<Longrightarrow> inv (snd (step c s))"
    and step_resp: "inv s \<Longrightarrow> inv t \<Longrightarrow> eqv s t \<Longrightarrow> fst (step c s) = fst (step c t)"
    and step_eqv: "inv s \<Longrightarrow> inv t \<Longrightarrow> eqv s t \<Longrightarrow> eqv (snd (step c s)) (snd (step c t))"
    and ok_eqv: "eqv s t \<Longrightarrow> ok s c \<Longrightarrow> ok t c"
    and eqv_sym: "eqv s t \<Longrightarrow> eqv t s"
begin

fun resps :: "'c list \<Rightarrow> 's \<Rightarrow> 'r list" where
  "resps [] s = []"
| "resps (c # cs) s = fst (step c s) # resps cs (snd (step c s))"

definition exec :: "'c list \<Rightarrow> 's \<Rightarrow> 's" where
  "exec cs s = fold (\<lambda>c s. snd (step c s)) cs s"

fun oks :: "'c list \<Rightarrow> 's \<Rightarrow> bool" where
  "oks [] s = True"
| "oks (c # cs) s = (ok s c \<and> oks cs (snd (step c s)))"

lemma exec_simps [simp]: "exec [] s = s" "exec (c # cs) s = exec cs (snd (step c s))"
  "exec (cs @ ds) s = exec ds (exec cs s)"
  by (simp_all add: exec_def)

lemma oks_append [simp]: "oks (cs @ ds) s \<longleftrightarrow> oks cs s \<and> oks ds (exec cs s)"
  by (induction cs arbitrary: s) simp_all

lemma exec_inv: "inv s \<Longrightarrow> oks cs s \<Longrightarrow> inv (exec cs s)"
  by (induction cs arbitrary: s) (simp_all add: step_inv)

lemma oks_eqv: "inv s \<Longrightarrow> inv t \<Longrightarrow> eqv s t \<Longrightarrow> oks cs s \<Longrightarrow> oks cs t"
proof (induction cs arbitrary: s t)
  case (Cons c cs)
  then have "ok s c" "ok t c" using ok_eqv by auto
  with Cons.prems Cons.IH [of "snd (step c s)" "snd (step c t)"] show ?case
    by (simp add: step_inv step_eqv)
qed simp

lemma agreement:
  "inv s \<Longrightarrow> inv t \<Longrightarrow> eqv s t \<Longrightarrow> oks cs s \<Longrightarrow> resps cs s = resps cs t \<and> eqv (exec cs s) (exec cs t)"
proof (induction cs arbitrary: s t)
  case (Cons c cs)
  then have "ok s c" "ok t c" using ok_eqv by auto
  with Cons.prems Cons.IH [of "snd (step c s)" "snd (step c t)"] show ?case
    by (simp add: step_inv step_resp step_eqv)
qed simp

end

locale replicated_snapshots = replicated inv ok eqv step
  for inv :: "'s \<Rightarrow> bool" and ok :: "'s \<Rightarrow> 'c \<Rightarrow> bool" and eqv :: "'s \<Rightarrow> 's \<Rightarrow> bool"
    and step :: "'c \<Rightarrow> 's \<Rightarrow> 'r \<times> 's" +
  fixes snap :: "'s \<Rightarrow> 'p" and install :: "'p \<Rightarrow> 's \<Rightarrow> 's"
  assumes install_eqv: "inv s \<Longrightarrow> inv t \<Longrightarrow> eqv (install (snap s) t) s"
    and install_inv: "inv s \<Longrightarrow> inv t \<Longrightarrow> inv (install (snap s) t)"
begin

lemma catch_up:
  assumes "inv s" and "inv t" and "oks (cs @ ds) s"
  shows "eqv (exec ds (install (snap (exec cs s)) t)) (exec (cs @ ds) s)"
proof -
  have i: "inv (exec cs s)" using assms exec_inv by simp
  note new = install_inv [OF i assms(2)] and eq = install_eqv [OF i assms(2)]
  have "oks ds (install (snap (exec cs s)) t)"
    using oks_eqv [OF i new eqv_sym [OF eq]] assms(3) by simp
  then show ?thesis using agreement [OF new i eq] by simp
qed

end

section \<open>The operations depend on the contents of the maps only\<close>

lemma gm_eq_put [intro]: "gm_eq m n \<Longrightarrow> gm_eq (gm_put k v m) (gm_put k v n)"
  by (simp add: gm_eq_def update_conv')

lemma gm_eq_del [intro]: "gm_eq m n \<Longrightarrow> gm_eq (gm_del k m) (gm_del k n)"
  by (simp add: gm_eq_def delete_conv')

lemma gm_eq_map [intro]: "gm_eq m n \<Longrightarrow> gm_eq (gm_map f m) (gm_map f n)"
  by (simp add: gm_eq_def fun_eq_iff)

lemma gm_eq_add [intro]: "gm_eq m n \<Longrightarrow> gm_eq (idx_add k v m) (idx_add k v n)"
  by (cases k) auto

lemma gm_eq_rm [intro]: "gm_eq m n \<Longrightarrow> gm_eq (idx_rm k m) (idx_rm k n)"
  by (cases k) auto

lemma fsm_eq_gets:
  assumes "fsm_eq s t"
  shows "gm_get (users s) = gm_get (users t)" "gm_get (usersByName s) = gm_get (usersByName t)"
    "gm_get (usersByOAuth s) = gm_get (usersByOAuth t)" "gm_get (groups s) = gm_get (groups t)"
    "gm_get (groupsByName s) = gm_get (groupsByName t)" "gm_get (tokens s) = gm_get (tokens t)"
    "gm_get (tokensByHash s) = gm_get (tokensByHash t)" "gm_get (tokensByUser s) = gm_get (tokensByUser t)"
    "gm_get (projects s) = gm_get (projects t)" "gm_get (projectsByName s) = gm_get (projectsByName t)"
    "gm_get (traces s) = gm_get (traces t)" "gm_get (meta s) = gm_get (meta t)"
  using assms by (simp_all add: fsm_eq_def gm_eq_def)

lemma fsm_eq_sym: "fsm_eq s t \<Longrightarrow> fsm_eq t s"
  by (simp add: fsm_eq_def gm_eq_def adj_eq_def)

text \<open>\<open>same x y\<close>: two outcomes with the same error and equal states.\<close>

definition same :: "'e \<times> fsmState \<Rightarrow> 'e \<times> fsmState \<Rightarrow> bool" where
  "same x y \<longleftrightarrow> fst x = fst y \<and> fsm_eq (snd x) (snd y)"

named_theorems same_intros \<open>operations on equal states have the same outcome\<close>

lemma same_pair [simp]: "same (a, s) (b, t) \<longleftrightarrow> a = b \<and> fsm_eq s t"
  by (simp add: same_def)

lemma storeUser_same: "fsm_eq s t \<Longrightarrow> fsm_eq (storeUser u s) (storeUser u t)"
  by (auto simp: fsm_eq_def storeUser_fields storeUser_frame)

lemma upsertUser_same [same_intros]:
  assumes "fsm_eq s t"
  shows "same (upsertUser u create s) (upsertUser u create t)"
proof -
  have del: "fsm_eq (s\<lparr>usersByName := gm_del k (usersByName s)\<rparr>) (t\<lparr>usersByName := gm_del k (usersByName t)\<rparr>)"
    "fsm_eq (s\<lparr>usersByOAuth := gm_del k (usersByOAuth s)\<rparr>) (t\<lparr>usersByOAuth := gm_del k (usersByOAuth t)\<rparr>)"
    "fsm_eq (s\<lparr>usersByName := gm_del k (usersByName s), usersByOAuth := gm_del k' (usersByOAuth s)\<rparr>)
       (t\<lparr>usersByName := gm_del k (usersByName t), usersByOAuth := gm_del k' (usersByOAuth t)\<rparr>)" for k k'
    using assms by (auto simp: fsm_eq_def)
  show ?thesis
    using assms
    by (auto simp: upsertUser_def Let_def taken_by_other_def fsm_eq_gets [OF assms]
        intro!: storeUser_same del split: option.splits)
qed

lemma removeToken_same: "fsm_eq s t \<Longrightarrow> fsm_eq (removeToken i s) (removeToken i t)"
  by (auto simp: removeToken_def fsm_eq_gets split: option.splits) (auto simp: fsm_eq_def)

lemma deleteToken_same [same_intros]: "fsm_eq s t \<Longrightarrow> fsm_eq (deleteToken i s) (deleteToken i t)"
  by (auto simp: deleteToken_def fsm_eq_gets intro: removeToken_same split: option.splits)

lemma storeToken_same: "fsm_eq s t \<Longrightarrow> fsm_eq (storeToken k s) (storeToken k t)"
  by (auto simp: storeToken_def fsm_eq_def)

lemma upsertToken_same [same_intros]:
  assumes "fsm_eq s t"
  shows "same (upsertToken k s) (upsertToken k t)"
  using assms
  by (auto simp: upsertToken_def taken_by_other_def fsm_eq_gets [OF assms]
      intro!: storeToken_same removeToken_same split: option.splits)

lemma touchToken_same [same_intros]: "fsm_eq s t \<Longrightarrow> fsm_eq (touchToken i at' s) (touchToken i at' t)"
  by (auto simp: touchToken_def fsm_eq_gets split: option.splits) (auto simp: fsm_eq_def)

lemma upsertGroup_same [same_intros]:
  assumes "fsm_eq s t"
  shows "same (upsertGroup g create s) (upsertGroup g create t)"
  using assms
  by (simp add: upsertGroup_def Let_def taken_by_other_def fsm_eq_gets [OF assms] split: option.splits)
    (auto simp: storeGroup_def fsm_eq_def)

lemma upsertProject_same [same_intros]:
  assumes "fsm_eq s t"
  shows "same (upsertProject p create s) (upsertProject p create t)"
  using assms
  by (simp add: upsertProject_def Let_def taken_by_other_def fsm_eq_gets [OF assms] split: option.splits)
    (auto simp: storeProject_def fsm_eq_def)

lemma deleteProject_same [same_intros]:
  "fsm_eq s t \<Longrightarrow> same (deleteProject i s) (deleteProject i t)"
  by (simp add: deleteProject_def fsm_eq_gets split: option.splits) (auto simp: fsm_eq_def)

lemma adj_eq_unlinks:
  assumes "adj_eq m n" and "set as = set bs"
  shows "adj_eq (fold (\<lambda>a. unlink a b) as m) (fold (\<lambda>a. unlink a b) bs n)"
  using assms by (simp add: adj_eq_def edges_fold_unlink)

lemma adj_eq_del: "adj_eq m n \<Longrightarrow> adj_eq (gm_del a m) (gm_del a n)"
  by (simp add: adj_eq_def)

lemma deleteUser_same [same_intros]:
  assumes "fsm_eq s t"
  shows "same (deleteUser i s) (deleteUser i t)"
proof (cases "gm_get (users s) i")
  case None
  then show ?thesis using assms fsm_eq_gets(1) [OF assms] by (simp add: deleteUser_def)
next
  case (Some u)
  with fsm_eq_gets(1) [OF assms] have t: "gm_get (users t) i = Some u" by simp
  note fs = deleteUser_fields [OF Some] deleteUser_fields [OF t]
  show ?thesis
    using assms deleteToken_same [OF assms, of i]
    by (auto simp: same_def fsm_eq_def fs adj_eq_def [of _ "membershipsByUser t"]
        intro!: adj_eq_unlinks adj_eq_del)
qed

lemma deleteGroup_same [same_intros]:
  assumes "fsm_eq s t"
  shows "same (deleteGroup i s) (deleteGroup i t)"
proof (cases "gm_get (groups s) i")
  case None
  then show ?thesis using assms fsm_eq_gets(4) [OF assms] by (simp add: deleteGroup_def)
next
  case (Some g)
  with fsm_eq_gets(4) [OF assms] have t: "gm_get (groups t) i = Some g" by simp
  note fs = deleteGroup_fields [OF Some] deleteGroup_fields [OF t]
  show ?thesis
    using assms
    by (auto simp: same_def fsm_eq_def fs adj_eq_def [of _ "memberships t"]
        intro!: adj_eq_unlinks adj_eq_del)
qed

lemma setMembers_ok_iff:
  "fst (setMembers gid uids s) = (if gm_get (groups s) gid = None \<or> (\<exists>u \<in> set uids. gm_get (users s) u = None)
     then Some ErrNotFound else None)"
  by (cases "setMembers gid uids s") (auto elim!: setMembers_cases)

lemma setMembers_same [same_intros]:
  assumes eq: "fsm_eq s t" and s: "fsm_inv s" and t: "fsm_inv t"
  shows "same (setMembers gid uids s) (setMembers gid uids t)"
proof -
  obtain e s' where s': "setMembers gid uids s = (e, s')" by (cases "setMembers gid uids s")
  obtain e' t' where t': "setMembers gid uids t = (e', t')" by (cases "setMembers gid uids t")
  have e: "e' = e"
    using setMembers_ok_iff [of gid uids s] setMembers_ok_iff [of gid uids t]
    by (simp add: s' t' fsm_eq_gets [OF eq])
  show ?thesis
  proof (cases e)
    case None
    have ok: "setMembers gid uids s = (None, s')" "setMembers gid uids t = (None, t')"
      using s' t' e None by simp_all
    note ed = setMembers_edges [OF fsm_invD(5) [OF s] ok(1)] setMembers_edges [OF fsm_invD(5) [OF t] ok(2)]
    have "adj_eq (memberships s') (memberships t')" "adj_eq (membershipsByUser s') (membershipsByUser t')"
      using eq by (simp_all add: adj_eq_def ed fsm_eq_def)
    then show ?thesis
      using eq e by (simp add: s' t' fsm_eq_def setMembers_frame [OF s'] setMembers_frame [OF t'])
  next
    case (Some x)
    with s' t' e have "s' = s" "t' = t" by (auto elim: setMembers_cases)
    with s' t' e eq show ?thesis by simp
  qed
qed

lemma fsm_eq_traces: "fsm_eq s t \<Longrightarrow> gm_eq m n \<Longrightarrow> fsm_eq (s\<lparr>traces := m\<rparr>) (t\<lparr>traces := n\<rparr>)"
  by (simp add: fsm_eq_def)

lemma fsm_eq_own: "fsm_eq s t \<Longrightarrow> gm_eq (traces s) (traces t)"
  by (simp add: fsm_eq_def)

lemma upsertTraceProvision_same [same_intros]:
  "fsm_eq s t \<Longrightarrow> fsm_eq (upsertTraceProvision p s) (upsertTraceProvision p t)"
  by (simp add: upsertTraceProvision_def fsm_eq_gets Let_def fsm_eq_traces gm_eq_put fsm_eq_own split: option.splits)

lemma upsertTraceIngest_same [same_intros]:
  "fsm_eq s t \<Longrightarrow> fsm_eq (upsertTraceIngest m s) (upsertTraceIngest m t)"
  by (simp add: upsertTraceIngest_def fsm_eq_gets fsm_eq_traces gm_eq_put fsm_eq_own split: option.splits)

lemma markTraceFailed_same [same_intros]:
  "fsm_eq s t \<Longrightarrow> same (markTraceFailed p s) (markTraceFailed p t)"
  by (simp add: markTraceFailed_def fsm_eq_gets fsm_eq_traces gm_eq_put fsm_eq_own split: option.splits)

section \<open>Commands\<close>

lemma applyEntityCommand_same:
  assumes eq: "fsm_eq s t" and s: "fsm_inv s" and t: "fsm_inv t"
  shows "rel_option same (applyEntityCommand cmd s) (applyEntityCommand cmd t)"
  by (cases "cData cmd") (simp_all add: applyEntityCommand_def eq same_intros [OF eq] setMembers_same [OF eq s t])

lemma applyTraceCacheCommand_same:
  assumes eq: "fsm_eq s t"
  shows "rel_option same (applyTraceCacheCommand cmd s) (applyTraceCacheCommand cmd t)"
proof (cases "cData cmd")
  case (PSetMeta k v)
  then show ?thesis using eq by (simp add: applyTraceCacheCommand_def) (auto simp: fsm_eq_def)
qed (use eq markTraceFailed_same [OF eq] in \<open>simp_all add: applyTraceCacheCommand_def upsertTraceProvision_same [OF eq]
    upsertTraceIngest_same [OF eq] fsm_eq_traces gm_eq_del fsm_eq_own same_def case_prod_beta\<close>)

lemma applySessionCommand_same:
  "fsm_eq s t \<Longrightarrow> rel_option same (applySessionCommand cmd s) (applySessionCommand cmd t)"
  by (simp add: applySessionCommand_def split: payload.split) (auto simp: fsm_eq_def)

lemma applyCommand_same:
  assumes "fsm_eq s t" and "fsm_inv s" and "fsm_inv t"
  shows "same (applyCommand cmd s) (applyCommand cmd t)"
  using applyEntityCommand_same [OF assms, of cmd] applyTraceCacheCommand_same [OF assms(1), of cmd]
    applySessionCommand_same [OF assms(1), of cmd] assms(1)
  by (auto simp: applyCommand_def rel_option_iff split: option.splits)

lemma cmd_ok_eq: "fsm_eq s t \<Longrightarrow> cmd_ok s c \<Longrightarrow> cmd_ok t c"
  by (simp add: cmd_ok_def token_ok_def fsm_eq_gets split: payload.splits)

definition install :: "fsmSnapshotPayload \<Rightarrow> fsmState \<Rightarrow> fsmState" where
  "install p s = snd (Restore (Some p) s)"

interpretation fsm: replicated_snapshots fsm_inv cmd_ok fsm_eq applyCommand Snapshot install
proof unfold_locales
  fix s t :: fsmState and c :: command
  show "fsm_inv s \<Longrightarrow> cmd_ok s c \<Longrightarrow> fsm_inv (snd (applyCommand c s))" by (rule applyCommand_inv)
  show "fsm_inv s \<Longrightarrow> fsm_inv t \<Longrightarrow> fsm_eq s t \<Longrightarrow> fst (applyCommand c s) = fst (applyCommand c t)"
    using applyCommand_same [of s t c] by (simp add: same_def)
  show "fsm_inv s \<Longrightarrow> fsm_inv t \<Longrightarrow> fsm_eq s t \<Longrightarrow> fsm_eq (snd (applyCommand c s)) (snd (applyCommand c t))"
    using applyCommand_same [of s t c] by (simp add: same_def)
  show "fsm_eq s t \<Longrightarrow> cmd_ok s c \<Longrightarrow> cmd_ok t c" by (rule cmd_ok_eq)
  show "fsm_eq s t \<Longrightarrow> fsm_eq t s" by (rule fsm_eq_sym)
  show "fsm_inv s \<Longrightarrow> fsm_inv t \<Longrightarrow> fsm_eq (install (Snapshot s) t) s"
    by (simp add: install_def Restore_Snapshot fsm_eq_sink restored_eq)
  show "fsm_inv s \<Longrightarrow> fsm_inv t \<Longrightarrow> fsm_inv (install (Snapshot s) t)"
    by (simp add: install_def Restore_inv)
qed

end
