(* ===== verification/FSM_Props.thy ===== *)
theory FSM_Props
  imports FSM_Replica
begin

text \<open>
  The properties of the replicated state machine that its callers rely on: consistency of every
  reachable state, atomicity of failed commands, agreement of replicas (through the interpretation
  \<open>fsm\<close>), the cascades of the delete operations, the token rules, and the status of a trace.
\<close>

section \<open>Consistency and atomicity\<close>

text \<open>
  C1: every state that the state machine can reach from the empty one, by any log of
  well-formed commands, undecodable entries and local session-store steps, satisfies the
  invariant: each index holds exactly the keys of its table, the two directions of the membership
  relation agree and name existing groups and users, and no lease has a negative in-flight count.
\<close>

theorem reachable_states_consistent:
  assumes "fsm_reach s"
  shows "fsm_inv s"
  using assms by (rule fsm_reach_inv)

lemma sample_prefix_reach: "fsm_reach (run (take 5 sample_log) newState)"
proof -
  have "log_ok (take 5 sample_log) newState" by code_simp
  moreover have "fsm_reach s \<Longrightarrow> log_ok log s \<Longrightarrow> fsm_reach (run log s)" for log s
  proof (induction log arbitrary: s)
    case (Cons c log)
    have "fsm_reach (snd (applyCommand c s))"
      using Cons.prems fsm_reach.apply_log [of s c] by (auto simp: Apply_def prod_eq_iff)
    with Cons show ?case by simp
  qed simp
  ultimately show ?thesis by (simp add: fsm_reach.init)
qed

theorem reachable_states_consistent_witness:
  "fsm_inv (run (take 5 sample_log) newState)"
  using reachable_states_consistent [OF sample_prefix_reach] .

text \<open>
  Two users of a reachable state whose names differ only in case are the same user, and so
  are two users with the same OAuth provider and identity.
\<close>

theorem user_identities_unique:
  assumes "fsm_inv s" and "readUserByID i s = Inr u" and "readUserByID j s = Inr v"
    and "to_lower (uUsername u) = to_lower (uUsername v)
      \<or> uOAuthID u \<noteq> [] \<and> uOAuthID u = uOAuthID v \<and> uOAuthProvider u = uOAuthProvider v"
  shows "i = j"
proof -
  have get: "gm_get (users s) i = Some u" "gm_get (users s) j = Some v"
    using assms(2,3) by (simp_all add: readUserByID_def)
  from assms(4) show ?thesis
  proof
    assume "to_lower (uUsername u) = to_lower (uUsername v)"
    then show ?thesis using by_name.key_unique [OF assms(1) get] by (simp add: user_name_key_def)
  next
    assume "uOAuthID u \<noteq> [] \<and> uOAuthID u = uOAuthID v \<and> uOAuthProvider u = uOAuthProvider v"
    then have "user_oauth_key u = user_oauth_key v" "user_oauth_key u \<noteq> None"
      by (auto simp: user_oauth_key_def)
    then show ?thesis using by_oauth.key_unique [OF assms(1) get] by blast
  qed
qed

theorem user_identities_unique_witness:
  "''u1'' = uID (projr (readUserByUsername ''ALICE'' sample))"
proof -
  let ?v = "projr (readUserByUsername ''ALICE'' sample)"
  have "readUserByID ''u1'' sample = Inr (stored_user None (sample_user ''u1'' ''Alice'' 10))"
    "readUserByID (uID ?v) sample = Inr ?v"
    "to_lower (uUsername (stored_user None (sample_user ''u1'' ''Alice'' 10))) = to_lower (uUsername ?v)"
    by code_simp+
  from user_identities_unique [OF sample_inv this(1,2)] this(3) show ?thesis by blast
qed

lemma error_unchanged:
  "upsertUser u create s = (Some e, s') \<Longrightarrow> s' = s" "upsertGroup g create s = (Some e, s') \<Longrightarrow> s' = s"
  "upsertProject p create s = (Some e, s') \<Longrightarrow> s' = s" "upsertToken k s = (Some e, s') \<Longrightarrow> s' = s"
  "setMembers gid uids s = (Some e, s') \<Longrightarrow> s' = s" "deleteUser i s = (Some e, s') \<Longrightarrow> s' = s"
  "deleteGroup i s = (Some e, s') \<Longrightarrow> s' = s" "deleteProject i s = (Some e, s') \<Longrightarrow> s' = s"
         apply (erule upsertUser_cases; simp)
        apply (erule upsertGroup_cases; simp)
       apply (erule upsertProject_cases; simp)
      apply (simp add: upsertToken_def split: option.splits if_splits)
     apply (erule setMembers_cases; simp)
    apply (simp add: deleteUser_def Let_def split: option.splits)
   apply (simp add: deleteGroup_def Let_def split: option.splits)
  apply (simp add: deleteProject_def split: option.splits)
  done

lemma entity_error_unchanged: "applyEntityCommand cmd s = Some (Some e, s') \<Longrightarrow> s' = s"
  by (cases "cData cmd") (auto simp: applyEntityCommand_def split: if_splits dest: error_unchanged)

lemma trace_error_unchanged: "applyTraceCacheCommand cmd s = Some (Inl e, s') \<Longrightarrow> s' = s"
  by (cases "cData cmd") (auto simp: applyTraceCacheCommand_def split: if_splits prod.splits)

lemma session_error_unchanged: "applySessionCommand cmd s = Some (Some e, s') \<Longrightarrow> s' = s"
  by (cases "cData cmd") (auto simp: applySessionCommand_def split: if_splits)

text \<open>
  C37: a log entry that is answered with an error leaves the whole state as it was: no
  operation stores part of its work before it fails.
\<close>

theorem failed_commands_change_nothing:
  assumes "fst (Apply log s) = Inl e"
  shows "snd (Apply log s) = s"
proof (cases log)
  case (Some cmd)
  with assms show ?thesis
    using entity_error_unchanged [of cmd s] trace_error_unchanged [of cmd s] session_error_unchanged [of cmd s]
    by (auto simp: Apply_def applyCommand_def err_result_def split: option.splits)
qed (simp add: Apply_def)

theorem failed_commands_change_nothing_witness:
  "fst (Apply (Some (newCommand kindSetMembers (PSetMembers ''g1'' [''u2'', ''nobody'']))) sample) = Inl ErrNotFound
   \<and> snd (Apply (Some (newCommand kindSetMembers (PSetMembers ''g1'' [''u2'', ''nobody'']))) sample) = sample"
proof -
  have "fst (Apply (Some (newCommand kindSetMembers (PSetMembers ''g1'' [''u2'', ''nobody'']))) sample)
      = Inl ErrNotFound" by code_simp
  then show ?thesis by (simp only: failed_commands_change_nothing simp_thms)
qed

section \<open>Replication\<close>

fun responses :: "command list \<Rightarrow> fsmState \<Rightarrow> (error, response) result list" where
  "responses [] s = []"
| "responses (c # cs) s = fst (applyCommand c s) # responses cs (snd (applyCommand c s))"

lemma fsm_resps [simp]: "fsm.resps log s = responses log s"
  by (induction log arbitrary: s) simp_all

lemma fsm_exec [simp]: "fsm.exec log s = run log s"
  by (simp add: fsm.exec_def run_def)

lemma fsm_oks [simp]: "fsm.oks log s \<longleftrightarrow> log_ok log s"
  by (induction log arbitrary: s) simp_all

text \<open>
  C20: replicas that start from the same data and apply the same log answer every entry alike
  and end with the same data, although each visits its maps in its own order and has its own
  session store.
\<close>

theorem replicas_agree:
  assumes "fsm_inv s" and "fsm_inv t" and "fsm_eq s t" and "log_ok log s"
  shows "responses log s = responses log t \<and> fsm_eq (run log s) (run log t)"
  using fsm.agreement [OF assms(1-3)] assms(4) by simp

theorem replicas_agree_witness:
  "responses sample_log newState = responses sample_log (SetSessionSink (NewStore 7) newState)"
proof -
  have "fsm_inv (SetSessionSink (NewStore 7) newState)" by (intro fsm_reach_inv fsm_reach.intros)
  moreover have "fsm_eq newState (SetSessionSink (NewStore 7) newState)"
    by (simp add: SetSessionSink_def fsm_eq_def newState_def adj_eq_def)
  moreover have "log_ok sample_log newState" by code_simp
  ultimately show ?thesis using replicas_agree [OF fsm_inv_newState] by blast
qed

text \<open>
  C22: a node that installs a snapshot taken after the first part of the log and then applies
  the rest has the same data as a node that applied the whole log.
\<close>

theorem snapshot_catch_up:
  assumes "fsm_inv s" and "fsm_inv t" and "log_ok (prefix @ suffix) s"
    and "Restore (Some (Snapshot (run prefix s))) t = (e, t')"
  shows "e = None \<and> fsm_eq (run suffix t') (run (prefix @ suffix) s)"
  using fsm.catch_up [OF assms(1,2), of prefix suffix] assms(3,4)
  by (simp add: install_def del: fsm.exec_simps) (simp add: Restore_def)

theorem snapshot_catch_up_witness:
  "fsm_eq (run (drop 5 sample_log) (snd (Restore (Some (Snapshot (run (take 5 sample_log) newState))) newState)))
     (run (take 5 sample_log @ drop 5 sample_log) newState)"
proof -
  have "log_ok (take 5 sample_log @ drop 5 sample_log) newState" by code_simp
  from snapshot_catch_up [OF fsm_inv_newState fsm_inv_newState this prod.collapse [symmetric]]
  show ?thesis by (rule conjunct2)
qed

section \<open>Cascades\<close>

text \<open>
  C25: deleting a user removes every reference to it. Afterwards the id, the name and the OAuth
  identity are in no index and resolve to nobody, the API token is gone from both of its indices, the user is in no group, traces it owned are kept
  without an owner, and the other users are untouched.
\<close>

theorem deleteUser_cascade:
  assumes inv: "fsm_inv s" and ok: "deleteUser i s = (None, s')"
  shows "readUserByID i s' = Inl ErrNotFound \<and> readTokenByUser i s' = Inl ErrNotFound
    \<and> groupsForUser i s' = [] \<and> (\<forall>gid. \<not> member_of s' gid i)
    \<and> (\<forall>u. readUserByID i s = Inr u \<longrightarrow> readUserByUsername (uUsername u) s' = Inl ErrNotFound
         \<and> (uOAuthID u \<noteq> [] \<longrightarrow> readUserByOAuth (uOAuthProvider u) (uOAuthID u) s' = Inl ErrNotFound))
    \<and> (\<forall>t. readTokenByUser i s = Inr (Some t) \<longrightarrow> readTokenByHash (tkTokenHash t) s' = Inl ErrNotFound)
    \<and> (\<forall>j. j \<noteq> i \<longrightarrow> readUserByID j s' = readUserByID j s \<and> readTokenByUser j s' = readTokenByUser j s)
    \<and> (\<forall>tid m. readTrace tid s = Inr m \<longrightarrow>
         readTrace tid s' = Inr (if tmUserID m = i then m\<lparr>tmUserID := []\<rparr> else m))"
proof -
  obtain u where u: "gm_get (users s) i = Some u"
    using ok by (auto simp: deleteUser_def split: option.splits)
  have s': "s' = snd (deleteUser i s)" using ok by simp
  note f = deleteUser_fields [OF u, folded s'] and inv' = deleteUser_inv [OF inv, of i, folded s']
  have tok: "gm_get (tokensByUser s') j = (if j = i then None else gm_get (tokensByUser s) j)"
    "j \<noteq> i \<Longrightarrow> gm_get (tokensByUser s) j = Some k \<Longrightarrow> gm_get (tokens s') k = gm_get (tokens s) k" for j k
    using token_of_user [OF inv]
    by (auto simp: f deleteToken_def removeToken_def split: option.splits)
  have mem: "\<not> member_of s' gid i" for gid
    using mem_invD(5) [OF fsm_invD(5) [OF inv'], of i gid] by (auto simp: member_of_def f(2))
  have "groupsForUser i s' = []"
    using set_groupsForUser [OF inv', of _ i] mem by (metis list.set_intros(1) neq_Nil_conv)
  moreover have "readUserByUsername (uUsername u) s' = Inl ErrNotFound"
    by (simp add: readUserByUsername_def read_idx_def f user_name_key_def)
  moreover have "readUserByOAuth (uOAuthProvider u) (uOAuthID u) s' = Inl ErrNotFound" if "uOAuthID u \<noteq> []"
    using that by (simp add: readUserByOAuth_def read_idx_def f user_oauth_key_def)
  moreover have "readTokenByHash (tkTokenHash t) s' = Inl ErrNotFound" if r: "readTokenByUser i s = Inr (Some t)" for t
  proof -
    obtain k t0 where k: "gm_get (tokensByUser s) i = Some k" "gm_get (tokens s) k = Some t0" "tkTokenHash t0 = tkTokenHash t"
      using r by (auto simp: readTokenByUser_def copyToken_def split: option.splits)
    then show ?thesis by (simp add: readTokenByHash_def f deleteToken_def removeToken_def)
  qed
  ultimately show ?thesis
    using mem tok u
    by (auto simp: readUserByID_def read_row_def readTokenByUser_def readTrace_def f split: option.splits)
qed

theorem deleteUser_cascade_witness:
  "readUserByUsername ''Alice'' (snd (deleteUser ''u1'' sample)) = Inl ErrNotFound
   \<and> groupsForUser ''u1'' (snd (deleteUser ''u1'' sample)) = []"
proof -
  have "fst (deleteUser ''u1'' sample) = None"
    "readUserByID ''u1'' sample = Inr (stored_user None (sample_user ''u1'' ''Alice'' 10))" by code_simp+
  moreover from this have "deleteUser ''u1'' sample = (None, snd (deleteUser ''u1'' sample))"
    by (metis prod.collapse)
  ultimately show ?thesis
    using deleteUser_cascade [OF sample_inv, of "''u1''"] by (auto simp: sample_user_def)
qed

text \<open>
  Deleting a group removes every reference to it. Afterwards the id and the name resolve to
  no group, no user is in it and the other memberships are unchanged, and its projects and traces
  are kept without a group.
\<close>

theorem deleteGroup_cascade:
  assumes inv: "fsm_inv s" and ok: "deleteGroup i s = (None, s')"
  shows "readGroupByID i s' = Inl ErrNotFound \<and> members i s' = []
    \<and> (\<forall>g. readGroupByID i s = Inr g \<longrightarrow> readGroupByName (gName g) s' = Inl ErrNotFound)
    \<and> (\<forall>gid uid. member_of s' gid uid \<longleftrightarrow> gid \<noteq> i \<and> member_of s gid uid)
    \<and> (\<forall>pid p. readProjectByID pid s = Inr p \<longrightarrow>
         readProjectByID pid s' = Inr (if pGroupID p = i then p\<lparr>pGroupID := []\<rparr> else p))
    \<and> (\<forall>tid m. readTrace tid s = Inr m \<longrightarrow>
         readTrace tid s' = Inr (if tmGroupID m = i then m\<lparr>tmGroupID := []\<rparr> else m))"
proof -
  obtain g where g: "gm_get (groups s) i = Some g"
    using ok by (auto simp: deleteGroup_def split: option.splits)
  have s': "s' = snd (deleteGroup i s)" using ok by simp
  note f = deleteGroup_fields [OF g, folded s']
  have "members i s' = []" by (simp add: members_def f map_filter_simps)
  moreover have "member_of s' gid uid \<longleftrightarrow> gid \<noteq> i \<and> member_of s gid uid" for gid uid
    by (simp add: member_of_def f)
  ultimately show ?thesis
    using g by (auto simp: readGroupByID_def read_row_def readGroupByName_def read_idx_def
        readProjectByID_def readTrace_def f group_name_key_def split: option.splits)
qed

theorem deleteGroup_cascade_witness:
  "members ''g1'' (snd (deleteGroup ''g1'' sample)) = [] \<and> member_of (snd (deleteGroup ''g1'' sample)) ''g2'' ''u1''"
proof -
  have "fst (deleteGroup ''g1'' sample) = None" "member_of sample ''g2'' ''u1''" by code_simp+
  moreover from this have "deleteGroup ''g1'' sample = (None, snd (deleteGroup ''g1'' sample))"
    by (metis prod.collapse)
  ultimately show ?thesis using deleteGroup_cascade [OF sample_inv, of "''g1''"] by auto
qed

text \<open>
  Setting the members of a group replaces them. When it succeeds the members are exactly the
  given users, in whatever order and however often they were listed, and no other group changes; it
  fails exactly when the group or one of the users does not exist.
\<close>

theorem setMembers_replaces:
  assumes inv: "fsm_inv s"
  shows "(fst (setMembers gid uids s) = None \<longleftrightarrow>
      (\<exists>g. readGroupByID gid s = Inr g) \<and> (\<forall>uid \<in> set uids. \<exists>u. readUserByID uid s = Inr u))
    \<and> (fst (setMembers gid uids s) = None \<longrightarrow>
      (\<forall>h uid. member_of (snd (setMembers gid uids s)) h uid \<longleftrightarrow>
        (if h = gid then uid \<in> set uids else member_of s h uid)))"
proof
  show "fst (setMembers gid uids s) = None \<longleftrightarrow>
      (\<exists>g. readGroupByID gid s = Inr g) \<and> (\<forall>uid \<in> set uids. \<exists>u. readUserByID uid s = Inr u)"
    by (auto simp: setMembers_ok_iff readGroupByID_def readUserByID_def)
  show "fst (setMembers gid uids s) = None \<longrightarrow>
      (\<forall>h uid. member_of (snd (setMembers gid uids s)) h uid \<longleftrightarrow>
        (if h = gid then uid \<in> set uids else member_of s h uid))"
  proof
    assume "fst (setMembers gid uids s) = None"
    then have "setMembers gid uids s = (None, snd (setMembers gid uids s))" by (metis prod.collapse)
    from setMembers_edges(1) [OF fsm_invD(5) [OF inv] this]
    show "\<forall>h uid. member_of (snd (setMembers gid uids s)) h uid \<longleftrightarrow>
        (if h = gid then uid \<in> set uids else member_of s h uid)"
      unfolding member_of_def by simp
  qed
qed

theorem setMembers_replaces_witness:
  "\<not> member_of (snd (setMembers ''g1'' [''u2'', ''u2''] sample)) ''g1'' ''u1''
   \<and> member_of (snd (setMembers ''g1'' [''u2'', ''u2''] sample)) ''g2'' ''u1''"
proof -
  have "fst (setMembers ''g1'' [''u2'', ''u2''] sample) = None" "member_of sample ''g2'' ''u1''" by code_simp+
  then show ?thesis using setMembers_replaces [OF sample_inv, of "''g1''" "[''u2'', ''u2'']"] by simp
qed

section \<open>Tokens\<close>

text \<open>
  C24: a user has one token. After a token is stored, its hash and its user both lead to it; every
  other hash that led to a token of that user leads nowhere; and the tokens of the other users
  are found as before. Storing fails, with a conflict, only when the hash is another user's.
\<close>

theorem upsertToken_replaces:
  assumes inv: "fsm_inv s" and tok: "token_ok s t" and ok: "upsertToken t s = (e, s')"
  shows "(e = None \<longrightarrow> readTokenByHash (tkTokenHash t) s' = Inr (Some t)
      \<and> readTokenByUser (tkUserID t) s' = Inr (Some t)
      \<and> (\<forall>h k. h \<noteq> tkTokenHash t \<longrightarrow> (readTokenByHash h s' = Inr (Some k) \<longleftrightarrow>
           readTokenByHash h s = Inr (Some k) \<and> tkUserID k \<noteq> tkUserID t)))
    \<and> (e \<noteq> None \<longrightarrow> e = Some ErrConflict
      \<and> (\<exists>k. readTokenByHash (tkTokenHash t) s = Inr (Some k) \<and> tkUserID k \<noteq> tkUserID t))"
proof (cases e)
  case None
  have inv': "fsm_inv s'" by (rule upsertToken_inv [OF inv tok ok])
  note get = upsertToken_tokens [OF inv tok ok [unfolded None]]
  have "readTokenByHash h s' = Inr (Some k) \<longleftrightarrow> readTokenByHash h s = Inr (Some k) \<and> tkUserID k \<noteq> tkUserID t"
    if "h \<noteq> tkTokenHash t" for h k
    using that get [of "tkID k" k] by (auto simp: readTokenByHash_Inr [OF inv] readTokenByHash_Inr [OF inv'])
  with None get [of "tkID t" t] show ?thesis
    by (simp add: readTokenByHash_Inr [OF inv'] readTokenByUser_Inr [OF inv'])
next
  case (Some x)
  with upsertToken_conflict [OF inv ok [unfolded Some]] show ?thesis
    by (auto simp: readTokenByHash_Inr [OF inv])
qed

theorem upsertToken_replaces_witness:
  "readTokenByHash ''h2'' (snd (upsertToken (sample_token ''k2'' ''u1'' ''h2'') sample))
     = Inr (Some (sample_token ''k2'' ''u1'' ''h2''))
   \<and> readTokenByHash ''h1'' (snd (upsertToken (sample_token ''k2'' ''u1'' ''h2'') sample))
     \<noteq> Inr (Some (sample_token ''k1'' ''u1'' ''h1''))"
proof -
  let ?t = "sample_token ''k2'' ''u1'' ''h2''"
  have "token_ok sample ?t" "fst (upsertToken ?t sample) = None" by code_simp+
  moreover from this have "upsertToken ?t sample = (None, snd (upsertToken ?t sample))" by (metis prod.collapse)
  ultimately show ?thesis
    using upsertToken_replaces [OF sample_inv, of ?t] by (simp add: sample_token_def)
qed

section \<open>The status of a trace\<close>

definition trace_status :: "string \<Rightarrow> fsmState \<Rightarrow> string option" where
  "trace_status tid s = map_option tmStatus (gm_get (traces s) tid)"

text \<open>The two kinds of command that may change a final status: a final status of the client, and a delete.\<close>

definition final_write :: "string \<Rightarrow> command \<Rightarrow> bool" where
  "final_write tid c = (case cData c of
     PIngest m \<Rightarrow> cKind c = kindUpsertTraceIngest \<and> tmTraceID m = tid \<and> terminal (tmStatus m)
   | PDeleteTrace t \<Rightarrow> cKind c = kindDeleteTrace \<and> t = tid
   | _ \<Rightarrow> False)"

lemma tmStatus_Let: "tmStatus v = a \<Longrightarrow> (\<And>x. tmStatus x = a \<Longrightarrow> tmStatus (f x) = b) \<Longrightarrow> tmStatus (Let v f) = b"
  by (simp add: Let_def)

lemma mergeIngest_status:
  "tmStatus (mergeIngest m e) = (if terminal (tmStatus m) then tmStatus m
     else if tmStatus m \<noteq> [] \<and> \<not> terminal (tmStatus e) then tmStatus m else tmStatus e)"
proof -
  let ?r = "if terminal (tmStatus m) then tmStatus m
     else if tmStatus m \<noteq> [] \<and> \<not> terminal (tmStatus e) then tmStatus m else tmStatus e"
  show ?thesis unfolding mergeIngest_def
  proof (rule tmStatus_Let [where a = "tmStatus e"], simp, rule tmStatus_Let [where a = "tmStatus e"], simp, rule tmStatus_Let [where a = ?r])
    show "tmStatus x = tmStatus e \<Longrightarrow> tmStatus (if tmStatus m = ''success'' \<or> tmStatus m = ''failed''
        then x\<lparr>tmStatus := tmStatus m, tmFailureReason := []\<rparr>
        else if tmStatus m \<noteq> [] \<and> tmStatus x \<noteq> ''success'' \<and> tmStatus x \<noteq> ''failed'' then x\<lparr>tmStatus := tmStatus m\<rparr> else x) = ?r" for x
      by (simp add: terminal_def)
  qed (intro tmStatus_Let [where a = ?r], simp_all)
qed

lemma entity_traces:
  "applyEntityCommand cmd s = Some (e, s') \<Longrightarrow> trace_status tid s' = trace_status tid s"
proof (cases "cData cmd")
  case (PString i)
  assume "applyEntityCommand cmd s = Some (e, s')"
  with PString consider "(e, s') = deleteUser i s" | "(e, s') = deleteGroup i s" | "(e, s') = deleteProject i s" | "s' = s"
    by (auto simp: applyEntityCommand_def split: if_splits)
  then show ?thesis
    by cases (auto simp: deleteUser_def deleteGroup_def deleteProject_def Let_def deleteToken_frame trace_status_def
        option.map_comp comp_def intro!: option.map_cong split: option.splits)
next
  case (PUser p)
  assume "applyEntityCommand cmd s = Some (e, s')"
  with PUser show ?thesis
    by (auto simp: applyEntityCommand_def upsertUser_def Let_def storeUser_frame trace_status_def
        split: if_splits option.splits)
qed (auto simp: applyEntityCommand_def trace_status_def upsertGroup_def storeGroup_def upsertProject_def
    storeProject_def upsertToken_def storeToken_def removeToken_frame deleteToken_frame touchToken_def Let_def
    dest: setMembers_frame split: if_splits option.splits)

lemma session_traces:
  "applySessionCommand cmd s = Some (e, s') \<Longrightarrow> trace_status tid s' = trace_status tid s"
  by (cases "cData cmd") (auto simp: applySessionCommand_def trace_status_def split: if_splits)

lemma trace_cache_status:
  assumes "applyTraceCacheCommand cmd s = Some (r, s')" and "trace_status tid s = Some st"
    and "terminal st" and "\<not> final_write tid cmd"
  shows "trace_status tid s' = Some st"
proof (cases "cData cmd")
  case (PProvision p)
  with assms(1,2) show ?thesis
    by (auto simp: applyTraceCacheCommand_def upsertTraceProvision_def Let_def trace_status_def
        split: if_splits option.splits)
next
  case (PIngest m)
  with assms show ?thesis
    by (auto simp: applyTraceCacheCommand_def upsertTraceIngest_def final_write_def trace_status_def
        mergeIngest_status split: if_splits option.splits)
next
  case (PMarkFailed p)
  with assms(1-3) show ?thesis
    by (auto simp: applyTraceCacheCommand_def markTraceFailed_def trace_status_def terminal_def
        split: if_splits option.splits)
next
  case (PDeleteTrace t)
  with assms show ?thesis
    by (auto simp: applyTraceCacheCommand_def final_write_def trace_status_def split: if_splits)
qed (use assms(1,2) in \<open>auto simp: applyTraceCacheCommand_def trace_status_def split: if_splits\<close>)

lemma applyCommand_status:
  assumes "trace_status tid s = Some st" and "terminal st" and "\<not> final_write tid c"
  shows "trace_status tid (snd (applyCommand c s)) = Some st"
  using assms
  by (auto simp: applyCommand_def entity_traces session_traces trace_cache_status split: option.splits)

text \<open>
  C23: a final status stays. Once a trace is recorded as success or failed, no log without a delete
  of that trace and without another final status reported for it changes its status: neither
  late running updates, nor provisioning, nor the failure marks of the server, nor the deletion of its
  user or group.
\<close>

theorem final_status_stays:
  assumes "trace_status tid s = Some st" and "terminal st" and "list_all (\<lambda>c. \<not> final_write tid c) log"
  shows "trace_status tid (run log s) = Some st"
  using assms by (induction log arbitrary: s) (simp_all add: applyCommand_status)

theorem final_status_stays_witness:
  "trace_status ''t2'' (run [newCommand kindMarkTraceFailed (PMarkFailed \<lparr>cfTraceID = ''t2'', cfReason = ''lost'', cfUpdatedAt = 50\<rparr>),
      newCommand kindUpsertTraceIngest (PIngest (sample_trace ''t2'' ''u2'' [] ''running'' 60)),
      newCommand kindDeleteUser (PString ''u2'')] sample) = Some ''success''"
proof -
  have "trace_status ''t2'' sample = Some ''success''" "terminal ''success''"
    "list_all (\<lambda>c. \<not> final_write ''t2'' c)
      [newCommand kindMarkTraceFailed (PMarkFailed \<lparr>cfTraceID = ''t2'', cfReason = ''lost'', cfUpdatedAt = 50\<rparr>),
       newCommand kindUpsertTraceIngest (PIngest (sample_trace ''t2'' ''u2'' [] ''running'' 60)),
       newCommand kindDeleteUser (PString ''u2'')]" by code_simp+
  then show ?thesis by (rule final_status_stays)
qed

text \<open>
  old log entries stay readable. A command of a retired kind (the cache-routing kinds 15, 16,
  18 to 21 and 25) succeeds and changes nothing, whatever its payload, and a command of a kind
  that no release has used (0, 17, or above 25) is refused and changes nothing.
\<close>

theorem retired_kinds_ignored:
  "applyCommand c s =
     (if cKind c \<in> {15, 16, 18, 19, 20, 21, 25} then (Inr RespNil, s)
      else if cKind c = 0 \<or> cKind c = 17 \<or> cKind c > 25
      then (Inl (ErrOther ''unknown raft command kind''), s)
      else applyCommand c s)"
  by (auto simp: applyCommand_def applyEntityCommand_def applyTraceCacheCommand_def
      applySessionCommand_def kind_defs err_result_def)

end
