(* ===== verification/Version.thy ===== *)
theory Version
  imports Domain "HOL-Library.Monad_Syntax"
begin

text \<open>
  Engine versions: \<^verbatim>\<open>src/internal/domain/version.go\<close> and the resolver
  \<^verbatim>\<open>src/internal/service/version.go\<close>. The two regular expressions are scanners over
  bytes; \<^verbatim>\<open>strconv.Atoi\<close> on a string of digits is \<open>atoi\<close>, which stays at the largest
  int64 when the number does not fit (the code ignores the range error), so the components are
  between 0 and \<open>2 ^ 63 - 1\<close> and the differences of \<open>Compare\<close> cannot overflow. \<^verbatim>\<open>%d\<close> is
  \<open>show_int\<close>. The floor of a resolver is its parsed version.
\<close>

section \<open>Decimal numbers\<close>

definition max_int64 :: int where
  "max_int64 = 2 ^ 63 - 1"

definition digit_val :: "char \<Rightarrow> int" where
  "digit_val c = int (of_char c) - 48"

definition digits_val :: "string \<Rightarrow> int" where
  "digits_val ds = foldl (\<lambda>n c. 10 * n + digit_val c) 0 ds"

definition atoi :: "string \<Rightarrow> int" where
  "atoi ds = min max_int64 (digits_val ds)"

definition digit_char :: "nat \<Rightarrow> char" where
  "digit_char d = char_of (48 + d)"

fun show_nat :: "nat \<Rightarrow> string" where
  "show_nat n = (if n < 10 then [digit_char n] else show_nat (n div 10) @ [digit_char (n mod 10)])"

declare show_nat.simps [simp del]

definition show_int :: "int \<Rightarrow> string" where
  "show_int i = (if i < 0 then CHR ''-'' # show_nat (nat (- i)) else show_nat (nat i))"

text \<open>\<^verbatim>\<open>strconv.Atoi\<close> on any string (and \<^verbatim>\<open>ParseInt\<close> in base 10): an optional sign, then digits only; the error for a number that does not fit is an error too.\<close>

definition Atoi :: "string \<Rightarrow> int option" where
  "Atoi s =
     (let neg = (s \<noteq> [] \<and> hd s = CHR ''-''); ds = (if s \<noteq> [] \<and> (hd s = CHR ''-'' \<or> hd s = CHR ''+'') then tl s else s);
          n = (if neg then - digits_val ds else digits_val ds)
      in if ds = [] \<or> \<not> list_all is_digit ds \<or> n > max_int64 \<or> n < - max_int64 - 1 then None else Some n)"

lemma digits_val_snoc: "digits_val (ds @ [c]) = 10 * digits_val ds + digit_val c"
  by (simp add: digits_val_def)

lemma of_char_digit: "d < 10 \<Longrightarrow> (of_char (digit_char d) :: nat) = 48 + d"
  by (simp add: digit_char_def)

lemma digit_val_char: "d < 10 \<Longrightarrow> digit_val (digit_char d) = int d"
  by (simp add: digit_val_def of_char_digit)

lemma is_digit_char: "d < 10 \<Longrightarrow> is_digit (digit_char d)"
  by (simp add: is_digit_def char_in_def less_eq_char_def of_char_digit)

lemma show_nat_digits: "list_all is_digit (show_nat n)"
proof (induction n rule: show_nat.induct)
  case (1 n)
  then show ?case by (subst show_nat.simps) (simp add: is_digit_char)
qed

lemma show_nat_nonempty [simp]: "show_nat n \<noteq> []"
  by (subst show_nat.simps) simp

lemma digits_val_show: "digits_val (show_nat n) = int n"
proof (induction n rule: show_nat.induct)
  case (1 n)
  show ?case
  proof (cases "n < 10")
    case True
    then show ?thesis by (subst show_nat.simps) (simp add: digits_val_def digit_val_char)
  next
    case False
    with 1 show ?thesis
      by (subst show_nat.simps) (simp add: digits_val_snoc digit_val_char zdiv_int zmod_int)
  qed
qed

lemma digit_val_nonneg: "is_digit c \<Longrightarrow> 0 \<le> digit_val c"
  by (simp add: is_digit_def char_in_def less_eq_char_def digit_val_def)

lemma digits_val_nonneg: "list_all is_digit ds \<Longrightarrow> 0 \<le> digits_val ds"
proof (induction ds rule: rev_induct)
  case (snoc c ds)
  then show ?case by (simp add: digits_val_snoc digit_val_nonneg)
qed (simp add: digits_val_def)

lemma atoi_bounds: "list_all is_digit ds \<Longrightarrow> 0 \<le> atoi ds \<and> atoi ds \<le> max_int64"
  using digits_val_nonneg [of ds] by (simp add: atoi_def max_int64_def)

lemma atoi_show: "0 \<le> i \<Longrightarrow> i \<le> max_int64 \<Longrightarrow> atoi (show_int i) = i"
  by (simp add: atoi_def show_int_def digits_val_show)

lemma show_int_digits: "0 \<le> i \<Longrightarrow> list_all is_digit (show_int i) \<and> show_int i \<noteq> []"
  by (simp add: show_int_def show_nat_digits)

section \<open>Versions\<close>

record Version =
  vMajor :: int
  vMinor :: int
  vPatch :: int
  vRaw :: string

definition trim_v :: "string \<Rightarrow> string" where
  "trim_v s = (case s of c # cs \<Rightarrow> if c = CHR ''v'' then cs else s | [] \<Rightarrow> s)"

text \<open>\<^verbatim>\<open>(\d+)\<close> at the head of a string: the digits and the rest.\<close>

definition scan_num :: "string \<Rightarrow> (string \<times> string) option" where
  "scan_num s = (if takeWhile is_digit s = [] then None
     else Some (takeWhile is_digit s, dropWhile is_digit s))"

definition scan_dot :: "string \<Rightarrow> string option" where
  "scan_dot s = (case s of c # cs \<Rightarrow> if c = CHR ''.'' then Some cs else None | [] \<Rightarrow> None)"

text \<open>The three groups of \<open>versionRe\<close> on the whole string.\<close>

definition versionRe :: "string \<Rightarrow> (string \<times> string \<times> string) option" where
  "versionRe s = do {
     (a, r1) \<leftarrow> scan_num (trim_v s);
     r2 \<leftarrow> scan_dot r1;
     (b, r3) \<leftarrow> scan_num r2;
     if r3 = [] then Some (a, b, []) else do {
       r4 \<leftarrow> scan_dot r3;
       (p, r5) \<leftarrow> scan_num r4;
       if r5 = [] then Some (a, b, p) else None
     }
   }"

definition fullVersionRe :: "string \<Rightarrow> bool" where
  "fullVersionRe s = (case versionRe s of None \<Rightarrow> False | Some (a, b, p) \<Rightarrow> p \<noteq> [])"

definition version_string :: "int \<Rightarrow> int \<Rightarrow> int \<Rightarrow> string" where
  "version_string a b p = ''v'' @ show_int a @ ''.'' @ show_int b @ ''.'' @ show_int p"

definition Parse :: "string \<Rightarrow> (error, Version) result" where
  "Parse raw = (case versionRe (trim_v raw) of
     None \<Rightarrow> Inl (ErrOther ''invalid version format'')
   | Some (a, b, p) \<Rightarrow>
       let major = atoi a; minor = atoi b; patch = atoi p
       in Inr \<lparr>vMajor = major, vMinor = minor, vPatch = patch,
               vRaw = version_string major minor patch\<rparr>)"

definition IsFullVersion :: "string \<Rightarrow> bool" where
  "IsFullVersion raw = fullVersionRe raw"

definition Compare :: "Version \<Rightarrow> Version \<Rightarrow> int" where
  "Compare v other =
     (if vMajor v \<noteq> vMajor other then vMajor v - vMajor other
      else if vMinor v \<noteq> vMinor other then vMinor v - vMinor other
      else vPatch v - vPatch other)"

definition MinorKey :: "Version \<Rightarrow> string" where
  "MinorKey v = show_int (vMajor v) @ ''.'' @ show_int (vMinor v)"

section \<open>The resolver\<close>

record Resolver =
  rAllowlist :: "string list"
  rFloor :: Version
  rReleases :: "(string, string list) gomap"

fun parse_allowlist :: "string list \<Rightarrow> (error, string list) result" where
  "parse_allowlist [] = Inr []"
| "parse_allowlist (v # vs) = (case Parse v of
     Inl e \<Rightarrow> Inl e
   | Inr p \<Rightarrow> (case parse_allowlist vs of Inl e \<Rightarrow> Inl e | Inr ks \<Rightarrow> Inr (set_put (MinorKey p) ks)))"

definition NewResolver ::
    "string \<Rightarrow> string list \<Rightarrow> (string, string list) gomap \<Rightarrow> (error, Resolver) result" where
  "NewResolver floor allowlist releases = (case Parse floor of
     Inl e \<Rightarrow> Inl e
   | Inr f \<Rightarrow> (case parse_allowlist allowlist of
       Inl e \<Rightarrow> Inl e
     | Inr al \<Rightarrow> Inr \<lparr>rAllowlist = al, rFloor = f, rReleases = releases\<rparr>))"

definition IsAllowed :: "Resolver \<Rightarrow> Version \<Rightarrow> bool" where
  "IsAllowed r v =
     (if Compare v (rFloor r) < 0 then False
      else if rAllowlist r \<noteq> [] \<and> \<not> List.member (rAllowlist r) (MinorKey v) then False
      else True)"

fun latest_patch :: "Version \<Rightarrow> string list \<Rightarrow> int \<Rightarrow> int" where
  "latest_patch v [] latest = latest"
| "latest_patch v (p # ps) latest = (case Parse p of
     Inl _ \<Rightarrow> latest_patch v ps latest
   | Inr ver \<Rightarrow>
       if vMajor ver = vMajor v \<and> vMinor ver = vMinor v \<and> vPatch ver > latest
       then latest_patch v ps (vPatch ver) else latest_patch v ps latest)"

definition ResolveMinimal :: "Resolver \<Rightarrow> string \<Rightarrow> (error, Version) result" where
  "ResolveMinimal r raw = (case Parse raw of
     Inl e \<Rightarrow> Inl e
   | Inr v \<Rightarrow>
       if vPatch v \<noteq> 0 then Inr v
       else (case gm_get (rReleases r) (MinorKey v) of
           None \<Rightarrow> Inr v
         | Some patches \<Rightarrow>
             if patches = [] then Inr v
             else let latestPatch = latest_patch v patches 0
               in if latestPatch > 0
                  then Inr (v\<lparr>vPatch := latestPatch,
                             vRaw := version_string (vMajor v) (vMinor v) latestPatch\<rparr>)
                  else Inr v))"

definition parse_opt :: "string \<Rightarrow> Version option" where
  "parse_opt p = (case Parse p of Inl _ \<Rightarrow> None | Inr v \<Rightarrow> Some v)"

definition version_key :: "Version \<Rightarrow> int \<times> int \<times> int" where
  "version_key v = (vMajor v, vMinor v, vPatch v)"

definition AllReleases :: "Resolver \<Rightarrow> Version list" where
  "AllReleases r = sort_key version_key
     (filter (IsAllowed r) (List.map_filter parse_opt (concat (map snd (rReleases r)))))"

section \<open>Parsing and printing\<close>

lemma takeWhile_digits: "list_all is_digit ds \<Longrightarrow> takeWhile is_digit (ds @ CHR ''.'' # r) = ds"
  "list_all is_digit ds \<Longrightarrow> dropWhile is_digit (ds @ CHR ''.'' # r) = CHR ''.'' # r"
  by (induction ds) (simp_all add: is_digit_def char_in_def less_eq_char_def)

lemma takeWhile_digits_end: "list_all is_digit ds \<Longrightarrow> takeWhile is_digit ds = ds \<and> dropWhile is_digit ds = []"
  by (induction ds) simp_all

lemma scan_num_dot:
  "list_all is_digit ds \<Longrightarrow> ds \<noteq> [] \<Longrightarrow> scan_num (ds @ CHR ''.'' # r) = Some (ds, CHR ''.'' # r)"
  by (simp add: scan_num_def takeWhile_digits)

lemma scan_num_end: "list_all is_digit ds \<Longrightarrow> ds \<noteq> [] \<Longrightarrow> scan_num ds = Some (ds, [])"
  by (simp add: scan_num_def takeWhile_digits_end)

lemma trim_v_digits: "list_all is_digit ds \<Longrightarrow> ds \<noteq> [] \<Longrightarrow> trim_v (ds @ r) = ds @ r"
  by (cases ds) (auto simp: trim_v_def is_digit_def char_in_def less_eq_char_def)

lemma versionRe_three:
  assumes "list_all is_digit a" "a \<noteq> []" "list_all is_digit b" "b \<noteq> []" "list_all is_digit p" "p \<noteq> []"
  shows "versionRe (a @ ''.'' @ b @ ''.'' @ p) = Some (a, b, p)"
  using assms by (simp add: versionRe_def trim_v_digits scan_num_dot scan_num_end scan_dot_def)

lemma scan_num_Some: "scan_num s = Some (d, r) \<Longrightarrow> list_all is_digit d"
  by (auto simp: scan_num_def list_all_iff split: if_splits dest: set_takeWhileD)

lemma versionRe_digits:
  "versionRe s = Some (a, b, p) \<Longrightarrow> list_all is_digit a \<and> list_all is_digit b \<and> list_all is_digit p"
  by (auto simp: versionRe_def split: Option.bind_splits prod.splits if_splits dest: scan_num_Some)

lemma Parse_version_string:
  assumes "0 \<le> a" "a \<le> max_int64" "0 \<le> b" "b \<le> max_int64" "0 \<le> p" "p \<le> max_int64"
  shows "Parse (version_string a b p) =
    Inr \<lparr>vMajor = a, vMinor = b, vPatch = p, vRaw = version_string a b p\<rparr>"
proof -
  have "trim_v (version_string a b p) = show_int a @ ''.'' @ show_int b @ ''.'' @ show_int p"
    by (simp add: version_string_def trim_v_def)
  moreover have "versionRe (show_int a @ ''.'' @ show_int b @ ''.'' @ show_int p)
      = Some (show_int a, show_int b, show_int p)"
    using assms show_int_digits by (intro versionRe_three) auto
  ultimately show ?thesis using assms by (simp add: Parse_def atoi_show Let_def)
qed

definition version_ok :: "Version \<Rightarrow> bool" where
  "version_ok v \<longleftrightarrow> 0 \<le> vMajor v \<and> vMajor v \<le> max_int64 \<and> 0 \<le> vMinor v \<and> vMinor v \<le> max_int64
     \<and> 0 \<le> vPatch v \<and> vPatch v \<le> max_int64 \<and> vRaw v = version_string (vMajor v) (vMinor v) (vPatch v)"

lemma Parse_ok: "Parse raw = Inr v \<Longrightarrow> version_ok v"
  by (auto simp: Parse_def version_ok_def Let_def split: option.splits dest!: versionRe_digits intro: atoi_bounds
      dest: atoi_bounds)

lemma version_ok_parse: "version_ok v \<Longrightarrow> Parse (vRaw v) = Inr v"
  by (simp add: version_ok_def Parse_version_string)

lemma version_ok_full: "version_ok v \<Longrightarrow> IsFullVersion (vRaw v)"
proof -
  assume ok: "version_ok v"
  have trim: "trim_v (vRaw v) = show_int (vMajor v) @ ''.'' @ show_int (vMinor v) @ ''.'' @ show_int (vPatch v)"
    using ok by (simp add: version_ok_def version_string_def trim_v_def)
  have "versionRe (trim_v (vRaw v)) = Some (show_int (vMajor v), show_int (vMinor v), show_int (vPatch v))"
    unfolding trim using ok show_int_digits by (intro versionRe_three) (auto simp: version_ok_def)
  moreover have "trim_v (trim_v (vRaw v)) = trim_v (vRaw v)"
    unfolding trim using ok show_int_digits by (intro trim_v_digits) (auto simp: version_ok_def)
  ultimately show ?thesis
    using ok show_int_digits by (simp add: IsFullVersion_def fullVersionRe_def versionRe_def version_ok_def)
qed

text \<open>
  a parsed version prints in canonical form. Its three components fit an int64 and are not
  negative, and the printed form is a full release version that parses to the same version.
\<close>

theorem parse_canonical:
  assumes "Parse raw = Inr v"
  shows "Parse (vRaw v) = Inr v \<and> IsFullVersion (vRaw v)
    \<and> {vMajor v, vMinor v, vPatch v} \<subseteq> {0..max_int64}"
  using Parse_ok [OF assms] version_ok_parse version_ok_full by (auto simp: version_ok_def)

theorem parse_canonical_witness:
  "Parse ''0.21'' = Inr \<lparr>vMajor = 0, vMinor = 21, vPatch = 0, vRaw = ''v0.21.0''\<rparr>
   \<and> Parse ''v0.21.0'' = Inr \<lparr>vMajor = 0, vMinor = 21, vPatch = 0, vRaw = ''v0.21.0''\<rparr>"
proof -
  have "Parse ''0.21'' = Inr \<lparr>vMajor = 0, vMinor = 21, vPatch = 0, vRaw = ''v0.21.0''\<rparr>" by code_simp
  from parse_canonical [OF this] this show ?thesis by simp
qed

text \<open>Two prefixes are accepted: the trimmed one and the optional one of the expression.\<close>

lemma double_prefix_accepted: "Parse ''vv1.2'' = Parse ''v1.2.0'' \<and> \<not> IsFullVersion ''vv1.2.0''"
  by code_simp

section \<open>Order\<close>

lemma Compare_less: "Compare v w < 0 \<longleftrightarrow> version_key v < version_key w"
  by (auto simp: Compare_def version_key_def)

lemma Compare_eq: "Compare v w = 0 \<longleftrightarrow> version_key v = version_key w"
  by (auto simp: Compare_def version_key_def)

lemma version_key_inj: "version_ok v \<Longrightarrow> version_ok w \<Longrightarrow> version_key v = version_key w \<Longrightarrow> v = w"
  by (cases v; cases w) (simp add: version_ok_def version_key_def)

section \<open>Resolution\<close>

lemma latest_patch_ge: "latest \<le> latest_patch v ps latest"
proof (induction ps arbitrary: latest)
  case (Cons p ps)
  show ?case
    using Cons [of latest] Cons [of "vPatch (projr (Parse p))"]
    by (auto split: sum.split)
qed simp

lemma latest_patch_bound:
  "p \<in> set ps \<Longrightarrow> Parse p = Inr u \<Longrightarrow> vMajor u = vMajor v \<Longrightarrow> vMinor u = vMinor v \<Longrightarrow>
     vPatch u \<le> latest_patch v ps latest"
proof (induction ps arbitrary: latest)
  case (Cons q ps)
  show ?case
  proof (cases "p = q")
    case True
    with Cons.prems show ?thesis
      using latest_patch_ge [of "vPatch u" v ps] latest_patch_ge [of latest v ps] by auto
  next
    case False
    with Cons show ?thesis by (auto split: sum.split)
  qed
qed simp

lemma latest_patch_attained:
  "latest_patch v ps latest = latest \<or>
   (\<exists>p \<in> set ps. \<exists>u. Parse p = Inr u \<and> vMajor u = vMajor v \<and> vMinor u = vMinor v \<and> vPatch u = latest_patch v ps latest)"
proof (induction ps arbitrary: latest)
  case (Cons p ps)
  show ?case
    using Cons [of latest] Cons [of "vPatch (projr (Parse p))"]
    by (fastforce split: sum.split)
qed simp

definition bucket :: "Resolver \<Rightarrow> Version \<Rightarrow> string list" where
  "bucket r v = (case gm_get (rReleases r) (MinorKey v) of None \<Rightarrow> [] | Some ps \<Rightarrow> ps)"

lemma ResolveMinimal_alt:
  assumes "Parse raw = Inr v" and "vPatch v = 0"
  shows "ResolveMinimal r raw = Inr (v\<lparr>vPatch := latest_patch v (bucket r v) 0,
    vRaw := version_string (vMajor v) (vMinor v) (latest_patch v (bucket r v) 0)\<rparr>)"
proof -
  have raw: "vRaw v = version_string (vMajor v) (vMinor v) 0"
    using Parse_ok [OF assms(1)] assms(2) by (simp add: version_ok_def)
  have zero: "v\<lparr>vPatch := 0, vRaw := version_string (vMajor v) (vMinor v) 0\<rparr> = v"
    using raw assms(2) by (cases v) simp
  show ?thesis
  proof (cases "latest_patch v (bucket r v) 0 > 0")
    case True
    then show ?thesis
      using assms by (auto simp: ResolveMinimal_def bucket_def Let_def split: option.splits)
  next
    case False
    with latest_patch_ge [of 0 v "bucket r v"] have none: "latest_patch v (bucket r v) 0 = 0" by simp
    then have "ResolveMinimal r raw = Inr v"
      using assms by (auto simp: ResolveMinimal_def bucket_def Let_def split: option.splits)
    then show ?thesis by (simp only: none zero)
  qed
qed

text \<open>
  A version given without a patch is resolved to the latest known release of its minor
  line. Resolution never fails on a version that parses and keeps the major and minor numbers; a
  version with a patch is returned as it is; otherwise no listed release of the line has a
  higher patch, and the result is one of the listed releases or patch 0.
\<close>

theorem ResolveMinimal_latest:
  assumes "Parse raw = Inr v"
  shows "\<exists>w. ResolveMinimal r raw = Inr w \<and> vMajor w = vMajor v \<and> vMinor w = vMinor v
    \<and> (vPatch v \<noteq> 0 \<longrightarrow> w = v)
    \<and> (vPatch v = 0 \<longrightarrow>
        (\<forall>p \<in> set (bucket r v). \<forall>u. Parse p = Inr u \<and> vMajor u = vMajor v \<and> vMinor u = vMinor v \<longrightarrow>
           vPatch u \<le> vPatch w)
        \<and> (vPatch w = 0 \<or> (\<exists>p \<in> set (bucket r v). Parse p = Inr w)))"
proof (cases "vPatch v = 0")
  case False
  with assms show ?thesis by (simp add: ResolveMinimal_def)
next
  case True
  let ?n = "latest_patch v (bucket r v) 0"
  let ?w = "v\<lparr>vPatch := ?n, vRaw := version_string (vMajor v) (vMinor v) ?n\<rparr>"
  have "?w = u" if "Parse p = Inr u" "vMajor u = vMajor v" "vMinor u = vMinor v" "vPatch u = ?n" for p u
    using Parse_ok [OF that(1)] that by (cases u; cases v) (simp add: version_ok_def)
  then have "?n = 0 \<or> (\<exists>p \<in> set (bucket r v). Parse p = Inr ?w)"
    using latest_patch_attained [of v "bucket r v" 0] by metis
  then show ?thesis
    using True ResolveMinimal_alt [OF assms True] latest_patch_bound [of _ "bucket r v" _ v 0] by auto
qed

definition sample_resolver :: Resolver where
  "sample_resolver = \<lparr>rAllowlist = [], rFloor = \<lparr>vMajor = 0, vMinor = 19, vPatch = 0, vRaw = ''v0.19.0''\<rparr>,
     rReleases = [(''0.19'', [''v0.19.3'', ''bad'', ''v0.19.11'', ''v0.20.99'']), (''0.18'', [''v0.18.1''])]\<rparr>"

theorem ResolveMinimal_latest_witness:
  "\<exists>w. ResolveMinimal sample_resolver ''v0.19'' = Inr w \<and> vPatch w \<ge> 11 \<and> vMinor w = 19"
proof -
  let ?v = "\<lparr>vMajor = 0, vMinor = 19, vPatch = 0, vRaw = ''v0.19.0''\<rparr>"
  let ?u = "\<lparr>vMajor = 0, vMinor = 19, vPatch = 11, vRaw = ''v0.19.11''\<rparr>"
  have "Parse ''v0.19'' = Inr ?v" "''v0.19.11'' \<in> set (bucket sample_resolver ?v)"
    "Parse ''v0.19.11'' = Inr ?u" by code_simp+
  with ResolveMinimal_latest [of "''v0.19''" ?v sample_resolver] show ?thesis by fastforce
qed

lemma parse_opt_Some: "parse_opt p = Some v \<longleftrightarrow> Parse p = Inr v"
  by (simp add: parse_opt_def split: sum.splits)

lemma set_AllReleases:
  "v \<in> set (AllReleases r) \<longleftrightarrow> IsAllowed r v
     \<and> (\<exists>ps \<in> set (map snd (rReleases r)). \<exists>p \<in> set ps. Parse p = Inr v)"
  by (auto simp: AllReleases_def set_map_filter parse_opt_Some)

lemma sort_key_mono_list: "sorted (map version_key (AllReleases r))"
  by (simp add: AllReleases_def)

lemma mset_map_filter: "mset xs = mset ys \<Longrightarrow> mset (List.map_filter f xs) = mset (List.map_filter f ys)"
  by (simp add: List.map_filter_def mset_filter)

lemma mset_concat_eq: "mset xss = mset yss \<Longrightarrow> mset (concat xss) = mset (concat yss)"
  unfolding mset_concat mset_map [symmetric] by (metis mset_map sum_mset_sum_list)

lemma Compare_le: "Compare v w \<le> 0 \<longleftrightarrow> version_key v \<le> version_key w"
  using Compare_less [of v w] Compare_eq [of v w] by (auto simp: order_le_less)

lemma AllReleases_order:
  assumes "gm_ok (rReleases r)" and "gm_ok rel" and "gm_eq (rReleases r) rel"
  shows "AllReleases (r\<lparr>rReleases := rel\<rparr>) = AllReleases r"
proof -
  let ?f = "\<lambda>m. filter (IsAllowed r) (List.map_filter parse_opt (concat (map snd m)))"
  have "mset (List.map_filter parse_opt (concat (map snd rel)))
      = mset (List.map_filter parse_opt (concat (map snd (rReleases r))))"
    using gm_eq_vals [OF assms] by (intro mset_map_filter mset_concat_eq) (rule sym)
  then have "mset (?f rel) = mset (?f (rReleases r))" by (simp add: mset_filter)
  moreover have "inj_on version_key (set (?f rel))"
    by (intro inj_onI version_key_inj)
      (auto simp: set_map_filter parse_opt_Some dest: Parse_ok)
  moreover have "IsAllowed (r\<lparr>rReleases := rel\<rparr>) = IsAllowed r"
    by (rule ext) (simp add: IsAllowed_def)
  moreover have "rReleases (r\<lparr>rReleases := rel\<rparr>) = rel" by simp
  ultimately show ?thesis unfolding AllReleases_def by (simp only: sort_key_mset_eq)
qed

text \<open>
  the list of releases holds exactly the parseable releases that are at or above the floor and
  whose minor line is allowed (when there is an allow list), in ascending order, and does not depend on
  the order in which the release map is visited.
\<close>

theorem AllReleases_exact:
  assumes "gm_ok (rReleases r)" and "gm_ok rel" and "gm_eq (rReleases r) rel"
  shows "(v \<in> set (AllReleases r) \<longleftrightarrow> Compare v (rFloor r) \<ge> 0
      \<and> (rAllowlist r = [] \<or> MinorKey v \<in> set (rAllowlist r))
      \<and> (\<exists>ps \<in> set (map snd (rReleases r)). \<exists>p \<in> set ps. Parse p = Inr v))
    \<and> sorted_wrt (\<lambda>a b. Compare a b \<le> 0) (AllReleases r)
    \<and> AllReleases (r\<lparr>rReleases := rel\<rparr>) = AllReleases r"
proof (intro conjI)
  have "IsAllowed r v \<longleftrightarrow> Compare v (rFloor r) \<ge> 0 \<and> (rAllowlist r = [] \<or> MinorKey v \<in> set (rAllowlist r))"
    by (auto simp: IsAllowed_def)
  then show "v \<in> set (AllReleases r) \<longleftrightarrow> Compare v (rFloor r) \<ge> 0
      \<and> (rAllowlist r = [] \<or> MinorKey v \<in> set (rAllowlist r))
      \<and> (\<exists>ps \<in> set (map snd (rReleases r)). \<exists>p \<in> set ps. Parse p = Inr v)"
    unfolding set_AllReleases by blast
  show "sorted_wrt (\<lambda>a b. Compare a b \<le> 0) (AllReleases r)"
    using sort_key_mono_list [of r] by (simp add: Compare_le sorted_map)
  show "AllReleases (r\<lparr>rReleases := rel\<rparr>) = AllReleases r"
    using assms by (rule AllReleases_order)
qed

theorem AllReleases_exact_witness:
  "AllReleases (sample_resolver\<lparr>rReleases := rev (rReleases sample_resolver)\<rparr>) = AllReleases sample_resolver
   \<and> \<lparr>vMajor = 0, vMinor = 19, vPatch = 3, vRaw = ''v0.19.3''\<rparr> \<in> set (AllReleases sample_resolver)"
proof -
  have "gm_ok (rReleases sample_resolver)" "gm_ok (rev (rReleases sample_resolver))" by code_simp+
  moreover have "gm_eq (rReleases sample_resolver) (rev (rReleases sample_resolver))"
    by (auto simp: gm_eq_def sample_resolver_def fun_eq_iff)
  moreover have "\<lparr>vMajor = 0, vMinor = 19, vPatch = 3, vRaw = ''v0.19.3''\<rparr> \<in> set (AllReleases sample_resolver)"
    by code_simp
  ultimately show ?thesis using AllReleases_exact by blast
qed

end
