(* ===== verification/Rate_Limiter.thy ===== *)
theory Rate_Limiter
  imports Prelude
begin

text \<open>
  The limiter of failed password attempts, \<^verbatim>\<open>src/internal/handler/ratelimit.go\<close>: failures
  per key, a lockout that doubles from 30 seconds up to 15 minutes once five failures have been
  recorded, entries dropped when idle and unlocked, and a bound on the number of entries. Each
  method holds the mutex and is one step; the clock is the argument \<open>now\<close>. The shift of a
  duration is a multiplication by a power of two; with the shift capped at 16 it stays below
  \<open>2 ^ 63\<close> (\<open>lock_no_overflow\<close>).
\<close>

section \<open>State and operations\<close>

definition maxFailedAttempts :: int where "maxFailedAttempts = 5"
definition baseLockout :: duration where "baseLockout = 30 * second"
definition maxLockout :: duration where "maxLockout = 15 * 60 * second"
definition limiterEntryTTL :: duration where "limiterEntryTTL = 30 * 60 * second"
definition maxLimiterEntries :: nat where "maxLimiterEntries = 4096"
definition maxLockoutShift :: int where "maxLockoutShift = 16"

lemmas limiter_consts = second_def maxFailedAttempts_def baseLockout_def maxLockout_def
  limiterEntryTTL_def maxLockoutShift_def

record attemptInfo =
  aiFailures :: int
  aiLockedUntil :: gotime
  aiLastSeen :: gotime

record attemptLimiter =
  attempts :: "(string, attemptInfo) gomap"

definition newAttemptLimiter :: attemptLimiter where
  "newAttemptLimiter = \<lparr>attempts = []\<rparr>"

definition sweepLocked :: "gotime \<Rightarrow> attemptLimiter \<Rightarrow> attemptLimiter" where
  "sweepLocked now l = l\<lparr>attempts := gm_reject (\<lambda>info.
     time_sub now (aiLastSeen info) > limiterEntryTTL \<and> \<not> now < aiLockedUntil info) (attempts l)\<rparr>"

text \<open>The loop of \<^verbatim>\<open>evictOldestLocked\<close>; \<open>None\<close> is \<^verbatim>\<open>first == true\<close>.\<close>

fun oldest_entry ::
    "(string, attemptInfo) gomap \<Rightarrow> (string \<times> gotime) option \<Rightarrow> (string \<times> gotime) option" where
  "oldest_entry [] acc = acc"
| "oldest_entry ((k, info) # es) acc = oldest_entry es
     (case acc of
        None \<Rightarrow> Some (k, aiLastSeen info)
      | Some (_, oldestTime) \<Rightarrow> if aiLastSeen info < oldestTime then Some (k, aiLastSeen info) else acc)"

definition evictOldestLocked :: "attemptLimiter \<Rightarrow> attemptLimiter" where
  "evictOldestLocked l = (case oldest_entry (attempts l) None of
     None \<Rightarrow> l | Some (oldestKey, _) \<Rightarrow> l\<lparr>attempts := gm_del oldestKey (attempts l)\<rparr>)"

definition allow :: "gotime \<Rightarrow> string \<Rightarrow> attemptLimiter \<Rightarrow> bool \<times> attemptLimiter" where
  "allow now key l =
     (let l = sweepLocked now l in
      case gm_get (attempts l) key of None \<Rightarrow> (True, l) | Some info \<Rightarrow> (\<not> now < aiLockedUntil info, l))"

definition lock_for :: "int \<Rightarrow> duration" where
  "lock_for failures =
     (let shift = failures - maxFailedAttempts;
          shift = (if shift > maxLockoutShift then maxLockoutShift else shift);
          lock = baseLockout * 2 ^ nat shift
      in if lock > maxLockout then maxLockout else lock)"

definition recordFailure :: "gotime \<Rightarrow> string \<Rightarrow> attemptLimiter \<Rightarrow> duration \<times> attemptLimiter" where
  "recordFailure now key l =
     (let l = sweepLocked now l;
          (info, l) = (case gm_get (attempts l) key of
             Some info \<Rightarrow> (info, l)
           | None \<Rightarrow>
               let l = (if length (attempts l) \<ge> maxLimiterEntries then evictOldestLocked l else l)
               in (\<lparr>aiFailures = 0, aiLockedUntil = zero_time, aiLastSeen = zero_time\<rparr>, l));
          info = info\<lparr>aiFailures := aiFailures info + 1, aiLastSeen := now\<rparr>
      in if aiFailures info < maxFailedAttempts
         then (0, l\<lparr>attempts := gm_put key info (attempts l)\<rparr>)
         else let lock = lock_for (aiFailures info)
              in (lock, l\<lparr>attempts := gm_put key (info\<lparr>aiLockedUntil := now + lock\<rparr>) (attempts l)\<rparr>))"

definition recordSuccess :: "string \<Rightarrow> attemptLimiter \<Rightarrow> attemptLimiter" where
  "recordSuccess key l = l\<lparr>attempts := gm_del key (attempts l)\<rparr>"

datatype limiter_op = OpAllow gotime string | OpFailure gotime string | OpSuccess string

fun limiter_step :: "limiter_op \<Rightarrow> attemptLimiter \<Rightarrow> attemptLimiter" where
  "limiter_step (OpAllow now key) l = snd (allow now key l)"
| "limiter_step (OpFailure now key) l = snd (recordFailure now key l)"
| "limiter_step (OpSuccess key) l = recordSuccess key l"

definition limiter_run :: "limiter_op list \<Rightarrow> attemptLimiter \<Rightarrow> attemptLimiter" where
  "limiter_run ops l = fold limiter_step ops l"

lemma limiter_run_simps [simp]:
  "limiter_run [] l = l" "limiter_run (op # ops) l = limiter_run ops (limiter_step op l)"
  by (simp_all add: limiter_run_def)

section \<open>The lockout\<close>

lemma lock_no_overflow: "shift \<le> 16 \<Longrightarrow> baseLockout * 2 ^ shift < 2 ^ 63"
proof -
  assume "shift \<le> 16"
  then have "(2 :: int) ^ shift \<le> 2 ^ 16" by (rule power_increasing) simp
  then show ?thesis by (simp add: limiter_consts)
qed

lemma lock_for_eq:
  assumes "maxFailedAttempts \<le> f"
  shows "lock_for f = min maxLockout (baseLockout * 2 ^ nat (f - maxFailedAttempts))"
proof (cases "f - maxFailedAttempts > maxLockoutShift")
  case True
  then have "16 \<le> nat (f - maxFailedAttempts)" by (simp add: limiter_consts)
  then have "(2 :: int) ^ 16 \<le> 2 ^ nat (f - maxFailedAttempts)" by (rule power_increasing) simp
  with True show ?thesis by (simp add: lock_for_def limiter_consts)
next
  case False
  then show ?thesis by (simp add: lock_for_def Let_def)
qed

lemma lock_for_mono:
  assumes "maxFailedAttempts \<le> f" and "f \<le> g"
  shows "lock_for f \<le> lock_for g"
proof -
  have "(2 :: int) ^ nat (f - maxFailedAttempts) \<le> 2 ^ nat (g - maxFailedAttempts)"
    using assms by (intro power_increasing) auto
  then have "baseLockout * 2 ^ nat (f - maxFailedAttempts) \<le> baseLockout * 2 ^ nat (g - maxFailedAttempts)"
    by (intro mult_left_mono) (simp_all add: limiter_consts)
  with assms show ?thesis by (simp add: lock_for_eq min.coboundedI2)
qed

lemma lock_for_pos: "maxFailedAttempts \<le> f \<Longrightarrow> 0 < lock_for f \<and> lock_for f \<le> maxLockout"
  by (simp add: lock_for_eq limiter_consts)

section \<open>The bound on the entries\<close>

definition limiter_inv :: "attemptLimiter \<Rightarrow> bool" where
  "limiter_inv l \<longleftrightarrow> gm_ok (attempts l) \<and> length (attempts l) \<le> maxLimiterEntries"

lemma length_reject: "length (gm_reject P m) \<le> length m"
  by (simp add: gm_reject_def)

lemma limiter_inv_sweep: "limiter_inv l \<Longrightarrow> limiter_inv (sweepLocked now l)"
  by (simp add: limiter_inv_def sweepLocked_def le_trans [OF length_reject])

lemma length_put: "length (gm_put k v m) = (if gm_get m k = None then Suc (length m) else length m)"
  by (induction m) auto

lemma length_del: "gm_ok m \<Longrightarrow> gm_get m k \<noteq> None \<Longrightarrow> Suc (length (gm_del k m)) = length m"
proof (induction m)
  case (Cons kv m)
  obtain j v where kv: "kv = (j, v)" by (cases kv)
  show ?case
  proof (cases "j = k")
    case True
    then have "k \<notin> fst ` set m" using Cons.prems by (simp add: kv gm_ok_Cons map_of_eq_None_iff)
    then have "gm_del k m = m" by (simp add: delete_idem)
    with True show ?thesis by (simp add: kv)
  next
    case False
    with Cons show ?thesis by (simp add: kv gm_ok_Cons)
  qed
qed simp

lemma oldest_entry_key:
  "oldest_entry es acc = Some (k, t) \<Longrightarrow> acc = Some (k, t) \<or> k \<in> fst ` set es"
proof (induction es arbitrary: acc)
  case (Cons e es)
  obtain j info where e: "e = (j, info)" by (cases e)
  show ?case
    using Cons.IH [OF Cons.prems [unfolded e oldest_entry.simps]]
    by (auto simp: e split: option.splits if_splits)
qed simp

lemma oldest_entry_Some: "acc \<noteq> None \<Longrightarrow> oldest_entry es acc \<noteq> None"
  by (induction es acc rule: oldest_entry.induct) (auto split: option.splits)

lemma evict_shrinks:
  assumes "gm_ok (attempts l)" and "attempts l \<noteq> []"
  shows "gm_ok (attempts (evictOldestLocked l)) \<and> Suc (length (attempts (evictOldestLocked l))) = length (attempts l)"
proof -
  obtain e es where es: "attempts l = e # es" using assms(2) by (cases "attempts l") auto
  obtain k t where kt: "oldest_entry (attempts l) None = Some (k, t)"
    using oldest_entry_Some [of "Some (fst e, aiLastSeen (snd e))" es]
    by (cases e) (auto simp: es)
  then have "k \<in> fst ` set (attempts l)" using oldest_entry_key by fastforce
  then have "gm_get (attempts l) k \<noteq> None" by (simp add: map_of_eq_None_iff)
  then show ?thesis using assms(1) length_del by (simp add: evictOldestLocked_def kt)
qed

text \<open>The parts of a recorded failure: the entry before it, the map with room for the key, the new entry.\<close>

definition prior :: "gotime \<Rightarrow> string \<Rightarrow> attemptLimiter \<Rightarrow> attemptInfo" where
  "prior now key l = (case gm_get (attempts (sweepLocked now l)) key of
     None \<Rightarrow> \<lparr>aiFailures = 0, aiLockedUntil = zero_time, aiLastSeen = zero_time\<rparr> | Some info \<Rightarrow> info)"

definition room :: "gotime \<Rightarrow> string \<Rightarrow> attemptLimiter \<Rightarrow> attemptLimiter" where
  "room now key l = (let m = sweepLocked now l in
     if gm_get (attempts m) key = None \<and> length (attempts m) \<ge> maxLimiterEntries
     then evictOldestLocked m else m)"

definition bumped :: "gotime \<Rightarrow> attemptInfo \<Rightarrow> attemptInfo" where
  "bumped now p = (let f = aiFailures p + 1 in
     if f < maxFailedAttempts then p\<lparr>aiFailures := f, aiLastSeen := now\<rparr>
     else p\<lparr>aiFailures := f, aiLastSeen := now, aiLockedUntil := now + lock_for f\<rparr>)"

lemma recordFailure_eq:
  "recordFailure now key l =
     (let f = aiFailures (prior now key l) + 1
      in (if f < maxFailedAttempts then 0 else lock_for f,
          (room now key l)\<lparr>attempts := gm_put key (bumped now (prior now key l)) (attempts (room now key l))\<rparr>))"
  by (simp add: recordFailure_def prior_def room_def bumped_def Let_def split: option.splits)

lemma room_small:
  assumes "limiter_inv l"
  shows "gm_ok (attempts (room now key l))
    \<and> (gm_get (attempts (room now key l)) key = None \<longrightarrow> length (attempts (room now key l)) < maxLimiterEntries)
    \<and> length (attempts (room now key l)) \<le> maxLimiterEntries"
proof -
  let ?m = "sweepLocked now l"
  have m: "gm_ok (attempts ?m)" "length (attempts ?m) \<le> maxLimiterEntries"
    using limiter_inv_sweep [OF assms] by (simp_all add: limiter_inv_def)
  show ?thesis
  proof (cases "gm_get (attempts ?m) key = None \<and> length (attempts ?m) \<ge> maxLimiterEntries")
    case True
    then have "attempts ?m \<noteq> []" by (auto simp: maxLimiterEntries_def)
    with evict_shrinks [OF m(1)] m(2) True show ?thesis by (simp add: room_def Let_def)
  next
    case False
    then have "room now key l = ?m" by (auto simp: room_def Let_def)
    with m False show ?thesis by auto
  qed
qed

lemma limiter_step_inv:
  assumes "limiter_inv l"
  shows "limiter_inv (limiter_step op l)"
proof (cases op)
  case (OpFailure now key)
  with room_small [OF assms, of now key] show ?thesis
    by (simp add: recordFailure_eq Let_def limiter_inv_def length_put) linarith
next
  case (OpAllow now key)
  then show ?thesis
    using limiter_inv_sweep [OF assms] by (simp add: allow_def Let_def split: option.splits)
next
  case (OpSuccess key)
  with assms show ?thesis
    by (auto simp: recordSuccess_def limiter_inv_def intro: le_trans [OF length_delete_le])
qed

text \<open>
  The limiter never holds more than 4096 entries, whatever sequence of checks, failures
  and successes it is given.
\<close>

theorem limiter_bounded:
  "length (attempts (limiter_run ops newAttemptLimiter)) \<le> 4096"
proof -
  have "limiter_inv l \<Longrightarrow> limiter_inv (limiter_run ops l)" for l
    by (induction ops arbitrary: l) (simp_all add: limiter_step_inv)
  moreover have "limiter_inv newAttemptLimiter" by (simp add: limiter_inv_def newAttemptLimiter_def)
  ultimately have "limiter_inv (limiter_run ops newAttemptLimiter)" by blast
  then show ?thesis by (simp add: limiter_inv_def maxLimiterEntries_def)
qed

section \<open>The lockout is enforced\<close>

text \<open>The key has failed at least \<open>f\<close> times and is locked until at least \<open>T\<close>.\<close>

definition locked :: "string \<Rightarrow> int \<Rightarrow> gotime \<Rightarrow> attemptLimiter \<Rightarrow> bool" where
  "locked key f T l = (case gm_get (attempts l) key of None \<Rightarrow> False
     | Some info \<Rightarrow> f \<le> aiFailures info \<and> T \<le> aiLockedUntil info)"

lemma locked_sweep:
  "gm_ok (attempts l) \<Longrightarrow> locked key f T l \<Longrightarrow> now < T \<Longrightarrow> locked key f T (sweepLocked now l)"
  by (auto simp: locked_def sweepLocked_def gm_get_reject split: option.splits)

lemma sweep_ok: "gm_ok (attempts l) \<Longrightarrow> gm_ok (attempts (sweepLocked now l))"
  by (simp add: sweepLocked_def)

lemma sweep_length: "length (attempts (sweepLocked now l)) \<le> length (attempts l)"
  by (simp add: sweepLocked_def length_reject)

lemma locked_failure:
  assumes ok: "gm_ok (attempts l)" and lock: "locked key f (t0 + lock_for f) l"
    and f: "maxFailedAttempts \<le> f" and now: "t0 \<le> now" "now < t0 + lock_for f"
    and space: "length (attempts l) < maxLimiterEntries"
  shows "locked key f (t0 + lock_for f) (snd (recordFailure now k l))"
proof -
  have sw: "locked key f (t0 + lock_for f) (sweepLocked now l)"
    using locked_sweep [OF ok lock now(2)] .
  have room: "room now k l = sweepLocked now l"
    using sweep_length [of now l] space by (auto simp: room_def Let_def)
  show ?thesis
  proof (cases "k = key")
    case True
    obtain info where i: "gm_get (attempts (sweepLocked now l)) key = Some info" "f \<le> aiFailures info"
      using sw by (auto simp: locked_def split: option.splits)
    then have "lock_for f \<le> lock_for (aiFailures info + 1)" using f by (intro lock_for_mono) auto
    with i f now True show ?thesis
      by (simp add: recordFailure_eq Let_def room locked_def prior_def bumped_def)
  next
    case False
    with sw show ?thesis by (simp add: recordFailure_eq Let_def room locked_def)
  qed
qed

text \<open>The events that may happen while a key is locked: anything but a success for that key.\<close>

fun during :: "string \<Rightarrow> gotime \<Rightarrow> gotime \<Rightarrow> limiter_op \<Rightarrow> bool" where
  "during key t0 t1 (OpAllow now k) \<longleftrightarrow> t0 \<le> now \<and> now < t1"
| "during key t0 t1 (OpFailure now k) \<longleftrightarrow> t0 \<le> now \<and> now < t1"
| "during key t0 t1 (OpSuccess k) \<longleftrightarrow> k \<noteq> key"

lemma locked_step:
  assumes "gm_ok (attempts l)" and "locked key f (t0 + lock_for f) l" and "maxFailedAttempts \<le> f"
    and "during key t0 (t0 + lock_for f) op" and "length (attempts l) < maxLimiterEntries"
  shows "gm_ok (attempts (limiter_step op l)) \<and> locked key f (t0 + lock_for f) (limiter_step op l)
    \<and> length (attempts (limiter_step op l)) \<le> Suc (length (attempts l))"
proof (cases op)
  case (OpAllow now k)
  with assms locked_sweep [OF assms(1,2)] sweep_ok [OF assms(1)] sweep_length [of now l] show ?thesis
    by (auto simp: allow_def Let_def split: option.splits)
next
  case (OpFailure now k)
  have "room now k l = sweepLocked now l"
    using sweep_length [of now l] assms(5) by (auto simp: room_def Let_def)
  with OpFailure assms locked_failure [OF assms(1-3), of now k] sweep_ok [OF assms(1)]
    sweep_length [of now l] show ?thesis
    by (auto simp: recordFailure_eq Let_def length_put)
next
  case (OpSuccess k)
  with assms show ?thesis
    by (auto simp: recordSuccess_def locked_def intro: le_SucI le_trans [OF length_delete_le])
qed

lemma locked_run:
  assumes "gm_ok (attempts l)" and "locked key f (t0 + lock_for f) l" and "maxFailedAttempts \<le> f"
    and "list_all (during key t0 (t0 + lock_for f)) ops"
    and "length (attempts l) + length ops \<le> maxLimiterEntries"
  shows "gm_ok (attempts (limiter_run ops l)) \<and> locked key f (t0 + lock_for f) (limiter_run ops l)"
  using assms
proof (induction ops arbitrary: l)
  case (Cons op ops)
  have "gm_ok (attempts (limiter_step op l)) \<and> locked key f (t0 + lock_for f) (limiter_step op l)
      \<and> length (attempts (limiter_step op l)) \<le> Suc (length (attempts l))"
    using Cons.prems by (intro locked_step) auto
  with Cons show ?case by simp
qed simp

text \<open>
  C31: a lockout holds for its whole time. A failure that triggers a lockout returns exactly 30
  seconds doubled with each failure beyond the fifth, capped at 15 minutes; and until that time has
  passed every attempt for the key is refused, whatever checks, further failures and successes of
  other keys happen meanwhile, provided that the entries at the start and the operations in between are together fewer than 4096. With more the
  limiter may fill up, and a full limiter evicts its oldest entry, which can be the locked one.
\<close>

theorem lockout_enforced:
  assumes ok: "gm_ok (attempts l)" and fail: "recordFailure t0 key l = (d, l')" and d: "0 < d"
    and ops: "list_all (during key t0 (t0 + d)) ops"
    and space: "Suc (length (attempts l)) + length ops \<le> 4096"
    and t: "t0 \<le> t" "t < t0 + d"
  shows "\<not> fst (allow t key (limiter_run ops l'))
    \<and> d = min (15 * 60 * second) (30 * second * 2 ^ nat (aiFailures (prior t0 key l) + 1 - 5))"
proof -
  let ?f = "aiFailures (prior t0 key l) + 1"
  have f: "maxFailedAttempts \<le> ?f" "d = lock_for ?f"
    using fail d by (auto simp: recordFailure_eq Let_def split: if_splits)
  have room: "room t0 key l = sweepLocked t0 l"
    using sweep_length [of t0 l] space by (auto simp: room_def Let_def maxLimiterEntries_def)
  have l': "l' = (sweepLocked t0 l)\<lparr>attempts := gm_put key (bumped t0 (prior t0 key l)) (attempts (sweepLocked t0 l))\<rparr>"
    using fail by (simp add: recordFailure_eq Let_def room)
  have "gm_ok (attempts l')" "locked key ?f (t0 + lock_for ?f) l'" "length (attempts l') \<le> Suc (length (attempts l))"
    using f sweep_ok [OF ok, of t0] sweep_length [of t0 l]
    by (simp_all add: l' locked_def bumped_def Let_def length_put)
  then have run: "gm_ok (attempts (limiter_run ops l'))" "locked key ?f (t0 + lock_for ?f) (limiter_run ops l')"
    using locked_run [of l' key ?f t0 ops] f ops space by (simp_all add: maxLimiterEntries_def)
  from locked_sweep [OF run, of t] t f(2) have "\<not> fst (allow t key (limiter_run ops l'))"
    by (auto simp: allow_def Let_def locked_def split: option.splits)
  then show ?thesis using f by (simp add: lock_for_eq limiter_consts)
qed

definition four_failures :: attemptLimiter where
  "four_failures = limiter_run (map (\<lambda>t. OpFailure t ''alice'') [1, 2, 3, 4]) newAttemptLimiter"

theorem lockout_enforced_witness:
  "fst (recordFailure 5 ''alice'' four_failures) = 30 * second
   \<and> \<not> fst (allow 100 ''alice'' (limiter_run [OpFailure 50 ''bob'', OpSuccess ''bob'', OpFailure 60 ''alice'']
         (snd (recordFailure 5 ''alice'' four_failures))))"
proof -
  have "gm_ok (attempts four_failures)" "fst (recordFailure 5 ''alice'' four_failures) = 30000000000"
    "length (attempts four_failures) = 1" by code_simp+
  moreover from this have "recordFailure 5 ''alice'' four_failures
      = (30000000000, snd (recordFailure 5 ''alice'' four_failures))" by (metis prod.collapse)
  ultimately show ?thesis
    using lockout_enforced [of four_failures 5 "''alice''" 30000000000 "snd (recordFailure 5 ''alice'' four_failures)"
        "[OpFailure 50 ''bob'', OpSuccess ''bob'', OpFailure 60 ''alice'']" 100]
    by (simp add: second_def)
qed

end
