(* ===== verification/Raft_Store.thy ===== *)
theory Raft_Store
  imports FSM_Reads
begin

text \<open>
  The write path of the replicated store, \<^verbatim>\<open>src/internal/repository/raft_store.go\<close> (the
  apply functions), and the repositories over it. The Raft library is not part of the sources: what
  it may answer to one write is a value of \<open>outcome\<close>, and the store carries the answers that the
  cluster will give to the coming writes (an exhausted script commits). A write may fail before it
  reaches the log (a cancelled context, not the leader), or fail with a Raft error, and then the
  library does not say whether the entry still commits: \<open>OFail e applied\<close> has both cases. The clock is
  the argument \<open>now\<close>. A repository that fills in a field of the caller's object returns that object.
\<close>

section \<open>The apply path\<close>

datatype raft_error = RErrNotLeader | RErrLeadershipLost | RErrEnqueueTimeout | RDeadlineExceeded | RErrOther string

datatype outcome = OCtx error | ONotLeader | OFail raft_error bool | OCommit

record RaftStore =
  fsm_state :: fsmState
  script :: "outcome list"

definition mapApplyError :: "raft_error \<Rightarrow> error" where
  "mapApplyError e = (case e of
     RErrNotLeader \<Rightarrow> ErrNotLeader | RErrLeadershipLost \<Rightarrow> ErrNotLeader
   | RErrEnqueueTimeout \<Rightarrow> ErrRaftTimeout | RDeadlineExceeded \<Rightarrow> ErrRaftTimeout
   | RErrOther t \<Rightarrow> ErrOther t)"

text \<open>The next answer of the cluster, and the store that waits for the ones after it.\<close>

definition next_outcome :: "RaftStore \<Rightarrow> outcome \<times> RaftStore" where
  "next_outcome rs = (case script rs of [] \<Rightarrow> (OCommit, rs) | o1 # os \<Rightarrow> (o1, rs\<lparr>script := os\<rparr>))"

text \<open>
  \<^verbatim>\<open>applyCtxResponse\<close>: \<open>Inl\<close> is its error, and \<open>Inr\<close> its response, which is an error value
  (\<open>Inl\<close>) where the state machine answered with one.
\<close>

definition applyCtxResponse ::
    "commandKind \<Rightarrow> payload \<Rightarrow> RaftStore \<Rightarrow> (error, (error, response) result) result \<times> RaftStore" where
  "applyCtxResponse k p rs =
     (let (out, rs) = next_outcome rs;
          (resp, s') = applyCommand (newCommand k p) (fsm_state rs)
      in case out of
           OCtx e \<Rightarrow> (Inl e, rs)
         | ONotLeader \<Rightarrow> (Inl ErrNotLeader, rs)
         | OFail e applied \<Rightarrow> (Inl (mapApplyError e), if applied then rs\<lparr>fsm_state := s'\<rparr> else rs)
         | OCommit \<Rightarrow> (Inr resp, rs\<lparr>fsm_state := s'\<rparr>))"

definition fsmError :: "(error, (error, response) result) result \<Rightarrow> error option" where
  "fsmError r = (case r of Inl e \<Rightarrow> Some e | Inr (Inl e) \<Rightarrow> Some e | Inr (Inr _) \<Rightarrow> None)"

definition applyCtx :: "commandKind \<Rightarrow> payload \<Rightarrow> RaftStore \<Rightarrow> error option \<times> RaftStore" where
  "applyCtx k p rs = (let (r, rs') = applyCtxResponse k p rs in (fsmError r, rs'))"

section \<open>Repositories\<close>

definition UserRepo_upsert :: "User \<Rightarrow> bool \<Rightarrow> RaftStore \<Rightarrow> error option \<times> RaftStore" where
  "UserRepo_upsert u create rs = applyCtx kindUpsertUser (PUser ((cmdUserFrom u)\<lparr>cuCreate := create\<rparr>)) rs"

definition UserRepo_Create :: "gotime \<Rightarrow> User \<Rightarrow> RaftStore \<Rightarrow> error option \<times> User \<times> RaftStore" where
  "UserRepo_Create now u rs =
     (let u = (if is_zero (uCreatedAt u) then u\<lparr>uCreatedAt := now\<rparr> else u);
          u = (if is_zero (uUpdatedAt u) then u\<lparr>uUpdatedAt := uCreatedAt u\<rparr> else u);
          (e, rs') = UserRepo_upsert u True rs
      in (e, u, rs'))"

definition UserRepo_Get :: "string \<Rightarrow> RaftStore \<Rightarrow> (error, User) result" where
  "UserRepo_Get i rs = readUserByID i (fsm_state rs)"

definition UserRepo_GetByUsername :: "string \<Rightarrow> RaftStore \<Rightarrow> (error, User) result" where
  "UserRepo_GetByUsername n rs = readUserByUsername n (fsm_state rs)"

definition UserRepo_GetByOAuth :: "string \<Rightarrow> string \<Rightarrow> RaftStore \<Rightarrow> (error, User) result" where
  "UserRepo_GetByOAuth p i rs = readUserByOAuth p i (fsm_state rs)"

definition UserRepo_List :: "RaftStore \<Rightarrow> User list" where
  "UserRepo_List rs = listUsers (fsm_state rs)"

definition UserRepo_Update :: "gotime \<Rightarrow> User \<Rightarrow> RaftStore \<Rightarrow> error option \<times> User \<times> RaftStore" where
  "UserRepo_Update now u rs =
     (let u = u\<lparr>uUpdatedAt := now\<rparr>; (e, rs') = UserRepo_upsert u False rs in (e, u, rs'))"

definition UserRepo_Delete :: "string \<Rightarrow> RaftStore \<Rightarrow> error option \<times> RaftStore" where
  "UserRepo_Delete i rs = applyCtx kindDeleteUser (PString i) rs"

definition UserRepo_Count :: "RaftStore \<Rightarrow> nat" where
  "UserRepo_Count rs = countUsers (fsm_state rs)"

definition GroupRepo_upsert :: "Group \<Rightarrow> bool \<Rightarrow> RaftStore \<Rightarrow> error option \<times> RaftStore" where
  "GroupRepo_upsert g create rs = applyCtx kindUpsertGroup (PGroup g create) rs"

definition GroupRepo_Create :: "gotime \<Rightarrow> Group \<Rightarrow> RaftStore \<Rightarrow> error option \<times> Group \<times> RaftStore" where
  "GroupRepo_Create now g rs =
     (let g = (if is_zero (gCreatedAt g) then g\<lparr>gCreatedAt := now\<rparr> else g);
          g = (if is_zero (gUpdatedAt g) then g\<lparr>gUpdatedAt := gCreatedAt g\<rparr> else g);
          (e, rs') = GroupRepo_upsert g True rs
      in (e, g, rs'))"

definition GroupRepo_Get :: "string \<Rightarrow> RaftStore \<Rightarrow> (error, Group) result" where
  "GroupRepo_Get i rs = readGroupByID i (fsm_state rs)"

definition GroupRepo_GetByName :: "string \<Rightarrow> RaftStore \<Rightarrow> (error, Group) result" where
  "GroupRepo_GetByName n rs = readGroupByName n (fsm_state rs)"

definition GroupRepo_List :: "RaftStore \<Rightarrow> Group list" where
  "GroupRepo_List rs = listGroups (fsm_state rs)"

definition GroupRepo_Update :: "gotime \<Rightarrow> Group \<Rightarrow> RaftStore \<Rightarrow> error option \<times> Group \<times> RaftStore" where
  "GroupRepo_Update now g rs =
     (let g = g\<lparr>gUpdatedAt := now\<rparr>; (e, rs') = GroupRepo_upsert g False rs in (e, g, rs'))"

definition GroupRepo_Delete :: "string \<Rightarrow> RaftStore \<Rightarrow> error option \<times> RaftStore" where
  "GroupRepo_Delete i rs = applyCtx kindDeleteGroup (PString i) rs"

definition GroupRepo_SetMembers :: "string \<Rightarrow> string list \<Rightarrow> RaftStore \<Rightarrow> error option \<times> RaftStore" where
  "GroupRepo_SetMembers gid uids rs = applyCtx kindSetMembers (PSetMembers gid uids) rs"

definition GroupRepo_Members :: "string \<Rightarrow> RaftStore \<Rightarrow> User list" where
  "GroupRepo_Members gid rs = members gid (fsm_state rs)"

definition GroupRepo_GroupsForUser :: "string \<Rightarrow> RaftStore \<Rightarrow> Group list" where
  "GroupRepo_GroupsForUser uid rs = groupsForUser uid (fsm_state rs)"

definition GroupRepo_AllMemberships :: "RaftStore \<Rightarrow> (string, string list) gomap" where
  "GroupRepo_AllMemberships rs = allMemberships (fsm_state rs)"

definition ProjectRepo_upsert :: "Project \<Rightarrow> bool \<Rightarrow> RaftStore \<Rightarrow> error option \<times> RaftStore" where
  "ProjectRepo_upsert p create rs = applyCtx kindUpsertProject (PProject p create) rs"

definition ProjectRepo_Create :: "gotime \<Rightarrow> Project \<Rightarrow> RaftStore \<Rightarrow> error option \<times> Project \<times> RaftStore" where
  "ProjectRepo_Create now p rs =
     (let p = (if is_zero (pCreatedAt p) then p\<lparr>pCreatedAt := now\<rparr> else p);
          p = (if is_zero (pUpdatedAt p) then p\<lparr>pUpdatedAt := pCreatedAt p\<rparr> else p);
          (e, rs') = ProjectRepo_upsert p True rs
      in (e, p, rs'))"

definition ProjectRepo_Get :: "string \<Rightarrow> RaftStore \<Rightarrow> (error, Project) result" where
  "ProjectRepo_Get i rs = readProjectByID i (fsm_state rs)"

definition ProjectRepo_GetByName :: "string \<Rightarrow> RaftStore \<Rightarrow> (error, Project) result" where
  "ProjectRepo_GetByName n rs = readProjectByName n (fsm_state rs)"

definition ProjectRepo_List :: "RaftStore \<Rightarrow> Project list" where
  "ProjectRepo_List rs = listProjects (fsm_state rs)"

definition ProjectRepo_Update :: "gotime \<Rightarrow> Project \<Rightarrow> RaftStore \<Rightarrow> error option \<times> Project \<times> RaftStore" where
  "ProjectRepo_Update now p rs =
     (let p = p\<lparr>pUpdatedAt := now\<rparr>; (e, rs') = ProjectRepo_upsert p False rs in (e, p, rs'))"

definition ProjectRepo_Delete :: "string \<Rightarrow> RaftStore \<Rightarrow> error option \<times> RaftStore" where
  "ProjectRepo_Delete i rs = applyCtx kindDeleteProject (PString i) rs"

definition TokenRepo_Upsert :: "gotime \<Rightarrow> APIToken \<Rightarrow> RaftStore \<Rightarrow> error option \<times> APIToken \<times> RaftStore" where
  "TokenRepo_Upsert now t rs =
     (let t = (if is_zero (tkCreatedAt t) then t\<lparr>tkCreatedAt := now\<rparr> else t);
          (e, rs') = applyCtx kindUpsertToken (PToken (cmdTokenFrom t)) rs
      in (e, t, rs'))"

definition TokenRepo_GetByHash :: "string \<Rightarrow> RaftStore \<Rightarrow> (error, APIToken option) result" where
  "TokenRepo_GetByHash h rs = readTokenByHash h (fsm_state rs)"

definition TokenRepo_GetByUser :: "string \<Rightarrow> RaftStore \<Rightarrow> (error, APIToken option) result" where
  "TokenRepo_GetByUser uid rs = readTokenByUser uid (fsm_state rs)"

definition TokenRepo_Delete :: "string \<Rightarrow> RaftStore \<Rightarrow> error option \<times> RaftStore" where
  "TokenRepo_Delete uid rs = applyCtx kindDeleteToken (PDeleteToken uid) rs"

definition TokenRepo_TouchLastUsed :: "string \<Rightarrow> gotime \<Rightarrow> RaftStore \<Rightarrow> error option \<times> RaftStore" where
  "TokenRepo_TouchLastUsed i at' rs = applyCtx kindTouchToken (PTouchToken i at') rs"

definition maxSessionFieldLen :: nat where "maxSessionFieldLen = 256"

definition clipField :: "string \<Rightarrow> string" where
  "clipField s = (if length s \<le> maxSessionFieldLen then s else take maxSessionFieldLen s)"

definition SessionRepo_Register ::
    "gotime \<Rightarrow> string \<Rightarrow> string \<Rightarrow> string \<Rightarrow> string \<Rightarrow> string \<Rightarrow> string \<Rightarrow> string \<Rightarrow> RaftStore
      \<Rightarrow> error option \<times> RaftStore" where
  "SessionRepo_Register now certFP version replicaPod instanceID traceID userID groupID rs =
     (if certFP = [] then (Some ErrValidation, rs)
      else applyCtx kindUpsertSession (PUpsertSession
        \<lparr>lCertFP = certFP, lVersion = version, lReplicaPod = replicaPod,
         lInstanceID = clipField instanceID, lLastActivity = zero_time, lInFlight = 0,
         lTraceID = clipField traceID, lUserID = clipField userID, lGroupID = clipField groupID\<rparr> now) rs)"

definition SessionRepo_Touch :: "gotime \<Rightarrow> string \<Rightarrow> RaftStore \<Rightarrow> error option \<times> RaftStore" where
  "SessionRepo_Touch now certFP rs =
     (if certFP = [] then (Some ErrValidation, rs)
      else applyCtx kindTouchSession (PTouchSession certFP now) rs)"

definition TraceMetaRepo_UpsertProvision ::
    "gotime \<Rightarrow> string \<Rightarrow> string \<Rightarrow> string \<Rightarrow> RaftStore \<Rightarrow> error option \<times> RaftStore" where
  "TraceMetaRepo_UpsertProvision now traceID userID version rs =
     (if \<not> ValidTraceIDKey traceID then (Some ErrValidation, rs)
      else applyCtx kindUpsertTraceProvision (PProvision
        \<lparr>cpTraceID = traceID, cpUserID = userID, cpVersion = version, cpUpdatedAt = now\<rparr>) rs)"

definition TraceMetaRepo_UpsertIngest :: "gotime \<Rightarrow> TraceMeta \<Rightarrow> RaftStore \<Rightarrow> error option \<times> RaftStore" where
  "TraceMetaRepo_UpsertIngest now m rs =
     (if \<not> ValidTraceIDKey (tmTraceID m) then (Some ErrValidation, rs)
      else applyCtx kindUpsertTraceIngest
        (PIngest (if is_zero (tmUpdatedAt m) then m\<lparr>tmUpdatedAt := now\<rparr> else m)) rs)"

definition maxReasonLen :: nat where "maxReasonLen = 256"

definition TraceMetaRepo_MarkFailed ::
    "gotime \<Rightarrow> string \<Rightarrow> string \<Rightarrow> RaftStore \<Rightarrow> (error, bool) result \<times> RaftStore" where
  "TraceMetaRepo_MarkFailed now traceID reason rs =
     (if \<not> ValidTraceIDKey traceID then (Inl ErrValidation, rs)
      else
        let reason = (if length reason > maxReasonLen then take maxReasonLen reason else reason);
            (r, rs') = applyCtxResponse kindMarkTraceFailed (PMarkFailed
              \<lparr>cfTraceID = traceID, cfReason = reason, cfUpdatedAt = now\<rparr>) rs
        in case r of
             Inl e \<Rightarrow> (Inl e, rs')
           | Inr (Inr (RespBool b)) \<Rightarrow> (Inr b, rs')
           | Inr _ \<Rightarrow> (Inr False, rs'))"

definition TraceMetaRepo_Get :: "string \<Rightarrow> RaftStore \<Rightarrow> (error, TraceMeta) result" where
  "TraceMetaRepo_Get tid rs = readTrace tid (fsm_state rs)"

definition TraceMetaRepo_List :: "TraceFilter \<Rightarrow> RaftStore \<Rightarrow> TraceListResult list" where
  "TraceMetaRepo_List f rs = listTraces f (fsm_state rs)"

definition TraceMetaRepo_ListBefore :: "gotime \<Rightarrow> bool \<Rightarrow> RaftStore \<Rightarrow> TraceMeta list" where
  "TraceMetaRepo_ListBefore cutoff protectRunning rs = listTracesBefore cutoff protectRunning (fsm_state rs)"

definition TraceMetaRepo_ListRunning :: "RaftStore \<Rightarrow> TraceMeta list" where
  "TraceMetaRepo_ListRunning rs = listRunningTraces (fsm_state rs)"

definition TraceMetaRepo_Delete :: "string \<Rightarrow> RaftStore \<Rightarrow> error option \<times> RaftStore" where
  "TraceMetaRepo_Delete tid rs = applyCtx kindDeleteTrace (PDeleteTrace tid) rs"

definition TraceMetaRepo_Stats :: "RaftStore \<Rightarrow> nat \<times> gotime" where
  "TraceMetaRepo_Stats rs = traceStats (fsm_state rs)"

definition MetaStore_Get :: "string \<Rightarrow> RaftStore \<Rightarrow> (error, string) result" where
  "MetaStore_Get k rs = readMeta k (fsm_state rs)"

definition MetaStore_Set :: "string \<Rightarrow> string \<Rightarrow> RaftStore \<Rightarrow> error option \<times> RaftStore" where
  "MetaStore_Set k v rs = applyCtx kindSetMeta (PSetMeta k v) rs"

section \<open>What a write does\<close>

abbreviation store_ok :: "RaftStore \<Rightarrow> bool" where
  "store_ok rs \<equiv> fsm_inv (fsm_state rs)"

lemma next_outcome_fsm: "next_outcome rs = (out, rs') \<Longrightarrow> fsm_state rs' = fsm_state rs"
  by (auto simp: next_outcome_def split: list.splits)

text \<open>
  The cases of a write: rejected before or without being applied, applied with the answer of the
  state machine, or applied although Raft reported an error.
\<close>

lemma applyCtx_cases:
  assumes "applyCtx k p rs = (e, rs')"
  obtains (rejected) x where "e = Some x" "fsm_state rs' = fsm_state rs"
  | (committed) r where "applyCommand (newCommand k p) (fsm_state rs) = (r, fsm_state rs')"
      "e = (case r of Inl x \<Rightarrow> Some x | Inr _ \<Rightarrow> None)"
  | (lost) x r where "e = Some x" "applyCommand (newCommand k p) (fsm_state rs) = (r, fsm_state rs')"
proof -
  obtain out rs0 where n: "next_outcome rs = (out, rs0)" by (cases "next_outcome rs")
  obtain r s' where a: "applyCommand (newCommand k p) (fsm_state rs) = (r, s')"
    by (cases "applyCommand (newCommand k p) (fsm_state rs)")
  note f = next_outcome_fsm [OF n]
  show ?thesis
  proof (cases out)
    case OCommit
    with assms n a f have "fsm_state rs' = s'" "e = (case r of Inl x \<Rightarrow> Some x | Inr _ \<Rightarrow> None)"
      by (auto simp: applyCtx_def applyCtxResponse_def fsmError_def)
    with a show ?thesis by (intro committed) auto
  next
    case (OFail x applied)
    show ?thesis
    proof (cases applied)
      case True
      with OFail assms n a f have "fsm_state rs' = s'" "e = Some (mapApplyError x)"
        by (auto simp: applyCtx_def applyCtxResponse_def fsmError_def)
      with a show ?thesis by (intro lost) auto
    next
      case False
      with OFail assms n a f have "fsm_state rs' = fsm_state rs" "e = Some (mapApplyError x)"
        by (auto simp: applyCtx_def applyCtxResponse_def fsmError_def)
      then show ?thesis by (intro rejected) auto
    qed
  next
    case (OCtx x)
    with assms n a f have "fsm_state rs' = fsm_state rs" "e = Some x"
      by (auto simp: applyCtx_def applyCtxResponse_def fsmError_def)
    then show ?thesis by (intro rejected) auto
  next
    case ONotLeader
    with assms n a f have "fsm_state rs' = fsm_state rs" "e = Some ErrNotLeader"
      by (auto simp: applyCtx_def applyCtxResponse_def fsmError_def)
    then show ?thesis by (intro rejected) auto
  qed
qed

lemma applyCtx_ok:
  assumes "applyCtx k p rs = (None, rs')"
  shows "\<exists>r. applyCommand (newCommand k p) (fsm_state rs) = (Inr r, fsm_state rs')"
  using assms by (cases rule: applyCtx_cases) (auto split: sum.splits)

text \<open>With a cluster that commits, a write is answered by the state machine.\<close>

lemma applyCtx_commit:
  assumes "script rs = []" and "applyCommand (newCommand k p) (fsm_state rs) = (r, s')"
  shows "applyCtx k p rs = (case r of Inl x \<Rightarrow> Some x | Inr _ \<Rightarrow> None, rs\<lparr>fsm_state := s'\<rparr>)"
  using assms
  by (simp add: applyCtx_def applyCtxResponse_def next_outcome_def fsmError_def split: sum.splits)

lemma applyCtx_inv:
  assumes "store_ok rs" and "cmd_ok (fsm_state rs) (newCommand k p)" and "applyCtx k p rs = (e, rs')"
  shows "store_ok rs'"
  using assms(3)
proof (cases rule: applyCtx_cases)
  case (committed r)
  with applyCommand_inv [OF assms(1,2)] show ?thesis by simp
next
  case (lost x r)
  with applyCommand_inv [OF assms(1,2)] show ?thesis by simp
qed (use assms(1) in simp)

section \<open>Writes are read back\<close>

lemma cmd_upsertUser:
  "applyCommand (newCommand kindUpsertUser (PUser ((cmdUserFrom u)\<lparr>cuCreate := c\<rparr>))) s =
     (let (e, s') = upsertUser u c s in (err_result e, s'))"
proof -
  have "cmdUser_toDomain ((cmdUserFrom u)\<lparr>cuCreate := c\<rparr>) = u"
    by (simp add: cmdUser_toDomain_def cmdUserFrom_def)
  then show ?thesis by (simp add: applyCommand_def applyEntityCommand_def newCommand_def case_prod_beta)
qed

lemma err_result_Inr [simp]: "err_result e = Inr r \<longleftrightarrow> e = None \<and> r = RespNil"
  by (auto simp: err_result_def split: option.splits)

lemma UserRepo_upsert_ok:
  "UserRepo_upsert u c rs = (None, rs') \<Longrightarrow> upsertUser u c (fsm_state rs) = (None, fsm_state rs')"
  unfolding UserRepo_upsert_def
  by (drule applyCtx_ok) (auto simp: cmd_upsertUser Let_def split: prod.splits)

lemma storeUser_reads:
  "readUserByID (uID u) (storeUser u s) = Inr u"
  "readUserByUsername (uUsername u) (storeUser u s) = Inr u"
  "uOAuthID u \<noteq> [] \<Longrightarrow> readUserByOAuth (uOAuthProvider u) (uOAuthID u) (storeUser u s) = Inr u"
  by (simp_all add: readUserByID_def read_row_def readUserByUsername_def read_idx_def readUserByOAuth_def
      storeUser_fields user_name_key_def user_oauth_key_def)

lemma stored_user_filled:
  "u' = (if is_zero (uUpdatedAt u) then u\<lparr>uUpdatedAt := uCreatedAt u\<rparr> else u) \<Longrightarrow> stored_user None u' = u'"
  by (auto simp: stored_user_def is_zero_def)

text \<open>
  a user that was created is found by id, by name and by OAuth identity exactly as it was handed
  back to the caller, and an update that succeeds is read back with the original creation time.
\<close>

theorem UserRepo_writes_read_back:
  assumes "store_ok rs"
  shows "(UserRepo_Create now u rs = (None, u', rs') \<longrightarrow>
      UserRepo_Get (uID u) rs' = Inr u' \<and> UserRepo_GetByUsername (uUsername u) rs' = Inr u'
      \<and> (uOAuthID u \<noteq> [] \<longrightarrow> UserRepo_GetByOAuth (uOAuthProvider u) (uOAuthID u) rs' = Inr u'))
    \<and> (UserRepo_Update now u rs = (None, u', rs') \<longrightarrow>
      (\<exists>old. UserRepo_Get (uID u) rs = Inr old \<and> (now \<noteq> zero_time \<longrightarrow>
        UserRepo_Get (uID u) rs' = Inr (u'\<lparr>uCreatedAt := uCreatedAt old\<rparr>))))"
proof (intro conjI impI)
  assume "UserRepo_Create now u rs = (None, u', rs')"
  then obtain v where v: "v = (if is_zero (uCreatedAt u) then u\<lparr>uCreatedAt := now\<rparr> else u)"
    "u' = (if is_zero (uUpdatedAt v) then v\<lparr>uUpdatedAt := uCreatedAt v\<rparr> else v)"
    "upsertUser u' True (fsm_state rs) = (None, fsm_state rs')"
    by (auto simp: UserRepo_Create_def Let_def dest!: UserRepo_upsert_ok split: prod.splits if_splits)
  from v(1,2) have keys: "uID u' = uID u" "uUsername u' = uUsername u" "uOAuthID u' = uOAuthID u"
    "uOAuthProvider u' = uOAuthProvider u" by auto
  from v(3) have "fsm_state rs' = storeUser (stored_user None u') (fsm_state rs)"
    by (cases rule: upsertUser_cases) auto
  then have s: "fsm_state rs' = storeUser u' (fsm_state rs)" by (simp add: stored_user_filled [OF v(2)])
  show "UserRepo_Get (uID u) rs' = Inr u'" "UserRepo_GetByUsername (uUsername u) rs' = Inr u'"
    using storeUser_reads(1,2) [of u'] by (simp_all add: UserRepo_Get_def UserRepo_GetByUsername_def s keys)
  show "UserRepo_GetByOAuth (uOAuthProvider u) (uOAuthID u) rs' = Inr u'" if "uOAuthID u \<noteq> []"
    using storeUser_reads(3) [of u'] that by (simp add: UserRepo_GetByOAuth_def s keys)
next
  assume "UserRepo_Update now u rs = (None, u', rs')"
  then have v: "u' = u\<lparr>uUpdatedAt := now\<rparr>" "upsertUser u' False (fsm_state rs) = (None, fsm_state rs')"
    by (auto simp: UserRepo_Update_def Let_def dest!: UserRepo_upsert_ok split: prod.splits)
  from v(2) obtain old where old: "gm_get (users (fsm_state rs)) (uID u) = Some old" "uUsername old \<noteq> []"
    "fsm_state rs' = storeUser (stored_user (Some old) u') ((fsm_state rs)\<lparr>
       usersByName := idx_rm (user_name_key old) (usersByName (fsm_state rs)),
       usersByOAuth := idx_rm (user_oauth_key old) (usersByOAuth (fsm_state rs))\<rparr>)"
    using fsm_invD(1) [OF assms] by (cases rule: upsertUser_cases) (auto simp: v(1) users_inv_def)
  have "UserRepo_Get (uID u) rs' = Inr (stored_user (Some old) u')"
    using storeUser_reads(1) [of "stored_user (Some old) u'"] v(1) by (simp add: UserRepo_Get_def old(3))
  with old(1) v(1) show "\<exists>old. UserRepo_Get (uID u) rs = Inr old \<and> (now \<noteq> zero_time \<longrightarrow>
      UserRepo_Get (uID u) rs' = Inr (u'\<lparr>uCreatedAt := uCreatedAt old\<rparr>))"
    by (intro exI [of _ old]) (simp add: UserRepo_Get_def readUserByID_def stored_user_def is_zero_def)
qed

definition sample_store :: RaftStore where
  "sample_store = \<lparr>fsm_state = sample, script = []\<rparr>"

lemma sample_store_ok: "store_ok sample_store"
  by (simp add: sample_store_def sample_inv)

theorem UserRepo_writes_read_back_witness:
  "UserRepo_GetByUsername ''carol'' (snd (snd (UserRepo_Create 50 (sample_user ''u3'' ''carol'' 0) sample_store)))
     = Inr (fst (snd (UserRepo_Create 50 (sample_user ''u3'' ''carol'' 0) sample_store)))"
proof -
  let ?r = "UserRepo_Create 50 (sample_user ''u3'' ''carol'' 0) sample_store"
  have "fst ?r = None" by code_simp
  then have "?r = (None, fst (snd ?r), snd (snd ?r))" by (metis prod.collapse)
  then show ?thesis
    using UserRepo_writes_read_back [OF sample_store_ok, of 50 "sample_user ''u3'' ''carol'' 0"
        "fst (snd ?r)" "snd (snd ?r)"] by (simp add: sample_user_def)
qed

lemma clipField_short: "length (clipField s) \<le> 256"
  by (simp add: clipField_def maxSessionFieldLen_def)

text \<open>
  a registered session reaches the pod's own store. When the registration succeeds and a session
  store is attached, the lease of that certificate is found in it, not expired for the whole time
  to live, with no tunnel in flight and its free-form fields cut to 256 bytes, and the leases of
  other certificates are as before.
\<close>

theorem SessionRepo_Register_visible:
  assumes sink: "sessionSink (fsm_state rs) = Some st"
    and reg: "SessionRepo_Register now fp ver pod inst tid uid gid rs = (None, rs')"
    and t: "t - now \<le> ttl st" and d: "ttl st < max_duration" "min_duration \<le> ttl st"
  shows "\<exists>st' l. sessionSink (fsm_state rs') = Some st' \<and> Session_Store.Get t fp st' = Inr l
    \<and> lInFlight l = 0 \<and> lReplicaPod l = pod \<and> lUserID l = clipField uid \<and> length (lUserID l) \<le> 256
    \<and> (\<forall>fq. fq \<noteq> fp \<longrightarrow> gm_get (leases st') fq = gm_get (leases st) fq)"
proof -
  let ?l = "\<lparr>lCertFP = fp, lVersion = ver, lReplicaPod = pod, lInstanceID = clipField inst,
    lLastActivity = now, lInFlight = 0, lTraceID = clipField tid, lUserID = clipField uid,
    lGroupID = clipField gid\<rparr>"
  let ?st = "ApplySessionRegistered ?l st"
  have "sessionSink (fsm_state rs') = Some ?st"
    using reg sink
    by (auto simp: SessionRepo_Register_def applyCommand_def applyEntityCommand_def applyTraceCacheCommand_def
        applySessionCommand_def newCommand_def kind_defs split: if_splits dest!: applyCtx_ok)
      (metis fsmState.select_convs(15) fsmState.update_convs(15) fsmState.surjective)+
  moreover have "Session_Store.Get t fp ?st = Inr ?l"
    using t time_sub_gt [OF d, of t now] by (simp add: Get_Inr ApplySessionRegistered_def expired_def)
  ultimately show ?thesis by (auto simp: ApplySessionRegistered_def clipField_short)
qed

theorem SessionRepo_Register_visible_witness:
  "\<exists>st' l. sessionSink (fsm_state (snd (SessionRepo_Register 50 ''fp9'' ''v1'' ''pod-1'' [] ''t9'' ''u1'' [] sample_store)))
      = Some st' \<and> Session_Store.Get 120 ''fp9'' st' = Inr l \<and> lReplicaPod l = ''pod-1''"
proof -
  let ?r = "SessionRepo_Register 50 ''fp9'' ''v1'' ''pod-1'' [] ''t9'' ''u1'' [] sample_store"
  have "fst ?r = None" "sessionSink (fsm_state sample_store)
      = Some \<lparr>leases = [(''fp1'', (sample_lease ''fp1'')\<lparr>lLastActivity := 40\<rparr>)], ttl = 100\<rparr>" by code_simp+
  moreover from this have "?r = (None, snd ?r)" by (metis prod.collapse)
  ultimately show ?thesis
    using SessionRepo_Register_visible [of sample_store _ 50 "''fp9''" "''v1''" "''pod-1''" "[]" "''t9''" "''u1''" "[]" "snd ?r" 120]
    by (fastforce simp: max_duration_def min_duration_def)
qed

end
