(* ===== verification/Quota.thy ===== *)
theory Quota
  imports Raft_Store
begin

text \<open>
  Admission to engine sessions, \<^verbatim>\<open>src/internal/service/quota_service.go\<close>. The counters are
  Go maps with the zero value for a missing key (\<open>get0\<close>). The service reads the groups and
  memberships from the replicated store \<open>rs\<close> and the leases from the pod's session store \<open>st\<close>;
  the repository reads never fail, so the error branches of the two calls are not reachable.
\<close>

definition get0 :: "(string, int) gomap \<Rightarrow> string \<Rightarrow> int" where
  "get0 m k = (case gm_get m k of None \<Rightarrow> 0 | Some n \<Rightarrow> n)"

definition gm_inc :: "string \<Rightarrow> int \<Rightarrow> (string, int) gomap \<Rightarrow> (string, int) gomap" where
  "gm_inc k n m = gm_put k (get0 m k + n) m"

definition per_user :: "Lease list \<Rightarrow> (string, int) gomap" where
  "per_user ls = fold (\<lambda>l m. if lUserID l \<noteq> [] then gm_inc (lUserID l) 1 m else m) ls []"

definition usageSnapshot :: "RaftStore \<Rightarrow> Store \<Rightarrow> (string, int) gomap" where
  "usageSnapshot rs st =
     (let perUser = per_user (ListLeases st) in
      fold (\<lambda>(gid, userIDs) out. fold (\<lambda>uid out. gm_inc gid (get0 perUser uid) out) userIDs out)
        (GroupRepo_AllMemberships rs) [])"

definition UsageByGroup :: "RaftStore \<Rightarrow> Store \<Rightarrow> (error, (string, int) gomap) result" where
  "UsageByGroup rs st = Inr (usageSnapshot rs st)"

definition CheckEngineAccess :: "Identity \<Rightarrow> RaftStore \<Rightarrow> Store \<Rightarrow> error option" where
  "CheckEngineAccess ident rs st =
     (if IsAdmin (Some ident) then None
      else
        let gs = GroupRepo_GroupsForUser (iUserID ident) rs in
        if gs = [] then Some ErrNoGroups
        else
          let available = filter gAgentAvailable gs in
          if available = [] then Some ErrAgentUnavailable
          else
            let usage = usageSnapshot rs st in
            if list_ex (\<lambda>g. gMaxRunnerSessions g = 0 \<or> get0 usage (gID g) < gMaxRunnerSessions g) available
            then None else Some ErrQuotaExhausted)"

section \<open>The counters\<close>

lemma get0_inc: "get0 (gm_inc k n m) j = get0 m j + (if j = k then n else 0)"
  by (simp add: get0_def gm_inc_def)

lemma get0_Nil [simp]: "get0 [] k = 0"
  by (simp add: get0_def)

text \<open>The leases that count for a user, and for a group.\<close>

definition leases_of :: "string \<Rightarrow> Store \<Rightarrow> Lease list" where
  "leases_of uid st = filter (\<lambda>l. lUserID l = uid \<and> uid \<noteq> []) (ListLeases st)"

definition group_leases :: "fsmState \<Rightarrow> string \<Rightarrow> Store \<Rightarrow> Lease list" where
  "group_leases s gid st = filter (\<lambda>l. lUserID l \<noteq> [] \<and> member_of s gid (lUserID l)) (ListLeases st)"

lemma per_user_acc:
  "get0 (fold (\<lambda>l m. if lUserID l \<noteq> [] then gm_inc (lUserID l) 1 m else m) ls m) uid =
     get0 m uid + int (length (filter (\<lambda>l. lUserID l = uid \<and> uid \<noteq> []) ls))"
  by (induction ls arbitrary: m) (auto simp: get0_inc)

lemma per_user_count: "get0 (per_user (ListLeases st)) uid = int (length (leases_of uid st))"
  by (simp add: per_user_def per_user_acc leases_of_def)

lemma inner_sum:
  "get0 (fold (\<lambda>uid out. gm_inc gid (f uid) out) uids out) j =
     get0 out j + (if j = gid then sum_list (map f uids) else 0)"
  by (induction uids arbitrary: out) (auto simp: get0_inc)

lemma outer_sum:
  "gm_ok m \<Longrightarrow>
   get0 (fold (\<lambda>(gid, uids) out. fold (\<lambda>uid out. gm_inc gid (f uid) out) uids out) m out) j =
     get0 out j + sum_list (map f (case gm_get m j of None \<Rightarrow> [] | Some us \<Rightarrow> us))"
proof (induction m arbitrary: out)
  case (Cons kv m)
  obtain k us where kv: "kv = (k, us)" by (cases kv)
  with Cons show ?case by (auto simp: inner_sum gm_ok_Cons)
qed simp

lemma sum_counts:
  "distinct uids \<Longrightarrow> sum_list (map (\<lambda>u. int (length (filter (\<lambda>l. lUserID l = u \<and> P u) ls))) uids) =
     int (length (filter (\<lambda>l. P (lUserID l) \<and> lUserID l \<in> set uids) ls))"
proof (induction ls)
  case (Cons l ls)
  have "sum_list (map (\<lambda>u. if lUserID l = u \<and> P u then 1 else 0) uids) =
      (if P (lUserID l) \<and> lUserID l \<in> set uids then 1 else (0 :: int))"
    using Cons.prems by (induction uids) auto
  moreover have "int (length (filter (\<lambda>l. lUserID l = u \<and> P u) (l # ls))) =
      (if lUserID l = u \<and> P u then 1 else 0) + int (length (filter (\<lambda>l. lUserID l = u \<and> P u) ls))" for u
    by simp
  ultimately show ?case using Cons by (simp add: sum_list_addf)
qed simp

lemma usage_count:
  assumes "store_ok rs"
  shows "get0 (usageSnapshot rs st) gid = int (length (group_leases (fsm_state rs) gid st))"
proof -
  note mem = mem_invD(1) [OF fsm_invD(5) [OF assms]]
  let ?us = "case gm_get (allMemberships (fsm_state rs)) gid of None \<Rightarrow> [] | Some us \<Rightarrow> us"
  have us: "set ?us = set (edges (memberships (fsm_state rs)) gid)" "distinct ?us"
    using adj_ok_edges [OF mem, of gid]
    by (cases "gm_get (memberships (fsm_state rs)) gid"; simp add: allMemberships_def edges_def)+
  have ok: "gm_ok (allMemberships (fsm_state rs))"
    using adj_ok_gm [OF mem] by (simp add: allMemberships_def)
  have "get0 (usageSnapshot rs st) gid = sum_list (map (\<lambda>u. int (length (leases_of u st))) ?us)"
    using outer_sum [OF ok] by (simp add: usageSnapshot_def Let_def GroupRepo_AllMemberships_def per_user_count)
  also have "\<dots> = int (length (group_leases (fsm_state rs) gid st))"
    using sum_counts [OF us(2), of "\<lambda>u. u \<noteq> []" "ListLeases st"] us(1)
    by (simp add: leases_of_def group_leases_def member_of_def)
  finally show ?thesis .
qed

section \<open>Admission\<close>

lemma set_user_groups:
  assumes "store_ok rs"
  shows "g \<in> set (GroupRepo_GroupsForUser uid rs) \<longleftrightarrow>
    GroupRepo_Get (gID g) rs = Inr g \<and> member_of (fsm_state rs) (gID g) uid"
  using set_groupsForUser [OF assms] by (simp add: GroupRepo_GroupsForUser_def GroupRepo_Get_def readGroupByID_def)

definition has_room :: "Group \<Rightarrow> RaftStore \<Rightarrow> Store \<Rightarrow> bool" where
  "has_room g rs st \<longleftrightarrow> gMaxRunnerSessions g = 0
     \<or> int (length (group_leases (fsm_state rs) (gID g) st)) < gMaxRunnerSessions g"

text \<open>
  C26: admission is decided by the user's groups alone. An admin is always admitted; a user without
  groups, one whose groups have no agents, and one whose available groups are all full get the three errors
  in this order, and a user with an available group that has room is admitted. A group has room
  when it has no limit or when fewer leases than the limit belong to its members; a lease counts for
  every group of its user.
\<close>

theorem CheckEngineAccess_decision:
  assumes "store_ok rs"
  shows "CheckEngineAccess ident rs st =
    (let mine = {g. GroupRepo_Get (gID g) rs = Inr g \<and> member_of (fsm_state rs) (gID g) (iUserID ident)} in
     if iRole ident = RoleAdmin then None
     else if mine = {} then Some ErrNoGroups
     else if \<not> (\<exists>g \<in> mine. gAgentAvailable g) then Some ErrAgentUnavailable
     else if \<exists>g \<in> mine. gAgentAvailable g \<and> has_room g rs st then None
     else Some ErrQuotaExhausted)"
proof -
  have mine: "{g. GroupRepo_Get (gID g) rs = Inr g \<and> member_of (fsm_state rs) (gID g) (iUserID ident)}
      = set (GroupRepo_GroupsForUser (iUserID ident) rs)"
    using set_user_groups [OF assms] by blast
  show ?thesis
    unfolding mine
    by (auto simp: CheckEngineAccess_def Let_def IsAdmin_def filter_empty_conv list_ex_iff usage_count [OF assms]
        has_room_def)
qed

theorem CheckEngineAccess_decision_witness:
  "CheckEngineAccess \<lparr>iUserID = ''u1'', iUsername = ''Alice'', iRole = RoleUser, iGroupIDs = [], iMethod = AuthJWT\<rparr>
     sample_store (NewStore 100) = None
   \<and> CheckEngineAccess \<lparr>iUserID = ''u9'', iUsername = ''Zed'', iRole = RoleUser, iGroupIDs = [], iMethod = AuthJWT\<rparr>
     sample_store (NewStore 100) = Some ErrNoGroups"
proof -
  let ?g = "sample_group ''g1'' ''Team''"
  have g: "GroupRepo_Get (gID ?g) sample_store = Inr ?g \<and> member_of (fsm_state sample_store) (gID ?g) ''u1''"
    "gAgentAvailable ?g" "has_room ?g sample_store (NewStore 100)" by code_simp+
  have none: "\<not> member_of (fsm_state sample_store) gid ''u9''" for gid
  proof -
    have "edges (membershipsByUser (fsm_state sample_store)) ''u9'' = []" by code_simp
    then show ?thesis
      using mem_invD(3) [OF fsm_invD(5) [OF sample_store_ok], of "''u9''" gid] by (simp add: member_of_def)
  qed
  have "RoleUser \<noteq> RoleAdmin" by (simp add: RoleUser_def RoleAdmin_def)
  with g none show ?thesis
    by (auto simp: CheckEngineAccess_decision [OF sample_store_ok] Let_def)
qed

lemma group_leases_Register:
  assumes "gm_get (leases st) fp = None"
  shows "length (group_leases s gid (snd (Register now fp ver pod inst tid uid st))) \<le> Suc (length (group_leases s gid st))"
proof -
  have "gm_put fp l m = m @ [(fp, l)]" if "gm_get m fp = None" for l and m :: "(string, Lease) gomap"
    using that by (induction m) (auto split: if_splits)
  from this [OF assms] show ?thesis by (simp add: group_leases_def ListLeases_def Register_def Let_def)
qed

text \<open>
  Admission does not overfill the group that admits. When a user who is not an admin is admitted
  and its lease is registered next, some available group of the user has no limit or holds at most its
  limit of leases afterwards.
\<close>

theorem admission_within_limit:
  assumes "store_ok rs" and "CheckEngineAccess ident rs st = None" and "iRole ident \<noteq> RoleAdmin"
    and "gm_get (leases st) fp = None"
  shows "\<exists>g. GroupRepo_Get (gID g) rs = Inr g \<and> member_of (fsm_state rs) (gID g) (iUserID ident)
    \<and> gAgentAvailable g \<and> (gMaxRunnerSessions g = 0
      \<or> get0 (usageSnapshot rs (snd (Register now fp ver pod inst tid (iUserID ident) st))) (gID g)
          \<le> gMaxRunnerSessions g)"
proof -
  obtain g where g: "g \<in> set (GroupRepo_GroupsForUser (iUserID ident) rs)" "gAgentAvailable g"
    "gMaxRunnerSessions g = 0 \<or> get0 (usageSnapshot rs st) (gID g) < gMaxRunnerSessions g"
    using assms(2,3)
    by (auto simp: CheckEngineAccess_def Let_def IsAdmin_def list_ex_iff split: if_splits)
  have "get0 (usageSnapshot rs (snd (Register now fp ver pod inst tid (iUserID ident) st))) (gID g)
      \<le> get0 (usageSnapshot rs st) (gID g) + 1"
    using group_leases_Register [OF assms(4), of "fsm_state rs" "gID g" now ver pod inst tid "iUserID ident"]
    by (simp add: usage_count [OF assms(1)])
  with g show ?thesis using set_user_groups [OF assms(1), of g "iUserID ident"] by (intro exI [of _ g]) auto
qed

theorem admission_within_limit_witness:
  "\<exists>g. GroupRepo_Get (gID g) sample_store = Inr g \<and> gAgentAvailable g \<and> (gMaxRunnerSessions g = 0
     \<or> get0 (usageSnapshot sample_store (snd (Register 5 ''fp2'' ''v1'' ''pod-0'' [] [] ''u1'' (NewStore 100)))) (gID g)
         \<le> gMaxRunnerSessions g)"
proof -
  let ?i = "\<lparr>iUserID = ''u1'', iUsername = ''Alice'', iRole = RoleUser, iGroupIDs = [], iMethod = AuthJWT\<rparr>"
  have "CheckEngineAccess ?i sample_store (NewStore 100) = None" "iRole ?i \<noteq> RoleAdmin"
    "gm_get (leases (NewStore 100)) ''fp2'' = None" by code_simp+
  from admission_within_limit [OF sample_store_ok this, of 5 "''v1''" "''pod-0''" "[]" "[]"] show ?thesis by auto
qed

end
