(* ===== verification/Lifecycle.thy ===== *)
theory Lifecycle
  imports Raft_Store
begin

text \<open>
  Disconnect detection, \<^verbatim>\<open>src/internal/service/pipeline_lifecycle.go\<close>: a trace is marked
  failed when its last tunnel closes, after a grace period that a new tunnel cancels, and a sweep
  marks traces that were left running. The grace timers are modelled by what their callbacks do: a callback
  may run at any time and in any order, however late (a stopped timer whose callback was already dispatched still runs
  it), and its check under the mutex and its mark after it are two steps, so a run is any list of \<open>lc_event\<close>s. The generation
  is a 64-bit word and wraps; the statements about generations are for runs of fewer than
  \<open>2 ^ 64\<close> events. Metrics and log lines are left out, broadcasts are returned as topics.
\<close>

section \<open>Marking a trace as failed\<close>

definition maxIngestFieldLen :: nat where "maxIngestFieldLen = 256"

definition Attribution_MarkFailed :: "gotime \<Rightarrow> string \<Rightarrow> string \<Rightarrow> RaftStore \<Rightarrow> bool \<times> RaftStore" where
  "Attribution_MarkFailed now traceID reason rs =
     (if traceID = [] \<or> length traceID > maxIngestFieldLen then (False, rs)
      else
        let reason = (if length reason > maxIngestFieldLen then take maxIngestFieldLen reason else reason)
        in case TraceMetaRepo_MarkFailed now traceID reason rs of
             (Inl e, rs') \<Rightarrow> (False, rs')
           | (Inr transitioned, rs') \<Rightarrow> (transitioned, rs'))"

definition PipelinesTopic :: string where "PipelinesTopic = ''__pipelines__''"
definition reasonClientConnectionLost :: string where "reasonClientConnectionLost = ''client connection lost''"
definition reasonClientSessionExpired :: string where "reasonClientSessionExpired = ''client session expired''"

definition markFailed ::
    "gotime \<Rightarrow> bool \<Rightarrow> string \<Rightarrow> string \<Rightarrow> RaftStore \<Rightarrow> bool \<times> string list \<times> RaftStore" where
  "markFailed now broadcaster traceID reason rs =
     (let (ok, rs') = Attribution_MarkFailed now traceID reason rs in
      if \<not> ok then (False, [], rs')
      else (True, if broadcaster then [traceID, PipelinesTopic] else [], rs'))"

section \<open>Grace timers\<close>

record PipelineLifecycle =
  grace :: duration
  pending :: "(string, 64 word) gomap"
  gen :: "64 word"

definition NewPipelineLifecycle :: "duration \<Rightarrow> PipelineLifecycle" where
  "NewPipelineLifecycle g = \<lparr>grace = g, pending = [], gen = 0\<rparr>"

definition OnTunnelOpen :: "string \<Rightarrow> PipelineLifecycle \<Rightarrow> PipelineLifecycle" where
  "OnTunnelOpen traceID p =
     (if grace p \<le> 0 then p
      else case gm_get (pending p) traceID of
             None \<Rightarrow> p | Some _ \<Rightarrow> p\<lparr>pending := gm_del traceID (pending p)\<rparr>)"

text \<open>The first result says whether the trace is marked failed at once.\<close>

definition OnTunnelClosed :: "string \<Rightarrow> int \<Rightarrow> PipelineLifecycle \<Rightarrow> bool \<times> PipelineLifecycle" where
  "OnTunnelClosed traceID remainingInFlight p =
     (if traceID = [] \<or> remainingInFlight > 0 then (False, p)
      else if grace p \<le> 0 then (True, p)
      else let g = gen p + 1 in (False, p\<lparr>gen := g, pending := gm_put traceID g (pending p)\<rparr>))"

text \<open>
  \<^verbatim>\<open>fireGrace\<close> holds the mutex while it looks at the generation and deletes the entry, and calls \<^verbatim>\<open>markFailed\<close> after it has
  released the mutex. The part under the mutex is \<open>fireGrace_claim\<close>; its first result says that the callback goes on.
\<close>

definition fireGrace_claim :: "string \<Rightarrow> 64 word \<Rightarrow> PipelineLifecycle \<Rightarrow> bool \<times> PipelineLifecycle" where
  "fireGrace_claim traceID g p = (case gm_get (pending p) traceID of
     None \<Rightarrow> (False, p)
   | Some pc \<Rightarrow> if pc \<noteq> g then (False, p) else (True, p\<lparr>pending := gm_del traceID (pending p)\<rparr>))"

definition Stop :: "PipelineLifecycle \<Rightarrow> PipelineLifecycle" where
  "Stop p = p\<lparr>pending := []\<rparr>"

text \<open>
  The goroutines. \<open>lwMarking\<close> holds the traces of those that have decided to mark a trace failed and have not done it yet:
  callbacks that released the mutex, and tunnels that ended without a grace period. \<open>EvFire t g\<close> is the callback of the
  timer that was armed with the generation \<open>g\<close>, \<open>EvMark t now\<close> the mark that one of those goroutines makes.
\<close>

record lc_world =
  lwLifecycle :: PipelineLifecycle
  lwMarking :: "string list"
  lwRaft :: RaftStore

datatype lc_event = EvOpen string | EvClosed string int | EvFire string "64 word" | EvMark string gotime | EvStop

definition decided :: "string \<Rightarrow> bool \<times> PipelineLifecycle \<Rightarrow> lc_world \<Rightarrow> lc_world" where
  "decided t r w = w\<lparr>lwLifecycle := snd r, lwMarking := (if fst r then t # lwMarking w else lwMarking w)\<rparr>"

fun lc_step :: "lc_event \<Rightarrow> lc_world \<Rightarrow> lc_world" where
  "lc_step (EvOpen t) w = w\<lparr>lwLifecycle := OnTunnelOpen t (lwLifecycle w)\<rparr>"
| "lc_step (EvClosed t n) w = decided t (OnTunnelClosed t n (lwLifecycle w)) w"
| "lc_step (EvFire t g) w = decided t (fireGrace_claim t g (lwLifecycle w)) w"
| "lc_step (EvMark t now) w =
     (if t \<in> set (lwMarking w)
      then w\<lparr>lwMarking := remove1 t (lwMarking w),
             lwRaft := snd (snd (markFailed now True t reasonClientConnectionLost (lwRaft w)))\<rparr>
      else w)"
| "lc_step EvStop w = w\<lparr>lwLifecycle := Stop (lwLifecycle w)\<rparr>"

definition lc_run :: "lc_event list \<Rightarrow> lc_world \<Rightarrow> lc_world" where
  "lc_run es w = fold lc_step es w"

lemma lc_run_simps [simp]: "lc_run [] w = w" "lc_run (e # es) w = lc_run es (lc_step e w)"
  "lc_run (xs @ ys) w = lc_run ys (lc_run xs w)"
  by (simp_all add: lc_run_def)

definition lc_start :: "duration \<Rightarrow> RaftStore \<Rightarrow> lc_world" where
  "lc_start g rs = \<lparr>lwLifecycle = NewPipelineLifecycle g, lwMarking = [], lwRaft = rs\<rparr>"

lemmas lc_defs = OnTunnelOpen_def OnTunnelClosed_def fireGrace_claim_def Stop_def decided_def Let_def

abbreviation armed :: "lc_world \<Rightarrow> string \<Rightarrow> 64 word option" where
  "armed w t \<equiv> gm_get (pending (lwLifecycle w)) t"

lemma grace_step [simp]: "grace (lwLifecycle (lc_step e w)) = grace (lwLifecycle w)"
  by (cases e) (auto simp: lc_defs split: option.splits)

lemma grace_run [simp]: "grace (lwLifecycle (lc_run es w)) = grace (lwLifecycle w)"
  by (induction es arbitrary: w) simp_all

section \<open>What a mark changes\<close>

lemma cmd_markFailed:
  "applyCommand (newCommand kindMarkTraceFailed (PMarkFailed q)) s =
     (let (b, s') = markTraceFailed q s in (Inr (RespBool b), s'))"
  by (simp add: applyCommand_def applyEntityCommand_def applyTraceCacheCommand_def newCommand_def kind_defs
      case_prod_beta)

lemma markTraceFailed_other:
  "tid \<noteq> cfTraceID q \<Longrightarrow> gm_get (traces (snd (markTraceFailed q s))) tid = gm_get (traces s) tid"
  by (simp add: markTraceFailed_def split: option.splits)

lemma MarkFailed_state:
  "fsm_state (snd (TraceMetaRepo_MarkFailed now tid reason rs)) = fsm_state rs \<or>
   (\<exists>r. fsm_state (snd (TraceMetaRepo_MarkFailed now tid reason rs)) =
      snd (markTraceFailed \<lparr>cfTraceID = tid, cfReason = r, cfUpdatedAt = now\<rparr> (fsm_state rs)))"
proof -
  obtain out rs0 where n: "next_outcome rs = (out, rs0)" by (cases "next_outcome rs")
  show ?thesis
    using next_outcome_fsm [OF n]
    by (auto simp: TraceMetaRepo_MarkFailed_def applyCtxResponse_def n cmd_markFailed Let_def case_prod_beta
        split: outcome.splits)
qed

lemma markFailed_state:
  "fsm_state (snd (snd (markFailed now bc tid reason rs))) = fsm_state rs \<or>
   (\<exists>r. fsm_state (snd (snd (markFailed now bc tid reason rs))) =
      snd (markTraceFailed \<lparr>cfTraceID = tid, cfReason = r, cfUpdatedAt = now\<rparr> (fsm_state rs)))"
  using MarkFailed_state [of now tid _ rs]
  by (auto simp: markFailed_def Attribution_MarkFailed_def Let_def case_prod_beta split: sum.splits)

lemma markFailed_other:
  "t \<noteq> tid \<Longrightarrow> readTrace t (fsm_state (snd (snd (markFailed now bc tid reason rs)))) = readTrace t (fsm_state rs)"
  using markFailed_state [of now bc tid reason rs]
  by (auto simp: readTrace_def read_row_def markTraceFailed_other)

section \<open>Reopened traces\<close>

text \<open>The events that close the last tunnel of a trace.\<close>

fun closes :: "string \<Rightarrow> lc_event \<Rightarrow> bool" where
  "closes t (EvClosed t' n) \<longleftrightarrow> t' = t \<and> t \<noteq> [] \<and> n \<le> 0"
| "closes t _ \<longleftrightarrow> False"

definition quiet :: "string \<Rightarrow> lc_world \<Rightarrow> bool" where
  "quiet t w \<longleftrightarrow> armed w t = None \<and> t \<notin> set (lwMarking w)"

lemma quiet_step:
  assumes "quiet t w" and "\<not> closes t e"
  shows "quiet t (lc_step e w) \<and> readTrace t (fsm_state (lwRaft (lc_step e w))) = readTrace t (fsm_state (lwRaft w))"
proof (cases e)
  case (EvMark u now)
  then have "u \<in> set (lwMarking w) \<Longrightarrow> t \<noteq> u" using assms(1) by (auto simp: quiet_def)
  with EvMark assms(1) show ?thesis by (auto simp: quiet_def markFailed_other dest: notin_set_remove1)
qed (use assms in \<open>auto simp: quiet_def lc_defs split: option.splits if_splits\<close>)

lemma quiet_run:
  "quiet t w \<Longrightarrow> list_all (\<lambda>e. \<not> closes t e) es \<Longrightarrow>
     quiet t (lc_run es w) \<and> readTrace t (fsm_state (lwRaft (lc_run es w))) = readTrace t (fsm_state (lwRaft w))"
  by (induction es arbitrary: w) (use quiet_step in \<open>auto\<close>)

text \<open>
  C30: a reopened trace is not failed by a timer. With a grace period, once a tunnel of the trace opens while no goroutine has
  already decided to mark the trace, the stored row of the trace stays as it is until the last tunnel of the trace
  closes again: no timer that was armed before changes it, however late its callback runs, and no event of another trace.
\<close>

theorem reopened_trace_not_failed:
  assumes "0 < grace (lwLifecycle w)" and "t \<notin> set (lwMarking w)" and "list_all (\<lambda>e. \<not> closes t e) es"
  shows "readTrace t (fsm_state (lwRaft (lc_run (EvOpen t # es) w))) = readTrace t (fsm_state (lwRaft w))
    \<and> t \<notin> set (lwMarking (lc_run (EvOpen t # es) w))"
proof -
  have "quiet t (lc_step (EvOpen t) w)" "lwRaft (lc_step (EvOpen t) w) = lwRaft w"
    using assms(1,2) by (auto simp: quiet_def OnTunnelOpen_def split: option.splits)
  with quiet_run [OF _ assms(3), of "lc_step (EvOpen t) w"] show ?thesis by (simp add: quiet_def)
qed

definition demo_lifecycle :: lc_world where
  "demo_lifecycle = lc_start 5 sample_store"

theorem reopened_trace_not_failed_witness:
  "readTrace ''t1'' (fsm_state (lwRaft (lc_run [EvClosed ''t1'' 0, EvOpen ''t1'', EvFire ''t1'' 1, EvMark ''t1'' 60] demo_lifecycle)))
     = readTrace ''t1'' (fsm_state sample_store)
   \<and> readTrace ''t1'' (fsm_state (lwRaft (lc_run [EvClosed ''t1'' 0, EvFire ''t1'' 1, EvMark ''t1'' 60] demo_lifecycle)))
     \<noteq> readTrace ''t1'' (fsm_state sample_store)"
proof -
  let ?w = "lc_run [EvClosed ''t1'' 0] demo_lifecycle"
  have "0 < grace (lwLifecycle ?w)" "''t1'' \<notin> set (lwMarking ?w)" "list_all (\<lambda>e. \<not> closes ''t1'' e) [EvFire ''t1'' 1, EvMark ''t1'' 60]"
    "readTrace ''t1'' (fsm_state (lwRaft ?w)) = readTrace ''t1'' (fsm_state sample_store)" by code_simp+
  moreover have "readTrace ''t1'' (fsm_state (lwRaft (lc_run [EvClosed ''t1'' 0, EvFire ''t1'' 1, EvMark ''t1'' 60] demo_lifecycle)))
      \<noteq> readTrace ''t1'' (fsm_state sample_store)" by code_simp
  ultimately show ?thesis using reopened_trace_not_failed [of ?w "''t1''" "[EvFire ''t1'' 1, EvMark ''t1'' 60]"] by simp
qed

text \<open>
  The check and the mark of a callback are not one step: a tunnel that opens after the callback has released the mutex
  does not stop the mark, and the trace is failed while its new tunnel is open.
\<close>

lemma reopened_trace_failed_by_race:
  "readTrace ''t1'' (fsm_state (lwRaft (lc_run [EvClosed ''t1'' 0, EvFire ''t1'' 1, EvOpen ''t1'', EvMark ''t1'' 60] demo_lifecycle)))
     \<noteq> readTrace ''t1'' (fsm_state sample_store)"
  by code_simp

section \<open>Which timer may go on\<close>

text \<open>
  The events that arm a timer, the generation that the next of them gives, and the events after which the timer with the generation
  \<open>g\<close> of the trace \<open>t\<close> has nothing to do.
\<close>

fun arms :: "lc_event \<Rightarrow> bool" where
  "arms (EvClosed u n) \<longleftrightarrow> u \<noteq> [] \<and> n \<le> 0"
| "arms _ \<longleftrightarrow> False"

definition next_timer :: "lc_event list \<Rightarrow> 64 word" where
  "next_timer es = word_of_nat (Suc (length (filter arms es)))"

definition settles :: "string \<Rightarrow> 64 word \<Rightarrow> lc_event \<Rightarrow> bool" where
  "settles t g e \<longleftrightarrow> closes t e \<or> e = EvOpen t \<or> e = EvStop \<or> e = EvFire t g"

lemma gen_step:
  "0 < grace (lwLifecycle w) \<Longrightarrow>
     gen (lwLifecycle (lc_step e w)) = (if arms e then gen (lwLifecycle w) + 1 else gen (lwLifecycle w))"
  by (cases e) (auto simp: lc_defs split: option.splits)

lemma gen_run:
  "0 < grace (lwLifecycle w) \<Longrightarrow>
     gen (lwLifecycle (lc_run es w)) = gen (lwLifecycle w) + word_of_nat (length (filter arms es))"
  by (induction es arbitrary: w) (simp_all add: gen_step)

lemma unat_gen_step:
  assumes "Suc (unat (gen (lwLifecycle w))) < 2 ^ 64" and "0 < grace (lwLifecycle w)"
  shows "unat (gen (lwLifecycle (lc_step e w))) =
    (if arms e then Suc (unat (gen (lwLifecycle w))) else unat (gen (lwLifecycle w)))"
proof -
  have "unat (gen (lwLifecycle w) + 1) = Suc (unat (gen (lwLifecycle w)))"
    using assms(1) by (simp add: unat_word_ariths)
  then show ?thesis by (simp add: gen_step assms(2))
qed

lemma settled_step:
  assumes "Suc (unat (gen (lwLifecycle w))) < 2 ^ 64" and "0 < grace (lwLifecycle w)"
    and "unat g \<le> unat (gen (lwLifecycle w))"
  shows "settles t g e \<Longrightarrow> armed (lc_step e w) t \<noteq> Some g"
    and "\<not> settles t g e \<Longrightarrow> armed (lc_step e w) t = Some g \<longleftrightarrow> armed w t = Some g"
    and "unat g \<le> unat (gen (lwLifecycle (lc_step e w)))"
    and "armed w t \<noteq> Some g \<Longrightarrow> armed (lc_step e w) t \<noteq> Some g"
proof -
  have new: "gen (lwLifecycle w) + 1 \<noteq> g"
  proof
    assume "gen (lwLifecycle w) + 1 = g"
    with unat_gen_step [OF assms(1,2), of "EvClosed ''t'' 0"] assms(2,3) show False
      by (simp add: lc_defs)
  qed
  show a: "settles t g e \<Longrightarrow> armed (lc_step e w) t \<noteq> Some g"
    using new assms(2) by (cases e) (auto simp: settles_def lc_defs split: option.splits)
  show b: "\<not> settles t g e \<Longrightarrow> armed (lc_step e w) t = Some g \<longleftrightarrow> armed w t = Some g"
    using assms(2) by (cases e) (auto simp: settles_def lc_defs split: option.splits if_splits)
  show "unat g \<le> unat (gen (lwLifecycle (lc_step e w)))"
    using unat_gen_step [OF assms(1,2), of e] assms(3) by auto
  show "armed w t \<noteq> Some g \<Longrightarrow> armed (lc_step e w) t \<noteq> Some g"
    using a b by blast
qed

lemma armed_run:
  "unat (gen (lwLifecycle w)) + length es < 2 ^ 64 \<Longrightarrow> 0 < grace (lwLifecycle w) \<Longrightarrow> unat g \<le> unat (gen (lwLifecycle w)) \<Longrightarrow>
     armed (lc_run es w) t = Some g \<longleftrightarrow> armed w t = Some g \<and> list_all (\<lambda>e. \<not> settles t g e) es"
proof (induction es arbitrary: w)
  case (Cons e es)
  have lt: "Suc (unat (gen (lwLifecycle w))) < 2 ^ 64" using Cons.prems(1) by simp
  note st = settled_step [OF lt Cons.prems(2,3)]
  have "unat (gen (lwLifecycle (lc_step e w))) + length es < 2 ^ 64"
    using unat_gen_step [OF lt Cons.prems(2), of e] Cons.prems(1) by auto
  from Cons.IH [OF this _ st(3)] Cons.prems(2) st(1,2,4) [of t e] show ?case by auto
qed simp

text \<open>
  C28: only the timer of the last close goes on. In a run of fewer than 2 to the 64 events from a new
  lifecycle with a grace period, take any close of the last tunnel of a trace: the callback of the timer that it armed (whose generation
  is the number of timers armed so far) goes on to mark the trace, whenever it runs, exactly when since that close the trace has had no other last close, no
  new tunnel, no run of the same callback, and the lifecycle was not stopped.
\<close>

theorem grace_claim_exact:
  assumes "0 < g" and "closes t (EvClosed t n)" and "length (before @ EvClosed t n # after) < 2 ^ 64"
  shows "fst (fireGrace_claim t (next_timer before) (lwLifecycle (lc_run (before @ EvClosed t n # after) (lc_start g rs))))
    \<longleftrightarrow> \<not> (\<exists>e \<in> set after. settles t (next_timer before) e)"
proof -
  let ?w = "lc_run (before @ [EvClosed t n]) (lc_start g rs)"
  have gn: "gen (lwLifecycle ?w) = next_timer before" "0 < grace (lwLifecycle ?w)"
    using gen_run [of "lc_start g rs" "before @ [EvClosed t n]"] assms(1,2)
    by (auto simp: lc_start_def NewPipelineLifecycle_def next_timer_def simp del: lc_run_simps(2,3))
  have "armed ?w t = Some (gen (lwLifecycle ?w))"
    using assms(1,2) by (simp add: lc_defs lc_start_def NewPipelineLifecycle_def)
  moreover have "length (filter arms before) \<le> length before" by simp
  then have "Suc (length (filter arms before)) + length after < 2 ^ 64" using assms(3) by (simp del: length_filter_le)
  then have "unat (gen (lwLifecycle ?w)) + length after < 2 ^ 64"
    unfolding gn next_timer_def by (simp add: unat_of_nat take_bit_nat_eq_self del: of_nat_Suc)
  ultimately have "armed (lc_run after ?w) t = Some (next_timer before) \<longleftrightarrow> list_all (\<lambda>e. \<not> settles t (next_timer before) e) after"
    using armed_run [of ?w after "next_timer before" t] gn by simp
  then show ?thesis by (auto simp: fireGrace_claim_def list_all_iff split: option.splits)
qed

theorem grace_claim_exact_witness:
  "fst (fireGrace_claim ''t1'' 2 (lwLifecycle (lc_run [EvClosed ''t0'' 0, EvClosed ''t1'' 0, EvOpen ''t0''] demo_lifecycle)))
   \<and> \<not> fst (fireGrace_claim ''t1'' 1 (lwLifecycle (lc_run [EvClosed ''t1'' 0, EvOpen ''t1'', EvClosed ''t1'' 0] demo_lifecycle)))"
  using grace_claim_exact [of 5 "''t1''" 0 "[EvClosed ''t0'' 0]" "[EvOpen ''t0'']" sample_store]
    grace_claim_exact [of 5 "''t1''" 0 "[]" "[EvOpen ''t1'', EvClosed ''t1'' 0]" sample_store]
  by (simp add: next_timer_def settles_def demo_lifecycle_def del: lc_run_simps)

section \<open>The stale sweep\<close>

record StaleSweepSummary =
  ssScanned :: int
  ssMarked :: int
  ssSkippedActive :: int

definition active_traces :: "Lease list \<Rightarrow> string list" where
  "active_traces ls = fold (\<lambda>l acc. if lInFlight l > 0 then set_put (lTraceID l) acc else acc) ls []"

text \<open>
  The loop over the candidates. \<open>alive\<close> is the number of iterations before the context is
  cancelled.
\<close>

fun sweep_loop :: "gotime \<Rightarrow> bool \<Rightarrow> string list \<Rightarrow> nat \<Rightarrow> TraceMeta list \<Rightarrow> StaleSweepSummary \<Rightarrow> RaftStore
    \<Rightarrow> StaleSweepSummary \<times> RaftStore" where
  "sweep_loop now bc active alive [] sm rs = (sm, rs)"
| "sweep_loop now bc active 0 (m # ms) sm rs = (sm, rs)"
| "sweep_loop now bc active (Suc alive) (m # ms) sm rs =
     (let sm = sm\<lparr>ssScanned := ssScanned sm + 1\<rparr> in
      if \<not> running (tmStatus m) then sweep_loop now bc active alive ms sm rs
      else if List.member active (tmTraceID m)
      then sweep_loop now bc active alive ms (sm\<lparr>ssSkippedActive := ssSkippedActive sm + 1\<rparr>) rs
      else case markFailed now bc (tmTraceID m) reasonClientSessionExpired rs of
             (ok, _, rs') \<Rightarrow>
               sweep_loop now bc active alive ms (if ok then sm\<lparr>ssMarked := ssMarked sm + 1\<rparr> else sm) rs')"

definition RunStaleSweep ::
    "gotime \<Rightarrow> bool \<Rightarrow> duration \<Rightarrow> nat \<Rightarrow> Store \<Rightarrow> RaftStore \<Rightarrow> StaleSweepSummary \<times> RaftStore" where
  "RunStaleSweep now bc staleAfter alive st rs =
     (let sm = \<lparr>ssScanned = 0, ssMarked = 0, ssSkippedActive = 0\<rparr> in
      if staleAfter \<le> 0 then (sm, rs)
      else
        let cutoff = now - staleAfter;
            candidates = TraceMetaRepo_ListBefore cutoff False rs;
            active = active_traces (ListLeases st)
        in sweep_loop now bc active alive candidates sm rs)"

lemma set_active: "t \<in> set (active_traces ls) \<longleftrightarrow> (\<exists>l \<in> set ls. lInFlight l > 0 \<and> lTraceID l = t)"
proof -
  have "t \<in> set (fold (\<lambda>l acc. if lInFlight l > 0 then set_put (lTraceID l) acc else acc) ls acc)
      \<longleftrightarrow> t \<in> set acc \<or> (\<exists>l \<in> set ls. lInFlight l > 0 \<and> lTraceID l = t)" for acc
    by (induction ls arbitrary: acc) auto
  then show ?thesis by (simp add: active_traces_def)
qed

lemma sweep_loop_untouched:
  "list_all (\<lambda>m. tmTraceID m = t \<longrightarrow> \<not> running (tmStatus m) \<or> t \<in> set active) ms \<Longrightarrow>
     readTrace t (fsm_state (snd (sweep_loop now bc active alive ms sm rs))) = readTrace t (fsm_state rs)"
proof (induction ms arbitrary: alive sm rs)
  case (Cons m ms)
  show ?case
  proof (cases alive)
    case (Suc n)
    obtain ok bs rs' where mf: "markFailed now bc (tmTraceID m) reasonClientSessionExpired rs = (ok, bs, rs')"
      by (cases "markFailed now bc (tmTraceID m) reasonClientSessionExpired rs")
    have other: "readTrace t (fsm_state rs') = readTrace t (fsm_state rs)" if "tmTraceID m \<noteq> t"
      using markFailed_other [of t "tmTraceID m" now bc reasonClientSessionExpired rs] that by (simp add: mf)
    show ?thesis
    proof (cases "running (tmStatus m) \<and> tmTraceID m \<notin> set active")
      case True
      with Cons.prems have "tmTraceID m \<noteq> t" by auto
      with True Cons other show ?thesis by (simp add: Suc Let_def mf)
    next
      case False
      with Cons show ?thesis by (simp add: Suc Let_def)
    qed
  qed simp
qed simp

text \<open>
  The stale sweep fails only abandoned traces. Whatever the cluster answers and whenever the
  sweep is cancelled, a trace whose row differs afterwards was running, was of known age and at
  least as old as the stale limit, and had no lease with a tunnel in flight.
\<close>

theorem stale_sweep_only_abandoned:
  assumes inv: "store_ok rs"
    and changed: "readTrace t (fsm_state (snd (RunStaleSweep now bc staleAfter alive st rs))) \<noteq> readTrace t (fsm_state rs)"
  shows "\<exists>m. readTrace t (fsm_state rs) = Inr m \<and> running (tmStatus m) \<and> \<not> is_zero (traceSortKey m)
    \<and> traceSortKey m \<le> now - staleAfter \<and> 0 < staleAfter
    \<and> (\<forall>l \<in> set (ListLeases st). lTraceID l = t \<longrightarrow> lInFlight l \<le> 0)"
proof (rule ccontr)
  assume no: "\<not> ?thesis"
  let ?c = "TraceMetaRepo_ListBefore (now - staleAfter) False rs"
  have pos: "0 < staleAfter" using changed by (simp add: RunStaleSweep_def Let_def split: if_splits)
  have "\<not> running (tmStatus m) \<or> t \<in> set (active_traces (ListLeases st))" if "m \<in> set ?c" "tmTraceID m = t" for m
  proof -
    have "readTrace t (fsm_state rs) = Inr m" "\<not> is_zero (traceSortKey m)" "traceSortKey m \<le> now - staleAfter"
      using that vals_iff [OF fsm_inv_rest(1) [OF inv]]
      by (auto simp: TraceMetaRepo_ListBefore_def listTracesBefore_def readTrace_def)
    with no pos show ?thesis by (auto simp: set_active not_le)
  qed
  then have "list_all (\<lambda>m. tmTraceID m = t \<longrightarrow> \<not> running (tmStatus m) \<or> t \<in> set (active_traces (ListLeases st))) ?c"
    by (auto simp: list_all_iff)
  from sweep_loop_untouched [OF this] changed pos show False
    by (simp add: RunStaleSweep_def Let_def)
qed

theorem stale_sweep_only_abandoned_witness:
  "readTrace ''t1'' (fsm_state (snd (RunStaleSweep 100 True 10 9 (NewStore 5) sample_store)))
     \<noteq> readTrace ''t1'' (fsm_state sample_store)
   \<and> (\<exists>m. readTrace ''t1'' (fsm_state sample_store) = Inr m \<and> traceSortKey m \<le> 90)"
proof -
  have c: "readTrace ''t1'' (fsm_state (snd (RunStaleSweep 100 True 10 9 (NewStore 5) sample_store)))
     \<noteq> readTrace ''t1'' (fsm_state sample_store)" by code_simp
  from stale_sweep_only_abandoned [OF sample_store_ok c] c show ?thesis by auto
qed

end
