(* ===== verification/Group_Service.thy ===== *)
theory Group_Service
  imports Raft_Store
begin

text \<open>
  Groups and memberships, \<^verbatim>\<open>src/internal/service/group_service.go\<close>. The interface
  \<^verbatim>\<open>membershipStore\<close> of the sources, which the group repository and the group service both
  implement, is the locale \<open>membership_store\<close>; the helpers \<open>addGroupMember\<close> and
  \<open>removeGroupMember\<close> take its two operations as arguments, as the code does, and their
  behaviour is proved once in the locale. \<^verbatim>\<open>regexp.Compile\<close> is the argument \<open>compiles\<close>, a
  fresh id the argument \<open>newID\<close>. The loops over the Go maps \<^verbatim>\<open>wanted\<close> and
  \<^verbatim>\<open>currentSet\<close> follow the order of the lists that represent them.
\<close>

section \<open>Membership helpers\<close>

definition memberIDsWithout :: "(string \<Rightarrow> 's \<Rightarrow> User list) \<Rightarrow> string \<Rightarrow> string \<Rightarrow> 's \<Rightarrow> string list" where
  "memberIDsWithout mems groupID userID s = filter (\<lambda>i. i \<noteq> userID) (map uID (mems groupID s))"

definition addGroupMember ::
    "(string \<Rightarrow> 's \<Rightarrow> User list) \<Rightarrow> (string \<Rightarrow> string list \<Rightarrow> 's \<Rightarrow> error option \<times> 's)
      \<Rightarrow> string \<Rightarrow> string \<Rightarrow> 's \<Rightarrow> error option \<times> 's" where
  "addGroupMember mems setm groupID userID s =
     setm groupID (memberIDsWithout mems groupID userID s @ [userID]) s"

definition removeGroupMember ::
    "(string \<Rightarrow> 's \<Rightarrow> User list) \<Rightarrow> (string \<Rightarrow> string list \<Rightarrow> 's \<Rightarrow> error option \<times> 's)
      \<Rightarrow> string \<Rightarrow> string \<Rightarrow> 's \<Rightarrow> error option \<times> 's" where
  "removeGroupMember mems setm groupID userID s =
     setm groupID (memberIDsWithout mems groupID userID s) s"

locale membership_store =
  fixes ms_inv :: "'s \<Rightarrow> bool"
    and ms_members :: "string \<Rightarrow> 's \<Rightarrow> User list"
    and ms_set :: "string \<Rightarrow> string list \<Rightarrow> 's \<Rightarrow> error option \<times> 's"
  assumes set_inv: "ms_inv s \<Longrightarrow> ms_inv (snd (ms_set g us s))"
    and set_same: "ms_inv s \<Longrightarrow> ms_set g us s = (None, s') \<Longrightarrow> [] \<notin> set us \<Longrightarrow>
      uID ` set (ms_members g s') = set us"
    and set_other: "ms_inv s \<Longrightarrow> ms_set g us s = (None, s') \<Longrightarrow> h \<noteq> g \<Longrightarrow>
      uID ` set (ms_members h s') = uID ` set (ms_members h s)"
begin

definition ids :: "string \<Rightarrow> 's \<Rightarrow> string set" where
  "ids g s = uID ` set (ms_members g s)"

lemma without_ids: "set (memberIDsWithout ms_members g u s) = ids g s - {u}"
  by (auto simp: memberIDsWithout_def ids_def)

lemma add_member:
  assumes "ms_inv s" and "addGroupMember ms_members ms_set g u s = (None, s')" and "u \<noteq> []" and "[] \<notin> ids g s"
  shows "ms_inv s' \<and> ids h s' = (if h = g then insert u (ids g s) else ids h s)"
proof -
  let ?us = "memberIDsWithout ms_members g u s @ [u]"
  have set: "ms_set g ?us s = (None, s')" using assms(2) by (simp add: addGroupMember_def)
  have us: "set ?us = insert u (ids g s)" using without_ids [of g u s] by auto
  then have "[] \<notin> set ?us" using assms(3,4) by auto
  from set_same [OF assms(1) set this] set_other [OF assms(1) set] set_inv [OF assms(1), of g ?us] us set
  show ?thesis by (simp add: ids_def)
qed

lemma remove_member:
  assumes "ms_inv s" and "removeGroupMember ms_members ms_set g u s = (None, s')" and "[] \<notin> ids g s"
  shows "ms_inv s' \<and> ids h s' = (if h = g then ids g s - {u} else ids h s)"
proof -
  let ?us = "memberIDsWithout ms_members g u s"
  have set: "ms_set g ?us s = (None, s')" using assms(2) by (simp add: removeGroupMember_def)
  have "[] \<notin> set ?us" using assms(3) without_ids by auto
  from set_same [OF assms(1) set this] set_other [OF assms(1) set] set_inv [OF assms(1), of g ?us] set
  show ?thesis using without_ids [of g u s] by (simp add: ids_def)
qed

lemma op_inv:
  "ms_inv s \<Longrightarrow> ms_inv (snd (addGroupMember ms_members ms_set g u s))"
  "ms_inv s \<Longrightarrow> ms_inv (snd (removeGroupMember ms_members ms_set g u s))"
  by (simp_all add: addGroupMember_def removeGroupMember_def set_inv)

end

section \<open>The group service\<close>

definition ValidateGroupName :: "string \<Rightarrow> bool" where
  "ValidateGroupName name = name_re 0 63 name"

record GroupInput =
  giName :: string
  giDescription :: string
  giMaxRunnerSessions :: int
  giAgentAvailable :: bool
  giAutoAssignPattern :: string

definition validateGroupInput :: "(string \<Rightarrow> bool) \<Rightarrow> GroupInput \<Rightarrow> error option" where
  "validateGroupInput compiles inp =
     (if \<not> ValidateGroupName (giName inp) then Some ErrValidation
      else if giMaxRunnerSessions inp < 0 then Some ErrValidation
      else if giAutoAssignPattern inp \<noteq> [] \<and> \<not> compiles (giAutoAssignPattern inp) then Some ErrValidation
      else None)"

definition GroupService_Create ::
    "(string \<Rightarrow> bool) \<Rightarrow> gotime \<Rightarrow> string \<Rightarrow> GroupInput \<Rightarrow> RaftStore \<Rightarrow> (error, Group) result \<times> RaftStore" where
  "GroupService_Create compiles now newID inp rs = (case validateGroupInput compiles inp of
     Some e \<Rightarrow> (Inl e, rs)
   | None \<Rightarrow>
       let g = \<lparr>gID = newID, gName = giName inp, gDescription = giDescription inp,
                gMaxRunnerSessions = giMaxRunnerSessions inp, gAgentAvailable = giAgentAvailable inp,
                gAutoAssignPattern = giAutoAssignPattern inp, gCreatedAt = zero_time, gUpdatedAt = zero_time\<rparr>
       in case GroupRepo_Create now g rs of
            (Some e, _, rs') \<Rightarrow> (Inl e, rs') | (None, g', rs') \<Rightarrow> (Inr g', rs'))"

definition GroupService_Update ::
    "(string \<Rightarrow> bool) \<Rightarrow> gotime \<Rightarrow> string \<Rightarrow> GroupInput \<Rightarrow> RaftStore \<Rightarrow> (error, Group) result \<times> RaftStore" where
  "GroupService_Update compiles now i inp rs = (case validateGroupInput compiles inp of
     Some e \<Rightarrow> (Inl e, rs)
   | None \<Rightarrow> (case GroupRepo_Get i rs of
       Inl e \<Rightarrow> (Inl e, rs)
     | Inr g \<Rightarrow>
         let g = g\<lparr>gName := giName inp, gDescription := giDescription inp,
                   gMaxRunnerSessions := giMaxRunnerSessions inp,
                   gAgentAvailable := giAgentAvailable inp,
                   gAutoAssignPattern := giAutoAssignPattern inp\<rparr>
         in case GroupRepo_Update now g rs of
              (Some e, _, rs') \<Rightarrow> (Inl e, rs') | (None, g', rs') \<Rightarrow> (Inr g', rs')))"

definition GroupService_Delete :: "string \<Rightarrow> RaftStore \<Rightarrow> error option \<times> RaftStore" where
  "GroupService_Delete i rs = GroupRepo_Delete i rs"

text \<open>The loop of \<^verbatim>\<open>SetMembers\<close>: the accepted ids in order, or the first error.\<close>

fun check_members :: "RaftStore \<Rightarrow> string list \<Rightarrow> string list \<Rightarrow> string list \<Rightarrow> (error, string list) result" where
  "check_members rs [] seen acc = Inr acc"
| "check_members rs (uid # uids) seen acc =
     (if uid = [] \<or> List.member seen uid then check_members rs uids seen acc
      else case UserRepo_Get uid rs of
             Inl e \<Rightarrow> Inl e
           | Inr _ \<Rightarrow> check_members rs uids (uid # seen) (acc @ [uid]))"

definition GroupService_SetMembers :: "string \<Rightarrow> string list \<Rightarrow> RaftStore \<Rightarrow> error option \<times> RaftStore" where
  "GroupService_SetMembers groupID userIDs rs = (case GroupRepo_Get groupID rs of
     Inl e \<Rightarrow> (Some e, rs)
   | Inr _ \<Rightarrow> (case check_members rs userIDs [] [] of
       Inl e \<Rightarrow> (Some e, rs)
     | Inr accepted \<Rightarrow> GroupRepo_SetMembers groupID accepted rs))"

definition GroupService_Members :: "string \<Rightarrow> RaftStore \<Rightarrow> User list" where
  "GroupService_Members gid rs = GroupRepo_Members gid rs"

fun check_groups :: "RaftStore \<Rightarrow> string list \<Rightarrow> string list \<Rightarrow> (error, string list) result" where
  "check_groups rs [] wanted = Inr wanted"
| "check_groups rs (gid # gids) wanted =
     (if gid = [] \<or> List.member wanted gid then check_groups rs gids wanted
      else case GroupRepo_Get gid rs of
             Inl e \<Rightarrow> Inl e | Inr _ \<Rightarrow> check_groups rs gids (wanted @ [gid]))"

text \<open>A loop of calls that stops at the first error.\<close>

fun each :: "('a \<Rightarrow> 's \<Rightarrow> error option \<times> 's) \<Rightarrow> 'a list \<Rightarrow> 's \<Rightarrow> error option \<times> 's" where
  "each f [] s = (None, s)"
| "each f (x # xs) s = (case f x s of (Some e, s') \<Rightarrow> (Some e, s') | (None, s') \<Rightarrow> each f xs s')"

definition SetUserGroups :: "string \<Rightarrow> string list \<Rightarrow> RaftStore \<Rightarrow> error option \<times> RaftStore" where
  "SetUserGroups userID groupIDs rs = (case UserRepo_Get userID rs of
     Inl e \<Rightarrow> (Some e, rs)
   | Inr _ \<Rightarrow> (case check_groups rs groupIDs [] of
       Inl e \<Rightarrow> (Some e, rs)
     | Inr wanted \<Rightarrow>
         let currentSet = map gID (GroupRepo_GroupsForUser userID rs) in
         case each (\<lambda>gid. addGroupMember GroupRepo_Members GroupRepo_SetMembers gid userID)
                (filter (\<lambda>gid. \<not> List.member currentSet gid) wanted) rs of
           (Some e, rs') \<Rightarrow> (Some e, rs')
         | (None, rs') \<Rightarrow>
             each (\<lambda>gid. removeGroupMember GroupRepo_Members GroupRepo_SetMembers gid userID)
               (filter (\<lambda>gid. \<not> List.member wanted gid) currentSet) rs'))"

definition EnsureMember :: "string \<Rightarrow> string \<Rightarrow> RaftStore \<Rightarrow> error option \<times> RaftStore" where
  "EnsureMember groupID userID rs = (case GroupRepo_Get groupID rs of
     Inl e \<Rightarrow> (Some e, rs)
   | Inr _ \<Rightarrow> (case UserRepo_Get userID rs of
       Inl e \<Rightarrow> (Some e, rs)
     | Inr _ \<Rightarrow>
         if list_ex (\<lambda>m. uID m = userID) (GroupRepo_Members groupID rs) then (None, rs)
         else addGroupMember GroupRepo_Members GroupRepo_SetMembers groupID userID rs))"

section \<open>Both membership stores keep the contract\<close>

lemma cmd_setMembers:
  "applyCommand (newCommand kindSetMembers (PSetMembers gid uids)) s =
     (let (e, s') = setMembers gid uids s in (err_result e, s'))"
  by (simp add: applyCommand_def applyEntityCommand_def newCommand_def kind_defs case_prod_beta)

lemma SetMembers_ok:
  "GroupRepo_SetMembers gid uids rs = (None, rs') \<Longrightarrow> setMembers gid uids (fsm_state rs) = (None, fsm_state rs')"
  unfolding GroupRepo_SetMembers_def
  by (drule applyCtx_ok) (auto simp: cmd_setMembers Let_def split: prod.splits)

lemma SetMembers_inv: "store_ok rs \<Longrightarrow> store_ok (snd (GroupRepo_SetMembers gid uids rs))"
  unfolding GroupRepo_SetMembers_def
  by (rule applyCtx_inv [OF _ _ prod.collapse [symmetric]]) (auto simp: cmd_ok_def newCommand_def)

lemma member_ids:
  assumes "store_ok rs"
  shows "uID ` set (GroupRepo_Members gid rs) = set (edges (memberships (fsm_state rs)) gid)"
proof -
  have "member_of (fsm_state rs) gid uid \<Longrightarrow> \<exists>u. gm_get (users (fsm_state rs)) uid = Some u \<and> uID u = uid" for uid
    using mem_invD(5) [OF fsm_invD(5) [OF assms], of uid gid] tbl_okD [OF by_name.ids [OF assms]]
    by (auto simp: member_of_def)
  then show ?thesis
    using set_members [OF assms, of _ gid] by (force simp: GroupRepo_Members_def member_of_def image_iff)
qed

lemma SetMembers_edges:
  assumes "store_ok rs" and "GroupRepo_SetMembers gid uids rs = (None, rs')"
  shows "set (edges (memberships (fsm_state rs')) h) =
    (if h = gid then set uids else set (edges (memberships (fsm_state rs)) h))"
  using setMembers_edges(1) [OF fsm_invD(5) [OF assms(1)] SetMembers_ok [OF assms(2)]] by simp

interpretation repo: membership_store store_ok GroupRepo_Members GroupRepo_SetMembers
proof
  fix rs rs' :: RaftStore and g h :: string and us :: "string list"
  assume ok: "store_ok rs"
  show inv: "store_ok (snd (GroupRepo_SetMembers g us rs))" by (rule SetMembers_inv [OF ok])
  assume set: "GroupRepo_SetMembers g us rs = (None, rs')"
  then have "store_ok rs'" using inv by simp
  note e = SetMembers_edges [OF ok set] and m = member_ids [OF ok] and m' = member_ids [OF \<open>store_ok rs'\<close>]
  show "uID ` set (GroupRepo_Members g rs') = set us" by (simp add: m' e)
  show "h \<noteq> g \<Longrightarrow> uID ` set (GroupRepo_Members h rs') = uID ` set (GroupRepo_Members h rs)"
    by (simp add: m m' e)
qed

lemma check_members_set:
  "check_members rs uids seen acc = Inr out \<Longrightarrow> set out = set acc \<union> (set uids - {[]} - set seen)"
  by (induction rs uids seen acc rule: check_members.induct) (auto split: if_splits sum.splits)

interpretation service: membership_store store_ok GroupService_Members GroupService_SetMembers
proof
  fix rs rs' :: RaftStore and g h :: string and us :: "string list"
  assume ok: "store_ok rs"
  show "store_ok (snd (GroupService_SetMembers g us rs))"
    using ok repo.set_inv [OF ok] by (auto simp: GroupService_SetMembers_def split: sum.splits)
  assume "GroupService_SetMembers g us rs = (None, rs')"
  then obtain out where out: "check_members rs us [] [] = Inr out" "GroupRepo_SetMembers g out rs = (None, rs')"
    by (auto simp: GroupService_SetMembers_def split: sum.splits)
  have "set out = set us - {[]}" using check_members_set [OF out(1)] by simp
  then show "uID ` set (GroupService_Members g rs') = set us" if "[] \<notin> set us"
    using repo.set_same [OF ok out(2)] that by (simp add: GroupService_Members_def)
  show "h \<noteq> g \<Longrightarrow> uID ` set (GroupService_Members h rs') = uID ` set (GroupService_Members h rs)"
    using repo.set_other [OF ok out(2)] by (simp add: GroupService_Members_def)
qed

section \<open>Replacing the groups of a user\<close>

lemma check_groups_set:
  "check_groups rs gids wanted = Inr out \<Longrightarrow> set out = set wanted \<union> (set gids - {[]})"
  by (induction rs gids wanted rule: check_groups.induct) (auto split: if_splits sum.splits)

lemma each_add:
  assumes "store_ok s" and "each (\<lambda>g. addGroupMember GroupRepo_Members GroupRepo_SetMembers g u) gs s = (None, s')"
    and "u \<noteq> []" and "\<And>h. [] \<notin> repo.ids h s"
  shows "store_ok s' \<and> (\<forall>h. repo.ids h s' = (if h \<in> set gs then insert u (repo.ids h s) else repo.ids h s))"
  using assms
proof (induction gs arbitrary: s)
  case (Cons g gs)
  obtain s1 where s1: "addGroupMember GroupRepo_Members GroupRepo_SetMembers g u s = (None, s1)"
    "each (\<lambda>g. addGroupMember GroupRepo_Members GroupRepo_SetMembers g u) gs s1 = (None, s')"
    using Cons.prems(2) by (auto split: prod.splits option.splits)
  note step = repo.add_member [OF Cons.prems(1) s1(1) Cons.prems(3,4)]
  have "[] \<notin> repo.ids h s1" for h using step [of h] Cons.prems(3,4) by auto
  with Cons.IH [OF _ s1(2) Cons.prems(3)] step show ?case by auto
qed simp

lemma each_remove:
  assumes "store_ok s" and "each (\<lambda>g. removeGroupMember GroupRepo_Members GroupRepo_SetMembers g u) gs s = (None, s')"
    and "\<And>h. [] \<notin> repo.ids h s"
  shows "store_ok s' \<and> (\<forall>h. repo.ids h s' = (if h \<in> set gs then repo.ids h s - {u} else repo.ids h s))"
  using assms
proof (induction gs arbitrary: s)
  case (Cons g gs)
  obtain s1 where s1: "removeGroupMember GroupRepo_Members GroupRepo_SetMembers g u s = (None, s1)"
    "each (\<lambda>g. removeGroupMember GroupRepo_Members GroupRepo_SetMembers g u) gs s1 = (None, s')"
    using Cons.prems(2) by (auto split: prod.splits option.splits)
  note step = repo.remove_member [OF Cons.prems(1) s1(1) Cons.prems(3)]
  have "[] \<notin> repo.ids h s1" for h using step [of h] Cons.prems(3) by auto
  with Cons.IH [OF _ s1(2)] step show ?case by auto
qed simp

lemma ids_member: "store_ok rs \<Longrightarrow> v \<in> repo.ids g rs \<longleftrightarrow> member_of (fsm_state rs) g v"
  by (simp add: repo.ids_def member_ids member_of_def)

lemma SetUserGroups_parts:
  assumes "SetUserGroups uid gids rs = (None, rs')"
  obtains wanted rs1 where "set wanted = set gids - {[]}"
    "each (\<lambda>gid. addGroupMember GroupRepo_Members GroupRepo_SetMembers gid uid)
       (filter (\<lambda>gid. gid \<notin> gID ` set (GroupRepo_GroupsForUser uid rs)) wanted) rs = (None, rs1)"
    "each (\<lambda>gid. removeGroupMember GroupRepo_Members GroupRepo_SetMembers gid uid)
       (filter (\<lambda>gid. gid \<notin> set wanted) (map gID (GroupRepo_GroupsForUser uid rs))) rs1 = (None, rs')"
proof -
  obtain wanted rs1 where w: "check_groups rs gids [] = Inr wanted"
    "each (\<lambda>gid. addGroupMember GroupRepo_Members GroupRepo_SetMembers gid uid)
       (filter (\<lambda>gid. \<not> List.member (map gID (GroupRepo_GroupsForUser uid rs)) gid) wanted) rs = (None, rs1)"
    "each (\<lambda>gid. removeGroupMember GroupRepo_Members GroupRepo_SetMembers gid uid)
       (filter (\<lambda>gid. \<not> List.member wanted gid) (map gID (GroupRepo_GroupsForUser uid rs))) rs1 = (None, rs')"
    using assms by (auto simp: SetUserGroups_def Let_def split: sum.splits prod.splits option.splits)
  show ?thesis
    using that [of wanted rs1] check_groups_set [OF w(1)] w(2,3) by simp
qed

text \<open>
  Replacing a user's groups gives exactly the wanted ones. When the call succeeds, the user is a
  member of precisely the groups in the list (empty ids and repetitions aside), and no other
  user's membership changes, although the work is done by one membership rewrite per group.
\<close>

theorem SetUserGroups_exact:
  assumes ok: "store_ok rs" and no_empty: "UserRepo_Get [] rs = Inl ErrNotFound" and u: "uid \<noteq> []"
    and res: "SetUserGroups uid gids rs = (None, rs')"
  shows "member_of (fsm_state rs') g v \<longleftrightarrow>
    (if v = uid then g \<in> set gids \<and> g \<noteq> [] else member_of (fsm_state rs) g v)"
proof -
  obtain wanted rs1 where w: "set wanted = set gids - {[]}"
    "each (\<lambda>gid. addGroupMember GroupRepo_Members GroupRepo_SetMembers gid uid)
       (filter (\<lambda>gid. gid \<notin> gID ` set (GroupRepo_GroupsForUser uid rs)) wanted) rs = (None, rs1)"
    "each (\<lambda>gid. removeGroupMember GroupRepo_Members GroupRepo_SetMembers gid uid)
       (filter (\<lambda>gid. gid \<notin> set wanted) (map gID (GroupRepo_GroupsForUser uid rs))) rs1 = (None, rs')"
    using res by (rule SetUserGroups_parts)
  have empty: "[] \<notin> repo.ids h rs" for h
    using no_empty mem_invD(5) [OF fsm_invD(5) [OF ok], of "[]" h]
    by (auto simp: ids_member [OF ok] member_of_def UserRepo_Get_def readUserByID_def read_row_def split: option.splits)
  have cur: "h \<in> gID ` set (GroupRepo_GroupsForUser uid rs) \<longleftrightarrow> uid \<in> repo.ids h rs" for h
    using set_groupsForUser [OF ok, of _ uid] tbl_okD [OF by_group.ids [OF ok]] mem_invD(4) [OF fsm_invD(5) [OF ok]]
    by (force simp: GroupRepo_GroupsForUser_def ids_member [OF ok] member_of_def image_iff)
  note add = each_add [OF ok w(2) u empty]
  then have inv1: "store_ok rs1" and empty1: "[] \<notin> repo.ids h rs1" for h using empty u by auto
  note rem = each_remove [OF inv1 w(3) empty1]
  have "v \<in> repo.ids g rs' \<longleftrightarrow> (if v = uid then g \<in> set wanted else v \<in> repo.ids g rs)"
    using add rem cur [of g] by auto
  moreover have "store_ok rs'" using rem by blast
  ultimately show ?thesis using w(1) ok by (simp add: ids_member)
qed

theorem SetUserGroups_exact_witness:
  "member_of (fsm_state (snd (SetUserGroups ''u2'' [''g2'', [], ''g2''] sample_store))) ''g2'' ''u2''
   \<and> \<not> member_of (fsm_state (snd (SetUserGroups ''u2'' [''g2'', [], ''g2''] sample_store))) ''g1'' ''u2''
   \<and> member_of (fsm_state (snd (SetUserGroups ''u2'' [''g2'', [], ''g2''] sample_store))) ''g1'' ''u1''"
proof -
  let ?r = "SetUserGroups ''u2'' [''g2'', [], ''g2''] sample_store"
  have "fst ?r = None" "UserRepo_Get [] sample_store = Inl ErrNotFound"
    "member_of (fsm_state sample_store) ''g1'' ''u1''" by code_simp+
  moreover from this have "?r = (None, snd ?r)" by (metis prod.collapse)
  ultimately show ?thesis using SetUserGroups_exact [OF sample_store_ok, of "''u2''" "[''g2'', [], ''g2'']"] by simp
qed

end
