(* ===== verification/Accounts.thy ===== *)
theory Accounts
  imports Group_Service Version
begin

text \<open>
  User accounts and API tokens: \<^verbatim>\<open>src/internal/service/user_service.go\<close> and
  \<^verbatim>\<open>token_service.go\<close>. The cryptographic libraries are arguments of the operations that call
  them: \<open>bgen\<close> and \<open>bcmp\<close> are bcrypt's \<^verbatim>\<open>GenerateFromPassword\<close> and
  \<^verbatim>\<open>CompareHashAndPassword\<close>, \<open>sha\<close> is the hex SHA-256, \<open>seal\<close> and \<open>unseal\<close> are
  AES-GCM with base64; what is needed of them is a hypothesis of the theorems that need it (a
  generated hash accepts its password; unsealing gives back what was sealed). A fresh id, a
  fresh plaintext token and the clock are arguments too. The token version is a 64-bit word, so its
  increment wraps.
\<close>

section \<open>Users\<close>

definition validateUsername :: "string \<Rightarrow> error option" where
  "validateUsername username = (if name_re 1 63 username then None else Some ErrValidation)"

definition minPasswordLen :: nat where "minPasswordLen = 8"
definition maxPasswordLen :: nat where "maxPasswordLen = 72"

definition validatePassword :: "string \<Rightarrow> error option" where
  "validatePassword password =
     (if length password < minPasswordLen then Some ErrValidation
      else if length password > maxPasswordLen then Some ErrValidation else None)"

definition new_user :: "string \<Rightarrow> string \<Rightarrow> role \<Rightarrow> User" where
  "new_user i username r = \<lparr>uID = i, uUsername = username, uRole = r, uPasswordHash = [],
     uOAuthProvider = [], uOAuthID = [], uOAuthTokenCiphertext = [], uOAuthGroupIDs = [],
     uOAuthGroups = [], uOAuthAdmin = False, uDeactivatedAt = None, uTokenVersion = 0,
     uCreatedAt = zero_time, uUpdatedAt = zero_time\<rparr>"

definition UserService_Create ::
    "(string \<Rightarrow> (error, string) result) \<Rightarrow> gotime \<Rightarrow> string \<Rightarrow> string \<Rightarrow> string \<Rightarrow> role \<Rightarrow> RaftStore
      \<Rightarrow> (error, User) result \<times> RaftStore" where
  "UserService_Create bgen now newID username password r rs =
     (case validateUsername username of Some e \<Rightarrow> (Inl e, rs)
      | None \<Rightarrow> (case validatePassword password of Some e \<Rightarrow> (Inl e, rs)
      | None \<Rightarrow> (case ParseRole r of Inl _ \<Rightarrow> (Inl ErrValidation, rs)
      | Inr _ \<Rightarrow> (case bgen password of Inl e \<Rightarrow> (Inl e, rs)
      | Inr hash \<Rightarrow>
          (case UserRepo_Create now ((new_user newID username r)\<lparr>uPasswordHash := hash\<rparr>) rs of
             (Some e, _, rs') \<Rightarrow> (Inl e, rs')
           | (None, u, rs') \<Rightarrow>
               (Inr u, case GroupRepo_GetByName ''default'' rs' of
                  Inl _ \<Rightarrow> rs'
                | Inr g \<Rightarrow> snd (addGroupMember GroupRepo_Members GroupRepo_SetMembers (gID g) (uID u) rs')))))))"

definition Authenticate ::
    "(string \<Rightarrow> string \<Rightarrow> bool) \<Rightarrow> string \<Rightarrow> string \<Rightarrow> RaftStore \<Rightarrow> (error, User) result" where
  "Authenticate bcmp username password rs = (case UserRepo_GetByUsername username rs of
     Inl _ \<Rightarrow> Inl ErrInvalidCredential
   | Inr u \<Rightarrow>
       if uPasswordHash u = [] then Inl ErrInvalidCredential
       else if \<not> bcmp (uPasswordHash u) password then Inl ErrInvalidCredential
       else Inr u)"

definition UpdateRole :: "gotime \<Rightarrow> string \<Rightarrow> role \<Rightarrow> RaftStore \<Rightarrow> (error, User) result \<times> RaftStore" where
  "UpdateRole now i r rs = (case ParseRole r of
     Inl _ \<Rightarrow> (Inl ErrValidation, rs)
   | Inr _ \<Rightarrow> (case UserRepo_Get i rs of
       Inl e \<Rightarrow> (Inl e, rs)
     | Inr u \<Rightarrow> (case UserRepo_Update now (u\<lparr>uRole := r\<rparr>) rs of
         (Some e, _, rs') \<Rightarrow> (Inl e, rs') | (None, u', rs') \<Rightarrow> (Inr u', rs'))))"

definition UserService_Delete :: "string \<Rightarrow> RaftStore \<Rightarrow> error option \<times> RaftStore" where
  "UserService_Delete i rs = (case UserRepo_Get i rs of
     Inl e \<Rightarrow> (Some e, rs) | Inr _ \<Rightarrow> UserRepo_Delete i rs)"

definition setPassword ::
    "(string \<Rightarrow> (error, string) result) \<Rightarrow> gotime \<Rightarrow> User \<Rightarrow> string \<Rightarrow> RaftStore \<Rightarrow> error option \<times> RaftStore" where
  "setPassword bgen now u newPassword rs = (case bgen newPassword of
     Inl e \<Rightarrow> (Some e, rs)
   | Inr hash \<Rightarrow> (case UserRepo_Update now (u\<lparr>uPasswordHash := hash\<rparr>) rs of (e, _, rs') \<Rightarrow> (e, rs')))"

definition ResetPassword ::
    "(string \<Rightarrow> (error, string) result) \<Rightarrow> gotime \<Rightarrow> string \<Rightarrow> string \<Rightarrow> RaftStore \<Rightarrow> error option \<times> RaftStore" where
  "ResetPassword bgen now i newPassword rs = (case validatePassword newPassword of
     Some e \<Rightarrow> (Some e, rs)
   | None \<Rightarrow> (case UserRepo_Get i rs of
       Inl e \<Rightarrow> (Some e, rs)
     | Inr u \<Rightarrow> setPassword bgen now (u\<lparr>uTokenVersion := uTokenVersion u + 1\<rparr>) newPassword rs))"

definition ChangePassword ::
    "(string \<Rightarrow> (error, string) result) \<Rightarrow> (string \<Rightarrow> string \<Rightarrow> bool) \<Rightarrow> gotime \<Rightarrow> string \<Rightarrow> string \<Rightarrow> string
      \<Rightarrow> RaftStore \<Rightarrow> error option \<times> RaftStore" where
  "ChangePassword bgen bcmp now i current newPassword rs = (case validatePassword newPassword of
     Some e \<Rightarrow> (Some e, rs)
   | None \<Rightarrow> (case UserRepo_Get i rs of
       Inl e \<Rightarrow> (Some e, rs)
     | Inr u \<Rightarrow>
         if uPasswordHash u = [] \<or> \<not> bcmp (uPasswordHash u) current then (Some ErrInvalidCredential, rs)
         else setPassword bgen now (u\<lparr>uTokenVersion := uTokenVersion u + 1\<rparr>) newPassword rs))"

definition IncrementTokenVersion :: "gotime \<Rightarrow> string \<Rightarrow> RaftStore \<Rightarrow> error option \<times> RaftStore" where
  "IncrementTokenVersion now i rs = (case UserRepo_Get i rs of
     Inl e \<Rightarrow> (Some e, rs)
   | Inr u \<Rightarrow> (case UserRepo_Update now (u\<lparr>uTokenVersion := uTokenVersion u + 1\<rparr>) rs of (e, _, rs') \<Rightarrow> (e, rs')))"

text \<open>
  The loop that looks for a free user name: the name itself, then the name with the suffixes 2
  to 1000.
\<close>

function free_username :: "string \<Rightarrow> string \<Rightarrow> int \<Rightarrow> RaftStore \<Rightarrow> (error, string) result" where
  "free_username username candidate i rs = (case UserRepo_GetByUsername candidate rs of
     Inl e \<Rightarrow> if e = ErrNotFound then Inr candidate else Inl e
   | Inr _ \<Rightarrow>
       if i > 1000 then Inl (ErrOther ''could not find unique username'')
       else free_username username (username @ ''-'' @ show_int i) (i + 1) rs)"
  by pat_completeness auto
termination
  by (relation "measure (\<lambda>(_, _, i, _). nat (1001 - i))") auto

declare free_username.simps [simp del]

definition EnsureOAuthUser ::
    "gotime \<Rightarrow> string \<Rightarrow> string \<Rightarrow> string \<Rightarrow> string \<Rightarrow> RaftStore \<Rightarrow> (error, User \<times> bool) result \<times> RaftStore" where
  "EnsureOAuthUser now newID provider oauthID username rs = (case UserRepo_GetByOAuth provider oauthID rs of
     Inr existing \<Rightarrow> (Inr (existing, False), rs)
   | Inl e \<Rightarrow>
       if e \<noteq> ErrNotFound then (Inl e, rs)
       else case free_username username username 2 rs of
              Inl e \<Rightarrow> (Inl e, rs)
            | Inr candidate \<Rightarrow>
                (case UserRepo_Create now ((new_user newID candidate RoleUser)
                       \<lparr>uOAuthProvider := provider, uOAuthID := oauthID\<rparr>) rs of
                   (Some e, _, rs') \<Rightarrow> (Inl e, rs')
                 | (None, u, rs') \<Rightarrow> (Inr (u, True), rs')))"

section \<open>API tokens\<close>

definition HashAPIToken :: "(string \<Rightarrow> string) \<Rightarrow> string \<Rightarrow> string" where
  "HashAPIToken sha plaintext = sha plaintext"

definition newAPIToken :: "(string \<Rightarrow> string) \<Rightarrow> string \<Rightarrow> string \<Rightarrow> string \<Rightarrow> APIToken" where
  "newAPIToken sha newID userID plaintext = \<lparr>tkID = newID, tkUserID = userID,
     tkTokenHash = HashAPIToken sha plaintext, tkTokenCiphertext = [],
     tkPrefix = take (min 12 (length plaintext)) plaintext, tkCreatedAt = zero_time, tkLastUsedAt = None\<rparr>"

definition encryptToken ::
    "(string \<Rightarrow> string \<Rightarrow> (error, string) result) \<Rightarrow> string \<Rightarrow> string \<Rightarrow> (error, string) result" where
  "encryptToken seal key plaintext = (if key = [] then Inr [] else seal key plaintext)"

definition newPlaintextToken :: "string \<Rightarrow> string" where
  "newPlaintextToken rand_hex = ''dct_'' @ rand_hex"

definition upsertNew ::
    "(string \<Rightarrow> string) \<Rightarrow> (string \<Rightarrow> string \<Rightarrow> (error, string) result) \<Rightarrow> string \<Rightarrow> gotime \<Rightarrow> string \<Rightarrow> string
      \<Rightarrow> string \<Rightarrow> RaftStore \<Rightarrow> (error, string \<times> APIToken) result \<times> RaftStore" where
  "upsertNew sha seal encKey now newID rand_hex userID rs =
     (let plaintext = newPlaintextToken rand_hex; t = newAPIToken sha newID userID plaintext in
      case encryptToken seal encKey plaintext of
        Inl e \<Rightarrow> (Inl e, rs)
      | Inr ct \<Rightarrow> (case TokenRepo_Upsert now (t\<lparr>tkTokenCiphertext := ct\<rparr>) rs of
          (Some e, _, rs') \<Rightarrow> (Inl e, rs') | (None, t', rs') \<Rightarrow> (Inr (plaintext, t'), rs')))"

definition Generate ::
    "(string \<Rightarrow> string) \<Rightarrow> (string \<Rightarrow> string \<Rightarrow> (error, string) result) \<Rightarrow> string \<Rightarrow> gotime \<Rightarrow> string \<Rightarrow> string
      \<Rightarrow> string \<Rightarrow> RaftStore \<Rightarrow> (error, string \<times> APIToken) result \<times> RaftStore" where
  "Generate sha seal encKey now newID rand_hex userID rs = (case TokenRepo_GetByUser userID rs of
     Inr _ \<Rightarrow> (Inl ErrTokenExists, rs)
   | Inl e \<Rightarrow> if e \<noteq> ErrNotFound then (Inl e, rs) else upsertNew sha seal encKey now newID rand_hex userID rs)"

definition Regenerate ::
    "(string \<Rightarrow> string) \<Rightarrow> (string \<Rightarrow> string \<Rightarrow> (error, string) result) \<Rightarrow> string \<Rightarrow> gotime \<Rightarrow> string \<Rightarrow> string
      \<Rightarrow> string \<Rightarrow> RaftStore \<Rightarrow> (error, string \<times> APIToken) result \<times> RaftStore" where
  "Regenerate sha seal encKey now newID rand_hex userID rs = upsertNew sha seal encKey now newID rand_hex userID rs"

definition Revoke :: "string \<Rightarrow> RaftStore \<Rightarrow> error option \<times> RaftStore" where
  "Revoke userID rs = TokenRepo_Delete userID rs"

definition Reveal ::
    "(string \<Rightarrow> string \<Rightarrow> (error, string) result) \<Rightarrow> string \<Rightarrow> string \<Rightarrow> RaftStore \<Rightarrow> (error, string) result" where
  "Reveal unseal encKey userID rs = (case TokenRepo_GetByUser userID rs of
     Inl e \<Rightarrow> Inl e
   | Inr None \<Rightarrow> Inl Panic
   | Inr (Some t) \<Rightarrow>
       if tkTokenCiphertext t = [] then Inl ErrTokenNotRecoverable
       else if encKey = [] then Inl ErrTokenNotRecoverable
       else unseal encKey (tkTokenCiphertext t))"

definition Validate ::
    "(string \<Rightarrow> string) \<Rightarrow> gotime \<Rightarrow> string \<Rightarrow> RaftStore \<Rightarrow> (error, APIToken) result \<times> RaftStore" where
  "Validate sha now plaintext rs =
     (if plaintext = [] then (Inl ErrUnauthenticated, rs)
      else case TokenRepo_GetByHash (HashAPIToken sha plaintext) rs of
             Inl _ \<Rightarrow> (Inl ErrUnauthenticated, rs)
           | Inr None \<Rightarrow> (Inl Panic, rs)
           | Inr (Some t) \<Rightarrow> (Inr t, snd (TokenRepo_TouchLastUsed (tkID t) now rs)))"

definition ImportRaw ::
    "(string \<Rightarrow> string) \<Rightarrow> (string \<Rightarrow> string \<Rightarrow> (error, string) result) \<Rightarrow> string \<Rightarrow> gotime \<Rightarrow> string
      \<Rightarrow> string \<Rightarrow> string \<Rightarrow> RaftStore \<Rightarrow> error option \<times> RaftStore" where
  "ImportRaw sha seal encKey now newID userID plaintext rs =
     (let t = newAPIToken sha newID userID plaintext in
      case encryptToken seal encKey plaintext of
        Inl e \<Rightarrow> (Some e, rs)
      | Inr ct \<Rightarrow> (case TokenRepo_Upsert now (t\<lparr>tkTokenCiphertext := ct\<rparr>) rs of (e, _, rs') \<Rightarrow> (e, rs')))"

section \<open>Passwords\<close>

lemma UserRepo_Update_reads:
  assumes ok: "store_ok rs" and old: "UserRepo_Get (uID u) rs = Inr old"
    and up: "UserRepo_Update now u rs = (None, u', rs')"
  shows "u' = u\<lparr>uUpdatedAt := now\<rparr> \<and> UserRepo_Get (uID u) rs' = Inr (stored_user (Some old) u')
    \<and> UserRepo_GetByUsername (uUsername u) rs' = Inr (stored_user (Some old) u')"
proof -
  have v: "u' = u\<lparr>uUpdatedAt := now\<rparr>" "upsertUser u' False (fsm_state rs) = (None, fsm_state rs')"
    using up by (auto simp: UserRepo_Update_def Let_def dest!: UserRepo_upsert_ok split: prod.splits)
  have get: "gm_get (users (fsm_state rs)) (uID u') = Some old" "uUsername old \<noteq> []"
    using old fsm_invD(1) [OF ok] by (auto simp: v(1) UserRepo_Get_def readUserByID_def users_inv_def)
  from v(2) get obtain s where "fsm_state rs' = storeUser (stored_user (Some old) u') s"
    by (cases rule: upsertUser_cases) auto
  with storeUser_reads(1,2) [of "stored_user (Some old) u'" s] v(1) show ?thesis
    by (simp add: UserRepo_Get_def UserRepo_GetByUsername_def)
qed

lemma stored_user_auth [simp]:
  "uPasswordHash (stored_user old u) = uPasswordHash u" "uTokenVersion (stored_user old u) = uTokenVersion u"
  "uRole (stored_user old u) = uRole u" "uDeactivatedAt (stored_user old u) = uDeactivatedAt u"
  by (simp_all add: stored_user_def split: option.splits)

lemma UserRepo_Get_id: "store_ok rs \<Longrightarrow> UserRepo_Get i rs = Inr u \<Longrightarrow> uID u = i"
  using tbl_okD [OF by_name.ids] by (auto simp: UserRepo_Get_def readUserByID_def)

lemma setPassword_effect:
  assumes ok: "store_ok rs" and u: "UserRepo_Get i rs = Inr u" and v: "uID v = uID u"
    and set: "setPassword bgen now v pw rs = (None, rs')"
  shows "\<exists>hash w. bgen pw = Inr hash \<and> UserRepo_Get i rs' = Inr w \<and> UserRepo_GetByUsername (uUsername v) rs' = Inr w
    \<and> uPasswordHash w = hash \<and> uTokenVersion w = uTokenVersion v"
proof -
  obtain hash w where h: "bgen pw = Inr hash"
    "UserRepo_Update now (v\<lparr>uPasswordHash := hash\<rparr>) rs = (None, w, rs')"
    using set by (auto simp: setPassword_def split: sum.splits prod.splits)
  have "uID (v\<lparr>uPasswordHash := hash\<rparr>) = i" using UserRepo_Get_id [OF ok u] v by simp
  with UserRepo_Update_reads [OF ok, of "v\<lparr>uPasswordHash := hash\<rparr>" u now w rs'] u h show ?thesis by auto
qed

text \<open>
  Changing a password needs the current one, and makes the new one valid. With a wrong current
  password, or for an account without one, the change is refused and nothing is written; when it
  succeeds, the user logs in with the new password under the old name, and the token
  version has gone up by one (assuming that bcrypt accepts a password against the hash it generated
  for it, and that this hash is not empty).
\<close>

theorem ChangePassword_correct:
  assumes ok: "store_ok rs" and bcrypt: "\<And>p h. bgen p = Inr h \<Longrightarrow> bcmp h p \<and> h \<noteq> []"
    and u: "UserRepo_Get i rs = Inr u"
  shows "(\<not> bcmp (uPasswordHash u) current \<or> uPasswordHash u = [] \<longrightarrow>
      (\<exists>e. ChangePassword bgen bcmp now i current pw rs = (Some e, rs)))
    \<and> (ChangePassword bgen bcmp now i current pw rs = (None, rs') \<longrightarrow>
      (\<exists>w. Authenticate bcmp (uUsername u) pw rs' = Inr w \<and> uID w = i
        \<and> uTokenVersion w = uTokenVersion u + 1 \<and> 8 \<le> length pw \<and> length pw \<le> 72))"
proof (intro conjI impI)
  assume "\<not> bcmp (uPasswordHash u) current \<or> uPasswordHash u = []"
  then show "\<exists>e. ChangePassword bgen bcmp now i current pw rs = (Some e, rs)"
    using u by (auto simp: ChangePassword_def split: option.splits)
next
  assume c: "ChangePassword bgen bcmp now i current pw rs = (None, rs')"
  let ?v = "u\<lparr>uTokenVersion := uTokenVersion u + 1\<rparr>"
  have set: "setPassword bgen now ?v pw rs = (None, rs')" and len: "8 \<le> length pw" "length pw \<le> 72"
    using c u by (auto simp: ChangePassword_def validatePassword_def minPasswordLen_def maxPasswordLen_def
        split: option.splits if_splits)
  from setPassword_effect [OF ok u _ set] obtain w where w:
    "bgen pw = Inr (uPasswordHash w)" "UserRepo_Get i rs' = Inr w" "UserRepo_GetByUsername (uUsername u) rs' = Inr w"
    "uTokenVersion w = uTokenVersion u + 1" by auto
  have "uID w = i"
  proof -
    have "store_ok rs'" using ok u set
      by (auto simp: setPassword_def UserRepo_Update_def UserRepo_upsert_def Let_def cmd_ok_def newCommand_def
          cmdUserFrom_def UserRepo_Get_def readUserByID_def fsm_inv_def users_inv_def
          split: sum.splits prod.splits dest!: applyCtx_inv [rotated 2])
    then show ?thesis using UserRepo_Get_id w(2) by blast
  qed
  with w bcrypt [OF w(1)] len show "\<exists>w. Authenticate bcmp (uUsername u) pw rs' = Inr w \<and> uID w = i
      \<and> uTokenVersion w = uTokenVersion u + 1 \<and> 8 \<le> length pw \<and> length pw \<le> 72"
    by (simp add: Authenticate_def)
qed

definition toy_bgen :: "string \<Rightarrow> (error, string) result" where
  "toy_bgen p = (if p = [] then Inl ErrValidation else Inr p)"

theorem ChangePassword_correct_witness:
  "(\<exists>w. Authenticate (=) ''Alice'' ''new-secret''
       (snd (ChangePassword toy_bgen (=) 70 ''u1'' ''pw'' ''new-secret'' sample_store)) = Inr w \<and> uID w = ''u1'')
   \<and> (\<exists>e. ChangePassword toy_bgen (=) 70 ''u1'' ''wrong'' ''new-secret'' sample_store = (Some e, sample_store))"
proof -
  let ?u = "stored_user None (sample_user ''u1'' ''Alice'' 10)"
  let ?c = "ChangePassword toy_bgen (=) 70 ''u1'' ''pw'' ''new-secret'' sample_store"
  have u: "UserRepo_Get ''u1'' sample_store = Inr ?u" "fst ?c = None" "uPasswordHash ?u \<noteq> ''wrong''"
    "uUsername ?u = ''Alice''" by code_simp+
  then have "?c = (None, snd ?c)" by (metis prod.collapse)
  moreover have bcrypt: "\<And>p h. toy_bgen p = Inr h \<Longrightarrow> h = p \<and> h \<noteq> []"
    by (simp add: toy_bgen_def split: if_splits)
  ultimately show ?thesis
    using ChangePassword_correct [where bgen = toy_bgen and bcmp = "(=)" and now = 70 and pw = "''new-secret''"
          and current = "''pw''" and rs' = "snd ?c", OF sample_store_ok _ u(1)]
      ChangePassword_correct [where bgen = toy_bgen and bcmp = "(=)" and now = 70 and pw = "''new-secret''"
          and current = "''wrong''" and rs' = "snd ?c", OF sample_store_ok _ u(1)] u(3,4)
    by auto
qed

section \<open>Token lifecycle\<close>

lemma TokenRepo_Upsert_ok:
  assumes "TokenRepo_Upsert now t rs = (None, t', rs')"
  shows "upsertToken t' (fsm_state rs) = (None, fsm_state rs') \<and> tkID t' = tkID t \<and> tkUserID t' = tkUserID t
    \<and> tkTokenHash t' = tkTokenHash t \<and> tkTokenCiphertext t' = tkTokenCiphertext t"
proof -
  have "t' = (if is_zero (tkCreatedAt t) then t\<lparr>tkCreatedAt := now\<rparr> else t)"
    "applyCtx kindUpsertToken (PToken (cmdTokenFrom t')) rs = (None, rs')"
    using assms by (auto simp: TokenRepo_Upsert_def Let_def split: prod.splits)
  moreover from applyCtx_ok [OF this(2)] have "upsertToken t' (fsm_state rs) = (None, fsm_state rs')"
    by (auto simp: applyCommand_def applyEntityCommand_def newCommand_def kind_defs case_prod_beta prod_eq_iff)
  ultimately show ?thesis by simp
qed

lemma Validate_Inr:
  assumes "store_ok rs"
  shows "fst (Validate sha now p rs) = Inr t \<longleftrightarrow> p \<noteq> [] \<and> gm_get (tokens (fsm_state rs)) (tkID t) = Some t \<and> tkTokenHash t = sha p"
  using readTokenByHash_Inr [OF assms, of "sha p" t]
  by (auto simp: Validate_def TokenRepo_GetByHash_def HashAPIToken_def split: sum.splits option.splits)

lemma upsertNew_effect:
  assumes ok: "store_ok rs" and fresh: "gm_get (tokens (fsm_state rs)) newID = None"
    and new: "upsertNew sha seal key now newID r uid rs = (Inr (p, t), rs')"
  shows "p = newPlaintextToken r \<and> tkUserID t = uid \<and> tkTokenHash t = sha p \<and> store_ok rs'
    \<and> encryptToken seal key p = Inr (tkTokenCiphertext t)
    \<and> (\<forall>j k. gm_get (tokens (fsm_state rs')) j = Some k \<longleftrightarrow>
         j = tkID t \<and> k = t \<or> gm_get (tokens (fsm_state rs)) j = Some k \<and> tkUserID k \<noteq> uid)"
proof -
  let ?p = "newPlaintextToken r"
  obtain ct where ct: "encryptToken seal key ?p = Inr ct"
    "TokenRepo_Upsert now ((newAPIToken sha newID uid ?p)\<lparr>tkTokenCiphertext := ct\<rparr>) rs = (None, t, rs')" "p = ?p"
    using new by (auto simp: upsertNew_def Let_def split: sum.splits prod.splits option.splits)
  note up = TokenRepo_Upsert_ok [OF ct(2)]
  have id: "tkID t = newID" "tkUserID t = uid" "tkTokenHash t = sha ?p" "tkTokenCiphertext t = ct"
    using up by (simp_all add: newAPIToken_def HashAPIToken_def)
  have tok: "token_ok (fsm_state rs) t" using fresh id by (simp add: token_ok_def)
  from up have u: "upsertToken t (fsm_state rs) = (None, fsm_state rs')" by blast
  from upsertToken_tokens [OF ok tok u] upsertToken_inv [OF ok tok u] id ct show ?thesis by simp
qed

text \<open>
  A regenerated token works at once and its predecessor no longer does. The plaintext handed out is
  validated to the user it was generated for; any other plaintext that was valid for that
  user is refused from then on, as long as the two plaintexts have different hashes; and the plaintexts of
  other users stay valid.
\<close>

theorem Regenerate_replaces:
  assumes ok: "store_ok rs" and fresh: "gm_get (tokens (fsm_state rs)) newID = None"
    and new: "Regenerate sha seal key now newID r uid rs = (Inr (p, t), rs')"
  shows "fst (Validate sha now' p rs') = Inr t \<and> tkUserID t = uid
    \<and> (\<forall>q k. sha q \<noteq> sha p \<longrightarrow> (fst (Validate sha now' q rs') = Inr k \<longleftrightarrow>
          fst (Validate sha now' q rs) = Inr k \<and> tkUserID k \<noteq> uid))"
proof -
  note e = upsertNew_effect [OF ok fresh new [unfolded Regenerate_def]]
  then have inv': "store_ok rs'" and p: "p \<noteq> []" and t: "tkTokenHash t = sha p" "tkUserID t = uid"
    and tok: "\<And>j k. gm_get (tokens (fsm_state rs')) j = Some k \<longleftrightarrow>
        j = tkID t \<and> k = t \<or> gm_get (tokens (fsm_state rs)) j = Some k \<and> tkUserID k \<noteq> uid"
    by (simp_all add: newPlaintextToken_def)
  show ?thesis
    unfolding Validate_Inr [OF inv'] Validate_Inr [OF ok] tok using p t by auto
qed

text \<open>
  a generated token can be shown again. While the token is the user's current one and an encryption key
  is configured, revealing it gives the plaintext that was handed out (assuming that
  unsealing gives back what was sealed under the same key, and that sealed text is not
  empty); without a key it is refused as not recoverable.
\<close>

theorem Reveal_generated:
  assumes ok: "store_ok rs" and fresh: "gm_get (tokens (fsm_state rs)) newID = None"
    and aead: "\<And>k q c. seal k q = Inr c \<Longrightarrow> unseal k c = Inr q \<and> c \<noteq> []"
    and new: "Generate sha seal key now newID r uid rs = (Inr (p, t), rs')"
  shows "Reveal unseal key uid rs' = (if key = [] then Inl ErrTokenNotRecoverable else Inr p)"
proof -
  have "upsertNew sha seal key now newID r uid rs = (Inr (p, t), rs')"
    using new by (auto simp: Generate_def split: sum.splits if_splits)
  note e = upsertNew_effect [OF ok fresh this]
  then have inv': "store_ok rs'" by blast
  have "readTokenByUser uid (fsm_state rs') = Inr (Some t)"
    unfolding readTokenByUser_Inr [OF inv'] using e by blast
  moreover have "if key = [] then tkTokenCiphertext t = [] else unseal key (tkTokenCiphertext t) = Inr p \<and> tkTokenCiphertext t \<noteq> []"
    using e aead by (auto simp: encryptToken_def split: if_splits)
  ultimately show ?thesis by (auto simp: Reveal_def TokenRepo_GetByUser_def split: if_splits)
qed

definition toy_seal :: "string \<Rightarrow> string \<Rightarrow> (error, string) result" where
  "toy_seal k q = Inr (CHR ''x'' # q)"

definition toy_unseal :: "string \<Rightarrow> string \<Rightarrow> (error, string) result" where
  "toy_unseal k c = (case c of [] \<Rightarrow> Inl ErrValidation | _ # q \<Rightarrow> Inr q)"

theorem Regenerate_replaces_witness:
  "fst (Validate id 90 ''dct_ab'' (snd (Regenerate id toy_seal ''key'' 80 ''k7'' ''ab'' ''u1'' sample_store)))
     = Inr (snd (projr (fst (Regenerate id toy_seal ''key'' 80 ''k7'' ''ab'' ''u1'' sample_store))))
   \<and> fst (Validate id 90 ''h1'' (snd (Regenerate id toy_seal ''key'' 80 ''k7'' ''ab'' ''u1'' sample_store)))
     \<noteq> Inr (sample_token ''k1'' ''u1'' ''h1'')"
proof -
  let ?r = "Regenerate id toy_seal ''key'' 80 ''k7'' ''ab'' ''u1'' sample_store"
  have "gm_get (tokens (fsm_state sample_store)) ''k7'' = None" "fst ?r = Inr (''dct_ab'', snd (projr (fst ?r)))"
    by code_simp+
  moreover from this have "?r = (Inr (''dct_ab'', snd (projr (fst ?r))), snd ?r)" by (metis prod.collapse)
  ultimately show ?thesis
    using Regenerate_replaces [OF sample_store_ok, of "''k7''" id toy_seal "''key''" 80 "''ab''" "''u1''" "''dct_ab''"
        "snd (projr (fst ?r))" "snd ?r" 90]
    by (auto simp: sample_token_def)
qed

theorem Reveal_generated_witness:
  "Reveal toy_unseal ''key'' ''u2'' (snd (Generate id toy_seal ''key'' 80 ''k7'' ''ab'' ''u2'' sample_store)) = Inr ''dct_ab''"
proof -
  let ?r = "Generate id toy_seal ''key'' 80 ''k7'' ''ab'' ''u2'' sample_store"
  have "gm_get (tokens (fsm_state sample_store)) ''k7'' = None" "fst ?r = Inr (''dct_ab'', snd (projr (fst ?r)))"
    by code_simp+
  moreover from this have "?r = (Inr (''dct_ab'', snd (projr (fst ?r))), snd ?r)" by (metis prod.collapse)
  moreover have "\<And>k q c. toy_seal k q = Inr c \<Longrightarrow> toy_unseal k c = Inr q \<and> c \<noteq> []"
    by (auto simp: toy_seal_def toy_unseal_def)
  ultimately show ?thesis
    using Reveal_generated [OF sample_store_ok, of "''k7''" toy_seal toy_unseal id "''key''" 80 "''ab''" "''u2''" "''dct_ab''"
        "snd (projr (fst ?r))" "snd ?r"] by simp
qed

section \<open>OAuth accounts\<close>

lemma free_username_free:
  "free_username username candidate i rs = Inr n \<Longrightarrow> UserRepo_GetByUsername n rs = Inl ErrNotFound"
proof (induction username candidate i rs rule: free_username.induct)
  case (1 username candidate i rs)
  from 1(2) show ?case
    by (subst (asm) free_username.simps) (auto split: sum.splits if_splits intro: 1(1))
qed

lemma free_username_shape:
  "free_username username candidate i rs = Inr n \<Longrightarrow>
     n = candidate \<or> (\<exists>j. i \<le> j \<and> j \<le> 1000 \<and> n = username @ ''-'' @ show_int j)"
proof (induction username candidate i rs rule: free_username.induct)
  case (1 username candidate i rs)
  show ?case
  proof (cases "UserRepo_GetByUsername candidate rs")
    case (Inl e)
    with 1(2) show ?thesis by (subst (asm) free_username.simps) (auto split: if_splits)
  next
    case (Inr u)
    with 1(2) have i: "i \<le> 1000" "free_username username (username @ ''-'' @ show_int i) (i + 1) rs = Inr n"
      by (subst (asm) free_username.simps, auto split: if_splits)+
    from 1(1) [OF Inr _ i(2)] i(1) have "n = username @ ''-'' @ show_int i
        \<or> (\<exists>j. i + 1 \<le> j \<and> j \<le> 1000 \<and> n = username @ ''-'' @ show_int j)" by simp
    then show ?thesis using i(1) by (metis order.trans order.refl zle_add1_eq_le less_le add1_zle_eq)
  qed
qed

end
