(* ===== verification/JWT.thy ===== *)
theory JWT
  imports Domain
begin

text \<open>
  The tokens of a login session, \<^verbatim>\<open>src/internal/service/jwt_service.go\<close>. The JWT library is an
  argument: \<open>hs256 secret claims\<close> is \<^verbatim>\<open>SignedString\<close> with HS256, and \<open>prs secret now token\<close> is
  \<^verbatim>\<open>ParseWithClaims\<close>, which checks the signature, the signing method and the expiry against
  its own clock. \<^verbatim>\<open>jwt.NewNumericDate\<close> cuts a time down to whole seconds. The clock of the
  service is the argument \<open>now\<close>.
\<close>

section \<open>Claims\<close>

record Claims =
  clUserID :: string
  clUsername :: string
  clRole :: string
  clGroupIDs :: "string list"
  clType :: string
  clNonce :: string
  clTokenVersion :: i64
  clIssuedAt :: "gotime option"
  clExpiresAt :: "gotime option"

record JWTService =
  jsSecret :: string
  jsAccessTTL :: duration
  jsRefreshTTL :: duration

definition typAccess :: string where "typAccess = ''access''"
definition typRefresh :: string where "typRefresh = ''refresh''"
definition typOAuthState :: string where "typOAuthState = ''oauth_state''"

definition oauthStateTTL :: duration where "oauthStateTTL = 600 * second"

definition NewNumericDate :: "gotime \<Rightarrow> gotime" where
  "NewNumericDate t = t div second * second"

type_synonym signer = "string \<Rightarrow> Claims \<Rightarrow> (error, string) result"
type_synonym parser = "string \<Rightarrow> gotime \<Rightarrow> string \<Rightarrow> (error, Claims) result"

definition claims :: "gotime \<Rightarrow> string \<Rightarrow> duration \<Rightarrow> Claims" where
  "claims now typ ttl = \<lparr>clUserID = [], clUsername = [], clRole = [], clGroupIDs = [], clType = typ,
     clNonce = [], clTokenVersion = 0, clIssuedAt = Some (NewNumericDate now),
     clExpiresAt = Some (NewNumericDate (now + ttl))\<rparr>"

section \<open>Issuing and parsing\<close>

definition sign :: "signer \<Rightarrow> JWTService \<Rightarrow> Claims \<Rightarrow> (error, string) result" where
  "sign hs256 js c = hs256 (jsSecret js) c"

definition issue_claims :: "gotime \<Rightarrow> User \<Rightarrow> string list \<Rightarrow> string \<Rightarrow> duration \<Rightarrow> Claims" where
  "issue_claims now u groupIDs typ ttl =
     (claims now typ ttl)\<lparr>clUserID := uID u, clUsername := uUsername u, clRole := uRole u,
        clGroupIDs := groupIDs, clTokenVersion := uTokenVersion u\<rparr>"

definition issue ::
    "signer \<Rightarrow> JWTService \<Rightarrow> gotime \<Rightarrow> User \<Rightarrow> string list \<Rightarrow> string \<Rightarrow> duration \<Rightarrow> (error, string) result" where
  "issue hs256 js now u groupIDs typ ttl = sign hs256 js (issue_claims now u groupIDs typ ttl)"

definition IssuePair ::
    "signer \<Rightarrow> JWTService \<Rightarrow> gotime \<Rightarrow> User \<Rightarrow> string list \<Rightarrow> (error, string \<times> string) result" where
  "IssuePair hs256 js now u groupIDs = (case issue hs256 js now u groupIDs typAccess (jsAccessTTL js) of
     Inl e \<Rightarrow> Inl e
   | Inr access \<Rightarrow> (case issue hs256 js now u groupIDs typRefresh (jsRefreshTTL js) of
       Inl e \<Rightarrow> Inl e | Inr refresh \<Rightarrow> Inr (access, refresh)))"

definition parse :: "parser \<Rightarrow> JWTService \<Rightarrow> gotime \<Rightarrow> string \<Rightarrow> string \<Rightarrow> (error, Claims) result" where
  "parse prs js now token wantTyp = (case prs (jsSecret js) now token of
     Inl e \<Rightarrow> Inl e
   | Inr c \<Rightarrow> if clType c \<noteq> wantTyp then Inl (ErrOther ''unexpected token type'') else Inr c)"

definition ParseAccess :: "parser \<Rightarrow> JWTService \<Rightarrow> gotime \<Rightarrow> string \<Rightarrow> (error, Claims) result" where
  "ParseAccess prs js now token = parse prs js now token typAccess"

definition ParseRefresh :: "parser \<Rightarrow> JWTService \<Rightarrow> gotime \<Rightarrow> string \<Rightarrow> (error, Claims) result" where
  "ParseRefresh prs js now token = parse prs js now token typRefresh"

definition ParseOAuthState :: "parser \<Rightarrow> JWTService \<Rightarrow> gotime \<Rightarrow> string \<Rightarrow> (error, Claims) result" where
  "ParseOAuthState prs js now token = parse prs js now token typOAuthState"

definition IssueOAuthState :: "signer \<Rightarrow> JWTService \<Rightarrow> gotime \<Rightarrow> string \<Rightarrow> string \<Rightarrow> (error, string) result" where
  "IssueOAuthState hs256 js now redirectPath nonce =
     sign hs256 js ((claims now typOAuthState oauthStateTTL)\<lparr>clUsername := redirectPath, clNonce := nonce\<rparr>)"

section \<open>What the library promises, and what follows\<close>

text \<open>
  The documented behaviour of the library: a token signed for claims with an expiry is read back
  under the same secret before its expiry and rejected from then on.
\<close>

definition jwt_reads_back :: "signer \<Rightarrow> parser \<Rightarrow> bool" where
  "jwt_reads_back hs256 prs \<longleftrightarrow> (\<forall>k c t at' e. hs256 k c = Inr t \<longrightarrow> clExpiresAt c = Some e \<longrightarrow>
     (if at' < e then prs k at' t = Inr c else is_err (prs k at' t)))"

lemma jwt_reads_backD:
  assumes "jwt_reads_back hs256 prs" and "hs256 k c = Inr t" and "clExpiresAt c = Some e"
  shows "at' < e \<Longrightarrow> prs k at' t = Inr c" "e \<le> at' \<Longrightarrow> is_err (prs k at' t)"
  using assms unfolding jwt_reads_back_def by (metis, metis leD)

lemma typ_distinct [simp]:
  "typAccess \<noteq> typRefresh" "typRefresh \<noteq> typAccess" "typAccess \<noteq> typOAuthState" "typOAuthState \<noteq> typAccess"
  "typRefresh \<noteq> typOAuthState" "typOAuthState \<noteq> typRefresh"
  by (simp_all add: typAccess_def typRefresh_def typOAuthState_def)

lemma issue_claims_sel [simp]:
  "clUserID (issue_claims now u gs typ ttl) = uID u" "clType (issue_claims now u gs typ ttl) = typ"
  "clTokenVersion (issue_claims now u gs typ ttl) = uTokenVersion u"
  "clGroupIDs (issue_claims now u gs typ ttl) = gs"
  "clIssuedAt (issue_claims now u gs typ ttl) = Some (NewNumericDate now)"
  "clExpiresAt (issue_claims now u gs typ ttl) = Some (NewNumericDate (now + ttl))"
  by (simp_all add: issue_claims_def claims_def)

lemma NewNumericDate_bounds: "NewNumericDate t \<le> t" "t < NewNumericDate t + second"
proof -
  have "t mod second = t - NewNumericDate t"
    using minus_div_mult_eq_mod [of t second] by (simp add: NewNumericDate_def)
  moreover have "0 \<le> t mod second" "t mod second < second" by (simp_all add: second_def)
  ultimately show "NewNumericDate t \<le> t" "t < NewNumericDate t + second" by simp_all
qed

lemma parse_issued:
  assumes lib: "jwt_reads_back hs256 prs" and t: "issue hs256 js now u gs typ ttl = Inr t"
  shows "at' < NewNumericDate (now + ttl) \<Longrightarrow> parse prs js at' t want =
      (if want = typ then Inr (issue_claims now u gs typ ttl) else Inl (ErrOther ''unexpected token type''))"
    and "NewNumericDate (now + ttl) \<le> at' \<Longrightarrow> is_err (parse prs js at' t want)"
  using jwt_reads_backD [OF lib t [unfolded issue_def sign_def] issue_claims_sel(6), of at']
  by (auto simp: parse_def is_err_def split: sum.splits)

lemma IssuePair_Inr:
  "IssuePair hs256 js now u gs = Inr (a, r) \<longleftrightarrow>
     issue hs256 js now u gs typAccess (jsAccessTTL js) = Inr a
     \<and> issue hs256 js now u gs typRefresh (jsRefreshTTL js) = Inr r"
  by (auto simp: IssuePair_def split: sum.splits)

text \<open>
  The two tokens of a login cannot be exchanged and do not outlive their time. Until its
  expiry the access token is accepted as an access token and the refresh token as a refresh token, each with
  the user's id and token version; neither is accepted in the other's place or as an OAuth
  state; after its time to live each is refused everywhere, and the cut to whole seconds takes
  less than a second off that time.
\<close>

theorem IssuePair_tokens:
  assumes lib: "jwt_reads_back hs256 prs" and pair: "IssuePair hs256 js now u gs = Inr (a, r)"
  shows "(at' + second \<le> now + jsAccessTTL js \<longrightarrow> (\<exists>c. ParseAccess prs js at' a = Inr c \<and> clUserID c = uID u
        \<and> clTokenVersion c = uTokenVersion u) \<and> is_err (ParseRefresh prs js at' a) \<and> is_err (ParseOAuthState prs js at' a))
    \<and> (at' + second \<le> now + jsRefreshTTL js \<longrightarrow> (\<exists>c. ParseRefresh prs js at' r = Inr c \<and> clUserID c = uID u
        \<and> clTokenVersion c = uTokenVersion u) \<and> is_err (ParseAccess prs js at' r) \<and> is_err (ParseOAuthState prs js at' r))
    \<and> (now + jsAccessTTL js \<le> at' \<longrightarrow> is_err (ParseAccess prs js at' a))
    \<and> (now + jsRefreshTTL js \<le> at' \<longrightarrow> is_err (ParseRefresh prs js at' r))"
proof -
  from pair have i: "issue hs256 js now u gs typAccess (jsAccessTTL js) = Inr a"
    "issue hs256 js now u gs typRefresh (jsRefreshTTL js) = Inr r" by (simp_all add: IssuePair_Inr)
  have before: "at' + second \<le> t \<Longrightarrow> at' < NewNumericDate t" and after: "t \<le> at' \<Longrightarrow> NewNumericDate t \<le> at'" for t
    using NewNumericDate_bounds [of t] by linarith+
  note defs = ParseAccess_def ParseRefresh_def ParseOAuthState_def
  show ?thesis
    using parse_issued [OF lib i(1), of at'] parse_issued [OF lib i(2), of at']
      before [of "now + jsAccessTTL js"] before [of "now + jsRefreshTTL js"]
      after [of "now + jsAccessTTL js"] after [of "now + jsRefreshTTL js"]
    by (simp add: defs)
qed

text \<open>A library over a fixed list of tokens, for the examples.\<close>

definition book_sign :: "(string \<times> Claims) list \<Rightarrow> signer" where
  "book_sign b k c = (case find (\<lambda>(t, d). d = c) b of
     None \<Rightarrow> Inl (ErrOther ''no entry'') | Some (t, _) \<Rightarrow> Inr t)"

definition book_parse :: "(string \<times> Claims) list \<Rightarrow> parser" where
  "book_parse b k at' t = (case map_of b t of
     None \<Rightarrow> Inl (ErrOther ''bad token'')
   | Some c \<Rightarrow> (case clExpiresAt c of None \<Rightarrow> Inr c
       | Some e \<Rightarrow> if at' < e then Inr c else Inl (ErrOther ''expired'')))"

lemma book_reads_back:
  assumes "distinct (map fst b)"
  shows "jwt_reads_back (book_sign b) (book_parse b)"
proof -
  have "map_of b t = Some c" if "find (\<lambda>(t, d). d = c) b = Some (t, d)" for t c d
    using that assms by (auto simp: find_Some_iff intro!: map_of_is_SomeI) (metis nth_mem)
  then show ?thesis
    by (auto simp: jwt_reads_back_def book_sign_def book_parse_def split: option.splits prod.splits)
qed

definition demo_service :: JWTService where
  "demo_service = \<lparr>jsSecret = ''s3cret'', jsAccessTTL = 900 * second, jsRefreshTTL = 3600 * second\<rparr>"

definition demo_book :: "gotime \<Rightarrow> User \<Rightarrow> string list \<Rightarrow> (string \<times> Claims) list" where
  "demo_book now u gs = [(''a'', issue_claims now u gs typAccess (900 * second)),
                         (''r'', issue_claims now u gs typRefresh (3600 * second))]"

definition demo_user :: User where
  "demo_user = \<lparr>uID = ''u9'', uUsername = ''dora'', uRole = RoleUser, uPasswordHash = [],
     uOAuthProvider = [], uOAuthID = [], uOAuthTokenCiphertext = [], uOAuthGroupIDs = [], uOAuthGroups = [],
     uOAuthAdmin = False, uDeactivatedAt = None, uTokenVersion = 3, uCreatedAt = 5, uUpdatedAt = 5\<rparr>"

lemma demo_reads_back: "jwt_reads_back (book_sign (demo_book now u gs)) (book_parse (demo_book now u gs))"
  by (rule book_reads_back) (simp add: demo_book_def)

lemma issue_claims_typ: "issue_claims now u gs typ ttl = issue_claims now' u' gs' typ' ttl' \<Longrightarrow> typ = typ'"
  by (metis issue_claims_sel(2))

lemma demo_IssuePair: "IssuePair (book_sign (demo_book now u gs)) demo_service now u gs = Inr (''a'', ''r'')"
  by (auto simp: IssuePair_Inr issue_def sign_def book_sign_def demo_book_def demo_service_def
      dest!: issue_claims_typ split: option.splits)

theorem IssuePair_tokens_witness:
  "(\<exists>c. ParseAccess (book_parse (demo_book 7 demo_user [])) demo_service (800 * second) ''a'' = Inr c)
   \<and> is_err (ParseAccess (book_parse (demo_book 7 demo_user [])) demo_service (900 * second + 7) ''a'')
   \<and> is_err (ParseRefresh (book_parse (demo_book 7 demo_user [])) demo_service (800 * second) ''a'')"
  using IssuePair_tokens [OF demo_reads_back demo_IssuePair, of "800 * second" 7 demo_user "[]"]
    IssuePair_tokens [OF demo_reads_back demo_IssuePair, of "900 * second + 7" 7 demo_user "[]"]
  by (auto simp: demo_service_def second_def)

end
