(* ===== verification/OAuth.thy ===== *)
theory OAuth
  imports Accounts JWT
begin

text \<open>
  What an OAuth login does to the local accounts: \<^verbatim>\<open>src/internal/service/oauth.go\<close>,
  \<^verbatim>\<open>group_mapper.go\<close> and \<^verbatim>\<open>oauth_credential.go\<close>. Arguments stand for the libraries: \<open>compiles\<close>,
  \<open>rxfind\<close> and \<open>rxexpand\<close> are \<^verbatim>\<open>regexp.Compile\<close>, \<^verbatim>\<open>FindStringSubmatchIndex\<close> and
  \<^verbatim>\<open>ExpandString\<close> of a pattern, \<open>marshal\<close> the JSON encoding of a credential, \<open>seal\<close> the
  encryption of \<open>Accounts\<close>, \<open>hs256\<close> the signature of \<open>JWT\<close>. \<open>fresh name\<close> is the id that \<^verbatim>\<open>newID\<close>
  draws for the group of that name. A Go map used as a set is a list without
  repetitions, and a loop over it follows that list. A \<^verbatim>\<open>*GroupMapper\<close> may be nil, so it
  is an option.
\<close>

section \<open>Mapping provider groups\<close>

record GroupMappingRule =
  grPattern :: string
  grReplacement :: string

record compiledRule =
  crPattern :: string
  crReplacement :: string

type_synonym GroupMapper = "compiledRule list"
type_synonym rx_find = "string \<Rightarrow> string \<Rightarrow> nat list option"
type_synonym rx_expand = "string \<Rightarrow> string \<Rightarrow> string \<Rightarrow> nat list \<Rightarrow> string"

fun compile_rules :: "(string \<Rightarrow> bool) \<Rightarrow> GroupMappingRule list \<Rightarrow> GroupMapper \<Rightarrow> (error, GroupMapper) result" where
  "compile_rules compiles [] compiled = Inr compiled"
| "compile_rules compiles (rule # rules) compiled =
     (if grPattern rule = [] then Inl (ErrOther ''pattern must not be empty'')
      else if \<not> compiles (grPattern rule) then Inl (ErrOther ''bad pattern'')
      else compile_rules compiles rules
             (compiled @ [\<lparr>crPattern = grPattern rule, crReplacement = grReplacement rule\<rparr>]))"

definition NewGroupMapper :: "(string \<Rightarrow> bool) \<Rightarrow> GroupMappingRule list \<Rightarrow> (error, GroupMapper) result" where
  "NewGroupMapper compiles rules = compile_rules compiles rules []"

definition Active :: "GroupMapper option \<Rightarrow> bool" where
  "Active m = (case m of None \<Rightarrow> False | Some rules \<Rightarrow> rules \<noteq> [])"

fun first_match :: "rx_find \<Rightarrow> rx_expand \<Rightarrow> compiledRule list \<Rightarrow> string \<Rightarrow> string option" where
  "first_match rxfind rxexpand [] grp = None"
| "first_match rxfind rxexpand (rule # rules) grp = (case rxfind (crPattern rule) grp of
     Some idx \<Rightarrow> Some (rxexpand (crPattern rule) (crReplacement rule) grp idx)
   | None \<Rightarrow> first_match rxfind rxexpand rules grp)"

definition mapGroup :: "rx_find \<Rightarrow> rx_expand \<Rightarrow> GroupMapper option \<Rightarrow> string \<Rightarrow> string option" where
  "mapGroup rxfind rxexpand m grp =
     (if \<not> Active m then Some grp else first_match rxfind rxexpand (the m) grp)"

fun map_groups :: "(string \<Rightarrow> string option) \<Rightarrow> string list \<Rightarrow> string list \<Rightarrow> string list" where
  "map_groups f [] out = out"
| "map_groups f (grp # gs) out = (case f grp of
     None \<Rightarrow> map_groups f gs out
   | Some mapped \<Rightarrow>
       if mapped = [] then map_groups f gs out
       else if List.member out mapped then map_groups f gs out
       else map_groups f gs (out @ [mapped]))"

definition Map :: "rx_find \<Rightarrow> rx_expand \<Rightarrow> GroupMapper option \<Rightarrow> string list \<Rightarrow> string list" where
  "Map rxfind rxexpand m providerGroups = map_groups (mapGroup rxfind rxexpand m) providerGroups []"

definition mapIfActive :: "rx_find \<Rightarrow> rx_expand \<Rightarrow> GroupMapper option \<Rightarrow> string list \<Rightarrow> string list" where
  "mapIfActive rxfind rxexpand m providerGroups =
     (if Active m then Map rxfind rxexpand m providerGroups else [])"

section \<open>Group lists and the admin role\<close>

definition orgsIntersect :: "string list \<Rightarrow> string list \<Rightarrow> bool" where
  "orgsIntersect allowed have' = list_ex (List.member have') allowed"

definition normalizeGroupList :: "string list \<Rightarrow> string list" where
  "normalizeGroupList names =
     sort (fold (\<lambda>n out. if n = [] \<or> List.member out n then out else out @ [n]) names [])"

definition applyOAuthAdminRole :: "User \<Rightarrow> string list \<Rightarrow> string list \<Rightarrow> bool \<times> User" where
  "applyOAuthAdminRole u adminGroups upstreamGroups =
     (if adminGroups = [] then (False, u)
      else
        let match = orgsIntersect adminGroups upstreamGroups in
        if match \<and> uRole u \<noteq> RoleAdmin then (True, u\<lparr>uRole := RoleAdmin, uOAuthAdmin := True\<rparr>)
        else if \<not> match \<and> uOAuthAdmin u then (True, u\<lparr>uRole := RoleUser, uOAuthAdmin := False\<rparr>)
        else (False, u))"

section \<open>Memberships\<close>

definition ensureGroupByName ::
    "string \<Rightarrow> gotime \<Rightarrow> string \<Rightarrow> int \<Rightarrow> RaftStore \<Rightarrow> (error, Group option) result \<times> RaftStore" where
  "ensureGroupByName newID now name defaultMax rs = (case GroupRepo_GetByName name rs of
     Inr g \<Rightarrow> (Inr (Some g), rs)
   | Inl e \<Rightarrow>
       if e \<noteq> ErrNotFound then (Inl e, rs)
       else if \<not> ValidateGroupName name then (Inr None, rs)
       else
         let g = \<lparr>gID = newID, gName = name, gDescription = [], gMaxRunnerSessions = defaultMax,
                  gAgentAvailable = True, gAutoAssignPattern = [], gCreatedAt = zero_time,
                  gUpdatedAt = zero_time\<rparr>
         in case GroupRepo_Create now g rs of
              (None, g', rs') \<Rightarrow> (Inr (Some g'), rs')
            | (Some e, _, rs') \<Rightarrow>
                if e = ErrConflict then (map_sum id Some (GroupRepo_GetByName name rs'), rs')
                else (Inl e, rs'))"

definition joinGroupByName :: "string \<Rightarrow> string \<Rightarrow> RaftStore \<Rightarrow> RaftStore" where
  "joinGroupByName name userID rs = (case GroupRepo_GetByName name rs of
     Inl _ \<Rightarrow> rs
   | Inr g \<Rightarrow> snd (addGroupMember GroupRepo_Members GroupRepo_SetMembers (gID g) userID rs))"

fun ensure_wanted ::
    "(string \<Rightarrow> string) \<Rightarrow> gotime \<Rightarrow> int \<Rightarrow> string list \<Rightarrow> string list \<Rightarrow> RaftStore \<Rightarrow> string list \<times> RaftStore" where
  "ensure_wanted fresh now defaultMax [] wanted rs = (wanted, rs)"
| "ensure_wanted fresh now defaultMax (name # names) wanted rs =
     (case ensureGroupByName (fresh name) now name defaultMax rs of
        (Inr (Some g), rs') \<Rightarrow> ensure_wanted fresh now defaultMax names (set_put (gID g) wanted) rs'
      | (_, rs') \<Rightarrow> ensure_wanted fresh now defaultMax names wanted rs')"

definition reconcileMemberships ::
    "(string \<Rightarrow> string) \<Rightarrow> gotime \<Rightarrow> User \<Rightarrow> string list \<Rightarrow> int \<Rightarrow> RaftStore
      \<Rightarrow> (error, string list) result \<times> User \<times> RaftStore" where
  "reconcileMemberships fresh now u mappedNames defaultMax rs =
     (let (wanted, rs) = ensure_wanted fresh now defaultMax mappedNames [] rs;
          previous = remdups (uOAuthGroupIDs u)
      in case each (\<lambda>gid. addGroupMember GroupRepo_Members GroupRepo_SetMembers gid (uID u))
                (filter (\<lambda>gid. \<not> List.member previous gid) wanted) rs of
           (Some e, rs) \<Rightarrow> (Inl e, u, rs)
         | (None, rs) \<Rightarrow>
             (case each (\<lambda>gid. removeGroupMember GroupRepo_Members GroupRepo_SetMembers gid (uID u))
                     (filter (\<lambda>gid. \<not> List.member wanted gid) previous) rs of
                (Some e, rs) \<Rightarrow> (Inl e, u, rs)
              | (None, rs) \<Rightarrow> let out = sort wanted in (Inr out, u\<lparr>uOAuthGroupIDs := out\<rparr>, rs)))"

section \<open>Stored credentials and the login\<close>

record oauthCredential =
  ocProvider :: string
  ocAccessToken :: string
  ocRefreshToken :: string
  ocExpiresAt :: gotime

definition encryptOAuthCredential ::
    "(string \<Rightarrow> string \<Rightarrow> (error, string) result) \<Rightarrow> (oauthCredential \<Rightarrow> (error, string) result)
      \<Rightarrow> string \<Rightarrow> oauthCredential option \<Rightarrow> (error, string) result" where
  "encryptOAuthCredential seal marshal encKey c = (case c of
     None \<Rightarrow> Inr []
   | Some c \<Rightarrow>
       if encKey = [] then Inr []
       else case marshal c of Inl e \<Rightarrow> Inl e | Inr b \<Rightarrow> encryptToken seal encKey b)"

definition decryptOAuthCredential ::
    "(string \<Rightarrow> string \<Rightarrow> (error, string) result) \<Rightarrow> (string \<Rightarrow> (error, oauthCredential) result)
      \<Rightarrow> string \<Rightarrow> string \<Rightarrow> (error, oauthCredential option) result" where
  "decryptOAuthCredential unseal unmarshal encKey ct =
     (if ct = [] then Inr None
      else if encKey = [] then Inl (ErrOther ''no encryption key configured'')
      else case unseal encKey ct of Inl e \<Rightarrow> Inl e | Inr pt \<Rightarrow> map_sum id Some (unmarshal pt))"

definition groupIDs :: "Group list \<Rightarrow> string list" where
  "groupIDs gs = map gID gs"

definition completeOAuthLogin ::
    "signer \<Rightarrow> JWTService \<Rightarrow> (string \<Rightarrow> string \<Rightarrow> (error, string) result) \<Rightarrow> (oauthCredential \<Rightarrow> (error, string) result)
      \<Rightarrow> string \<Rightarrow> (string \<Rightarrow> string) \<Rightarrow> string \<Rightarrow> gotime \<Rightarrow> string \<Rightarrow> string \<Rightarrow> string \<Rightarrow> string \<Rightarrow> string list
      \<Rightarrow> string list \<Rightarrow> string list \<Rightarrow> int \<Rightarrow> oauthCredential option \<Rightarrow> RaftStore
      \<Rightarrow> (error, string \<times> string \<times> User) result \<times> RaftStore" where
  "completeOAuthLogin hs256 js seal marshal encKey fresh newID now provider oauthID username defaultGroup
       adminGroups upstreamGroups mappedGroups mappedMax credential rs =
     (case EnsureOAuthUser now newID provider oauthID username rs of
        (Inl e, rs) \<Rightarrow> (Inl e, rs)
      | (Inr (u, _), rs) \<Rightarrow>
          let u = u\<lparr>uDeactivatedAt := None\<rparr>;
              (_, u, rs) = reconcileMemberships fresh now u mappedGroups mappedMax rs;
              fallbackGroup = (if defaultGroup = [] then ''default'' else defaultGroup);
              rs = (if GroupRepo_GroupsForUser (uID u) rs = [] then joinGroupByName fallbackGroup (uID u) rs else rs);
              memberGroups = GroupRepo_GroupsForUser (uID u) rs;
              u = u\<lparr>uOAuthGroups := normalizeGroupList upstreamGroups\<rparr>;
              (_, u) = applyOAuthAdminRole u adminGroups upstreamGroups
          in case encryptOAuthCredential seal marshal encKey credential of
               Inl e \<Rightarrow> (Inl e, rs)
             | Inr ct \<Rightarrow> (case UserRepo_Update now (u\<lparr>uOAuthTokenCiphertext := ct\<rparr>) rs of
                 (Some e, _, rs) \<Rightarrow> (Inl e, rs)
               | (None, u, rs) \<Rightarrow>
                   (map_sum id (\<lambda>(access, refresh). (access, refresh, u)) (IssuePair hs256 js now u (groupIDs memberGroups)), rs)))"

section \<open>What the membership writes leave alone\<close>

text \<open>Only groups with an id in \<open>X\<close> may have been added; accounts and memberships are as before.\<close>

definition only_groups :: "string set \<Rightarrow> RaftStore \<Rightarrow> RaftStore \<Rightarrow> bool" where
  "only_groups X rs rs' \<longleftrightarrow> (store_ok rs \<longrightarrow> store_ok rs')
     \<and> users (fsm_state rs') = users (fsm_state rs)
     \<and> memberships (fsm_state rs') = memberships (fsm_state rs)
     \<and> (\<forall>g. g \<notin> X \<or> gm_get (groups (fsm_state rs)) g \<noteq> None \<longrightarrow>
          gm_get (groups (fsm_state rs')) g = gm_get (groups (fsm_state rs)) g)"

lemma only_groups_refl: "fsm_state rs' = fsm_state rs \<Longrightarrow> only_groups X rs rs'"
  by (simp add: only_groups_def)

lemma only_groups_trans: "only_groups X r s \<Longrightarrow> only_groups X s t \<Longrightarrow> only_groups X r t"
  by (simp add: only_groups_def)

lemma storeGroup_get:
  "gm_get (groups (storeGroup g s)) i = (if i = gID g then Some g else gm_get (groups s) i)"
  "users (storeGroup g s) = users s" "memberships (storeGroup g s) = memberships s"
  by (simp_all add: storeGroup_def)

lemma only_groups_mono: "only_groups X r s \<Longrightarrow> X \<subseteq> Y \<Longrightarrow> only_groups Y r s"
  unfolding only_groups_def by blast

lemma cmd_upsertGroup:
  assumes "applyCommand (newCommand kindUpsertGroup (PGroup g c)) s = (r, s')"
  shows "\<exists>e. upsertGroup g c s = (e, s') \<and> r = err_result e"
  using assms
  by (cases "upsertGroup g c s") (simp add: applyCommand_def applyEntityCommand_def newCommand_def kind_defs)

lemma upsertGroup_only:
  assumes "upsertGroup g True (fsm_state rs) = (e, fsm_state rs')"
  shows "only_groups {gID g} rs rs'"
  using assms
proof (cases rule: upsertGroup_cases)
  case create
  have "store_ok rs'" if "store_ok rs" using upsertGroup_inv [OF that assms] .
  with create show ?thesis by (simp add: only_groups_def storeGroup_get stored_group_def)
qed (simp_all add: only_groups_def)

lemma GroupRepo_Create_upsert:
  assumes "GroupRepo_Create now g rs = (e, g', rs')"
  shows "gID g' = gID g \<and> gName g' = gName g \<and> applyCtx kindUpsertGroup (PGroup g' True) rs = (e, rs')"
  using assms by (simp add: GroupRepo_Create_def GroupRepo_upsert_def Let_def case_prod_beta prod_eq_iff) auto

lemma GroupRepo_Create_only:
  assumes "GroupRepo_Create now g rs = (e, g', rs')"
  shows "only_groups {gID g} rs rs'"
proof -
  from GroupRepo_Create_upsert [OF assms] have g': "gID g' = gID g"
    and up: "applyCtx kindUpsertGroup (PGroup g' True) rs = (e, rs')" by auto
  have written: "only_groups {gID g} rs rs'"
    if "applyCommand (newCommand kindUpsertGroup (PGroup g' True)) (fsm_state rs) = (r, fsm_state rs')" for r
    using cmd_upsertGroup [OF that] upsertGroup_only [of g' rs _ rs'] g' by auto
  from up show ?thesis
    by (cases rule: applyCtx_cases) (rule only_groups_refl, assumption, erule written, erule written)
qed

lemma GroupRepo_Create_exists:
  assumes "GroupRepo_Create now g rs = (None, g', rs')"
  shows "gID g' = gID g \<and> (\<exists>h. gm_get (groups (fsm_state rs')) (gID g) = Some h \<and> gID h = gID g \<and> gName h = gName g)"
proof -
  from GroupRepo_Create_upsert [OF assms] have g': "gID g' = gID g" "gName g' = gName g"
    and up: "applyCtx kindUpsertGroup (PGroup g' True) rs = (None, rs')" by auto
  from applyCtx_ok [OF up] obtain r where
    "applyCommand (newCommand kindUpsertGroup (PGroup g' True)) (fsm_state rs) = (Inr r, fsm_state rs')" by blast
  from cmd_upsertGroup [OF this] obtain x where
    x: "upsertGroup g' True (fsm_state rs) = (x, fsm_state rs')" "Inr r = err_result x" by blast
  from x(2) [symmetric] have "x = None" unfolding err_result_Inr by (rule conjunct1)
  from x(1) [unfolded this] have "fsm_state rs' = storeGroup (stored_group None g') (fsm_state rs)"
    by (cases rule: upsertGroup_cases) auto
  then have "gm_get (groups (fsm_state rs')) (gID (stored_group None g')) = Some (stored_group None g')"
    by (simp only: storeGroup_get simp_thms if_True)
  then show ?thesis using g' by (auto simp: stored_group_def split: if_splits)
qed

lemma GroupRepo_GetByName_Inr:
  "store_ok rs \<Longrightarrow> GroupRepo_GetByName n rs = Inr g \<longleftrightarrow>
     gm_get (groups (fsm_state rs)) (gID g) = Some g \<and> to_lower (gName g) = to_lower n"
  using by_group.lookup_Inr [of "fsm_state rs"]
  by (simp add: GroupRepo_GetByName_def readGroupByName_def group_name_key_def)

lemma GetByName_only:
  "store_ok rs \<Longrightarrow> only_groups X rs rs' \<Longrightarrow> GroupRepo_GetByName n rs = Inr g \<Longrightarrow> GroupRepo_GetByName n rs' = Inr g"
  by (simp add: only_groups_def GroupRepo_GetByName_Inr)

lemma ensureGroupByName_cases:
  assumes "ensureGroupByName newID now name dmax rs = (r, rs')"
  obtains (found) g where "GroupRepo_GetByName name rs = Inr g" "r = Inr (Some g)" "rs' = rs"
  | (skipped) "rs' = rs" "r = Inr None \<or> is_err r"
  | (created) g g' where "GroupRepo_Create now g rs = (None, g', rs')" "gID g = newID" "gName g = name" "r = Inr (Some g')"
  | (failed) g e g' where "GroupRepo_Create now g rs = (Some e, g', rs')" "gID g = newID"
      "is_err r \<or> r = map_sum id Some (GroupRepo_GetByName name rs')"
proof (cases "GroupRepo_GetByName name rs")
  case (Inr g)
  with assms have "r = Inr (Some g)" "rs' = rs" by (auto simp: ensureGroupByName_def)
  with Inr show ?thesis by (rule found)
next
  case (Inl e)
  let ?g = "\<lparr>gID = newID, gName = name, gDescription = [], gMaxRunnerSessions = dmax,
     gAgentAvailable = True, gAutoAssignPattern = [], gCreatedAt = zero_time, gUpdatedAt = zero_time\<rparr>"
  obtain x g' rs1 where c: "GroupRepo_Create now ?g rs = (x, g', rs1)" by (cases "GroupRepo_Create now ?g rs")
  show ?thesis
  proof (cases "e \<noteq> ErrNotFound \<or> \<not> ValidateGroupName name")
    case True
    with Inl assms have "rs' = rs" "r = Inr None \<or> is_err r" by (auto simp: ensureGroupByName_def split: if_splits)
    then show ?thesis by (rule skipped)
  next
    case False
    show ?thesis
    proof (cases x)
      case None
      with False Inl assms c have "r = Inr (Some g')" "rs' = rs1" by (simp_all add: ensureGroupByName_def)
      with c None have "GroupRepo_Create now ?g rs = (None, g', rs')" "r = Inr (Some g')" by simp_all
      then show ?thesis by (intro created [of ?g g']) simp_all
    next
      case (Some y)
      with False Inl assms c have "is_err r \<or> r = map_sum id Some (GroupRepo_GetByName name rs')" "rs' = rs1"
        by (auto simp: ensureGroupByName_def split: if_splits)
      with c Some have "GroupRepo_Create now ?g rs = (Some y, g', rs')"
        "is_err r \<or> r = map_sum id Some (GroupRepo_GetByName name rs')" by simp_all
      then show ?thesis by (intro failed [of ?g y g']) simp_all
    qed
  qed
qed

lemma ensureGroupByName_only:
  assumes "ensureGroupByName newID now name dmax rs = (r, rs')"
  shows "only_groups {newID} rs rs'"
    and "store_ok rs \<Longrightarrow> r = Inr (Some g) \<Longrightarrow> \<exists>h. GroupRepo_GetByName name rs' = Inr h \<and> gID h = gID g"
proof -
  show only: "only_groups {newID} rs rs'"
    using assms by (cases rule: ensureGroupByName_cases) (auto simp: only_groups_refl dest: GroupRepo_Create_only)
  assume ok: "store_ok rs" and r: "r = Inr (Some g)"
  then have ok': "store_ok rs'" using only by (simp add: only_groups_def)
  from assms show "\<exists>h. GroupRepo_GetByName name rs' = Inr h \<and> gID h = gID g"
  proof (cases rule: ensureGroupByName_cases)
    case (created h h')
    from GroupRepo_Create_exists [OF created(1)] obtain k where
      "gm_get (groups (fsm_state rs')) (gID h) = Some k" "gID k = gID h" "gName k = gName h" "gID h' = gID h" by blast
    with created r show ?thesis by (intro exI [of _ k]) (simp add: GroupRepo_GetByName_Inr [OF ok'])
  next
    case (failed h e h')
    then show ?thesis using r by (cases "GroupRepo_GetByName name rs'") auto
  qed (use r in auto)
qed

text \<open>On a cluster that commits, every valid name gets a group, if the id for a new one is unused.\<close>

lemma ensureGroupByName_commit:
  assumes sc: "script rs = []" and ok: "store_ok rs"
    and new: "gm_get (groups (fsm_state rs)) newID = None \<or> (\<exists>h. GroupRepo_GetByName name rs = Inr h)"
  shows "script (snd (ensureGroupByName newID now name dmax rs)) = []
    \<and> (ValidateGroupName name \<longrightarrow> (\<exists>g. fst (ensureGroupByName newID now name dmax rs) = Inr (Some g)))"
proof (cases "GroupRepo_GetByName name rs")
  case (Inr g)
  with sc show ?thesis by (simp add: ensureGroupByName_def)
next
  case (Inl e)
  with by_group.lookup_Inl [OF ok, of "to_lower name"] have e: "e = ErrNotFound"
    by (simp add: GroupRepo_GetByName_def readGroupByName_def)
  with Inl by_group.lookup_no_panic [OF ok, of "to_lower name"] idx_okD [OF by_group.index [OF ok], of "to_lower name"]
  have free: "gm_get (groupsByName (fsm_state rs)) (to_lower name) = None"
    by (auto simp: GroupRepo_GetByName_def readGroupByName_def read_idx_def split: option.splits)
  let ?g = "\<lparr>gID = newID, gName = name, gDescription = [], gMaxRunnerSessions = dmax,
     gAgentAvailable = True, gAutoAssignPattern = [], gCreatedAt = zero_time, gUpdatedAt = zero_time\<rparr>"
  obtain x g' rs1 where c: "GroupRepo_Create now ?g rs = (x, g', rs1)" by (cases "GroupRepo_Create now ?g rs")
  from GroupRepo_Create_upsert [OF c] have g': "gID g' = newID" "gName g' = name"
    and up: "applyCtx kindUpsertGroup (PGroup g' True) rs = (x, rs1)" by auto
  have "applyCommand (newCommand kindUpsertGroup (PGroup g' True)) (fsm_state rs)
      = (err_result None, storeGroup (stored_group None g') (fsm_state rs))"
    using free g' new Inl by (simp add: applyCommand_def applyEntityCommand_def newCommand_def kind_defs upsertGroup_def
        stored_group_def Let_def)
  from applyCtx_commit [OF sc this [unfolded err_result_def option.case]] up have "x = None" "script rs1 = []" using sc by auto
  with c Inl e sc show ?thesis by (simp add: ensureGroupByName_def)
qed

lemma ensure_wanted_only:
  assumes "ensure_wanted fresh now dmax names wanted rs = (w, rs')"
  shows "only_groups (range fresh) rs rs' \<and> (distinct wanted \<longrightarrow> distinct w)
    \<and> (store_ok rs \<longrightarrow> (\<forall>g \<in> set wanted. gm_get (groups (fsm_state rs)) g \<noteq> None) \<longrightarrow>
      (\<forall>g \<in> set w. gm_get (groups (fsm_state rs')) g \<noteq> None))"
  using assms
proof (induction names arbitrary: wanted rs)
  case Nil
  then show ?case by (simp add: only_groups_refl)
next
  case (Cons n names)
  obtain r rs1 where e: "ensureGroupByName (fresh n) now n dmax rs = (r, rs1)"
    by (cases "ensureGroupByName (fresh n) now n dmax rs")
  define w1 where "w1 = (case r of Inr (Some g) \<Rightarrow> set_put (gID g) wanted | _ \<Rightarrow> wanted)"
  have rest: "ensure_wanted fresh now dmax names w1 rs1 = (w, rs')"
    using e Cons.prems by (auto simp: w1_def split: sum.splits option.splits)
  have step: "only_groups (range fresh) rs rs1"
    using ensureGroupByName_only(1) [OF e] by (rule only_groups_mono) simp
  have "distinct wanted \<Longrightarrow> distinct w1" by (auto simp: w1_def split: sum.splits option.splits)
  moreover have "store_ok rs \<Longrightarrow> store_ok rs1" using step by (simp add: only_groups_def)
  moreover have "gm_get (groups (fsm_state rs1)) g \<noteq> None"
    if "g \<in> set w1" "store_ok rs" "\<forall>g \<in> set wanted. gm_get (groups (fsm_state rs)) g \<noteq> None" for g
  proof (cases "g \<in> set wanted")
    case True
    with that(3) step show ?thesis by (simp add: only_groups_def)
  next
    case False
    with that(1) obtain h where "r = Inr (Some h)" "g = gID h" by (auto simp: w1_def split: sum.splits option.splits)
    with ensureGroupByName_only(2) [OF e that(2)] step that(2) show ?thesis
      by (auto simp: GroupRepo_GetByName_Inr only_groups_def)
  qed
  ultimately show ?case using Cons.IH [OF rest] only_groups_trans [OF step] by blast
qed

text \<open>
  The ids that are collected: each is the id of a group that one of the names finds at the end, and the
  id of every group that a name found at the start is collected.
\<close>

lemma ensure_wanted_exact:
  assumes "ensure_wanted fresh now dmax names wanted rs = (w, rs')" and "store_ok rs"
  shows "set wanted \<subseteq> set w"
    and "i \<in> set w \<Longrightarrow> i \<in> set wanted \<or> (\<exists>n \<in> set names. \<exists>g. GroupRepo_GetByName n rs' = Inr g \<and> gID g = i)"
    and "n \<in> set names \<Longrightarrow> GroupRepo_GetByName n rs = Inr g \<Longrightarrow> gID g \<in> set w"
proof -
  have "set wanted \<subseteq> set w
    \<and> (\<forall>i \<in> set w. i \<in> set wanted \<or> (\<exists>n \<in> set names. \<exists>g. GroupRepo_GetByName n rs' = Inr g \<and> gID g = i))
    \<and> (\<forall>n \<in> set names. \<forall>g. GroupRepo_GetByName n rs = Inr g \<longrightarrow> gID g \<in> set w)"
    using assms
  proof (induction names arbitrary: wanted rs)
    case (Cons m names)
    obtain r rs1 where e: "ensureGroupByName (fresh m) now m dmax rs = (r, rs1)"
      by (cases "ensureGroupByName (fresh m) now m dmax rs")
    define w1 where "w1 = (case r of Inr (Some g) \<Rightarrow> set_put (gID g) wanted | _ \<Rightarrow> wanted)"
    have rest: "ensure_wanted fresh now dmax names w1 rs1 = (w, rs')"
      using e Cons.prems(1) by (auto simp: w1_def split: sum.splits option.splits)
    note step = ensureGroupByName_only(1) [OF e]
    then have ok1: "store_ok rs1" using Cons.prems(2) by (simp add: only_groups_def)
    note IH = Cons.IH [OF rest ok1]
    have keep: "GroupRepo_GetByName n rs = Inr g \<Longrightarrow> GroupRepo_GetByName n rs1 = Inr g" for n g
      by (rule GetByName_only [OF Cons.prems(2) step])
    have last: "GroupRepo_GetByName n rs1 = Inr g \<Longrightarrow> GroupRepo_GetByName n rs' = Inr g" for n g
      using GetByName_only [OF ok1] ensure_wanted_only [OF rest] by blast
    have "set wanted \<subseteq> set w1" by (auto simp: w1_def split: sum.splits option.splits)
    moreover have "i \<in> set wanted \<or> (\<exists>g. GroupRepo_GetByName m rs1 = Inr g \<and> gID g = i)" if "i \<in> set w1" for i
      using that ensureGroupByName_only(2) [OF e Cons.prems(2)] by (auto simp: w1_def split: sum.splits option.splits)
    moreover have "gID g \<in> set w1" if "GroupRepo_GetByName m rs = Inr g" for g
      using that e by (auto simp: ensureGroupByName_def w1_def)
    ultimately show ?case using IH keep last by fastforce
  qed simp
  then show "set wanted \<subseteq> set w"
    and "i \<in> set w \<Longrightarrow> i \<in> set wanted \<or> (\<exists>n \<in> set names. \<exists>g. GroupRepo_GetByName n rs' = Inr g \<and> gID g = i)"
    and "n \<in> set names \<Longrightarrow> GroupRepo_GetByName n rs = Inr g \<Longrightarrow> gID g \<in> set w" by auto
qed

lemma ensure_wanted_commit:
  assumes "ensure_wanted fresh now dmax names wanted rs = (w, rs')" and "store_ok rs" and "script rs = []"
    and "inj_on fresh (set names)"
    and "\<forall>n \<in> set names. gm_get (groups (fsm_state rs)) (fresh n) = None \<or> (\<exists>h. GroupRepo_GetByName n rs = Inr h)"
  shows "\<forall>n \<in> set names. ValidateGroupName n \<longrightarrow> (\<exists>g. GroupRepo_GetByName n rs' = Inr g \<and> gID g \<in> set w)"
  using assms
proof (induction names arbitrary: wanted rs)
  case (Cons m names)
  obtain r rs1 where e: "ensureGroupByName (fresh m) now m dmax rs = (r, rs1)"
    by (cases "ensureGroupByName (fresh m) now m dmax rs")
  with ensureGroupByName_commit [where now = now and dmax = dmax and name = m and newID = "fresh m", OF Cons.prems(3,2)]
    Cons.prems(5) have sc1: "script rs1 = []" and valid: "ValidateGroupName m \<Longrightarrow> \<exists>g. r = Inr (Some g)" by auto
  define w1 where "w1 = (case r of Inr (Some g) \<Rightarrow> set_put (gID g) wanted | _ \<Rightarrow> wanted)"
  have rest: "ensure_wanted fresh now dmax names w1 rs1 = (w, rs')"
    using e Cons.prems(1) by (auto simp: w1_def split: sum.splits option.splits)
  note step = ensureGroupByName_only(1) [OF e]
  then have ok1: "store_ok rs1" using Cons.prems(2) by (simp add: only_groups_def)
  have keep: "GroupRepo_GetByName n rs' = Inr g" if "GroupRepo_GetByName n rs1 = Inr g" for n g
    using GetByName_only [OF ok1] ensure_wanted_only [OF rest] that by blast
  have "gm_get (groups (fsm_state rs1)) (fresh n) = None \<or> (\<exists>h. GroupRepo_GetByName n rs1 = Inr h)" if "n \<in> set names" for n
  proof (cases "n = m")
    case True
    then consider h where "GroupRepo_GetByName m rs = Inr h" | "rs1 = rs" | g where "r = Inr (Some g)"
      using e valid by (cases "ValidateGroupName m") (auto simp: ensureGroupByName_def split: sum.splits if_splits)
    then show ?thesis
    proof cases
      case 1
      with True GetByName_only [OF Cons.prems(2) step] show ?thesis by blast
    next
      case 2
      with Cons.prems(5) that show ?thesis by auto
    next
      case 3
      with True ensureGroupByName_only(2) [OF e Cons.prems(2)] show ?thesis by blast
    qed
  next
    case False
    with Cons.prems(4) that have "fresh n \<noteq> fresh m" by (metis inj_on_eq_iff list.set_intros)
    with step Cons.prems(5) that GetByName_only [OF Cons.prems(2) step] show ?thesis
      by (force simp: only_groups_def)
  qed
  moreover have "inj_on fresh (set names)" using Cons.prems(4) by (rule inj_on_subset) auto
  ultimately have "\<forall>n \<in> set names. ValidateGroupName n \<longrightarrow> (\<exists>g. GroupRepo_GetByName n rs' = Inr g \<and> gID g \<in> set w)"
    using Cons.IH [OF rest ok1 sc1] by auto
  moreover have "\<exists>g. GroupRepo_GetByName m rs' = Inr g \<and> gID g \<in> set w" if v: "ValidateGroupName m"
  proof -
    obtain g where g: "r = Inr (Some g)" using valid [OF v] by blast
    from ensureGroupByName_only(2) [OF e Cons.prems(2) g] obtain h where "GroupRepo_GetByName m rs1 = Inr h" "gID h = gID g"
      by blast
    with keep ensure_wanted_exact(1) [OF rest ok1] g show ?thesis by (intro exI [of _ h]) (auto simp: w1_def)
  qed
  ultimately show ?case by simp
qed simp

end
