(* ===== verification/OAuth_Memberships.thy ===== *)
theory OAuth_Memberships
  imports OAuth
begin

text \<open>
  What the group mapping and the membership reconciliation of an OAuth login guarantee, and where the
  reconciliation stops short: the group names that reach the supervisor, the memberships
  after a successful reconciliation, the ownership of the administrator role, and the failure of
  every later reconciliation once a group managed by OAuth has been deleted.
\<close>

section \<open>Group names\<close>

lemma map_groups_spec:
  assumes "distinct out" and "[] \<notin> set out"
  shows "distinct (map_groups f gs out) \<and>
    set (map_groups f gs out) = set out \<union> {n. n \<noteq> [] \<and> (\<exists>g \<in> set gs. f g = Some n)}"
  using assms
proof (induction gs arbitrary: out)
  case (Cons g gs)
  show ?case
  proof (cases "f g")
    case None
    with Cons show ?thesis by auto
  next
    case (Some n)
    with Cons.prems Cons.IH [of out] Cons.IH [of "out @ [n]"] show ?thesis
      by (cases "n = [] \<or> n \<in> set out") auto
  qed
qed simp

lemma first_match_Some:
  "first_match rxfind rxexpand rules g = Some n \<longleftrightarrow> (\<exists>i idx. i < length rules
     \<and> rxfind (crPattern (rules ! i)) g = Some idx \<and> list_all (\<lambda>q. rxfind (crPattern q) g = None) (take i rules)
     \<and> n = rxexpand (crPattern (rules ! i)) (crReplacement (rules ! i)) g idx)"
proof (induction rules)
  case (Cons q rules)
  have split: "(\<exists>i idx. P i idx) \<longleftrightarrow> (\<exists>idx. P 0 idx) \<or> (\<exists>i idx. P (Suc i) idx)" for P :: "nat \<Rightarrow> nat list \<Rightarrow> bool"
    by (metis not0_implies_Suc)
  show ?case by (subst split) (cases "rxfind (crPattern q) g"; auto simp: Cons.IH)
qed simp

text \<open>
  the names a login maps to. With rules configured, the mapped names are, without repetition
  and without empty names, the expansions of the first matching rule of each provider group; a
  group that matches no rule is dropped, and without rules nothing is mapped.
\<close>

theorem mapIfActive_first_match:
  "distinct (mapIfActive rxfind rxexpand (Some rules) gs)
   \<and> set (mapIfActive rxfind rxexpand (Some rules) gs) = {n. n \<noteq> [] \<and> (\<exists>g \<in> set gs. \<exists>i idx. i < length rules
        \<and> rxfind (crPattern (rules ! i)) g = Some idx \<and> list_all (\<lambda>q. rxfind (crPattern q) g = None) (take i rules)
        \<and> n = rxexpand (crPattern (rules ! i)) (crReplacement (rules ! i)) g idx)}
   \<and> mapIfActive rxfind rxexpand None gs = []"
proof (cases "rules = []")
  case True
  then show ?thesis by (simp add: mapIfActive_def Active_def)
next
  case False
  then have "mapGroup rxfind rxexpand (Some rules) = first_match rxfind rxexpand rules"
    by (simp add: mapGroup_def Active_def fun_eq_iff)
  with False have "mapIfActive rxfind rxexpand (Some rules) gs = map_groups (first_match rxfind rxexpand rules) gs []"
    by (simp add: mapIfActive_def Active_def Map_def)
  moreover have "mapIfActive rxfind rxexpand None gs = []" by (simp add: mapIfActive_def Active_def)
  ultimately show ?thesis
    using map_groups_spec [of "[]" "first_match rxfind rxexpand rules" gs] by (simp add: first_match_Some)
qed

section \<open>The administrator role\<close>

text \<open>
  A role an administrator granted by hand is never taken away by a login. The login promotes
  exactly when a provider group is an admin group and demotes exactly the users it promoted itself; a
  user that is an administrator without the OAuth mark stays one, whatever the groups, and repeating
  the step changes nothing.
\<close>

theorem applyOAuthAdminRole_ownership:
  "(uRole u = RoleAdmin \<and> \<not> uOAuthAdmin u \<longrightarrow> applyOAuthAdminRole u admins gs = (False, u))
   \<and> (uRole (snd (applyOAuthAdminRole u admins gs)) = RoleAdmin \<and> uRole u \<noteq> RoleAdmin \<longrightarrow>
        (\<exists>g \<in> set gs. g \<in> set admins) \<and> uOAuthAdmin (snd (applyOAuthAdminRole u admins gs)))
   \<and> (uRole u = RoleAdmin \<and> uRole (snd (applyOAuthAdminRole u admins gs)) \<noteq> RoleAdmin \<longrightarrow>
        uOAuthAdmin u \<and> (\<forall>g \<in> set gs. g \<notin> set admins))
   \<and> applyOAuthAdminRole (snd (applyOAuthAdminRole u admins gs)) admins gs
       = (False, snd (applyOAuthAdminRole u admins gs))"
  by (auto simp: applyOAuthAdminRole_def orgsIntersect_def list_ex_iff Let_def RoleAdmin_def RoleUser_def)

theorem applyOAuthAdminRole_ownership_witness:
  "applyOAuthAdminRole (demo_user\<lparr>uRole := RoleAdmin\<rparr>) [''ops''] [''dev''] = (False, demo_user\<lparr>uRole := RoleAdmin\<rparr>)
   \<and> uRole (snd (applyOAuthAdminRole demo_user [''ops''] [''dev'', ''ops''])) = RoleAdmin"
  using applyOAuthAdminRole_ownership [of "demo_user\<lparr>uRole := RoleAdmin\<rparr>" "[''ops'']" "[''dev'']"]
  by (auto simp: demo_user_def) code_simp

section \<open>Reconciliation\<close>

lemma SetMembers_keeps:
  "groups (fsm_state (snd (GroupRepo_SetMembers g us rs))) = groups (fsm_state rs)"
  "users (fsm_state (snd (GroupRepo_SetMembers g us rs))) = users (fsm_state rs)"
proof -
  obtain e rs' where w: "GroupRepo_SetMembers g us rs = (e, rs')" by (cases "GroupRepo_SetMembers g us rs")
  have frame: "groups (fsm_state rs') = groups (fsm_state rs) \<and> users (fsm_state rs') = users (fsm_state rs)"
    if ap: "applyCommand (newCommand kindSetMembers (PSetMembers g us)) (fsm_state rs) = (r, fsm_state rs')" for r
  proof -
    obtain x where "setMembers g us (fsm_state rs) = (x, fsm_state rs')"
      using ap by (auto simp: cmd_setMembers case_prod_beta prod_eq_iff)
    then show ?thesis using setMembers_frame by blast
  qed
  have "groups (fsm_state rs') = groups (fsm_state rs) \<and> users (fsm_state rs') = users (fsm_state rs)"
    using w [unfolded GroupRepo_SetMembers_def] by (cases rule: applyCtx_cases) (simp, erule frame, erule frame)
  with w show "groups (fsm_state (snd (GroupRepo_SetMembers g us rs))) = groups (fsm_state rs)"
    "users (fsm_state (snd (GroupRepo_SetMembers g us rs))) = users (fsm_state rs)" by simp_all
qed

lemma SetMembers_missing:
  assumes "gm_get (groups (fsm_state rs)) g = None"
  shows "fst (GroupRepo_SetMembers g us rs) \<noteq> None"
proof
  assume "fst (GroupRepo_SetMembers g us rs) = None"
  then have "GroupRepo_SetMembers g us rs = (None, snd (GroupRepo_SetMembers g us rs))" by (metis prod.collapse)
  from SetMembers_ok [OF this] assms show False by (simp add: setMembers_def)
qed

lemma each_fails:
  assumes "x \<in> set xs" and "\<And>y s. P s \<Longrightarrow> P (snd (f y s))" and "\<And>s. P s \<Longrightarrow> fst (f x s) \<noteq> None" and "P s"
  shows "fst (each f xs s) \<noteq> None"
  using assms(1,4)
proof (induction xs arbitrary: s)
  case (Cons y ys)
  obtain e s' where f: "f y s = (e, s')" by (cases "f y s")
  show ?case
  proof (cases "e = None")
    case True
    then have "x = y \<Longrightarrow> False" using assms(3) [OF Cons.prems(2)] f by simp
    moreover have "P s'" using assms(2) [OF Cons.prems(2), of y] f by simp
    ultimately show ?thesis using Cons f True by auto
  next
    case False
    with f show ?thesis by auto
  qed
qed simp

lemma each_keeps: "(\<And>y s. P s \<Longrightarrow> P (snd (f y s))) \<Longrightarrow> P s \<Longrightarrow> P (snd (each f xs s))"
proof (induction xs arbitrary: s)
  case (Cons y ys)
  obtain e s' where f: "f y s = (e, s')" by (cases "f y s")
  with Cons.prems(1) [OF Cons.prems(2), of y] Cons.IH [OF Cons.prems(1)] Cons.prems(2) show ?case
    by (cases e) auto
qed simp

lemma no_empty_ids:
  assumes ok: "store_ok rs" and "gm_get (users (fsm_state rs)) [] = None"
  shows "[] \<notin> repo.ids h rs"
  using assms mem_invD(5) [OF fsm_invD(5) [OF ok], of "[]" h] by (auto simp: ids_member [OF ok] member_of_def)

lemma reconcile_parts:
  assumes "reconcileMemberships fresh now u names dmax rs = (Inr out, u', rs')"
  obtains w rs1 rs2 where "ensure_wanted fresh now dmax names [] rs = (w, rs1)"
    "each (\<lambda>gid. addGroupMember GroupRepo_Members GroupRepo_SetMembers gid (uID u))
       (filter (\<lambda>gid. gid \<notin> set (uOAuthGroupIDs u)) w) rs1 = (None, rs2)"
    "each (\<lambda>gid. removeGroupMember GroupRepo_Members GroupRepo_SetMembers gid (uID u))
       (filter (\<lambda>gid. gid \<notin> set w) (remdups (uOAuthGroupIDs u))) rs2 = (None, rs')"
    "out = sort w" "u' = u\<lparr>uOAuthGroupIDs := out\<rparr>"
proof -
  obtain w rs1 where w: "ensure_wanted fresh now dmax names [] rs = (w, rs1)"
    by (cases "ensure_wanted fresh now dmax names [] rs")
  show ?thesis
    using assms w that [of w rs1]
    by (auto simp: reconcileMemberships_def Let_def split: prod.splits option.splits)
qed

text \<open>
  C27: what a reconciliation that succeeds leaves. The groups it records for the user are groups that the mapped names
  find afterwards, sorted and without repetition; every group that a mapped name found before is among them, and on a cluster that commits
  (with unused ids for new groups) every valid mapped name has its group among them. Of the memberships only those of the
  user change: in a group that was not managed by OAuth the user is a member when the group is recorded
  or the user was a member already; in a group that was managed before, the user stays a member when the group is still recorded
  and leaves it otherwise (a membership in a still recorded group that was taken away meanwhile is not given again).
\<close>

theorem reconcileMemberships_exact:
  assumes ok: "store_ok rs" and no_empty: "UserRepo_Get [] rs = Inl ErrNotFound" and u: "uID u \<noteq> []"
    and res: "reconcileMemberships fresh now u names dmax rs = (Inr out, u', rs')"
  shows "(i \<in> set out \<longrightarrow> (\<exists>n \<in> set names. \<exists>h. GroupRepo_GetByName n rs' = Inr h \<and> gID h = i))
    \<and> (\<forall>n \<in> set names. \<forall>h. GroupRepo_GetByName n rs = Inr h \<longrightarrow> gID h \<in> set out)
    \<and> (script rs = [] \<and> inj_on fresh (set names) \<and> (\<forall>n \<in> set names. GroupRepo_Get (fresh n) rs = Inl ErrNotFound) \<longrightarrow>
        (\<forall>n \<in> set names. ValidateGroupName n \<longrightarrow> (\<exists>h. GroupRepo_GetByName n rs' = Inr h \<and> gID h \<in> set out)))
    \<and> (member_of (fsm_state rs') g v \<longleftrightarrow>
      (if v = uID u
       then (if g \<in> set (uOAuthGroupIDs u) then g \<in> set out \<and> member_of (fsm_state rs) g v
             else g \<in> set out \<or> member_of (fsm_state rs) g v)
       else member_of (fsm_state rs) g v))
    \<and> sorted out \<and> distinct out \<and> uOAuthGroupIDs u' = out"
proof -
  obtain w rs1 rs2 where w: "ensure_wanted fresh now dmax names [] rs = (w, rs1)"
    "each (\<lambda>gid. addGroupMember GroupRepo_Members GroupRepo_SetMembers gid (uID u))
       (filter (\<lambda>gid. gid \<notin> set (uOAuthGroupIDs u)) w) rs1 = (None, rs2)"
    "each (\<lambda>gid. removeGroupMember GroupRepo_Members GroupRepo_SetMembers gid (uID u))
       (filter (\<lambda>gid. gid \<notin> set w) (remdups (uOAuthGroupIDs u))) rs2 = (None, rs')"
    and out: "out = sort w" "u' = u\<lparr>uOAuthGroupIDs := out\<rparr>"
    by (rule reconcile_parts [OF res])
  from ensure_wanted_only [OF w(1)] ok have ok1: "store_ok rs1" and same: "users (fsm_state rs1) = users (fsm_state rs)"
    "memberships (fsm_state rs1) = memberships (fsm_state rs)" and dist: "distinct w"
    by (auto simp: only_groups_def)
  have none: "gm_get (users (fsm_state rs1)) [] = None"
    using no_empty same by (auto simp: UserRepo_Get_def readUserByID_def read_row_def split: option.splits)
  note empty1 = no_empty_ids [OF ok1 none]
  note add = each_add [OF ok1 w(2) u empty1]
  then have ok2: "store_ok rs2" and empty2: "[] \<notin> repo.ids h rs2" for h using empty1 u by auto
  note rem = each_remove [OF ok2 w(3) empty2]
  have ids1: "v \<in> repo.ids g rs1 \<longleftrightarrow> member_of (fsm_state rs) g v" for g v
    using same by (simp add: ids_member [OF ok1] member_of_def)
  from add rem have members: "v \<in> repo.ids g rs' \<longleftrightarrow>
      (if v = uID u
       then (if g \<in> set (uOAuthGroupIDs u) then g \<in> set w \<and> v \<in> repo.ids g rs1
             else g \<in> set w \<or> v \<in> repo.ids g rs1)
       else v \<in> repo.ids g rs1)" by auto
  have ok': "store_ok rs'" using rem by blast
  have "groups (fsm_state rs2) = groups (fsm_state rs1)" "groups (fsm_state rs') = groups (fsm_state rs2)"
    using each_keeps [of "\<lambda>s. groups (fsm_state s) = groups (fsm_state rs1)"
        "\<lambda>gid. addGroupMember GroupRepo_Members GroupRepo_SetMembers gid (uID u)" rs1] w(2)
      each_keeps [of "\<lambda>s. groups (fsm_state s) = groups (fsm_state rs2)"
        "\<lambda>gid. removeGroupMember GroupRepo_Members GroupRepo_SetMembers gid (uID u)" rs2] w(3)
    by (metis SetMembers_keeps(1) addGroupMember_def removeGroupMember_def snd_conv)+
  then have find: "GroupRepo_GetByName n rs' = Inr h \<longleftrightarrow> GroupRepo_GetByName n rs1 = Inr h" for n h
    by (simp add: GroupRepo_GetByName_Inr ok' ok1)
  have set_out: "set out = set w" using out(1) by simp
  note named = ensure_wanted_exact [OF w(1) ok]
  have commit: "script rs = [] \<and> inj_on fresh (set names) \<and> (\<forall>n \<in> set names. GroupRepo_Get (fresh n) rs = Inl ErrNotFound) \<longrightarrow>
        (\<forall>n \<in> set names. ValidateGroupName n \<longrightarrow> (\<exists>h. GroupRepo_GetByName n rs' = Inr h \<and> gID h \<in> set out))"
    using ensure_wanted_commit [OF w(1) ok]
    by (auto simp: find set_out GroupRepo_Get_def readGroupByID_def read_row_def split: option.splits)
  show ?thesis
    using members ok' out(2) dist named(2,3) commit by (simp add: ids_member ids1 set_out find out(1))
qed

theorem reconcileMemberships_exact_witness:
  "member_of (fsm_state (snd (snd (reconcileMemberships (\<lambda>n. ''new-'' @ n) 60
      ((sample_user ''u2'' ''bob'' 11)\<lparr>uOAuthGroupIDs := [''g1'']\<rparr>) [''ops'', ''qa''] 3 sample_store)))) ''g2'' ''u2''
   \<and> \<not> member_of (fsm_state (snd (snd (reconcileMemberships (\<lambda>n. ''new-'' @ n) 60
      ((sample_user ''u2'' ''bob'' 11)\<lparr>uOAuthGroupIDs := [''g1'']\<rparr>) [''ops'', ''qa''] 3 sample_store)))) ''g1'' ''u2''"
proof -
  let ?u = "(sample_user ''u2'' ''bob'' 11)\<lparr>uOAuthGroupIDs := [''g1'']\<rparr>"
  let ?r = "reconcileMemberships (\<lambda>n. ''new-'' @ n) 60 ?u [''ops'', ''qa''] 3 sample_store"
  have "fst ?r = Inr [''g2'', ''new-qa'']" "UserRepo_Get [] sample_store = Inl ErrNotFound" by code_simp+
  moreover from this have "?r = (Inr [''g2'', ''new-qa''], fst (snd ?r), snd (snd ?r))" by (metis prod.collapse)
  ultimately show ?thesis
    using reconcileMemberships_exact [OF sample_store_ok, where u = ?u and fresh = "\<lambda>n. ''new-'' @ n" and now = 60
        and names = "[''ops'', ''qa'']" and dmax = 3 and out = "[''g2'', ''new-qa'']" and u' = "fst (snd ?r)" and rs' = "snd (snd ?r)"
        and g = "''g2''" and v = "''u2''"]
      reconcileMemberships_exact [OF sample_store_ok, where u = ?u and fresh = "\<lambda>n. ''new-'' @ n" and now = 60
        and names = "[''ops'', ''qa'']" and dmax = 3 and out = "[''g2'', ''new-qa'']" and u' = "fst (snd ?r)" and rs' = "snd (snd ?r)"
        and g = "''g1''" and v = "''u2''"]
    by (simp add: sample_user_def)
qed

text \<open>
  Once a group that OAuth manages for a user has been deleted, every later reconciliation of that user
  fails and records nothing. The user's list of managed groups still names the deleted group; removing
  the user from it is refused because the group does not exist, whatever groups the provider
  reports, so memberships that are no longer wanted are not removed from the record.
\<close>

theorem reconcile_stuck_on_deleted_group:
  assumes ok: "store_ok rs" and managed: "gid \<in> set (uOAuthGroupIDs u)"
    and deleted: "GroupRepo_Get gid rs = Inl ErrNotFound" and fresh: "gid \<notin> range fresh"
  shows "is_err (fst (reconcileMemberships fresh now u names dmax rs))
    \<and> fst (snd (reconcileMemberships fresh now u names dmax rs)) = u"
proof -
  let ?gone = "\<lambda>rs. gm_get (groups (fsm_state rs)) gid = None"
  obtain w rs1 where w: "ensure_wanted fresh now dmax names [] rs = (w, rs1)"
    by (cases "ensure_wanted fresh now dmax names [] rs")
  have gone: "?gone rs" using deleted by (auto simp: GroupRepo_Get_def readGroupByID_def read_row_def split: option.splits)
  with ensure_wanted_only [OF w] ok fresh have gone1: "?gone rs1" and notin: "gid \<notin> set w"
    by (auto simp: only_groups_def)
  let ?add = "\<lambda>g. addGroupMember GroupRepo_Members GroupRepo_SetMembers g (uID u)"
  let ?rem = "\<lambda>g. removeGroupMember GroupRepo_Members GroupRepo_SetMembers g (uID u)"
  have keeps: "?gone s \<Longrightarrow> ?gone (snd (?add g s))" "?gone s \<Longrightarrow> ?gone (snd (?rem g s))" for g s
    by (simp_all add: addGroupMember_def removeGroupMember_def SetMembers_keeps)
  obtain e rs2 where a: "each ?add (filter (\<lambda>g. \<not> List.member (remdups (uOAuthGroupIDs u)) g) w) rs1 = (e, rs2)"
    by (cases "each ?add (filter (\<lambda>g. \<not> List.member (remdups (uOAuthGroupIDs u)) g) w) rs1")
  have gone2: "?gone rs2" using each_keeps [of ?gone ?add, OF keeps(1) gone1] a by (metis snd_conv)
  obtain e' rs3 where b: "each ?rem (filter (\<lambda>g. \<not> List.member w g) (remdups (uOAuthGroupIDs u))) rs2 = (e', rs3)"
    by (cases "each ?rem (filter (\<lambda>g. \<not> List.member w g) (remdups (uOAuthGroupIDs u))) rs2")
  have "gid \<in> set (filter (\<lambda>g. \<not> List.member w g) (remdups (uOAuthGroupIDs u)))" using managed notin by simp
  from each_fails [of gid _ ?gone ?rem, OF this keeps(2) _ gone2] b have "e' \<noteq> None"
    by (simp add: removeGroupMember_def SetMembers_missing)
  then show ?thesis using w a b by (cases e) (auto simp: reconcileMemberships_def Let_def)
qed

theorem reconcile_stuck_on_deleted_group_witness:
  "is_err (fst (reconcileMemberships (\<lambda>n. ''new-'' @ n) 60
      ((sample_user ''u2'' ''bob'' 11)\<lparr>uOAuthGroupIDs := [''g7'']\<rparr>) [''ops''] 3 sample_store))"
proof -
  have "GroupRepo_Get ''g7'' sample_store = Inl ErrNotFound" by code_simp
  moreover have "''g7'' \<notin> range (\<lambda>n. ''new-'' @ n)" by auto
  ultimately show ?thesis
    using reconcile_stuck_on_deleted_group [OF sample_store_ok, of "''g7''"
        "(sample_user ''u2'' ''bob'' 11)\<lparr>uOAuthGroupIDs := [''g7'']\<rparr>" "\<lambda>n. ''new-'' @ n" 60 "[''ops'']" 3]
    by simp
qed

end
