(* ===== verification/Revalidator.thy ===== *)
theory Revalidator
  imports OAuth
begin

text \<open>
  The revalidation of OAuth users against their identity provider,
  \<^verbatim>\<open>src/internal/service/oauth_revalidator.go\<close>: a cache entry per user, the outcome of a check, the
  policy that serves an entry while the provider cannot be reached, and the revocation of a user.
  The provider's \<^verbatim>\<open>Revalidate\<close> is the argument \<open>reval\<close>: it answers with the current group names
  or an error and may have replaced the stored credential, so it returns the user object and the
  store too. \<open>jit\<close> is the jitter that \<^verbatim>\<open>jitteredTTL\<close> puts on a duration. One call of
  \<open>Check\<close> that meets no other call for its user is the loop \<open>Check\<close>, whose \<open>k\<close>-th round reads the clock
  as \<open>clk k\<close>; the interleaving of several calls is the step relation of the last section.
\<close>

section \<open>State\<close>

definition maxEntryAge :: duration where "maxEntryAge = 24 * 3600 * second"

definition errOAuthNoCredential :: error where
  "errOAuthNoCredential = ErrOther ''no stored oauth credential''"
definition errOAuthCredentialExpired :: error where
  "errOAuthCredentialExpired = ErrOther ''oauth credential expired; re-authentication required''"
definition errOAuthNotLeaderRefresh :: error where
  "errOAuthNotLeaderRefresh = ErrOther ''oauth refresh requires raft leadership''"

record OAuthRevalidatorConfig =
  rcInterval :: duration
  rcGrace :: duration
  rcFailOpen :: bool
  rcSessionMaxAge :: duration

datatype revalidationState = stateOK | stateRevoked | stateUnavailable | stateExpired

record revalidationEntry =
  reState :: revalidationState
  reGroupIDs :: "string list"
  reCheckedAt :: gotime
  reLastGood :: gotime
  reExpiresAt :: gotime
  reInflight :: "nat option"
  reCredential :: string

definition new_entry :: "nat option \<Rightarrow> revalidationEntry" where
  "new_entry ch = \<lparr>reState = stateOK, reGroupIDs = [], reCheckedAt = zero_time, reLastGood = zero_time,
     reExpiresAt = zero_time, reInflight = ch, reCredential = []\<rparr>"

type_synonym provider = "User \<Rightarrow> RaftStore \<Rightarrow> (error, string list) result \<times> User \<times> RaftStore"

record OAuthRevalidator =
  rvMapper :: "string list \<Rightarrow> string list"
  rvAdminGroups :: "string list"
  rvMappedMax :: int
  rvTokens :: bool
  rvCfg :: OAuthRevalidatorConfig

definition SessionMaxAge :: "OAuthRevalidator \<Rightarrow> duration" where
  "SessionMaxAge r = rcSessionMaxAge (rvCfg r)"

section \<open>Serving an entry\<close>

definition fresh_entry :: "revalidationEntry \<Rightarrow> User \<Rightarrow> gotime \<Rightarrow> bool" where
  "fresh_entry entry u now =
     (if reState entry = stateRevoked \<and> uDeactivatedAt u = None then False
      else if reState entry = stateExpired \<and> reCredential entry \<noteq> uOAuthTokenCiphertext u then False
      else if is_zero (reExpiresAt entry) then False
      else now < reExpiresAt entry)"

definition serve :: "OAuthRevalidatorConfig \<Rightarrow> revalidationEntry \<Rightarrow> gotime \<Rightarrow> (error, string list) result" where
  "serve cfg entry now = (case reState entry of
     stateOK \<Rightarrow> Inr (reGroupIDs entry)
   | stateRevoked \<Rightarrow> Inl ErrSessionRevoked
   | _ \<Rightarrow>
       let withinGrace = (\<not> is_zero (reLastGood entry) \<and> time_sub now (reLastGood entry) \<le> rcGrace cfg) in
       if withinGrace \<and> reGroupIDs entry \<noteq> [] then Inr (reGroupIDs entry)
       else if rcFailOpen cfg \<and> reGroupIDs entry \<noteq> [] then Inr (reGroupIDs entry)
       else Inl ErrUnauthenticated)"

section \<open>One check\<close>

definition jitteredTTL :: "(duration \<Rightarrow> duration) \<Rightarrow> revalidationState \<Rightarrow> duration \<Rightarrow> duration \<Rightarrow> duration" where
  "jitteredTTL jit st interval grace =
     jit (if st = stateUnavailable \<and> grace > 0 \<and> grace < interval then grace else interval)"

definition revoke :: "OAuthRevalidator \<Rightarrow> gotime \<Rightarrow> User \<Rightarrow> RaftStore \<Rightarrow> User \<times> RaftStore" where
  "revoke r now u rs =
     (let u = u\<lparr>uDeactivatedAt := Some now\<rparr>;
          (_, u, rs) = UserRepo_Update now u rs;
          rs = (if rvTokens r then snd (Revoke (uID u) rs) else rs)
      in (u, rs))"

text \<open>The outcome recorded on an entry that is good for the jittered time of its state.\<close>

definition record_state ::
    "(duration \<Rightarrow> duration) \<Rightarrow> OAuthRevalidatorConfig \<Rightarrow> revalidationState \<Rightarrow> gotime \<Rightarrow> revalidationEntry \<Rightarrow> revalidationEntry" where
  "record_state jit cfg st now entry = entry\<lparr>reState := st, reCheckedAt := now,
     reExpiresAt := now + jitteredTTL jit st (rcInterval cfg) (rcGrace cfg)\<rparr>"

definition refresh ::
    "OAuthRevalidator \<Rightarrow> provider \<Rightarrow> (duration \<Rightarrow> duration) \<Rightarrow> (string \<Rightarrow> string) \<Rightarrow> gotime \<Rightarrow> User
      \<Rightarrow> revalidationEntry \<Rightarrow> RaftStore \<Rightarrow> revalidationEntry \<times> User \<times> RaftStore" where
  "refresh r reval jit freshID now u entry rs =
     (let cfg = rvCfg r; entry = entry\<lparr>reCredential := uOAuthTokenCiphertext u\<rparr> in
      if uDeactivatedAt u \<noteq> None then (record_state jit cfg stateRevoked now entry, u, rs)
      else case reval u rs of
        (Inl e, u, rs) \<Rightarrow>
          if e = errOAuthNoCredential then
            (record_state jit cfg stateOK now
               (entry\<lparr>reGroupIDs := groupIDs (GroupRepo_GroupsForUser (uID u) rs), reLastGood := now\<rparr>), u, rs)
          else if e = errOAuthCredentialExpired then (record_state jit cfg stateExpired now entry, u, rs)
          else if e = errOAuthNotLeaderRefresh then
            (record_state jit cfg stateUnavailable now
               (entry\<lparr>reGroupIDs := groupIDs (GroupRepo_GroupsForUser (uID u) rs), reLastGood := now\<rparr>), u, rs)
          else if e = ErrForbidden \<or> e = ErrSessionRevoked then
            (let (u, rs) = revoke r now u rs in (record_state jit cfg stateRevoked now entry, u, rs))
          else (record_state jit cfg stateUnavailable now entry, u, rs)
      | (Inr gs, u, rs) \<Rightarrow>
          let mapped = rvMapper r gs;
              (_, u, rs) = reconcileMemberships freshID now u mapped (rvMappedMax r) rs;
              u = u\<lparr>uOAuthGroups := normalizeGroupList gs\<rparr>;
              (_, u) = applyOAuthAdminRole u (rvAdminGroups r) gs;
              (_, u, rs) = UserRepo_Update now u rs
          in (record_state jit cfg stateOK now
                (entry\<lparr>reCredential := uOAuthTokenCiphertext u,
                       reGroupIDs := groupIDs (GroupRepo_GroupsForUser (uID u) rs), reLastGood := now\<rparr>), u, rs))"

section \<open>The loop of one call\<close>

type_synonym reval_cache = "(string, revalidationEntry) gomap"

text \<open>
  \<open>None\<close> when the given number of rounds is used up. An entry found in flight belongs to another call
  and is not met here.
\<close>

fun Check ::
    "nat \<Rightarrow> OAuthRevalidator \<Rightarrow> provider \<Rightarrow> (duration \<Rightarrow> duration) \<Rightarrow> (string \<Rightarrow> string) \<Rightarrow> (nat \<Rightarrow> gotime) \<Rightarrow> nat
      \<Rightarrow> User \<Rightarrow> reval_cache \<Rightarrow> RaftStore \<Rightarrow> ((error, string list) result \<times> User \<times> reval_cache \<times> RaftStore) option" where
  "Check 0 r reval jit freshID clk k u cache rs = None"
| "Check (Suc n) r reval jit freshID clk k u cache rs =
     (let recheck = (\<lambda>entry.
            let (entry, u', rs') = refresh r reval jit freshID (clk k) u entry rs
            in Check n r reval jit freshID clk (Suc k) u' (gm_put (uID u) (entry\<lparr>reInflight := None\<rparr>) cache) rs')
      in case gm_get cache (uID u) of
           None \<Rightarrow> recheck (new_entry (Some k))
         | Some entry \<Rightarrow>
             if fresh_entry entry u (clk k) then Some (serve (rvCfg r) entry (clk k), u, cache, rs)
             else recheck (entry\<lparr>reInflight := Some k\<rparr>))"

text \<open>\<^verbatim>\<open>sweepLoop\<close>: one tick of the ticker.\<close>

definition sweep_tick :: "gotime \<Rightarrow> reval_cache \<Rightarrow> reval_cache" where
  "sweep_tick now cache = gm_reject (\<lambda>e. reInflight e = None \<and> time_sub now (reCheckedAt e) > maxEntryAge) cache"

section \<open>The serving policy\<close>

text \<open>
  When access is granted on a stale word. An entry is served with groups only if the last check
  succeeded, or if the provider could not be asked and the last known groups are not empty and either
  the last success lies within the grace period or the operator chose to fail open; the groups
  served are always the last known ones, and a revoked entry is always refused.
\<close>

theorem serve_policy:
  assumes "rcGrace (rvCfg r) < max_duration" and "min_duration \<le> rcGrace (rvCfg r)"
  shows "serve (rvCfg r) entry now = Inr gs \<longleftrightarrow> gs = reGroupIDs entry \<and> (reState entry = stateOK
      \<or> (reState entry = stateUnavailable \<or> reState entry = stateExpired) \<and> gs \<noteq> []
        \<and> (rcFailOpen (rvCfg r) \<or> reLastGood entry \<noteq> zero_time \<and> now - reLastGood entry \<le> rcGrace (rvCfg r)))"
proof -
  have "time_sub now t \<le> rcGrace (rvCfg r) \<longleftrightarrow> now - t \<le> rcGrace (rvCfg r)" for t
    using time_sub_gt [OF assms, of now t] by linarith
  then show ?thesis
    by (auto simp: serve_def Let_def is_zero_def split: revalidationState.splits if_splits)
qed

definition demo_revalidator :: OAuthRevalidator where
  "demo_revalidator = \<lparr>rvMapper = (\<lambda>gs. gs), rvAdminGroups = [''ops''], rvMappedMax = 2, rvTokens = True,
     rvCfg = \<lparr>rcInterval = 300, rcGrace = 3600, rcFailOpen = False, rcSessionMaxAge = 0\<rparr>\<rparr>"

theorem serve_policy_witness:
  "serve (rvCfg demo_revalidator)
     ((new_entry None)\<lparr>reState := stateUnavailable, reGroupIDs := [''g1''], reLastGood := 100\<rparr>) 3700 = Inr [''g1'']
   \<and> serve (rvCfg demo_revalidator)
     ((new_entry None)\<lparr>reState := stateUnavailable, reGroupIDs := [''g1''], reLastGood := 100\<rparr>) 3701 \<noteq> Inr [''g1'']"
  using serve_policy [of demo_revalidator "(new_entry None)\<lparr>reState := stateUnavailable, reGroupIDs := [''g1''], reLastGood := 100\<rparr>"
      3700 "[''g1'']"]
    serve_policy [of demo_revalidator "(new_entry None)\<lparr>reState := stateUnavailable, reGroupIDs := [''g1''], reLastGood := 100\<rparr>"
      3701 "[''g1'']"]
  by (simp add: demo_revalidator_def max_duration_def min_duration_def new_entry_def zero_time_def)

section \<open>A call returns\<close>

text \<open>
  What the loop needs of the provider: the answer concerns the user it was asked about and leaves its
  deactivation alone, and a credential that is reported as unusable has not been replaced.
\<close>

definition provider_ok :: "provider \<Rightarrow> bool" where
  "provider_ok reval \<longleftrightarrow> (\<forall>u rs a u' rs'. reval u rs = (a, u', rs') \<longrightarrow> uID u' = uID u
     \<and> uDeactivatedAt u' = uDeactivatedAt u
     \<and> (a = Inl errOAuthCredentialExpired \<longrightarrow> uOAuthTokenCiphertext u' = uOAuthTokenCiphertext u))"

lemma provider_okD:
  assumes "provider_ok reval" and "reval u rs = (a, u', rs')"
  shows "uID u' = uID u" "uDeactivatedAt u' = uDeactivatedAt u"
    "a = Inl errOAuthCredentialExpired \<Longrightarrow> uOAuthTokenCiphertext u' = uOAuthTokenCiphertext u"
  using assms unfolding provider_ok_def by blast+

lemma reconcile_user:
  assumes "reconcileMemberships fresh now u names dmax rs = (a, u', rs')"
  shows "uID u' = uID u"
  using assms by (auto simp: reconcileMemberships_def Let_def split: prod.splits option.splits)

lemma applyOAuthAdminRole_user:
  "applyOAuthAdminRole u admins gs = (b, u') \<Longrightarrow> uID u' = uID u"
  by (auto simp: applyOAuthAdminRole_def Let_def split: if_splits)

lemma UserRepo_Update_user: "UserRepo_Update now u rs = (e, u', rs') \<Longrightarrow> u' = u\<lparr>uUpdatedAt := now\<rparr>"
  by (auto simp: UserRepo_Update_def Let_def split: prod.splits)

lemma revoke_user: "revoke r now u rs = (u', rs') \<Longrightarrow> u' = u\<lparr>uDeactivatedAt := Some now, uUpdatedAt := now\<rparr>"
  by (auto simp: revoke_def Let_def dest!: UserRepo_Update_user split: prod.splits)

lemma err_distinct [simp]:
  "errOAuthNoCredential \<noteq> errOAuthCredentialExpired" "errOAuthCredentialExpired \<noteq> errOAuthNoCredential"
  "errOAuthNoCredential \<noteq> errOAuthNotLeaderRefresh" "errOAuthNotLeaderRefresh \<noteq> errOAuthNoCredential"
  "errOAuthCredentialExpired \<noteq> errOAuthNotLeaderRefresh" "errOAuthNotLeaderRefresh \<noteq> errOAuthCredentialExpired"
  by (simp_all add: errOAuthNoCredential_def errOAuthCredentialExpired_def errOAuthNotLeaderRefresh_def)

text \<open>The outcomes of a check: the state recorded, and what it says about the user.\<close>

lemma refresh_cases:
  assumes prov: "provider_ok reval" and ref: "refresh r reval jit freshID now u entry rs = (entry', u', rs')"
  obtains e0 st where "entry' = record_state jit (rvCfg r) st now e0" "uID u' = uID u"
    "st = stateRevoked \<Longrightarrow> uDeactivatedAt u' \<noteq> None"
    "st = stateExpired \<Longrightarrow> reCredential e0 = uOAuthTokenCiphertext u'"
proof (cases "uDeactivatedAt u")
  case (Some t)
  with ref show ?thesis by (intro that [of stateRevoked "entry\<lparr>reCredential := uOAuthTokenCiphertext u\<rparr>"])
    (auto simp: refresh_def)
next
  case None
  obtain a u1 rs1 where a: "reval u rs = (a, u1, rs1)" by (cases "reval u rs")
  note p = provider_okD [OF prov a]
  let ?e = "entry\<lparr>reCredential := uOAuthTokenCiphertext u\<rparr>"
  show ?thesis
  proof (cases a)
    case (Inl e)
    consider "e = errOAuthCredentialExpired" | "e = ErrForbidden \<or> e = ErrSessionRevoked"
      | "e \<noteq> errOAuthCredentialExpired" "e \<noteq> ErrForbidden" "e \<noteq> ErrSessionRevoked" by blast
    then show ?thesis
    proof cases
      case 1
      with None a Inl ref p show ?thesis by (intro that [of stateExpired ?e]) (auto simp: refresh_def)
    next
      case 2
      then have "e \<noteq> errOAuthNoCredential" "e \<noteq> errOAuthCredentialExpired" "e \<noteq> errOAuthNotLeaderRefresh"
        by (auto simp: errOAuthNoCredential_def errOAuthCredentialExpired_def errOAuthNotLeaderRefresh_def)
      moreover obtain u2 rs2 where v: "revoke r now u1 rs1 = (u2, rs2)" by (cases "revoke r now u1 rs1")
      ultimately have "entry' = record_state jit (rvCfg r) stateRevoked now ?e" "u' = u2"
        using 2 None a Inl ref by (auto simp: refresh_def)
      then show ?thesis using p revoke_user [OF v] by (intro that [of stateRevoked ?e]) auto
    next
      case 3
      then show ?thesis
        using None a Inl ref p
        by (cases "e = errOAuthNoCredential"; cases "e = errOAuthNotLeaderRefresh")
          (auto simp: refresh_def intro: that [of stateOK] that [of stateUnavailable])
    qed
  next
    case (Inr gs)
    obtain b u2 rs2 where b: "reconcileMemberships freshID now u1 (rvMapper r gs) (rvMappedMax r) rs1 = (b, u2, rs2)"
      by (cases "reconcileMemberships freshID now u1 (rvMapper r gs) (rvMappedMax r) rs1")
    obtain c u3 where c: "applyOAuthAdminRole (u2\<lparr>uOAuthGroups := normalizeGroupList gs\<rparr>) (rvAdminGroups r) gs = (c, u3)"
      by (cases "applyOAuthAdminRole (u2\<lparr>uOAuthGroups := normalizeGroupList gs\<rparr>) (rvAdminGroups r) gs")
    obtain d u4 rs4 where d: "UserRepo_Update now u3 rs2 = (d, u4, rs4)" by (cases "UserRepo_Update now u3 rs2")
    have "uID u4 = uID u"
      using p(1) reconcile_user [OF b] applyOAuthAdminRole_user [OF c] UserRepo_Update_user [OF d] by simp
    with None a Inr b c d ref show ?thesis by (intro that [of stateOK]) (auto simp: refresh_def)
  qed
qed

definition jitter_ok :: "(duration \<Rightarrow> duration) \<Rightarrow> OAuthRevalidatorConfig \<Rightarrow> duration \<Rightarrow> bool" where
  "jitter_ok jit cfg d \<longleftrightarrow> 0 < d \<and> d \<le> jit (rcInterval cfg) \<and> (0 < rcGrace cfg \<longrightarrow> d \<le> jit (rcGrace cfg))"

lemma jitter_ok_TTL: "jitter_ok jit cfg d \<Longrightarrow> d \<le> jitteredTTL jit st (rcInterval cfg) (rcGrace cfg)"
  by (simp add: jitter_ok_def jitteredTTL_def)

lemma refresh_fresh:
  assumes "provider_ok reval" and "refresh r reval jit freshID now u entry rs = (entry', u', rs')"
    and "jitter_ok jit (rvCfg r) d" and "0 \<le> now" and "now' < now + d"
  shows "fresh_entry (entry'\<lparr>reInflight := None\<rparr>) u' now' \<and> uID u' = uID u"
  using assms(1,2)
proof (cases rule: refresh_cases)
  case (1 e0 st)
  let ?ttl = "jitteredTTL jit st (rcInterval (rvCfg r)) (rcGrace (rvCfg r))"
  have "0 < d" "d \<le> ?ttl" using assms(3) jitter_ok_TTL by (auto simp: jitter_ok_def)
  with assms(4,5) have "0 < now + ?ttl" "now' < now + ?ttl" by linarith+
  with 1 show ?thesis by (auto simp: fresh_entry_def record_state_def is_zero_def zero_time_def)
qed

text \<open>
  A check of a user that no other call is checking returns after at most two rounds: it serves the
  entry it finds, or asks the provider once and serves what it recorded. This needs the times that the
  jitter gives to be positive and the clock to advance less than such a time between the two
  rounds, and a provider that answers about the user it was asked for.
\<close>

theorem Check_returns:
  assumes prov: "provider_ok reval" and jit: "jitter_ok jit (rvCfg r) d"
    and clock: "0 \<le> clk k" "clk (Suc k) < clk k + d"
  shows "\<exists>res. Check (Suc (Suc n)) r reval jit freshID clk k u cache rs = Some res"
proof -
  have again: "\<exists>res. Check (Suc n) r reval jit freshID clk (Suc k) u' (gm_put (uID u) (entry'\<lparr>reInflight := None\<rparr>) cache) rs' = Some res"
    if "refresh r reval jit freshID (clk k) u entry rs = (entry', u', rs')" for entry entry' u' rs'
    using refresh_fresh [OF prov that jit clock] by auto
  show ?thesis
  proof (cases "gm_get cache (uID u)")
    case None
    then show ?thesis using again by (subst Check.simps(2)) (auto simp: Let_def simp del: Check.simps split: prod.splits)
  next
    case (Some entry)
    then show ?thesis
      using again by (subst Check.simps(2)) (auto simp: Let_def simp del: Check.simps split: prod.splits)
  qed
qed

definition down_provider :: provider where
  "down_provider u rs = (Inl (ErrOther ''connection refused''), u, rs)"

theorem Check_returns_witness:
  "\<exists>res. Check (Suc (Suc 0)) demo_revalidator down_provider (\<lambda>d. d) (\<lambda>n. n) (\<lambda>k. 1000 + int k) 0 demo_user [] sample_store
      = Some res"
proof (rule Check_returns)
  show "provider_ok down_provider"
    by (simp add: provider_ok_def down_provider_def errOAuthCredentialExpired_def)
  show "jitter_ok (\<lambda>d. d) (rvCfg demo_revalidator) 300" by (simp add: jitter_ok_def demo_revalidator_def)
qed simp_all

section \<open>Interleaved calls\<close>

text \<open>
  Several calls of \<^verbatim>\<open>Check\<close> for one user, with the sweeper, as steps between which the mutex is free.
  Entries are objects: the cache holds the address of the user's entry, and a call that
  refreshes keeps that address. A channel is a number; closing it adds it to the closed ones. A
  call is at the head of its loop, refreshes an entry, is about to clear its channel, is about
  to close the channel, waits for a channel, or has returned. What a refresh writes is left open.
\<close>

datatype check_pc = Looping | Refreshing nat | Finishing nat | Closing nat | Waiting nat
  | Returned "(error, string list) result"

record flight =
  flCache :: "nat option"
  flObj :: "nat \<Rightarrow> revalidationEntry"
  flPc :: "nat \<Rightarrow> check_pc"
  flClosed :: "nat list"
  flNext :: nat

inductive check_step :: "OAuthRevalidatorConfig \<Rightarrow> flight \<Rightarrow> flight \<Rightarrow> bool" for cfg where
  create: "flPc s g = Looping \<Longrightarrow> flCache s = None \<Longrightarrow> c = flNext s \<Longrightarrow>
    check_step cfg s (s\<lparr>flObj := (flObj s)(c := new_entry (Some c)), flCache := Some c,
      flPc := (flPc s)(g := Refreshing c), flNext := Suc c\<rparr>)"
| wait: "flPc s g = Looping \<Longrightarrow> flCache s = Some e \<Longrightarrow> reInflight (flObj s e) = Some c \<Longrightarrow>
    check_step cfg s (s\<lparr>flPc := (flPc s)(g := Waiting c)\<rparr>)"
| cancel: "flPc s g = Waiting c \<Longrightarrow>
    check_step cfg s (s\<lparr>flPc := (flPc s)(g := Returned (Inl (ErrOther ''context canceled'')))\<rparr>)"
| wake: "flPc s g = Waiting c \<Longrightarrow> c \<in> set (flClosed s) \<Longrightarrow>
    check_step cfg s (s\<lparr>flPc := (flPc s)(g := Looping)\<rparr>)"
| serve_entry: "flPc s g = Looping \<Longrightarrow> flCache s = Some e \<Longrightarrow> reInflight (flObj s e) = None \<Longrightarrow>
    fresh_entry (flObj s e) u now \<Longrightarrow>
    check_step cfg s (s\<lparr>flPc := (flPc s)(g := Returned (serve cfg (flObj s e) now))\<rparr>)"
| take_over: "flPc s g = Looping \<Longrightarrow> flCache s = Some e \<Longrightarrow> reInflight (flObj s e) = None \<Longrightarrow>
    \<not> fresh_entry (flObj s e) u now \<Longrightarrow> c = flNext s \<Longrightarrow>
    check_step cfg s (s\<lparr>flObj := (flObj s)(e := (flObj s e)\<lparr>reInflight := Some c\<rparr>),
      flPc := (flPc s)(g := Refreshing e), flNext := Suc c\<rparr>)"
| refreshed: "flPc s g = Refreshing e \<Longrightarrow>
    check_step cfg s (s\<lparr>flObj := (flObj s)(e := v\<lparr>reInflight := reInflight (flObj s e)\<rparr>),
      flPc := (flPc s)(g := Finishing e)\<rparr>)"
| finish: "flPc s g = Finishing e \<Longrightarrow> reInflight (flObj s e) = Some c \<Longrightarrow>
    check_step cfg s (s\<lparr>flObj := (flObj s)(e := (flObj s e)\<lparr>reInflight := None\<rparr>),
      flPc := (flPc s)(g := Closing c)\<rparr>)"
| close_ch: "flPc s g = Closing c \<Longrightarrow>
    check_step cfg s (s\<lparr>flClosed := c # flClosed s, flPc := (flPc s)(g := Looping)\<rparr>)"
| sweep: "flCache s = Some e \<Longrightarrow> reInflight (flObj s e) = None \<Longrightarrow>
    time_sub now (reCheckedAt (flObj s e)) > maxEntryAge \<Longrightarrow> check_step cfg s (s\<lparr>flCache := None\<rparr>)"

definition flight_init :: flight where
  "flight_init = \<lparr>flCache = None, flObj = (\<lambda>_. new_entry None), flPc = (\<lambda>_. Looping), flClosed = [], flNext = 0\<rparr>"

inductive check_reach :: "OAuthRevalidatorConfig \<Rightarrow> flight \<Rightarrow> bool" for cfg where
  init: "check_reach cfg flight_init"
| step: "check_reach cfg s \<Longrightarrow> check_step cfg s s' \<Longrightarrow> check_reach cfg s'"

definition busy :: "flight \<Rightarrow> nat \<Rightarrow> nat \<Rightarrow> bool" where
  "busy s g e \<longleftrightarrow> flPc s g = Refreshing e \<or> flPc s g = Finishing e"

definition flight_inv :: "flight \<Rightarrow> bool" where
  "flight_inv s \<longleftrightarrow>
     (\<forall>g e. busy s g e \<longrightarrow> flCache s = Some e \<and> reInflight (flObj s e) \<noteq> None)
   \<and> (\<forall>g h e f. busy s g e \<longrightarrow> busy s h f \<longrightarrow> g = h)
   \<and> (\<forall>e c. flCache s = Some e \<longrightarrow> reInflight (flObj s e) = Some c \<longrightarrow> (\<exists>g. busy s g e))
   \<and> (\<forall>g c. flPc s g = Waiting c \<longrightarrow> c \<in> set (flClosed s) \<or> (\<exists>h. flPc s h = Closing c)
        \<or> (\<exists>e. flCache s = Some e \<and> reInflight (flObj s e) = Some c))"

lemma flight_invD:
  assumes "flight_inv s"
  shows "busy s g e \<Longrightarrow> flCache s = Some e \<and> (\<exists>c. reInflight (flObj s e) = Some c)"
    "busy s g e \<Longrightarrow> busy s h f \<Longrightarrow> g = h"
    "flCache s = Some e \<Longrightarrow> reInflight (flObj s e) = Some c \<Longrightarrow> \<exists>g. busy s g e"
    "flPc s g = Waiting c \<Longrightarrow> c \<in> set (flClosed s) \<or> (\<exists>h. flPc s h = Closing c)
        \<or> (\<exists>e. flCache s = Some e \<and> reInflight (flObj s e) = Some c)"
  using assms unfolding flight_inv_def by blast+

text \<open>A call that moves without touching entries or becoming busy.\<close>

lemma flight_inv_move:
  assumes inv: "flight_inv s" and g: "\<And>e. \<not> busy s g e" and p: "\<And>e. p \<noteq> Refreshing e \<and> p \<noteq> Finishing e"
    and w: "\<And>c. p = Waiting c \<Longrightarrow> flCache s = Some e \<and> reInflight (flObj s e) = Some c"
    and cl: "\<And>c. flPc s g = Closing c \<Longrightarrow> c \<in> set cs" and cs: "set (flClosed s) \<subseteq> set cs"
  shows "flight_inv (s\<lparr>flClosed := cs, flPc := (flPc s)(g := p)\<rparr>)"
proof -
  have b: "busy (s\<lparr>flClosed := cs, flPc := (flPc s)(g := p)\<rparr>) h f \<longleftrightarrow> busy s h f" for h f
    using g p by (auto simp: busy_def)
  have "c \<in> set cs \<or> (\<exists>k. k \<noteq> g \<and> flPc s k = Closing c) \<or> (\<exists>e. flCache s = Some e \<and> reInflight (flObj s e) = Some c)"
    if "flPc s h = Waiting c" for h c
    using flight_invD(4) [OF inv that] cl cs by (metis subsetD)
  then have "((flPc s)(g := p)) h = Waiting c \<longrightarrow> c \<in> set cs \<or> (\<exists>k. ((flPc s)(g := p)) k = Closing c)
      \<or> (\<exists>e. flCache s = Some e \<and> reInflight (flObj s e) = Some c)" for h c
    using w by (metis fun_upd_apply)
  with flight_invD(1-3) [OF inv] show ?thesis unfolding flight_inv_def b by simp
qed

lemma flight_inv_idle:
  assumes "flight_inv s" and "flCache s = Some e \<longrightarrow> reInflight (flObj s e) = None" and "flCache s = None \<or> flCache s = Some e"
  shows "\<not> busy s h f" "flPc s h = Waiting c \<Longrightarrow> c \<in> set (flClosed s) \<or> (\<exists>k. flPc s k = Closing c)"
  using flight_invD(1) [OF assms(1), of h f] flight_invD(4) [OF assms(1), of h c] assms(2,3) by auto

text \<open>The one call that becomes busy with the entry of the cache.\<close>

lemma flight_inv_start:
  assumes idle: "\<And>h f. \<not> busy s h f" and w: "\<And>h c. flPc s h = Waiting c \<Longrightarrow> c \<in> set (flClosed s) \<or> (\<exists>k. flPc s k = Closing c)"
    and g: "flPc s g = Looping" and e: "reInflight v = Some c"
  shows "flight_inv (s\<lparr>flObj := (flObj s)(e := v), flCache := Some e, flPc := (flPc s)(g := Refreshing e), flNext := n\<rparr>)"
proof -
  have b: "busy (s\<lparr>flObj := (flObj s)(e := v), flCache := Some e, flPc := (flPc s)(g := Refreshing e), flNext := n\<rparr>) h f
      \<longleftrightarrow> h = g \<and> f = e" for h f
    using idle [of h f] by (auto simp: busy_def)
  have "c \<in> set (flClosed s) \<or> (\<exists>k. k \<noteq> g \<and> flPc s k = Closing c)" if "flPc s h = Waiting c" for h c
    using w [OF that] g by (metis check_pc.distinct(5))
  then show ?thesis unfolding flight_inv_def b using e by (auto split: if_splits)
qed

lemma flight_inv_step:
  assumes inv: "flight_inv s" and step: "check_step cfg s s'"
  shows "flight_inv s'"
  using step
proof (cases rule: check_step.cases)
  case (create g c)
  note idle = flight_inv_idle [OF inv, of c]
  show ?thesis unfolding create(1)
    by (rule flight_inv_start) (use create idle in \<open>auto simp: new_entry_def\<close>)
next
  case (wait g e c)
  with flight_inv_move [OF inv, of g "Waiting c" e "flClosed s"] show ?thesis by (auto simp: busy_def)
next
  case (cancel g c)
  with flight_inv_move [OF inv, of g "Returned (Inl (ErrOther ''context canceled''))" _ "flClosed s"] show ?thesis
    by (auto simp: busy_def)
next
  case (wake g c)
  with flight_inv_move [OF inv, of g Looping _ "flClosed s"] show ?thesis by (auto simp: busy_def)
next
  case (serve_entry g e u now)
  with flight_inv_move [OF inv, of g "Returned (serve cfg (flObj s e) now)" _ "flClosed s"] show ?thesis
    by (auto simp: busy_def)
next
  case (take_over g e u now c)
  then have s': "s' = s\<lparr>flObj := (flObj s)(e := (flObj s e)\<lparr>reInflight := Some c\<rparr>), flCache := Some e,
      flPc := (flPc s)(g := Refreshing e), flNext := Suc c\<rparr>" by simp
  note idle = flight_inv_idle [OF inv, of e]
  show ?thesis unfolding s' by (rule flight_inv_start) (use take_over idle in auto)
next
  case (refreshed g e v)
  have b: "busy s' h f \<longleftrightarrow> busy s h f" for h f using refreshed by (auto simp: busy_def)
  have i: "reInflight (flObj s' f) = reInflight (flObj s f)" for f using refreshed by simp
  have "flPc s' h = Waiting c \<longleftrightarrow> flPc s h = Waiting c" "flPc s' h = Closing c \<longleftrightarrow> flPc s h = Closing c" for h c
    using refreshed by auto
  with inv refreshed show ?thesis unfolding flight_inv_def b i by simp
next
  case (finish g e c)
  have "busy s g e" using finish by (simp add: busy_def)
  then have e: "flCache s = Some e" and only: "busy s h f \<Longrightarrow> h = g" for h f
    using flight_invD(1,2) [OF inv] by blast+
  have b: "\<not> busy s' h f" for h f using only [of h f] finish by (auto simp: busy_def split: if_splits)
  have "k \<in> set (flClosed s) \<or> (\<exists>h. flPc s' h = Closing k)" if "flPc s h = Waiting k" for h k
  proof -
    have pc: "flPc s' = (flPc s)(g := Closing c)" using finish by simp
    from flight_invD(4) [OF inv that] finish e consider "k \<in> set (flClosed s)" | h where "flPc s h = Closing k" | "k = c"
      by auto
    then show ?thesis
    proof cases
      case (2 h)
      then have "h \<noteq> g" using finish by auto
      with 2 pc have "flPc s' h = Closing k" by simp
      then show ?thesis by blast
    next
      case 3
      then have "flPc s' g = Closing k" using pc by simp
      then show ?thesis by blast
    qed simp
  qed
  then show ?thesis using b e finish unfolding flight_inv_def by (auto split: if_splits)
next
  case (close_ch g c)
  with flight_inv_move [OF inv, of g Looping _ "c # flClosed s"] show ?thesis by (auto simp: busy_def)
next
  case (sweep e now)
  then show ?thesis using flight_inv_idle [OF inv, of e] unfolding flight_inv_def by (auto simp: busy_def)
qed

text \<open>
  C2: one user is checked by one call at a time, and nobody waits in vain. However the calls, their
  cancellations and the sweeper interleave, at most one call is refreshing an entry or about to publish
  it, and it works on the entry that is in the cache; the channel it will close exists; and
  a call that waits does so for a channel that is closed, is about to be closed, or belongs to the
  refresh in progress.
\<close>

theorem single_flight:
  assumes "check_reach cfg s"
  shows "(busy s g e \<and> busy s h f \<longrightarrow> g = h \<and> e = f)
    \<and> (busy s g e \<longrightarrow> flCache s = Some e \<and> (\<exists>c. reInflight (flObj s e) = Some c))
    \<and> (flPc s k = Waiting c \<longrightarrow> c \<in> set (flClosed s) \<or> (\<exists>h. flPc s h = Closing c)
         \<or> (\<exists>h e. busy s h e \<and> reInflight (flObj s e) = Some c))"
proof -
  from assms have inv: "flight_inv s"
  proof (induction rule: check_reach.induct)
    case init
    then show ?case by (simp add: flight_inv_def flight_init_def busy_def)
  next
    case (step s s')
    then show ?case by (blast intro: flight_inv_step)
  qed
  have "e = f" if "busy s g e" "busy s h f" using flight_invD(1) [OF inv that(1)] flight_invD(1) [OF inv that(2)] by simp
  moreover have "\<exists>h e. busy s h e \<and> reInflight (flObj s e) = Some c"
    if "flCache s = Some e" "reInflight (flObj s e) = Some c" for e
    using flight_invD(3) [OF inv that] that(2) by blast
  ultimately show ?thesis using flight_invD(1,2,4) [OF inv] by blast
qed

theorem single_flight_witness:
  "\<exists>s. check_reach (rvCfg demo_revalidator) s \<and> busy s 0 0 \<and> flPc s 1 = Waiting 0 \<and> \<not> busy s 1 0"
proof -
  let ?s1 = "flight_init\<lparr>flObj := (flObj flight_init)(0 := new_entry (Some 0)), flCache := Some 0,
    flPc := (flPc flight_init)(0 := Refreshing 0), flNext := Suc 0\<rparr>"
  let ?s2 = "?s1\<lparr>flPc := (flPc ?s1)(1 := Waiting 0)\<rparr>"
  have "check_reach (rvCfg demo_revalidator) ?s1"
    by (rule check_reach.step [OF check_reach.init check_step.create]) (simp_all add: flight_init_def)
  then have reach: "check_reach (rvCfg demo_revalidator) ?s2"
    by (rule check_reach.step [OF _ check_step.wait [of _ 1 0 0]]) (simp_all add: flight_init_def new_entry_def)
  have "busy ?s2 0 0" "flPc ?s2 1 = Waiting 0" by (simp_all add: busy_def)
  with single_flight [OF reach, of 0 0 1 0 1 0] reach show ?thesis by (intro exI [of _ ?s2]) auto
qed

section \<open>Revocation\<close>

lemma upsertUser_same_keys:
  assumes inv: "fsm_inv s" and old: "gm_get (users s) (uID u) = Some old"
    and keys: "uUsername u = uUsername old" "uOAuthProvider u = uOAuthProvider old" "uOAuthID u = uOAuthID old"
  obtains s1 where "upsertUser u False s = (None, storeUser (stored_user (Some old) u) s1)" "tokens s1 = tokens s"
    "tokensByUser s1 = tokensByUser s" "tokensByHash s1 = tokensByHash s"
proof -
  have "gm_get (usersByName s) (to_lower (uUsername u)) = Some (uID u)"
    using idx_okI_get [OF by_name.index [OF inv] old] keys by (simp add: user_name_key_def)
  moreover have "uOAuthID u \<noteq> [] \<Longrightarrow> gm_get (usersByOAuth s) (oauthKey (uOAuthProvider u) (uOAuthID u)) = Some (uID u)"
    using idx_okI_get [OF by_oauth.index [OF inv] old] keys by (simp add: user_oauth_key_def)
  ultimately have free: "\<not> taken_by_other (usersByName s) (to_lower (uUsername u)) (uID u)"
    "uOAuthID u = [] \<or> \<not> taken_by_other (usersByOAuth s) (oauthKey (uOAuthProvider u) (uOAuthID u)) (uID u)"
    by (auto simp: taken_by_other_def)
  let ?s1 = "if uUsername old \<noteq> [] then s\<lparr>usersByName := gm_del (to_lower (uUsername old)) (usersByName s)\<rparr> else s"
  let ?s2 = "if uOAuthID old \<noteq> [] then ?s1\<lparr>usersByOAuth := gm_del (oauthKey (uOAuthProvider old) (uOAuthID old)) (usersByOAuth ?s1)\<rparr> else ?s1"
  have "upsertUser u False s = (None, storeUser (stored_user (Some old) u) ?s2)"
    using free old by (simp add: upsertUser_def Let_def stored_user_def)
  then show ?thesis by (rule that) simp_all
qed

lemma deleteToken_gone:
  assumes "fsm_inv s"
  shows "readTokenByUser uid (deleteToken uid s) = Inl ErrNotFound"
proof (cases "gm_get (tokensByUser s) uid")
  case None
  then show ?thesis by (simp add: deleteToken_def readTokenByUser_def)
next
  case (Some i)
  then obtain t where "gm_get (tokens s) i = Some t" "tkUserID t = uid"
    using idx_okD [OF by_owner.index [OF assms] Some] by (auto simp: token_user_key_def)
  with Some show ?thesis by (simp add: deleteToken_def removeToken_def readTokenByUser_def)
qed

lemma cmd_deleteToken:
  "applyCommand (newCommand kindDeleteToken (PDeleteToken uid)) s = (Inr RespNil, deleteToken uid s)"
  by (simp add: applyCommand_def applyEntityCommand_def newCommand_def kind_defs err_result_def)

lemma revoke_committed:
  assumes ok: "store_ok rs" and commits: "script rs = []" and old: "UserRepo_Get (uID u) rs = Inr old"
    and keys: "uUsername u = uUsername old" "uOAuthProvider u = uOAuthProvider old" "uOAuthID u = uOAuthID old"
    and rev: "revoke r now u rs = (u', rs')" and tok: "rvTokens r"
  shows "(\<exists>w. UserRepo_Get (uID u) rs' = Inr w \<and> uDeactivatedAt w = Some now)
    \<and> TokenRepo_GetByUser (uID u) rs' = Inl ErrNotFound"
proof -
  let ?v = "u\<lparr>uDeactivatedAt := Some now, uUpdatedAt := now\<rparr>"
  have get: "gm_get (users (fsm_state rs)) (uID ?v) = Some old"
    using old by (simp add: UserRepo_Get_def readUserByID_def read_row_def split: option.splits)
  obtain s1 where s1: "upsertUser ?v False (fsm_state rs) = (None, storeUser (stored_user (Some old) ?v) s1)"
    by (rule upsertUser_same_keys [OF ok get]) (use keys in simp_all)
  let ?w = "stored_user (Some old) ?v" and ?s2 = "storeUser (stored_user (Some old) ?v) s1"
  have ne: "uUsername ?v \<noteq> []" using get keys(1) fsm_invD(1) [OF ok] by (auto simp: users_inv_def)
  have inv2: "fsm_inv ?s2" using upsertUser_inv [OF ok ne s1] .
  have "applyCommand (newCommand kindUpsertUser (PUser ((cmdUserFrom ?v)\<lparr>cuCreate := False\<rparr>))) (fsm_state rs) = (Inr RespNil, ?s2)"
    by (simp add: cmd_upsertUser s1 err_result_def)
  from applyCtx_commit [OF commits this]
  have "UserRepo_Update now (u\<lparr>uDeactivatedAt := Some now\<rparr>) rs = (None, ?v, rs\<lparr>fsm_state := ?s2\<rparr>)"
    by (simp add: UserRepo_Update_def UserRepo_upsert_def Let_def)
  moreover have "Revoke (uID u) (rs\<lparr>fsm_state := ?s2\<rparr>) = (None, rs\<lparr>fsm_state := deleteToken (uID u) ?s2\<rparr>)"
    using applyCtx_commit [OF _ cmd_deleteToken, of "rs\<lparr>fsm_state := ?s2\<rparr>"] commits
    by (simp add: Revoke_def TokenRepo_Delete_def)
  ultimately have "rs' = rs\<lparr>fsm_state := deleteToken (uID u) ?s2\<rparr>"
    using rev tok by (auto simp: revoke_def Let_def)
  then show ?thesis
    using storeUser_reads(1) [of ?w s1] deleteToken_gone [OF inv2]
    by (simp add: UserRepo_Get_def TokenRepo_GetByUser_def readUserByID_def deleteToken_frame)
qed

text \<open>
  What a refusal of the provider does in a first check: with no entry in the cache and every write committing, the call is
  denied, the user is stored as deactivated and no API token of the user is left.
\<close>

lemma revocation_effect:
  assumes ok: "store_ok rs" and commits: "script rs = []" and old: "UserRepo_Get (uID u) rs = Inr u"
    and prov: "provider_ok reval" "reval u rs = (Inl e, u, rs)" "e = ErrForbidden \<or> e = ErrSessionRevoked"
    and active: "uDeactivatedAt u = None" and tok: "rvTokens r" and cold: "gm_get cache (uID u) = None"
    and jit: "jitter_ok jit (rvCfg r) d" and clock: "0 \<le> clk k" "clk (Suc k) < clk k + d"
  shows "\<exists>u' cache' rs' w. Check (Suc (Suc n)) r reval jit freshID clk k u cache rs
      = Some (Inl ErrSessionRevoked, u', cache', rs')
    \<and> UserRepo_Get (uID u) rs' = Inr w \<and> Deactivated w \<and> TokenRepo_GetByUser (uID u) rs' = Inl ErrNotFound"
proof -
  obtain u' rs' where v: "revoke r (clk k) u rs = (u', rs')" by (cases "revoke r (clk k) u rs")
  let ?e = "record_state jit (rvCfg r) stateRevoked (clk k) ((new_entry (Some k))\<lparr>reCredential := uOAuthTokenCiphertext u\<rparr>)"
  have "e \<noteq> errOAuthNoCredential" "e \<noteq> errOAuthCredentialExpired" "e \<noteq> errOAuthNotLeaderRefresh"
    using prov(3) by (auto simp: errOAuthNoCredential_def errOAuthCredentialExpired_def errOAuthNotLeaderRefresh_def)
  then have ref: "refresh r reval jit freshID (clk k) u (new_entry (Some k)) rs = (?e, u', rs')"
    using prov(2,3) active v by (simp add: refresh_def)
  note fr = refresh_fresh [OF prov(1) ref jit clock]
  have "serve (rvCfg r) (?e\<lparr>reInflight := None\<rparr>) now = Inl ErrSessionRevoked" for now
    by (simp add: serve_def record_state_def)
  then have "Check (Suc (Suc n)) r reval jit freshID clk k u cache rs
      = Some (Inl ErrSessionRevoked, u', gm_put (uID u) (?e\<lparr>reInflight := None\<rparr>) cache, rs')"
    using cold ref fr by simp
  with revoke_committed [OF ok commits old _ _ _ v tok] show ?thesis by (auto simp: Deactivated_def)
qed

end
