(* ===== verification/OAuth_Providers.thy ===== *)
theory OAuth_Providers
  imports Revalidator
begin

text \<open>
  The two OAuth providers: \<^verbatim>\<open>src/internal/service/oauth_github.go\<close> and
  \<^verbatim>\<open>oauth_oidc.go\<close>. What the servers answer is an argument: \<open>github_api\<close> gives, per token, the
  transport error or the status and the decoded body of each request; \<open>oidc_api\<close> gives the results of
  discovery, code exchange, token verification, token refresh and the userinfo request. The
  libraries the login needs are collected in \<open>oauth_libs\<close>. A claim of an OIDC token is a
  string, a list (each element by the text \<^verbatim>\<open>%v\<close> prints) or something else. go-oidc asks the
  token source for a token before the userinfo request and flattens its error into a text.
\<close>

record oauth_libs =
  olFind :: rx_find
  olExpand :: rx_expand
  olSign :: signer
  olSeal :: "string \<Rightarrow> string \<Rightarrow> (error, string) result"
  olUnseal :: "string \<Rightarrow> string \<Rightarrow> (error, string) result"
  olMarshal :: "oauthCredential \<Rightarrow> (error, string) result"
  olUnmarshal :: "string \<Rightarrow> (error, oauthCredential) result"

section \<open>GitHub\<close>

record githubUser =
  ghID :: int
  ghLogin :: string

record github_api =
  gaToken :: "string \<Rightarrow> (error, string \<times> string) result"
  gaUser :: "string \<Rightarrow> (error, int \<times> (error, githubUser) result) result"
  gaOrgs :: "string \<Rightarrow> (error, int \<times> (error, string list) result) result"
  gaTeams :: "string \<Rightarrow> (error, int \<times> (error, (string \<times> string) list) result) result"

record GitHubOAuthService =
  ghAllowedOrgs :: "string list"
  ghAllowedTeams :: "string list"
  ghAdminGroups :: "string list"
  ghDefaultGroup :: string
  ghMappedMax :: int
  ghMapper :: "GroupMapper option"
  ghEncKey :: string

definition exchangeCode :: "github_api \<Rightarrow> string \<Rightarrow> (error, string) result" where
  "exchangeCode api code = (case gaToken api code of
     Inl e \<Rightarrow> Inl e
   | Inr (accessToken, err) \<Rightarrow>
       if err \<noteq> [] then Inl (ErrOther ''github token error'')
       else if accessToken = [] then Inl (ErrOther ''empty access token'')
       else Inr accessToken)"

definition getJSON :: "(error, int \<times> (error, 'a) result) result \<Rightarrow> (error, 'a) result" where
  "getJSON resp = (case resp of
     Inl e \<Rightarrow> Inl e
   | Inr (status, body) \<Rightarrow> if status \<noteq> 200 then Inl (ErrOther ''github api status'') else body)"

definition fetchUser :: "github_api \<Rightarrow> string \<Rightarrow> (error, githubUser) result" where
  "fetchUser api accessToken = (case getJSON (gaUser api accessToken) of
     Inl e \<Rightarrow> Inl e
   | Inr u \<Rightarrow> if ghID u = 0 \<or> ghLogin u = [] then Inl (ErrOther ''incomplete github user'') else Inr u)"

definition fetchOrgs :: "github_api \<Rightarrow> string \<Rightarrow> (error, string list) result" where
  "fetchOrgs api accessToken = getJSON (gaOrgs api accessToken)"

definition fetchTeams :: "github_api \<Rightarrow> string \<Rightarrow> (error, string list) result" where
  "fetchTeams api accessToken = (case getJSON (gaTeams api accessToken) of
     Inl e \<Rightarrow> Inl e
   | Inr ts \<Rightarrow> Inr (map (\<lambda>(slug, org). org @ ''/'' @ slug) (filter (\<lambda>(slug, org). \<not> (slug = [] \<or> org = [])) ts)))"

text \<open>The part that login and revalidation share: the provider groups that pass the allow lists.\<close>

definition teams_needed :: "GitHubOAuthService \<Rightarrow> bool" where
  "teams_needed gh \<longleftrightarrow> ghAllowedTeams gh \<noteq> [] \<or> Active (ghMapper gh)"

definition github_groups :: "github_api \<Rightarrow> GitHubOAuthService \<Rightarrow> string \<Rightarrow> (error, string list) result" where
  "github_groups api gh accessToken = (case fetchOrgs api accessToken of
     Inl e \<Rightarrow> Inl e
   | Inr orgs \<Rightarrow>
       (case (if teams_needed gh
              then (case fetchTeams api accessToken of
                      Inl e \<Rightarrow> if ghAllowedTeams gh \<noteq> [] then Inl e else Inr []
                    | Inr ts \<Rightarrow> Inr ts)
              else Inr []) of
          Inl e \<Rightarrow> Inl e
        | Inr teams \<Rightarrow>
            if ghAllowedOrgs gh \<noteq> [] \<and> \<not> orgsIntersect (ghAllowedOrgs gh) orgs then Inl ErrForbidden
            else if ghAllowedTeams gh \<noteq> [] \<and> \<not> orgsIntersect (ghAllowedTeams gh) teams then Inl ErrForbidden
            else Inr (orgs @ teams)))"

definition GitHub_Complete ::
    "oauth_libs \<Rightarrow> JWTService \<Rightarrow> github_api \<Rightarrow> GitHubOAuthService \<Rightarrow> (string \<Rightarrow> string) \<Rightarrow> string \<Rightarrow> gotime \<Rightarrow> string
      \<Rightarrow> RaftStore \<Rightarrow> (error, string \<times> string \<times> User) result \<times> RaftStore" where
  "GitHub_Complete libs js api gh freshID newID now code rs = (case exchangeCode api code of
     Inl e \<Rightarrow> (Inl e, rs)
   | Inr accessToken \<Rightarrow> (case fetchUser api accessToken of
       Inl e \<Rightarrow> (Inl e, rs)
     | Inr ghUser \<Rightarrow> (case github_groups api gh accessToken of
         Inl e \<Rightarrow> (Inl e, rs)
       | Inr providerGroups \<Rightarrow>
           completeOAuthLogin (olSign libs) js (olSeal libs) (olMarshal libs) (ghEncKey gh) freshID newID now
             ''github'' (show_int (ghID ghUser)) (ghLogin ghUser) (ghDefaultGroup gh) (ghAdminGroups gh) providerGroups
             (mapIfActive (olFind libs) (olExpand libs) (ghMapper gh) providerGroups) (ghMappedMax gh)
             (Some \<lparr>ocProvider = ''github'', ocAccessToken = accessToken, ocRefreshToken = [], ocExpiresAt = zero_time\<rparr>)
             rs)))"

definition GitHub_Revalidate :: "oauth_libs \<Rightarrow> github_api \<Rightarrow> GitHubOAuthService \<Rightarrow> provider" where
  "GitHub_Revalidate libs api gh u rs =
     ((if uOAuthTokenCiphertext u = [] then Inl errOAuthNoCredential
       else case decryptOAuthCredential (olUnseal libs) (olUnmarshal libs) (ghEncKey gh) (uOAuthTokenCiphertext u) of
              Inl _ \<Rightarrow> Inl ErrSessionRevoked
            | Inr None \<Rightarrow> Inl ErrSessionRevoked
            | Inr (Some cred) \<Rightarrow> (case fetchUser api (ocAccessToken cred) of
                Inl _ \<Rightarrow> Inl ErrSessionRevoked
              | Inr _ \<Rightarrow> github_groups api gh (ocAccessToken cred))), u, rs)"

section \<open>OpenID Connect\<close>

datatype claim = CStr string | CList "string list" | COther
type_synonym claim_map = "(string, claim) gomap"

datatype idp_error = RetrieveError string "int option" | IdpMsg string

record oidc_token =
  otAccess :: string
  otRefresh :: string
  otExpiry :: gotime
  otIDToken :: string

record id_token =
  idSubject :: string
  idAudience :: "string list"
  idClaims :: "(error, claim_map) result"

record oidc_api =
  oaFactory :: "(error, unit) result"
  oaExchange :: "string \<Rightarrow> (error, oidc_token) result"
  oaVerify :: "string \<Rightarrow> (error, id_token) result"
  oaUserInfo :: "string \<Rightarrow> (idp_error, (error, claim_map) result) result"
  oaToken :: "oauthCredential \<Rightarrow> (idp_error, oidc_token) result"

record OIDCOAuthService =
  oiClientID :: string
  oiUsernameClaim :: string
  oiGroupsClaim :: string
  oiAllowedOrgs :: "string list"
  oiAllowedGroups :: "string list"
  oiAdminGroups :: "string list"
  oiDefaultGroup :: string
  oiMappedMax :: int
  oiMapper :: "GroupMapper option"
  oiEncKey :: string
  oiScopes :: "string list"
  oiCached :: bool

definition oidc_scopes :: "string list \<Rightarrow> string list" where
  "oidc_scopes scopes =
     (let s1 = (if List.member scopes ''openid'' then scopes else scopes @ [''openid'']) in
      if List.member scopes ''offline_access'' then s1 else s1 @ [''offline_access''])"

definition discover :: "oidc_api \<Rightarrow> OIDCOAuthService \<Rightarrow> (error, unit) result \<times> OIDCOAuthService" where
  "discover api s =
     (if oiCached s then (Inr (), s)
      else case oaFactory api of Inl e \<Rightarrow> (Inl e, s) | Inr _ \<Rightarrow> (Inr (), s\<lparr>oiCached := True\<rparr>))"

fun effective_groups :: "string list \<Rightarrow> string list \<Rightarrow> string list" where
  "effective_groups [] out = out"
| "effective_groups (g # gs) out = effective_groups gs (if List.member out g then out else out @ [g])"

definition effectiveAllowedGroups :: "OIDCOAuthService \<Rightarrow> string list" where
  "effectiveAllowedGroups s = effective_groups (oiAllowedGroups s @ oiAllowedOrgs s) []"

definition claimString :: "claim_map \<Rightarrow> string \<Rightarrow> string" where
  "claimString cm key = (case gm_get cm key of Some (CStr v) \<Rightarrow> v | _ \<Rightarrow> [])"

definition claimMissing :: "claim_map \<Rightarrow> string \<Rightarrow> bool" where
  "claimMissing cm key \<longleftrightarrow> gm_get cm key = None"

definition mergeUserInfo :: "oidc_api \<Rightarrow> string \<Rightarrow> claim_map \<Rightarrow> claim_map" where
  "mergeUserInfo api accessToken cm = (case oaUserInfo api accessToken of
     Inr (Inr ui) \<Rightarrow> fold (\<lambda>(k, v) m. if gm_get m k = None then gm_put k v m else m) ui cm
   | _ \<Rightarrow> cm)"

definition resolveUsername :: "OIDCOAuthService \<Rightarrow> claim_map \<Rightarrow> (error, string) result" where
  "resolveUsername s cm =
     (if claimString cm (oiUsernameClaim s) \<noteq> [] then Inr (claimString cm (oiUsernameClaim s))
      else if claimString cm ''email'' \<noteq> [] then Inr (claimString cm ''email'')
      else Inl (ErrOther ''no usable username claim''))"

definition resolveGroups :: "OIDCOAuthService \<Rightarrow> claim_map \<Rightarrow> string list" where
  "resolveGroups s cm = (case gm_get cm (oiGroupsClaim s) of
     None \<Rightarrow> []
   | Some (CStr v) \<Rightarrow> (if v = [] then [] else [v])
   | Some (CList vs) \<Rightarrow> vs
   | Some COther \<Rightarrow> [])"

definition azp_ok :: "OIDCOAuthService \<Rightarrow> id_token \<Rightarrow> claim_map \<Rightarrow> bool" where
  "azp_ok s tok cm \<longleftrightarrow> length (idAudience tok) \<le> 1
     \<or> claimString cm ''azp'' \<noteq> [] \<and> claimString cm ''azp'' = oiClientID s"

definition allowed_groups :: "OIDCOAuthService \<Rightarrow> string list \<Rightarrow> bool" where
  "allowed_groups s gs \<longleftrightarrow> effectiveAllowedGroups s = [] \<or> orgsIntersect (effectiveAllowedGroups s) gs"

text \<open>The claims a login works with: those of the verified ID token, completed from userinfo.\<close>

definition login_claims :: "oidc_api \<Rightarrow> OIDCOAuthService \<Rightarrow> string \<Rightarrow> claim_map \<Rightarrow> claim_map" where
  "login_claims api s accessToken cm =
     (if claimMissing cm (oiUsernameClaim s) \<or> claimMissing cm ''email'' \<or> claimMissing cm (oiGroupsClaim s)
      then mergeUserInfo api accessToken cm else cm)"

definition OIDC_Complete ::
    "oauth_libs \<Rightarrow> JWTService \<Rightarrow> oidc_api \<Rightarrow> OIDCOAuthService \<Rightarrow> (string \<Rightarrow> string) \<Rightarrow> string \<Rightarrow> gotime \<Rightarrow> string
      \<Rightarrow> RaftStore \<Rightarrow> (error, string \<times> string \<times> User) result \<times> OIDCOAuthService \<times> RaftStore" where
  "OIDC_Complete libs js api s freshID newID now code rs = (case discover api s of
     (Inl e, s) \<Rightarrow> (Inl e, s, rs)
   | (Inr _, s) \<Rightarrow> (case oaExchange api code of
       Inl e \<Rightarrow> (Inl e, s, rs)
     | Inr tok \<Rightarrow>
         if otIDToken tok = [] then (Inl (ErrOther ''no id_token returned''), s, rs)
         else (case oaVerify api (otIDToken tok) of
           Inl e \<Rightarrow> (Inl e, s, rs)
         | Inr idt \<Rightarrow>
             if idSubject idt = [] then (Inl (ErrOther ''id token missing sub claim''), s, rs)
             else (case idClaims idt of
               Inl e \<Rightarrow> (Inl e, s, rs)
             | Inr idcm \<Rightarrow>
                 if \<not> azp_ok s idt idcm then (Inl (ErrOther ''azp does not match client_id''), s, rs)
                 else
                   let cm = login_claims api s (otAccess tok) idcm in
                   case resolveUsername s cm of
                     Inl e \<Rightarrow> (Inl e, s, rs)
                   | Inr username \<Rightarrow>
                       let gs = resolveGroups s cm in
                       if \<not> allowed_groups s gs then (Inl ErrForbidden, s, rs)
                       else
                         let (res, rs') = completeOAuthLogin (olSign libs) js (olSeal libs) (olMarshal libs) (oiEncKey s)
                               freshID newID now ''oidc'' (idSubject idt) username (oiDefaultGroup s) (oiAdminGroups s) gs
                               (mapIfActive (olFind libs) (olExpand libs) (oiMapper s) gs) (oiMappedMax s)
                               (Some \<lparr>ocProvider = ''oidc'', ocAccessToken = otAccess tok, ocRefreshToken = otRefresh tok,
                                      ocExpiresAt = otExpiry tok\<rparr>) rs
                         in (res, s, rs')))))"

definition oauthTokenRevoked :: "idp_error \<Rightarrow> bool" where
  "oauthTokenRevoked e = (case e of
     RetrieveError code status \<Rightarrow>
       code = ''invalid_grant'' \<or> code = ''invalid_token'' \<or> status = Some 401
   | IdpMsg msg \<Rightarrow> contains msg ''invalid_grant'' \<or> contains msg ''invalid_token'' \<or> contains msg ''401 Unauthorized'')"

text \<open>
  \<^verbatim>\<open>refreshingSource.Token\<close>: \<open>Inl None\<close> is the error \<open>errOAuthNotLeaderRefresh\<close>. The credential and
  the user object are the shared ones, so they are returned.
\<close>

definition source_Token ::
    "oauth_libs \<Rightarrow> oidc_api \<Rightarrow> string \<Rightarrow> gotime \<Rightarrow> User \<Rightarrow> oauthCredential \<Rightarrow> RaftStore
      \<Rightarrow> (idp_error option, oidc_token) result \<times> User \<times> oauthCredential \<times> RaftStore" where
  "source_Token libs api encKey now u cred rs = (case oaToken api cred of
     Inl e \<Rightarrow> (Inl (Some e), u, cred, rs)
   | Inr tok \<Rightarrow>
       if otAccess tok \<noteq> ocAccessToken cred \<or> otRefresh tok \<noteq> ocRefreshToken cred then
         let cred = cred\<lparr>ocAccessToken := otAccess tok, ocRefreshToken := otRefresh tok, ocExpiresAt := otExpiry tok\<rparr> in
         (case encryptOAuthCredential (olSeal libs) (olMarshal libs) encKey (Some cred) of
            Inl _ \<Rightarrow> (Inr tok, u, cred, rs)
          | Inr ct \<Rightarrow>
              if ct = [] then (Inr tok, u, cred, rs)
              else (case UserRepo_Update now (u\<lparr>uOAuthTokenCiphertext := ct\<rparr>) rs of
                      (Some e, u, rs) \<Rightarrow> (if e = ErrNotLeader then Inl None else Inr tok, u, cred, rs)
                    | (None, u, rs) \<Rightarrow> (Inr tok, u, cred, rs)))
       else (Inr tok, u, cred, rs))"

text \<open>\<^verbatim>\<open>UserInfo\<close> over the refreshing source: its token error becomes a text.\<close>

definition flatten_err :: "idp_error option \<Rightarrow> idp_error" where
  "flatten_err e = (case e of
     None \<Rightarrow> IdpMsg ''oidc: get access token: oauth refresh requires raft leadership''
   | Some (RetrieveError code status) \<Rightarrow> IdpMsg (''oidc: get access token: oauth2: '' @
       (if code \<noteq> [] then code else ''cannot fetch token: '' @ (if status = Some 401 then ''401 Unauthorized'' else [])))
   | Some (IdpMsg m) \<Rightarrow> IdpMsg (''oidc: get access token: '' @ m))"

definition source_UserInfo ::
    "oauth_libs \<Rightarrow> oidc_api \<Rightarrow> string \<Rightarrow> gotime \<Rightarrow> User \<Rightarrow> oauthCredential \<Rightarrow> RaftStore
      \<Rightarrow> (idp_error, (error, claim_map) result) result \<times> User \<times> oauthCredential \<times> RaftStore" where
  "source_UserInfo libs api encKey now u cred rs = (case source_Token libs api encKey now u cred rs of
     (Inl e, u, cred, rs) \<Rightarrow> (Inl (flatten_err e), u, cred, rs)
   | (Inr tok, u, cred, rs) \<Rightarrow> (oaUserInfo api (otAccess tok), u, cred, rs))"

definition unavailable :: error where
  "unavailable = ErrOther ''oidc: userinfo''"

definition userinfo_groups :: "OIDCOAuthService \<Rightarrow> (error, claim_map) result \<Rightarrow> (error, string list) result" where
  "userinfo_groups s ui = (case ui of
     Inl e \<Rightarrow> Inl (ErrOther ''oidc: userinfo decode'')
   | Inr cm \<Rightarrow>
       let gs = resolveGroups s cm in
       if \<not> allowed_groups s gs then Inl ErrForbidden else Inr gs)"

definition OIDC_Revalidate ::
    "oauth_libs \<Rightarrow> oidc_api \<Rightarrow> OIDCOAuthService \<Rightarrow> bool \<Rightarrow> gotime \<Rightarrow> provider" where
  "OIDC_Revalidate libs api s leader now u rs =
     (if uOAuthTokenCiphertext u = [] then (Inl errOAuthNoCredential, u, rs)
      else case decryptOAuthCredential (olUnseal libs) (olUnmarshal libs) (oiEncKey s) (uOAuthTokenCiphertext u) of
        Inl _ \<Rightarrow> (Inl errOAuthCredentialExpired, u, rs)
      | Inr None \<Rightarrow> (Inl errOAuthCredentialExpired, u, rs)
      | Inr (Some cred) \<Rightarrow>
          if \<not> leader then (Inl errOAuthNotLeaderRefresh, u, rs)
          else (case fst (discover api s) of
            Inl _ \<Rightarrow> (Inl (ErrOther ''oidc: discover provider''), u, rs)
          | Inr _ \<Rightarrow> (case source_UserInfo libs api (oiEncKey s) now u cred rs of
              (Inr ui, u, cred, rs) \<Rightarrow> (userinfo_groups s ui, u, rs)
            | (Inl e, u, cred, rs) \<Rightarrow>
                if \<not> oauthTokenRevoked e then (Inl unavailable, u, rs)
                else (case source_Token libs api (oiEncKey s) now u cred rs of
                    (Inl None, u, cred, rs) \<Rightarrow> (Inl errOAuthNotLeaderRefresh, u, rs)
                  | (Inl (Some e'), u, cred, rs) \<Rightarrow>
                      (Inl (if oauthTokenRevoked e' then errOAuthCredentialExpired else unavailable), u, rs)
                  | (Inr _, u, cred, rs) \<Rightarrow> (case source_UserInfo libs api (oiEncKey s) now u cred rs of
                      (Inr ui, u, cred, rs) \<Rightarrow> (userinfo_groups s ui, u, rs)
                    | (Inl e, u, cred, rs) \<Rightarrow>
                        (Inl (if oauthTokenRevoked e then errOAuthCredentialExpired else unavailable), u, rs))))))"

section \<open>Who may log in\<close>

lemma effective_groups_set: "set (effective_groups gs out) = set out \<union> set gs"
  by (induction gs arbitrary: out) auto

lemma allowed_groups_iff:
  "allowed_groups s gs \<longleftrightarrow> oiAllowedGroups s = [] \<and> oiAllowedOrgs s = []
     \<or> (\<exists>g \<in> set gs. g \<in> set (oiAllowedGroups s) \<or> g \<in> set (oiAllowedOrgs s))"
proof -
  have set: "set (effectiveAllowedGroups s) = set (oiAllowedGroups s) \<union> set (oiAllowedOrgs s)"
    by (simp add: effectiveAllowedGroups_def effective_groups_set)
  then have "effectiveAllowedGroups s = [] \<longleftrightarrow> oiAllowedGroups s = [] \<and> oiAllowedOrgs s = []"
    by (metis Un_empty set_empty)
  then show ?thesis by (auto simp: allowed_groups_def orgsIntersect_def list_ex_iff set)
qed

lemma github_groups_allowed:
  assumes "github_groups api gh at' = Inr gs"
  obtains orgs teams where "gs = orgs @ teams" "fetchOrgs api at' = Inr orgs"
    "teams = [] \<or> fetchTeams api at' = Inr teams"
    "ghAllowedOrgs gh = [] \<or> (\<exists>g \<in> set orgs. g \<in> set (ghAllowedOrgs gh))"
    "ghAllowedTeams gh = [] \<or> (\<exists>g \<in> set teams. g \<in> set (ghAllowedTeams gh))"
proof -
  obtain orgs where o: "fetchOrgs api at' = Inr orgs" using assms by (auto simp: github_groups_def split: sum.splits)
  obtain teams where "gs = orgs @ teams" "teams = [] \<or> fetchTeams api at' = Inr teams"
    "ghAllowedOrgs gh = [] \<or> orgsIntersect (ghAllowedOrgs gh) orgs"
    "ghAllowedTeams gh = [] \<or> orgsIntersect (ghAllowedTeams gh) teams"
    using assms o by (auto simp: github_groups_def split: sum.splits if_splits)
  with o show ?thesis by (intro that [of orgs teams]) (auto simp: orgsIntersect_def list_ex_iff)
qed

text \<open>
  C36: a login passes the allow lists. A GitHub login succeeds only if the user is in an
  allowed organisation and an allowed team, where such are configured, as reported by the API for the exchanged
  token; an OIDC login succeeds only for a verified ID token with a subject, whose authorised
  party is this client when the token has several audiences, and with an allowed group, where
  such are configured; a login that is turned down writes nothing.
\<close>

theorem oauth_login_allowlisted:
  "(\<forall>res rs'. GitHub_Complete libs js api gh freshID newID now code rs = (Inr res, rs') \<longrightarrow>
      (\<exists>at' orgs teams. exchangeCode api code = Inr at' \<and> fetchOrgs api at' = Inr orgs
        \<and> (ghAllowedOrgs gh = [] \<or> (\<exists>g \<in> set orgs. g \<in> set (ghAllowedOrgs gh)))
        \<and> (ghAllowedTeams gh = [] \<or> fetchTeams api at' = Inr teams \<and> (\<exists>g \<in> set teams. g \<in> set (ghAllowedTeams gh)))))
   \<and> (\<forall>res s' rs'. OIDC_Complete libs js oapi s freshID newID now code rs = (Inr res, s', rs') \<longrightarrow>
      (\<exists>tok idt cm. oaExchange oapi code = Inr tok \<and> oaVerify oapi (otIDToken tok) = Inr idt \<and> idSubject idt \<noteq> []
        \<and> idClaims idt = Inr cm \<and> (length (idAudience idt) \<le> 1 \<or> claimString cm ''azp'' = oiClientID s)
        \<and> (oiAllowedGroups s = [] \<and> oiAllowedOrgs s = [] \<or> (\<exists>g \<in> set (resolveGroups s (login_claims oapi s (otAccess tok) cm)).
              g \<in> set (oiAllowedGroups s) \<or> g \<in> set (oiAllowedOrgs s)))))
   \<and> (\<forall>at'. exchangeCode api code = Inr at' \<longrightarrow> is_err (github_groups api gh at') \<longrightarrow>
        snd (GitHub_Complete libs js api gh freshID newID now code rs) = rs)"
proof (intro conjI allI impI)
  fix res rs'
  assume "GitHub_Complete libs js api gh freshID newID now code rs = (Inr res, rs')"
  then obtain at' gs where at': "exchangeCode api code = Inr at'" "github_groups api gh at' = Inr gs"
    by (auto simp: GitHub_Complete_def split: sum.splits)
  from at'(2) show "\<exists>at' orgs teams. exchangeCode api code = Inr at' \<and> fetchOrgs api at' = Inr orgs
        \<and> (ghAllowedOrgs gh = [] \<or> (\<exists>g \<in> set orgs. g \<in> set (ghAllowedOrgs gh)))
        \<and> (ghAllowedTeams gh = [] \<or> fetchTeams api at' = Inr teams \<and> (\<exists>g \<in> set teams. g \<in> set (ghAllowedTeams gh)))"
    by (rule github_groups_allowed) (use at'(1) in auto)
next
  fix res s' rs'
  assume c: "OIDC_Complete libs js oapi s freshID newID now code rs = (Inr res, s', rs')"
  obtain d s1 where d: "discover oapi s = (d, s1)" by (cases "discover oapi s")
  have same: "oiClientID s1 = oiClientID s" "oiAllowedGroups s1 = oiAllowedGroups s" "oiAllowedOrgs s1 = oiAllowedOrgs s"
    "resolveGroups s1 = resolveGroups s" "login_claims oapi s1 = login_claims oapi s"
    using d by (auto simp: discover_def resolveGroups_def login_claims_def fun_eq_iff split: if_splits sum.splits)
  from c d obtain tok idt cm where t: "oaExchange oapi code = Inr tok" "oaVerify oapi (otIDToken tok) = Inr idt"
    "idSubject idt \<noteq> []" "idClaims idt = Inr cm" "azp_ok s1 idt cm"
    "allowed_groups s1 (resolveGroups s1 (login_claims oapi s1 (otAccess tok) cm))"
    by (auto simp: OIDC_Complete_def Let_def split: sum.splits if_splits prod.splits)
  from t(5,6) have "length (idAudience idt) \<le> 1 \<or> claimString cm ''azp'' = oiClientID s"
    "oiAllowedGroups s = [] \<and> oiAllowedOrgs s = [] \<or> (\<exists>g \<in> set (resolveGroups s (login_claims oapi s (otAccess tok) cm)).
       g \<in> set (oiAllowedGroups s) \<or> g \<in> set (oiAllowedOrgs s))"
    by (auto simp: azp_ok_def same allowed_groups_iff)
  with t show "\<exists>tok idt cm. oaExchange oapi code = Inr tok \<and> oaVerify oapi (otIDToken tok) = Inr idt \<and> idSubject idt \<noteq> []
        \<and> idClaims idt = Inr cm \<and> (length (idAudience idt) \<le> 1 \<or> claimString cm ''azp'' = oiClientID s)
        \<and> (oiAllowedGroups s = [] \<and> oiAllowedOrgs s = [] \<or> (\<exists>g \<in> set (resolveGroups s (login_claims oapi s (otAccess tok) cm)).
              g \<in> set (oiAllowedGroups s) \<or> g \<in> set (oiAllowedOrgs s)))" by blast
next
  fix at'
  assume "exchangeCode api code = Inr at'" "is_err (github_groups api gh at')"
  then show "snd (GitHub_Complete libs js api gh freshID newID now code rs) = rs"
    by (auto simp: GitHub_Complete_def split: sum.splits)
qed

section \<open>What ends an account\<close>

text \<open>
  An OIDC account is only ended by its groups. The revalidation of an OIDC user reports a lost membership
  only on the strength of a userinfo answer whose groups miss the allow list, and it never reports a
  revoked session: a credential that cannot be decrypted, refreshed or used is reported as
  expired, and a provider that cannot be reached as unavailable.
\<close>

theorem oidc_revokes_on_groups_only:
  "fst (OIDC_Revalidate libs api s leader now u rs) \<noteq> Inl ErrSessionRevoked
   \<and> (fst (OIDC_Revalidate libs api s leader now u rs) = Inl ErrForbidden \<longrightarrow>
      (\<exists>at' cm. oaUserInfo api at' = Inr (Inr cm) \<and> \<not> allowed_groups s (resolveGroups s cm)))"
proof -
  have ui: "x \<noteq> Inl ErrSessionRevoked \<and> (x = Inl ErrForbidden \<longrightarrow> (\<exists>cm. v = Inr cm \<and> \<not> allowed_groups s (resolveGroups s cm)))"
    if "x = userinfo_groups s v" for x v
    using that by (auto simp: userinfo_groups_def Let_def split: sum.splits if_splits)
  have src: "\<exists>at'. oaUserInfo api at' = Inr v" if "source_UserInfo libs api k now u cred rs = (Inr v, x)" for u cred rs k v x
    using that by (auto simp: source_UserInfo_def split: prod.splits sum.splits)
  show ?thesis
    unfolding OIDC_Revalidate_def
    by (auto simp: errOAuthNoCredential_def errOAuthCredentialExpired_def errOAuthNotLeaderRefresh_def unavailable_def
        split: sum.splits option.splits prod.splits if_splits dest!: src ui [OF sym])
qed

lemma GitHub_provider_ok: "provider_ok (GitHub_Revalidate libs api gh)"
  by (simp add: provider_ok_def GitHub_Revalidate_def)

text \<open>
  A GitHub outage ends accounts. When the request for the user's profile fails for any reason, a
  refused connection or a server error included, the revalidation of a GitHub user reports a revoked session; the
  user is then deactivated and the API token deleted, although nothing was learned about the user.
\<close>

theorem github_outage_deactivates:
  assumes ok: "store_ok rs" and commits: "script rs = []" and u: "UserRepo_Get (uID u) rs = Inr u"
    and cred: "uOAuthTokenCiphertext u \<noteq> []" "decryptOAuthCredential (olUnseal libs) (olUnmarshal libs) (ghEncKey gh)
        (uOAuthTokenCiphertext u) = Inr (Some cred)"
    and outage: "is_err (gaUser api (ocAccessToken cred)) \<or> gaUser api (ocAccessToken cred) = Inr (503, body)"
    and active: "uDeactivatedAt u = None" and tok: "rvTokens r" and cold: "gm_get cache (uID u) = None"
    and jit: "jitter_ok jit (rvCfg r) d" and clock: "0 \<le> clk k" "clk (Suc k) < clk k + d"
  shows "\<exists>u' cache' rs' w. Check (Suc (Suc n)) r (GitHub_Revalidate libs api gh) jit freshID clk k u cache rs
      = Some (Inl ErrSessionRevoked, u', cache', rs')
    \<and> UserRepo_Get (uID u) rs' = Inr w \<and> Deactivated w \<and> TokenRepo_GetByUser (uID u) rs' = Inl ErrNotFound"
proof -
  have "is_err (fetchUser api (ocAccessToken cred))"
    using outage by (auto simp: fetchUser_def getJSON_def is_err_def split: sum.splits)
  then have "GitHub_Revalidate libs api gh u rs = (Inl ErrSessionRevoked, u, rs)"
    using cred by (auto simp: GitHub_Revalidate_def is_err_def split: sum.splits)
  from revocation_effect [OF ok commits u GitHub_provider_ok this _ active tok cold jit clock]
  show ?thesis by simp
qed

section \<open>Examples\<close>

definition demo_libs :: oauth_libs where
  "demo_libs = \<lparr>olFind = (\<lambda>_ _. None), olExpand = (\<lambda>_ _ g _. g), olSign = (\<lambda>_ _. Inr ''jwt''), olSeal = toy_seal,
     olUnseal = toy_unseal, olMarshal = (\<lambda>c. Inr (ocAccessToken c)),
     olUnmarshal = (\<lambda>t. Inr \<lparr>ocProvider = ''github'', ocAccessToken = t, ocRefreshToken = [], ocExpiresAt = 0\<rparr>)\<rparr>"

definition demo_github :: GitHubOAuthService where
  "demo_github = \<lparr>ghAllowedOrgs = [''acme''], ghAllowedTeams = [], ghAdminGroups = [], ghDefaultGroup = ''team'',
     ghMappedMax = 2, ghMapper = None, ghEncKey = ''key''\<rparr>"

definition demo_api :: github_api where
  "demo_api = \<lparr>gaToken = (\<lambda>c. Inr (''tok'', [])), gaUser = (\<lambda>t. Inr (200, Inr \<lparr>ghID = 7, ghLogin = ''carol''\<rparr>)),
     gaOrgs = (\<lambda>t. Inr (200, Inr [''acme''])), gaTeams = (\<lambda>t. Inr (200, Inr []))\<rparr>"

definition demo_oidc :: OIDCOAuthService where
  "demo_oidc = \<lparr>oiClientID = ''me'', oiUsernameClaim = ''name'', oiGroupsClaim = ''groups'', oiAllowedOrgs = [],
     oiAllowedGroups = [''dev''], oiAdminGroups = [], oiDefaultGroup = ''team'', oiMappedMax = 1, oiMapper = None,
     oiEncKey = ''key'', oiScopes = [''openid''], oiCached = False\<rparr>"

definition demo_oidc_api :: oidc_api where
  "demo_oidc_api = \<lparr>oaFactory = Inr (), oaExchange = (\<lambda>_. Inr \<lparr>otAccess = ''a'', otRefresh = ''r'', otExpiry = 9, otIDToken = ''i''\<rparr>),
     oaVerify = (\<lambda>_. Inr \<lparr>idSubject = ''s'', idAudience = [''me''],
        idClaims = Inr [(''name'', CStr ''dan''), (''groups'', CList [''dev'', ''qa''])]\<rparr>),
     oaUserInfo = (\<lambda>_. Inr (Inr [(''groups'', CStr ''qa'')])),
     oaToken = (\<lambda>c. Inr \<lparr>otAccess = ocAccessToken c, otRefresh = ocRefreshToken c, otExpiry = 9, otIDToken = []\<rparr>)\<rparr>"

lemma not_err: "\<not> is_err x \<longleftrightarrow> (\<exists>y. x = Inr y)"
  by (simp add: is_err_def split: sum.split)

theorem oauth_login_allowlisted_witness:
  "(\<exists>res rs'. GitHub_Complete demo_libs demo_service demo_api demo_github (\<lambda>n. n) ''u9'' 70 ''code'' sample_store = (Inr res, rs'))
   \<and> (\<exists>orgs. fetchOrgs demo_api ''tok'' = Inr orgs \<and> (\<exists>g \<in> set orgs. g \<in> set (ghAllowedOrgs demo_github)))
   \<and> (\<exists>res s' rs'. OIDC_Complete demo_libs demo_service demo_oidc_api demo_oidc (\<lambda>n. n) ''u9'' 70 ''code'' sample_store = (Inr res, s', rs'))"
proof -
  let ?g = "GitHub_Complete demo_libs demo_service demo_api demo_github (\<lambda>n. n) ''u9'' 70 ''code'' sample_store"
  let ?o = "OIDC_Complete demo_libs demo_service demo_oidc_api demo_oidc (\<lambda>n. n) ''u9'' 70 ''code'' sample_store"
  have "\<not> is_err (fst ?g)" "\<not> is_err (fst ?o)" by code_simp+
  then obtain res res' where "fst ?g = Inr res" "fst ?o = Inr res'"
    unfolding not_err by blast
  then have g: "?g = (Inr res, snd ?g)" and o: "?o = (Inr res', fst (snd ?o), snd (snd ?o))"
    by (simp_all add: prod_eq_iff)
  have "exchangeCode demo_api ''code'' = Inr ''tok''" "ghAllowedOrgs demo_github \<noteq> []"
    by (simp_all add: exchangeCode_def demo_api_def demo_github_def)
  moreover note oauth_login_allowlisted [of demo_libs demo_service demo_api demo_github "\<lambda>n. n" "''u9''" 70 "''code''" sample_store
      demo_oidc_api demo_oidc, THEN conjunct1, rule_format, OF g]
  ultimately have "\<exists>orgs. fetchOrgs demo_api ''tok'' = Inr orgs \<and> (\<exists>g \<in> set orgs. g \<in> set (ghAllowedOrgs demo_github))"
    by auto
  with g o show ?thesis by blast
qed

definition carol_store :: RaftStore where
  "carol_store = snd (snd (UserRepo_Update 60 ((stored_user None (sample_user ''u1'' ''Alice'' 10))\<lparr>uOAuthTokenCiphertext := ''xtok''\<rparr>) sample_store))"

lemma UserRepo_Update_inv: "store_ok rs \<Longrightarrow> uUsername u \<noteq> [] \<Longrightarrow> store_ok (snd (snd (UserRepo_Update now u rs)))"
  unfolding UserRepo_Update_def UserRepo_upsert_def Let_def case_prod_beta snd_conv
  by (rule applyCtx_inv [OF _ _ prod.collapse [symmetric]]) (simp_all add: cmd_ok_def newCommand_def cmdUserFrom_def)

lemma carol_store_ok: "store_ok carol_store" "script carol_store = []"
  "\<exists>u. UserRepo_Get ''u1'' carol_store = Inr u \<and> uID u = ''u1'' \<and> uOAuthTokenCiphertext u = ''xtok'' \<and> uDeactivatedAt u = None"
proof -
  show "store_ok carol_store" unfolding carol_store_def
    by (rule UserRepo_Update_inv [OF sample_store_ok]) (simp add: sample_user_def stored_user_def)
  show "script carol_store = []" by code_simp
  have "(case UserRepo_Get ''u1'' carol_store of Inl _ \<Rightarrow> False
      | Inr u \<Rightarrow> uID u = ''u1'' \<and> uOAuthTokenCiphertext u = ''xtok'' \<and> uDeactivatedAt u = None)" by code_simp
  then show "\<exists>u. UserRepo_Get ''u1'' carol_store = Inr u \<and> uID u = ''u1'' \<and> uOAuthTokenCiphertext u = ''xtok'' \<and> uDeactivatedAt u = None"
    by (auto split: sum.splits)
qed

theorem oidc_revokes_on_groups_only_witness:
  "\<exists>u. fst (OIDC_Revalidate demo_libs demo_oidc_api demo_oidc True 70 u carol_store) = Inl ErrForbidden
    \<and> (\<exists>at' cm. oaUserInfo demo_oidc_api at' = Inr (Inr cm) \<and> \<not> allowed_groups demo_oidc (resolveGroups demo_oidc cm))"
proof -
  let ?u = "(stored_user None (sample_user ''u1'' ''Alice'' 10))\<lparr>uOAuthTokenCiphertext := ''xtok''\<rparr>"
  have "fst (OIDC_Revalidate demo_libs demo_oidc_api demo_oidc True 70 ?u carol_store) = Inl ErrForbidden" by code_simp
  with oidc_revokes_on_groups_only [of demo_libs demo_oidc_api demo_oidc True 70 ?u carol_store] show ?thesis by blast
qed

theorem github_outage_deactivates_witness:
  "\<exists>u u' cache' rs' w. UserRepo_Get ''u1'' carol_store = Inr u \<and> Check (Suc (Suc 0)) demo_revalidator
      (GitHub_Revalidate demo_libs (demo_api\<lparr>gaUser := \<lambda>_. Inl (ErrOther ''connection refused'')\<rparr>) demo_github)
      (\<lambda>d. d) (\<lambda>n. n) (\<lambda>k. 1000 + int k) 0 u [] carol_store = Some (Inl ErrSessionRevoked, u', cache', rs')
    \<and> UserRepo_Get ''u1'' rs' = Inr w \<and> Deactivated w"
proof -
  obtain u where u: "UserRepo_Get ''u1'' carol_store = Inr u" "uID u = ''u1''" "uOAuthTokenCiphertext u = ''xtok''"
    "uDeactivatedAt u = None" using carol_store_ok(3) by blast
  let ?api = "demo_api\<lparr>gaUser := \<lambda>_. Inl (ErrOther ''connection refused'')\<rparr>"
  let ?cred = "\<lparr>ocProvider = ''github'', ocAccessToken = ''tok'', ocRefreshToken = [], ocExpiresAt = 0\<rparr>"
  have "decryptOAuthCredential (olUnseal demo_libs) (olUnmarshal demo_libs) (ghEncKey demo_github) ''xtok'' = Inr (Some ?cred)"
    by (simp add: decryptOAuthCredential_def demo_libs_def demo_github_def toy_unseal_def)
  moreover have "jitter_ok (\<lambda>d. d) (rvCfg demo_revalidator) 300" "rvTokens demo_revalidator"
    by (simp_all add: jitter_ok_def demo_revalidator_def)
  ultimately show ?thesis
    using github_outage_deactivates [OF carol_store_ok(1,2), of u demo_libs demo_github ?cred ?api _ demo_revalidator "[]"
        "\<lambda>d. d" 300 "\<lambda>k. 1000 + int k" 0 0 "\<lambda>n. n"] u by (auto simp del: Check.simps)
qed

end
