(* ===== verification/Attribution.thy ===== *)
theory Attribution
  imports Lifecycle
begin

text \<open>
  Projects and the attribution of traces to groups: \<^verbatim>\<open>src/internal/service/project_service.go\<close>,
  \<^verbatim>\<open>project_mapper.go\<close> and \<^verbatim>\<open>attribution_service.go\<close>. The library of regular
  expressions is not modelled: \<open>compiles p\<close> says whether \<^verbatim>\<open>regexp.Compile\<close> accepts a pattern and
  \<open>matches p s\<close> is \<^verbatim>\<open>MatchString\<close>. \<open>new\<close> is the id that \<^verbatim>\<open>newID\<close> draws, and \<open>clk k\<close> the
  \<open>k\<close>-th reading of the clock in one call. Log lines are left out. The results that hold for every
  outcome of the writes are stated without a hypothesis on the cluster; what a successful
  ingestion stores is stated for a cluster that commits (\<open>script rs = []\<close>).
\<close>

section \<open>Projects\<close>

definition maxProjectNameLen :: nat where "maxProjectNameLen = 256"

definition requireGroup :: "string \<Rightarrow> RaftStore \<Rightarrow> error option" where
  "requireGroup groupID rs =
     (if groupID = [] then None
      else case GroupRepo_Get groupID rs of Inl e \<Rightarrow> Some e | Inr _ \<Rightarrow> None)"

definition Project_Create ::
    "string \<Rightarrow> gotime \<Rightarrow> string \<Rightarrow> string \<Rightarrow> RaftStore \<Rightarrow> (error, Project) result \<times> RaftStore" where
  "Project_Create new now name groupID rs =
     (if name = [] then (Inl ErrValidation, rs)
      else if length name > maxProjectNameLen then (Inl ErrValidation, rs)
      else case requireGroup groupID rs of
        Some e \<Rightarrow> (Inl e, rs)
      | None \<Rightarrow>
          let p = \<lparr>pID = new, pName = name, pGroupID = groupID, pCreatedAt = zero_time, pUpdatedAt = zero_time\<rparr>
          in case ProjectRepo_Create now p rs of
               (Some e, _, rs') \<Rightarrow> (Inl e, rs')
             | (None, p', rs') \<Rightarrow> (Inr p', rs'))"

definition Project_Get :: "string \<Rightarrow> RaftStore \<Rightarrow> (error, Project) result" where
  "Project_Get i rs = ProjectRepo_Get i rs"

definition Project_List :: "RaftStore \<Rightarrow> Project list" where
  "Project_List rs = ProjectRepo_List rs"

definition Project_Delete :: "string \<Rightarrow> RaftStore \<Rightarrow> error option \<times> RaftStore" where
  "Project_Delete i rs = ProjectRepo_Delete i rs"

definition Project_Assign ::
    "gotime \<Rightarrow> string \<Rightarrow> string \<Rightarrow> RaftStore \<Rightarrow> (error, Project) result \<times> RaftStore" where
  "Project_Assign now i groupID rs = (case ProjectRepo_Get i rs of
     Inl e \<Rightarrow> (Inl e, rs)
   | Inr p \<Rightarrow>
       (case requireGroup groupID rs of
          Some e \<Rightarrow> (Inl e, rs)
        | None \<Rightarrow>
            (case ProjectRepo_Update now (p\<lparr>pGroupID := groupID\<rparr>) rs of
               (Some e, _, rs') \<Rightarrow> (Inl e, rs')
             | (None, p', rs') \<Rightarrow> (Inr p', rs'))))"

definition GetOrCreateByName ::
    "string \<Rightarrow> gotime \<Rightarrow> string \<Rightarrow> RaftStore \<Rightarrow> (error, Project) result \<times> RaftStore" where
  "GetOrCreateByName new now name rs =
     (if name = [] then (Inl ErrValidation, rs)
      else if length name > maxProjectNameLen then (Inl ErrValidation, rs)
      else case ProjectRepo_GetByName name rs of
        Inr p \<Rightarrow> (Inr p, rs)
      | Inl e \<Rightarrow>
          if e \<noteq> ErrNotFound then (Inl e, rs)
          else
            let p = \<lparr>pID = new, pName = name, pGroupID = [], pCreatedAt = zero_time, pUpdatedAt = zero_time\<rparr>
            in case ProjectRepo_Create now p rs of
                 (None, p', rs') \<Rightarrow> (Inr p', rs')
               | (Some e', _, rs') \<Rightarrow>
                   (case ProjectRepo_GetByName name rs' of
                      Inr again \<Rightarrow> (Inr again, rs')
                    | Inl _ \<Rightarrow> (Inl e', rs')))"

section \<open>The configured mapping\<close>

record ProjectMappingRule =
  prPattern :: string
  prGroup :: string

type_synonym ProjectMapper = "ProjectMappingRule list"

fun compile_project_rules ::
    "(string \<Rightarrow> bool) \<Rightarrow> ProjectMappingRule list \<Rightarrow> ProjectMapper \<Rightarrow> (error, ProjectMapper) result" where
  "compile_project_rules compiles [] compiled = Inr compiled"
| "compile_project_rules compiles (rule # rules) compiled =
     (if prPattern rule = [] then Inl (ErrOther ''pattern must not be empty'')
      else if \<not> compiles (prPattern rule) then Inl (ErrOther ''bad pattern'')
      else compile_project_rules compiles rules (compiled @ [rule]))"

definition NewProjectMapper ::
    "(string \<Rightarrow> bool) \<Rightarrow> ProjectMappingRule list \<Rightarrow> (error, ProjectMapper) result" where
  "NewProjectMapper compiles rules = compile_project_rules compiles rules []"

definition ProjectMapper_Active :: "ProjectMapper option \<Rightarrow> bool" where
  "ProjectMapper_Active m = (case m of None \<Rightarrow> False | Some rules \<Rightarrow> rules \<noteq> [])"

fun first_rule :: "(string \<Rightarrow> string \<Rightarrow> bool) \<Rightarrow> ProjectMapper \<Rightarrow> string \<Rightarrow> string option" where
  "first_rule matches [] name = None"
| "first_rule matches (rule # rules) name =
     (if matches (prPattern rule) name then Some (prGroup rule) else first_rule matches rules name)"

definition ProjectMapper_Map ::
    "(string \<Rightarrow> string \<Rightarrow> bool) \<Rightarrow> ProjectMapper option \<Rightarrow> string \<Rightarrow> string option" where
  "ProjectMapper_Map matches m name = (case m of None \<Rightarrow> None | Some rules \<Rightarrow> first_rule matches rules name)"

section \<open>Attribution\<close>

text \<open>The collaborators of \<^verbatim>\<open>AttributionService\<close>.\<close>

record AttributionService =
  atCompiles :: "string \<Rightarrow> bool"
  atMatches :: "string \<Rightarrow> string \<Rightarrow> bool"
  projectMapper :: "ProjectMapper option"

definition SetProjectMapper :: "ProjectMapper option \<Rightarrow> AttributionService \<Rightarrow> AttributionService" where
  "SetProjectMapper m a = a\<lparr>projectMapper := m\<rparr>"

definition Provision :: "gotime \<Rightarrow> string \<Rightarrow> string \<Rightarrow> string \<Rightarrow> RaftStore \<Rightarrow> RaftStore" where
  "Provision now traceID userID version rs =
     (if traceID = [] then rs else snd (TraceMetaRepo_UpsertProvision now traceID userID version rs))"

text \<open>\<open>None\<close> is \<^verbatim>\<open>("", false)\<close>: no rule matched.\<close>

definition mappingAssign ::
    "AttributionService \<Rightarrow> gotime \<Rightarrow> Project \<Rightarrow> RaftStore \<Rightarrow> string option \<times> RaftStore" where
  "mappingAssign a now proj rs = (case ProjectMapper_Map (atMatches a) (projectMapper a) (pName proj) of
     None \<Rightarrow> (None, rs)
   | Some name \<Rightarrow>
       (case GroupRepo_GetByName name rs of
          Inl _ \<Rightarrow> (Some [], rs)
        | Inr g \<Rightarrow> let (_, rs') = Project_Assign now (pID proj) (gID g) rs in (Some (gID g), rs')))"

fun auto_loop ::
    "AttributionService \<Rightarrow> gotime \<Rightarrow> Project \<Rightarrow> Group list \<Rightarrow> RaftStore \<Rightarrow> string \<times> RaftStore" where
  "auto_loop a now proj [] rs = ([], rs)"
| "auto_loop a now proj (g # gs) rs =
     (if gAutoAssignPattern g = [] then auto_loop a now proj gs rs
      else if \<not> atCompiles a (gAutoAssignPattern g) then auto_loop a now proj gs rs
      else if atMatches a (gAutoAssignPattern g) (pName proj) then
        let (_, rs') = Project_Assign now (pID proj) (gID g) rs in (gID g, rs')
      else auto_loop a now proj gs rs)"

definition autoAssign :: "AttributionService \<Rightarrow> gotime \<Rightarrow> Project \<Rightarrow> RaftStore \<Rightarrow> string \<times> RaftStore" where
  "autoAssign a now proj rs = auto_loop a now proj (sort_key gID (GroupRepo_List rs)) rs"

definition resolveGroup :: "AttributionService \<Rightarrow> gotime \<Rightarrow> Project \<Rightarrow> RaftStore \<Rightarrow> string \<times> RaftStore" where
  "resolveGroup a now proj rs =
     (if ProjectMapper_Active (projectMapper a) then
        (case mappingAssign a now proj rs of
           (Some groupID, rs') \<Rightarrow> (groupID, rs')
         | (None, rs') \<Rightarrow> autoAssign a now proj rs')
      else autoAssign a now proj rs)"

definition cut_field :: "string \<Rightarrow> string" where
  "cut_field s = (if length s > maxIngestFieldLen then [] else s)"

definition ingest_group ::
    "AttributionService \<Rightarrow> string \<Rightarrow> (nat \<Rightarrow> gotime) \<Rightarrow> string \<Rightarrow> RaftStore \<Rightarrow> string \<times> RaftStore" where
  "ingest_group a new clk repo rs =
     (if repo = [] then ([], rs)
      else case GetOrCreateByName new (clk 0) repo rs of
             (Inl _, rs) \<Rightarrow> ([], rs)
           | (Inr proj, rs) \<Rightarrow>
               if pGroupID proj = [] then resolveGroup a (clk 1) proj rs else (pGroupID proj, rs))"

definition Ingest ::
    "AttributionService \<Rightarrow> string \<Rightarrow> (nat \<Rightarrow> gotime) \<Rightarrow> string \<Rightarrow> string \<Rightarrow> string \<Rightarrow> string \<Rightarrow> string \<Rightarrow> string
      \<Rightarrow> string \<Rightarrow> int \<Rightarrow> gotime \<Rightarrow> RaftStore \<Rightarrow> RaftStore" where
  "Ingest a new clk traceID userID ciRepo gitRemote ciProvider version status durationMS startedAt rs =
     (if traceID = [] \<or> length traceID > maxIngestFieldLen then rs
      else
        let repo = (if ciRepo = [] then gitRemote else ciRepo);
            repo = cut_field repo;
            ciProvider = cut_field ciProvider;
            version = cut_field version;
            status = cut_field status;
            (groupID, rs) = ingest_group a new clk repo rs;
            m = \<lparr>tmTraceID = traceID, tmUserID = userID, tmGroupID = groupID, tmProjectName = repo,
                 tmStatus = status, tmFailureReason = [], tmVersion = version, tmCIProvider = ciProvider,
                 tmCIRepo = repo, tmDurationMS = durationMS, tmStartedAt = startedAt, tmUpdatedAt = clk 2\<rparr>
        in snd (TraceMetaRepo_UpsertIngest (clk 3) m rs))"

section \<open>What a write of a project changes\<close>

text \<open>Only the project \<open>i\<close> may differ; everything but the projects is as before.\<close>

definition only_project :: "string \<Rightarrow> RaftStore \<Rightarrow> RaftStore \<Rightarrow> bool" where
  "only_project i rs rs' \<longleftrightarrow> (store_ok rs \<longrightarrow> store_ok rs')
     \<and> groups (fsm_state rs') = groups (fsm_state rs) \<and> groupsByName (fsm_state rs') = groupsByName (fsm_state rs)
     \<and> traces (fsm_state rs') = traces (fsm_state rs)
     \<and> (\<forall>j. j \<noteq> i \<longrightarrow> gm_get (projects (fsm_state rs')) j = gm_get (projects (fsm_state rs)) j)"

lemma only_project_refl [simp]: "only_project i rs rs"
  by (simp add: only_project_def)

lemma only_project_same: "fsm_state rs' = fsm_state rs \<Longrightarrow> only_project i rs rs'"
  by (simp add: only_project_def)

lemma only_project_trans: "only_project i r s \<Longrightarrow> only_project i s t \<Longrightarrow> only_project i r t"
  by (simp add: only_project_def)

lemma cmd_upsertProject:
  "applyCommand (newCommand kindUpsertProject (PProject p c)) s =
     (let (e, s') = upsertProject p c s in (err_result e, s'))"
  by (simp add: applyCommand_def applyEntityCommand_def newCommand_def kind_defs case_prod_beta)

lemma storeProject_fields [simp]:
  "groups (storeProject p s) = groups s" "groupsByName (storeProject p s) = groupsByName s"
  "traces (storeProject p s) = traces s"
  "gm_get (projects (storeProject p s)) j = (if j = pID p then Some p else gm_get (projects s) j)"
  "gm_get (projectsByName (storeProject p s)) k =
     (if k = to_lower (pName p) then Some (pID p) else gm_get (projectsByName s) k)"
  by (simp_all add: storeProject_def)

lemma upsertProject_only:
  assumes "upsertProject p c (fsm_state rs) = (e, fsm_state rs')"
  shows "only_project (pID p) rs rs'"
proof -
  have "store_ok rs \<Longrightarrow> store_ok rs'" using upsertProject_inv [OF _ assms] .
  with assms show ?thesis by (cases rule: upsertProject_cases) (simp_all add: only_project_def)
qed

text \<open>A write of a project is either not applied, or the state machine's own step.\<close>

lemma ProjectRepo_upsert_cases:
  assumes "ProjectRepo_upsert p c rs = (e, rs')"
  obtains (skipped) x where "e = Some x" "fsm_state rs' = fsm_state rs"
  | (applied) x where "upsertProject p c (fsm_state rs) = (x, fsm_state rs')" "e = None \<Longrightarrow> x = None"
  using assms unfolding ProjectRepo_upsert_def
proof (cases rule: applyCtx_cases)
  case (committed r)
  obtain x where x: "upsertProject p c (fsm_state rs) = (x, fsm_state rs')" "r = err_result x"
    using committed(1) by (auto simp: cmd_upsertProject split: prod.splits)
  have "x = None" if "e = None" using committed(2) that x(2) by (auto split: sum.splits)
  with x(1) show ?thesis by (rule applied)
next
  case (lost y r)
  obtain x where "upsertProject p c (fsm_state rs) = (x, fsm_state rs')"
    using lost(2) by (auto simp: cmd_upsertProject split: prod.splits)
  then show ?thesis by (rule applied) (simp add: lost(1))
qed (rule skipped)

lemma ProjectRepo_upsert_only:
  assumes "ProjectRepo_upsert p c rs = (e, rs')"
  shows "only_project (pID p) rs rs'"
  using assms by (cases rule: ProjectRepo_upsert_cases) (auto intro: only_project_same upsertProject_only)

lemma ProjectRepo_Create_upsert:
  assumes "ProjectRepo_Create now p rs = (e, p', rs')"
  shows "ProjectRepo_upsert p' True rs = (e, rs') \<and> pID p' = pID p \<and> pName p' = pName p \<and> pGroupID p' = pGroupID p
    \<and> stored_project None p' = p'"
  using assms by (auto simp: ProjectRepo_Create_def Let_def stored_project_def is_zero_def split: prod.splits if_splits)

lemma Project_Assign_only:
  assumes "store_ok rs" and "Project_Assign now i gid rs = (r, rs')"
  shows "only_project i rs rs'"
proof -
  have "pID p = i" if "ProjectRepo_Get i rs = Inr p" for p
    using that tbl_okD [OF by_project.ids [OF assms(1)]]
    by (auto simp: ProjectRepo_Get_def readProjectByID_def)
  with assms(2) show ?thesis
    by (auto simp: Project_Assign_def ProjectRepo_Update_def Let_def dest!: ProjectRepo_upsert_only
        split: sum.splits option.splits prod.splits)
qed

section \<open>Projects by name\<close>

lemma ProjectRepo_GetByName_row:
  "store_ok rs \<Longrightarrow> ProjectRepo_GetByName name rs = Inr p \<longleftrightarrow>
     gm_get (projects (fsm_state rs)) (pID p) = Some p \<and> to_lower (pName p) = to_lower name"
  by (auto simp: ProjectRepo_GetByName_def readProjectByName_def by_project.lookup_Inr project_name_key_def)

lemma GetOrCreateByName_cases:
  assumes "GetOrCreateByName new now name rs = (Inr p, rs')"
  obtains (found) "ProjectRepo_GetByName name rs = Inr p" "rs' = rs"
  | (created) "ProjectRepo_upsert p True rs = (None, rs')" "stored_project None p = p" "pID p = new"
      "pName p = name" "pGroupID p = []" "ProjectRepo_GetByName name rs = Inl ErrNotFound"
  | (collided) q e where "ProjectRepo_upsert q True rs = (Some e, rs')" "pID q = new" "pName q = name"
      "pGroupID q = []" "ProjectRepo_GetByName name rs' = Inr p"
  using assms
  by (auto simp: GetOrCreateByName_def Let_def dest!: ProjectRepo_Create_upsert
      split: if_splits sum.splits prod.splits option.splits)

lemma GetOrCreateByName_lookup:
  assumes ok: "store_ok rs" and res: "GetOrCreateByName new now name rs = (Inr p, rs')"
  shows "store_ok rs' \<and> ProjectRepo_GetByName name rs' = Inr p \<and> name \<noteq> [] \<and> length name \<le> 256
    \<and> only_project new rs rs'"
proof -
  have n: "name \<noteq> []" "length name \<le> 256"
    using res by (auto simp: GetOrCreateByName_def maxProjectNameLen_def split: if_splits)
  from res show ?thesis
  proof (cases rule: GetOrCreateByName_cases)
    case created
    have only: "only_project new rs rs'" using ProjectRepo_upsert_only [OF created(1)] created(3) by simp
    with ok have ok': "store_ok rs'" by (simp add: only_project_def)
    have "fsm_state rs' = storeProject p (fsm_state rs)"
      using created(1)
    proof (cases rule: ProjectRepo_upsert_cases)
      case (applied x)
      from applied(1) show ?thesis
        by (cases rule: upsertProject_cases) (use applied(2) created(2) in simp_all)
    qed simp
    then have "ProjectRepo_GetByName name rs' = Inr p"
      by (simp add: ProjectRepo_GetByName_row [OF ok'] created(4))
    with only ok' n show ?thesis by simp
  next
    case (collided q e)
    then show ?thesis using ProjectRepo_upsert_only [OF collided(1)] ok n by (simp add: only_project_def)
  qed (use ok n in simp)
qed

text \<open>
  Looking a project up by name or creating it is stable whatever the cluster answers. When the
  call returns a project, the store finds that project under the name (in any letter case), the same
  call made again returns it without writing anything, and no other project has changed.
\<close>

theorem GetOrCreateByName_stable:
  assumes ok: "store_ok rs" and res: "GetOrCreateByName new now name rs = (Inr p, rs')"
  shows "GetOrCreateByName new' now' name rs' = (Inr p, rs') \<and> to_lower (pName p) = to_lower name
    \<and> Project_Get (pID p) rs' = Inr p \<and> (i \<noteq> new \<longrightarrow> Project_Get i rs' = Project_Get i rs)"
proof -
  from GetOrCreateByName_lookup [OF ok res] have r: "store_ok rs'" "ProjectRepo_GetByName name rs' = Inr p" "name \<noteq> []"
    "length name \<le> 256" "only_project new rs rs'" by auto
  have "GetOrCreateByName new' now' name rs' = (Inr p, rs')"
    using r(2-4) by (simp add: GetOrCreateByName_def maxProjectNameLen_def)
  moreover have "Project_Get (pID p) rs' = Inr p" "to_lower (pName p) = to_lower name"
    using r(2) ProjectRepo_GetByName_row [OF r(1)]
    by (auto simp: Project_Get_def ProjectRepo_Get_def readProjectByID_def)
  moreover have "i \<noteq> new \<longrightarrow> Project_Get i rs' = Project_Get i rs"
    using r(5) by (simp add: only_project_def Project_Get_def ProjectRepo_Get_def readProjectByID_def read_row_def)
  ultimately show ?thesis by simp
qed

text \<open>The first write is lost by Raft but commits all the same; the call finds the project.\<close>

theorem GetOrCreateByName_stable_witness:
  "\<exists>p rs'. GetOrCreateByName ''p9'' 50 ''API'' (sample_store\<lparr>script := [OFail RErrLeadershipLost True]\<rparr>) = (Inr p, rs')
     \<and> GetOrCreateByName ''p10'' 60 ''API'' rs' = (Inr p, rs')"
proof -
  let ?rs = "sample_store\<lparr>script := [OFail RErrLeadershipLost True]\<rparr>"
  let ?r = "GetOrCreateByName ''p9'' 50 ''API'' ?rs"
  have "\<not> is_err (fst ?r)" by code_simp
  then obtain p where "?r = (Inr p, snd ?r)" by (cases ?r) (auto simp: is_err_def split: sum.splits)
  moreover have "store_ok ?rs" using sample_store_ok by simp
  ultimately show ?thesis using GetOrCreateByName_stable [of ?rs "''p9''" 50 "''API''" p "snd ?r" "''p10''" 60] by blast
qed

section \<open>The bound on stored text\<close>

text \<open>\<open>fits\<close> is the bound on a stored text.\<close>

definition fits :: "string \<Rightarrow> bool" where "fits s \<longleftrightarrow> length s \<le> 256"

definition bounded_trace :: "TraceMeta \<Rightarrow> bool" where
  "bounded_trace m \<longleftrightarrow> fits (tmTraceID m) \<and> fits (tmProjectName m) \<and> fits (tmStatus m) \<and> fits (tmFailureReason m)
     \<and> fits (tmVersion m) \<and> fits (tmCIProvider m) \<and> fits (tmCIRepo m)"

definition bounded_store :: "fsmState \<Rightarrow> bool" where
  "bounded_store s \<longleftrightarrow> (\<forall>i m. gm_get (traces s) i = Some m \<longrightarrow> bounded_trace m)
     \<and> (\<forall>i p. gm_get (projects s) i = Some p \<longrightarrow> fits (pName p))"

lemma fits_simps [simp]: "fits []" "fits (cut_field s)" "fits ''failed''" "fits ''success''" "fits (take 256 s)"
  by (simp_all add: fits_def cut_field_def maxIngestFieldLen_def)

lemma ValidTraceIDKey_fits: "ValidTraceIDKey t \<Longrightarrow> fits t"
  by (auto simp: ValidTraceIDKey_def name_re_def fits_def split: list.splits)

lemma bounded_trace_Let:
  "bounded_trace v \<Longrightarrow> (\<And>x. bounded_trace x \<Longrightarrow> bounded_trace (f x)) \<Longrightarrow> bounded_trace (Let v f)"
  by (simp add: Let_def)

lemma bounded_trace_if: "bounded_trace a \<Longrightarrow> bounded_trace b \<Longrightarrow> bounded_trace (if c then a else b)"
  by simp

lemma mergeIngest_bounded: "bounded_trace m \<Longrightarrow> bounded_trace e \<Longrightarrow> bounded_trace (mergeIngest m e)"
  unfolding mergeIngest_def
  by (intro bounded_trace_Let bounded_trace_if) (simp_all add: bounded_trace_def)

lemma upsertTraceIngest_bounded:
  "bounded_store s \<Longrightarrow> bounded_trace m \<Longrightarrow> bounded_store (upsertTraceIngest m s)"
  by (auto simp: bounded_store_def upsertTraceIngest_def split: option.splits if_splits intro: mergeIngest_bounded)

lemma upsertTraceProvision_bounded:
  "bounded_store s \<Longrightarrow> fits (cpTraceID p) \<Longrightarrow> fits (cpVersion p) \<Longrightarrow> bounded_store (upsertTraceProvision p s)"
  by (auto simp: bounded_store_def bounded_trace_def upsertTraceProvision_def Let_def split: option.splits if_splits)

lemma markTraceFailed_bounded:
  "bounded_store s \<Longrightarrow> fits (cfReason p) \<Longrightarrow> bounded_store (snd (markTraceFailed p s))"
  by (auto simp: bounded_store_def bounded_trace_def markTraceFailed_def split: option.splits if_splits)

lemma upsertProject_bounded:
  "bounded_store s \<Longrightarrow> fits (pName p) \<Longrightarrow> upsertProject p c s = (e, s') \<Longrightarrow> bounded_store s'"
  by (erule upsertProject_cases) (auto simp: bounded_store_def split: if_splits)

lemma ProjectRepo_upsert_bounded:
  "ProjectRepo_upsert p c rs = (e, rs') \<Longrightarrow> bounded_store (fsm_state rs) \<Longrightarrow> fits (pName p) \<Longrightarrow> bounded_store (fsm_state rs')"
  by (erule ProjectRepo_upsert_cases) (auto intro: upsertProject_bounded)

lemma Project_Assign_bounded:
  assumes "bounded_store (fsm_state rs)" and "Project_Assign now i gid rs = (r, rs')"
  shows "bounded_store (fsm_state rs')"
proof -
  have "fits (pName p)" if "ProjectRepo_Get i rs = Inr p" for p
    using that assms(1) by (auto simp: ProjectRepo_Get_def readProjectByID_def bounded_store_def)
  with assms show ?thesis
    by (auto simp: Project_Assign_def ProjectRepo_Update_def Let_def
        split: sum.splits option.splits prod.splits dest!: ProjectRepo_upsert_bounded)
qed

lemma auto_loop_bounded:
  "bounded_store (fsm_state rs) \<Longrightarrow> bounded_store (fsm_state (snd (auto_loop a now proj gs rs)))"
  by (induction gs) (auto simp: case_prod_beta intro: Project_Assign_bounded prod.collapse [symmetric])

lemma resolveGroup_bounded:
  "bounded_store (fsm_state rs) \<Longrightarrow> bounded_store (fsm_state (snd (resolveGroup a now proj rs)))"
  by (auto simp: resolveGroup_def mappingAssign_def autoAssign_def auto_loop_bounded Let_def
      split: option.splits sum.splits prod.splits intro: Project_Assign_bounded)

lemma GetOrCreateByName_bounded:
  assumes "bounded_store (fsm_state rs)" and "GetOrCreateByName new now name rs = (r, rs')"
  shows "bounded_store (fsm_state rs')"
proof (cases "name = [] \<or> length name > maxProjectNameLen")
  case False
  then have "fits name" by (simp add: fits_def maxProjectNameLen_def)
  with assms show ?thesis
    by (auto simp: GetOrCreateByName_def Let_def split: if_splits sum.splits option.splits prod.splits
        dest!: ProjectRepo_Create_upsert dest: ProjectRepo_upsert_bounded)
qed (use assms in \<open>auto simp: GetOrCreateByName_def split: if_splits\<close>)

lemma ingest_group_bounded:
  "bounded_store (fsm_state rs) \<Longrightarrow> bounded_store (fsm_state (snd (ingest_group a new clk repo rs)))"
  by (auto simp: ingest_group_def split: sum.splits prod.splits if_splits
      intro: resolveGroup_bounded GetOrCreateByName_bounded)


text \<open>A committed or lost write of a trace is the state machine's own step.\<close>

lemma trace_write_bounded:
  assumes "applyCtx k p rs = (e, rs')" and "bounded_store (fsm_state rs)"
    and "\<And>r s'. applyCommand (newCommand k p) (fsm_state rs) = (r, s') \<Longrightarrow> bounded_store s'"
  shows "bounded_store (fsm_state rs')"
  using assms(1) by (cases rule: applyCtx_cases) (use assms(2,3) in auto)

lemma cmd_ingest:
  "applyCommand (newCommand kindUpsertTraceIngest (PIngest m)) s = (Inr RespNil, upsertTraceIngest m s)"
  "applyCommand (newCommand kindUpsertTraceProvision (PProvision q)) s = (Inr RespNil, upsertTraceProvision q s)"
  by (simp_all add: applyCommand_def applyEntityCommand_def applyTraceCacheCommand_def newCommand_def kind_defs err_result_def)

lemma upsertTraceIngest_projects:
  "projects (upsertTraceIngest m s) = projects s" "projectsByName (upsertTraceIngest m s) = projectsByName s"
  by (simp_all add: upsertTraceIngest_def split: option.splits)

lemma UpsertIngest_bounded:
  assumes "bounded_store (fsm_state rs)" and "bounded_trace m"
  shows "bounded_store (fsm_state (snd (TraceMetaRepo_UpsertIngest now m rs)))"
proof (cases "TraceMetaRepo_UpsertIngest now m rs")
  case (Pair e rs')
  have "bounded_trace (m\<lparr>tmUpdatedAt := now\<rparr>)" using assms(2) by (simp add: bounded_trace_def)
  with assms Pair show ?thesis
    by (auto simp: TraceMetaRepo_UpsertIngest_def cmd_ingest split: if_splits
        dest!: trace_write_bounded intro: upsertTraceIngest_bounded)
qed

lemma UpsertProvision_bounded:
  assumes "bounded_store (fsm_state rs)" and "fits version"
  shows "bounded_store (fsm_state (snd (TraceMetaRepo_UpsertProvision now tid uid version rs)))"
proof (cases "TraceMetaRepo_UpsertProvision now tid uid version rs")
  case (Pair e rs')
  with assms ValidTraceIDKey_fits [of tid] show ?thesis
    by (auto simp: TraceMetaRepo_UpsertProvision_def cmd_ingest split: if_splits
        dest!: trace_write_bounded intro!: upsertTraceProvision_bounded)
qed

text \<open>
  Text of the client never grows the store without bound. Whatever an OTLP body claims about a
  trace, an ingestion keeps every stored trace and project text within 256 bytes, for every answer of
  the cluster; so do a provisioning with a version within the bound and a failure with any reason.
\<close>

theorem stored_text_bounded:
  assumes "bounded_store (fsm_state rs)"
  shows "bounded_store (fsm_state (Ingest a new clk tid uid repo remote prov ver st dur started rs))
    \<and> (fits pver \<longrightarrow> bounded_store (fsm_state (Provision now tid uid pver rs)))
    \<and> bounded_store (fsm_state (snd (Attribution_MarkFailed now tid reason rs)))"
proof (intro conjI impI)
  let ?g = "ingest_group a new clk (cut_field (if repo = [] then remote else repo)) rs"
  have "bounded_store (fsm_state (snd ?g))" using ingest_group_bounded [OF assms] .
  then show "bounded_store (fsm_state (Ingest a new clk tid uid repo remote prov ver st dur started rs))"
    using assms
    by (auto simp: Ingest_def Let_def case_prod_beta bounded_trace_def fits_def maxIngestFieldLen_def
        intro!: UpsertIngest_bounded) (simp_all add: fits_def [symmetric])
  show "bounded_store (fsm_state (Provision now tid uid pver rs))" if "fits pver"
    using UpsertProvision_bounded [OF assms that] assms by (simp add: Provision_def)
  have "bounded_store (fsm_state (snd (TraceMetaRepo_MarkFailed now tid r rs)))" if "fits r" for r
  proof -
    obtain out rs0 where n: "next_outcome rs = (out, rs0)" by (cases "next_outcome rs")
    show ?thesis
      using next_outcome_fsm [OF n] assms that
      by (auto simp: TraceMetaRepo_MarkFailed_def applyCtxResponse_def n cmd_markFailed Let_def case_prod_beta
          maxReasonLen_def fits_def intro!: markTraceFailed_bounded split: outcome.splits)
  qed
  then show "bounded_store (fsm_state (snd (Attribution_MarkFailed now tid reason rs)))"
    using assms by (auto simp: Attribution_MarkFailed_def maxIngestFieldLen_def Let_def fits_def split: sum.splits prod.splits)
      (metis fits_def fits_simps(5) snd_conv leI)+
qed


lemma sample_bounded: "bounded_store sample"
proof -
  have "list_all (\<lambda>(i, m). bounded_trace m) (traces sample) \<and> list_all (\<lambda>(i, p). fits (pName p)) (projects sample)"
    by code_simp
  then show ?thesis by (auto simp: bounded_store_def list_all_iff dest!: map_of_SomeD)
qed

definition plain_attribution :: AttributionService where
  "plain_attribution = \<lparr>atCompiles = (\<lambda>p. True), atMatches = (\<lambda>p s. has_prefix s p), projectMapper = None\<rparr>"

theorem stored_text_bounded_witness:
  "bounded_store (fsm_state (Ingest plain_attribution ''p9'' (\<lambda>k. 50) ''t9'' ''u1'' (replicate 300 CHR ''x'') [] [] [] [] 5 40 sample_store))
   \<and> bounded_store (fsm_state (Provision 50 ''t9'' ''u1'' ''v0.15'' sample_store))"
proof -
  have "bounded_store (fsm_state sample_store)" by (simp add: sample_store_def sample_bounded)
  from stored_text_bounded [OF this] show ?thesis by (simp add: fits_def)
qed

section \<open>The group of a trace\<close>

definition auto_candidate :: "AttributionService \<Rightarrow> string \<Rightarrow> Group \<Rightarrow> bool" where
  "auto_candidate a name g \<longleftrightarrow> gAutoAssignPattern g \<noteq> [] \<and> atCompiles a (gAutoAssignPattern g)
     \<and> atMatches a (gAutoAssignPattern g) name"

text \<open>
  The specification: of the configured rules whose pattern matches the name the first one decides alone (no group if its target
  does not exist), and when none matches the least id among the groups whose pattern matches.
\<close>

definition matching_rules :: "AttributionService \<Rightarrow> string \<Rightarrow> ProjectMappingRule list" where
  "matching_rules a name = filter (\<lambda>r. atMatches a (prPattern r) name)
     (case projectMapper a of None \<Rightarrow> [] | Some rules \<Rightarrow> rules)"

definition resolve_spec :: "AttributionService \<Rightarrow> string \<Rightarrow> RaftStore \<Rightarrow> string" where
  "resolve_spec a name rs =
     (if matching_rules a name \<noteq> []
      then (case GroupRepo_GetByName (prGroup (hd (matching_rules a name))) rs of Inr g \<Rightarrow> gID g | Inl _ \<Rightarrow> [])
      else let ids = gID ` {g. GroupRepo_Get (gID g) rs = Inr g \<and> auto_candidate a name g}
           in if ids = {} then [] else Min ids)"

definition attributed :: "AttributionService \<Rightarrow> string \<Rightarrow> RaftStore \<Rightarrow> string" where
  "attributed a repo rs = (case ProjectRepo_GetByName repo rs of
     Inr p \<Rightarrow> if pGroupID p \<noteq> [] then pGroupID p else resolve_spec a (pName p) rs
   | Inl _ \<Rightarrow> resolve_spec a repo rs)"

lemma first_rule_filter:
  "first_rule matches rules name = (case filter (\<lambda>r. matches (prPattern r) name) rules of
     [] \<Rightarrow> None | r # _ \<Rightarrow> Some (prGroup r))"
  by (induction rules) simp_all

lemma Map_matching_rules:
  "ProjectMapper_Map (atMatches a) (projectMapper a) name =
     (if matching_rules a name \<noteq> [] then Some (prGroup (hd (matching_rules a name))) else None)"
  by (auto simp: ProjectMapper_Map_def matching_rules_def first_rule_filter split: option.splits list.splits)

lemma auto_loop_find:
  "auto_loop a now proj gs rs = (case find (auto_candidate a (pName proj)) gs of
     None \<Rightarrow> ([], rs) | Some g \<Rightarrow> (gID g, snd (Project_Assign now (pID proj) (gID g) rs)))"
  by (induction gs) (auto simp: auto_candidate_def case_prod_beta)

lemma find_sorted_Min:
  assumes "sorted (map f xs)" and "find P xs = Some x"
  shows "f x = Min (f ` {y \<in> set xs. P y})"
  using find_sorted_least [OF assms] by (intro Min_eqI [symmetric]) auto

lemma set_GroupRepo_List: "store_ok rs \<Longrightarrow> g \<in> set (GroupRepo_List rs) \<longleftrightarrow> GroupRepo_Get (gID g) rs = Inr g"
  using vals_iff [OF by_group.ids] by (simp add: GroupRepo_List_def listGroups_def GroupRepo_Get_def readGroupByID_def)


lemma autoAssign_spec:
  assumes ok: "store_ok rs" and none: "ProjectMapper_Map (atMatches a) (projectMapper a) (pName proj) = None"
    and res: "autoAssign a now proj rs = (gid, rs')"
  shows "gid = resolve_spec a (pName proj) rs
    \<and> (rs' = rs \<and> gid = [] \<or> (\<exists>g. GroupRepo_Get gid rs = Inr g) \<and> rs' = snd (Project_Assign now (pID proj) gid rs))"
proof -
  let ?gs = "sort_key gID (GroupRepo_List rs)" and ?P = "auto_candidate a (pName proj)"
  have sp: "resolve_spec a (pName proj) rs = (let ids = gID ` {g \<in> set ?gs. ?P g} in if ids = {} then [] else Min ids)"
    using set_GroupRepo_List [OF ok] none by (auto simp: resolve_spec_def Map_matching_rules Let_def split: if_splits)
  show ?thesis
  proof (cases "find ?P ?gs")
    case None
    then have "{g \<in> set ?gs. ?P g} = {}" by (auto simp: find_None_iff)
    with None res sp show ?thesis by (simp add: autoAssign_def auto_loop_find)
  next
    case (Some g)
    have g: "g \<in> set ?gs" "?P g" using find_sorted_least [OF _ Some, of gID] by auto
    with find_sorted_Min [OF _ Some, of gID] sp have "gID g = resolve_spec a (pName proj) rs" by (auto simp: Let_def)
    with Some res g(1) set_GroupRepo_List [OF ok, of g] show ?thesis by (auto simp: autoAssign_def auto_loop_find)
  qed
qed

lemma resolveGroup_spec:
  assumes ok: "store_ok rs" and res: "resolveGroup a now proj rs = (gid, rs')"
  shows "gid = resolve_spec a (pName proj) rs
    \<and> (rs' = rs \<and> gid = [] \<or> (\<exists>g. GroupRepo_Get gid rs = Inr g) \<and> rs' = snd (Project_Assign now (pID proj) gid rs))"
proof (cases "ProjectMapper_Map (atMatches a) (projectMapper a) (pName proj)")
  case None
  then have "autoAssign a now proj rs = (gid, rs')"
    using res by (auto simp: resolveGroup_def mappingAssign_def split: if_splits)
  with ok None show ?thesis by (intro autoAssign_spec)
next
  case (Some n)
  then have "ProjectMapper_Active (projectMapper a)"
    by (auto simp: ProjectMapper_Active_def ProjectMapper_Map_def split: option.splits)
  moreover have "GroupRepo_Get (gID g) rs = Inr g" if "GroupRepo_GetByName n rs = Inr g" for g
    using that by_group.lookup_Inr [OF ok] by (auto simp: GroupRepo_GetByName_def readGroupByName_def GroupRepo_Get_def readGroupByID_def)
  ultimately show ?thesis
    using res Some
    by (auto simp: resolveGroup_def mappingAssign_def resolve_spec_def case_prod_beta Map_matching_rules
        split: sum.splits if_splits)
qed

lemma Project_Assign_commit:
  assumes sc: "script rs = []" and ok: "store_ok rs" and p: "gm_get (projects (fsm_state rs)) i = Some p"
    and g: "GroupRepo_Get gid rs = Inr g"
  shows "\<exists>rs' q. snd (Project_Assign now i gid rs) = rs' \<and> script rs' = [] \<and> only_project i rs rs'
    \<and> gm_get (projects (fsm_state rs')) i = Some q \<and> pGroupID q = gid \<and> pName q = pName p"
proof -
  let ?p = "p\<lparr>pGroupID := gid, pUpdatedAt := now\<rparr>"
  have i: "pID p = i" using tbl_okD [OF by_project.ids [OF ok] p] .
  have n: "gm_get (projectsByName (fsm_state rs)) (to_lower (pName p)) = Some i"
    using idx_okI_get [OF by_project.index [OF ok] p] by (simp add: project_name_key_def)
  define s' where "s' = storeProject (stored_project (Some p) ?p)
      ((fsm_state rs)\<lparr>projectsByName := gm_del (to_lower (pName p)) (projectsByName (fsm_state rs))\<rparr>)"
  have up: "upsertProject ?p False (fsm_state rs) = (None, s')"
    by (simp add: upsertProject_def s'_def p i n taken_by_other_def stored_project_def Let_def)
  have w: "ProjectRepo_upsert ?p False rs = (None, rs\<lparr>fsm_state := s'\<rparr>)"
    using applyCtx_commit [OF sc, of kindUpsertProject "PProject ?p False"] up
    by (simp add: ProjectRepo_upsert_def cmd_upsertProject err_result_def)
  have rq: "requireGroup gid rs = None" by (simp add: requireGroup_def g)
  have a: "Project_Assign now i gid rs = (Inr ?p, rs\<lparr>fsm_state := s'\<rparr>)"
    using p w rq by (simp add: Project_Assign_def ProjectRepo_Get_def readProjectByID_def read_row_def
        ProjectRepo_Update_def)
  have row: "gm_get (projects s') i = Some (stored_project (Some p) ?p)" unfolding s'_def by (simp add: i)
  have "pGroupID (stored_project (Some p) ?p) = gid" "pName (stored_project (Some p) ?p) = pName p"
    by (simp_all add: stored_project_def)
  moreover have "only_project i rs (rs\<lparr>fsm_state := s'\<rparr>)" using Project_Assign_only [OF ok a] .
  ultimately show ?thesis using sc row
    by (intro exI [of _ "rs\<lparr>fsm_state := s'\<rparr>"] exI [of _ "stored_project (Some p) ?p"]) (simp add: a)
qed

lemma GetOrCreateByName_commit:
  assumes sc: "script rs = []" and ok: "store_ok rs" and name: "name \<noteq> []" "length name \<le> 256"
    and new: "gm_get (projects (fsm_state rs)) new = None"
  shows "\<exists>p rs'. GetOrCreateByName new now name rs = (Inr p, rs') \<and> script rs' = []
    \<and> (ProjectRepo_GetByName name rs = Inr p \<or>
       ProjectRepo_GetByName name rs = Inl ErrNotFound \<and> pName p = name \<and> pGroupID p = [])"
proof (cases "ProjectRepo_GetByName name rs")
  case (Inr p)
  with sc name show ?thesis by (simp add: GetOrCreateByName_def maxProjectNameLen_def)
next
  case (Inl e)
  then have e: "e = ErrNotFound" and free: "\<And>i q. gm_get (projects (fsm_state rs)) i = Some q \<Longrightarrow> to_lower (pName q) \<noteq> to_lower name"
    using by_project.lookup_Inl [OF ok] by (auto simp: ProjectRepo_GetByName_def readProjectByName_def project_name_key_def)
  have "gm_get (projectsByName (fsm_state rs)) (to_lower name) = None"
    using Inl [unfolded e] by_project.lookup_no_panic [OF ok] free idx_okD [OF by_project.index [OF ok], of "to_lower name"]
    by (cases "gm_get (projectsByName (fsm_state rs)) (to_lower name)") (auto simp: project_name_key_def)
  then have up: "upsertProject q True (fsm_state rs) = (None, storeProject (stored_project None q) (fsm_state rs))"
    if "pID q = new" "pName q = name" for q
    using that new by (simp add: upsertProject_def stored_project_def Let_def)
  obtain x q rs' where c: "ProjectRepo_Create now
      \<lparr>pID = new, pName = name, pGroupID = [], pCreatedAt = zero_time, pUpdatedAt = zero_time\<rparr> rs = (x, q, rs')"
    by (rule prod_cases3)
  from ProjectRepo_Create_upsert [OF c] have q: "ProjectRepo_upsert q True rs = (x, rs')" "pID q = new" "pName q = name"
    "pGroupID q = []" by auto
  have "x = None" "script rs' = []"
    using q(1) applyCtx_commit [OF sc, of kindUpsertProject "PProject q True"] up [OF q(2,3)] sc
    by (auto simp: ProjectRepo_upsert_def cmd_upsertProject err_result_def)
  with c q name Inl e show ?thesis by (simp add: GetOrCreateByName_def maxProjectNameLen_def)
qed

lemma resolve_spec_cong:
  assumes "groups (fsm_state rs') = groups (fsm_state rs)" and "groupsByName (fsm_state rs') = groupsByName (fsm_state rs)"
  shows "resolve_spec a name rs' = resolve_spec a name rs"
proof -
  have "GroupRepo_Get i rs' = GroupRepo_Get i rs" "GroupRepo_GetByName n rs' = GroupRepo_GetByName n rs" for i n
    using assms by (simp_all add: GroupRepo_GetByName_def readGroupByName_def GroupRepo_Get_def readGroupByID_def
        read_idx_def read_row_def)
  then show ?thesis by (simp add: resolve_spec_def)
qed

lemma ingest_group_commit:
  assumes sc: "script rs = []" and ok: "store_ok rs" and repo: "repo \<noteq> []" "length repo \<le> 256"
    and new: "Project_Get new rs = Inl ErrNotFound"
  shows "\<exists>rs' q. ingest_group a new clk repo rs = (attributed a repo rs, rs') \<and> script rs' = [] \<and> store_ok rs'
    \<and> traces (fsm_state rs') = traces (fsm_state rs)
    \<and> ProjectRepo_GetByName repo rs' = Inr q \<and> pGroupID q = attributed a repo rs"
proof -
  have "gm_get (projects (fsm_state rs)) new = None"
    using new by (simp add: Project_Get_def ProjectRepo_Get_def readProjectByID_def read_row_def split: option.splits)
  from GetOrCreateByName_commit [OF sc ok repo this, of "clk 0"] obtain p rs1 where
    c: "GetOrCreateByName new (clk 0) repo rs = (Inr p, rs1)" "script rs1 = []"
    and p: "ProjectRepo_GetByName repo rs = Inr p \<or>
       ProjectRepo_GetByName repo rs = Inl ErrNotFound \<and> pName p = repo \<and> pGroupID p = []" by blast
  from GetOrCreateByName_lookup [OF ok c(1)] have ok1: "store_ok rs1" and l1: "ProjectRepo_GetByName repo rs1 = Inr p"
    and o1: "only_project new rs rs1" by auto
  have at: "attributed a repo rs = (if pGroupID p \<noteq> [] then pGroupID p else resolve_spec a (pName p) rs1)"
    using p resolve_spec_cong [of rs1 rs] o1 by (auto simp: attributed_def only_project_def)
  show ?thesis
  proof (cases "pGroupID p = []")
    case False
    with c l1 ok1 o1 at repo show ?thesis by (auto simp: ingest_group_def only_project_def)
  next
    case True
    obtain gid rs2 where r: "resolveGroup a (clk 1) p rs1 = (gid, rs2)" by (cases "resolveGroup a (clk 1) p rs1")
    from resolveGroup_spec [OF ok1 r] have gid: "gid = attributed a repo rs" using at True by simp
    have row: "gm_get (projects (fsm_state rs1)) (pID p) = Some p" "to_lower (pName p) = to_lower repo"
      using l1 by (simp_all add: ProjectRepo_GetByName_row [OF ok1])
    from resolveGroup_spec [OF ok1 r] consider "rs2 = rs1" "gid = []"
      | g where "GroupRepo_Get gid rs1 = Inr g" "rs2 = snd (Project_Assign (clk 1) (pID p) gid rs1)" by auto
    then show ?thesis
    proof cases
      case 1
      with r c l1 ok1 o1 gid True repo show ?thesis by (auto simp: ingest_group_def only_project_def)
    next
      case 2
      from Project_Assign_commit [OF c(2) ok1 row(1) 2(1), of "clk 1"] 2(2) obtain q where
        q: "script rs2 = []" "only_project (pID p) rs1 rs2" "gm_get (projects (fsm_state rs2)) (pID p) = Some q"
          "pGroupID q = gid" "pName q = pName p" by auto
      have ok2: "store_ok rs2" using q(2) ok1 by (simp add: only_project_def)
      have "ProjectRepo_GetByName repo rs2 = Inr q"
        using q(3,5) row(2) tbl_okD [OF by_project.ids [OF ok2] q(3)] by (simp add: ProjectRepo_GetByName_row [OF ok2])
      with q ok2 r c o1 gid True repo show ?thesis by (auto simp: ingest_group_def only_project_def)
    qed
  qed
qed

text \<open>
  C38: the group that an ingestion gives to a trace. On a cluster that commits every write, an ingestion with a valid trace id that names
  a repository of at most 256 characters stores the trace under the group of the project if it has one, else under the target
  of the first matching rule of the configuration, else under the least id among the groups whose
  pattern matches; a group that the trace already had wins. The project is stored with that group.
\<close>

theorem Ingest_attribution:
  assumes sc: "script rs = []" and ok: "store_ok rs" and tid: "ValidTraceIDKey tid"
    and repo: "repo = (if ci = [] then remote else ci)" "repo \<noteq> []" "length repo \<le> 256"
    and new: "Project_Get new rs = Inl ErrNotFound"
    and res: "rs' = Ingest a new clk tid uid ci remote prov ver st dur started rs"
  shows "\<exists>m q. TraceMetaRepo_Get tid rs' = Inr m \<and> tmCIRepo m = repo
    \<and> tmGroupID m = (case TraceMetaRepo_Get tid rs of
        Inr e \<Rightarrow> if tmGroupID e \<noteq> [] then tmGroupID e else attributed a repo rs
      | Inl _ \<Rightarrow> attributed a repo rs)
    \<and> ProjectRepo_GetByName repo rs' = Inr q \<and> pGroupID q = attributed a repo rs"
proof -
  have t: "tid \<noteq> []" "\<not> length tid > maxIngestFieldLen"
    using tid ValidTraceIDKey_fits [OF tid] by (auto simp: ValidTraceIDKey_def name_re_def fits_def maxIngestFieldLen_def)
  have cut: "cut_field repo = repo" using repo(3) by (simp add: cut_field_def maxIngestFieldLen_def)
  from ingest_group_commit [OF sc ok repo(2,3) new, of a clk] obtain rs1 q where
    g: "ingest_group a new clk repo rs = (attributed a repo rs, rs1)" "script rs1 = []"
      "traces (fsm_state rs1) = traces (fsm_state rs)" "ProjectRepo_GetByName repo rs1 = Inr q"
      "pGroupID q = attributed a repo rs" by blast
  let ?m = "\<lparr>tmTraceID = tid, tmUserID = uid, tmGroupID = attributed a repo rs, tmProjectName = repo,
     tmStatus = cut_field st, tmFailureReason = [], tmVersion = cut_field ver, tmCIProvider = cut_field prov,
     tmCIRepo = repo, tmDurationMS = dur, tmStartedAt = started, tmUpdatedAt = clk 2\<rparr>"
  have "rs' = snd (TraceMetaRepo_UpsertIngest (clk 3) ?m rs1)"
    using res t g(1) cut by (simp add: Ingest_def repo(1) [symmetric] Let_def)
  moreover define m where "m = (if is_zero (clk 2) then ?m\<lparr>tmUpdatedAt := clk 3\<rparr> else ?m)"
  ultimately have s: "fsm_state rs' = upsertTraceIngest m (fsm_state rs1)"
    using tid applyCtx_commit [OF g(2) cmd_ingest(1)] by (simp add: TraceMetaRepo_UpsertIngest_def)
  have m: "tmTraceID m = tid" "tmGroupID m = attributed a repo rs" "tmCIRepo m = repo" by (simp_all add: m_def)
  have "ProjectRepo_GetByName repo rs' = Inr q"
    using g(4) by (simp add: s ProjectRepo_GetByName_def readProjectByName_def upsertTraceIngest_projects)
  then show ?thesis
    using g(3,5) m repo(2) by (cases "gm_get (traces (fsm_state rs)) tid")
      (auto simp: TraceMetaRepo_Get_def readTrace_def read_row_def s upsertTraceIngest_def mergeIngest_def Let_def)
qed


text \<open>A new repository on the sample store, mapped to the group \<open>Ops\<close> by the configuration.\<close>

definition mapped_attribution :: AttributionService where
  "mapped_attribution = SetProjectMapper (Some [\<lparr>prPattern = ''api'', prGroup = ''Ops''\<rparr>]) plain_attribution"

theorem Ingest_attribution_witness:
  "\<exists>m q. TraceMetaRepo_Get ''t9''
        (Ingest mapped_attribution ''p9'' (\<lambda>k. 50) ''t9'' ''u1'' ''api-server'' [] [] [] ''running'' 5 40 sample_store) = Inr m
      \<and> tmGroupID m = ''g2'' \<and> ProjectRepo_GetByName ''api-server''
        (Ingest mapped_attribution ''p9'' (\<lambda>k. 50) ''t9'' ''u1'' ''api-server'' [] [] [] ''running'' 5 40 sample_store) = Inr q
      \<and> pGroupID q = ''g2''"
proof -
  have "script sample_store = []" by (simp add: sample_store_def)
  moreover have "ValidTraceIDKey ''t9''" "Project_Get ''p9'' sample_store = Inl ErrNotFound"
    "TraceMetaRepo_Get ''t9'' sample_store = Inl ErrNotFound" by code_simp+
  moreover have "matching_rules mapped_attribution ''api-server'' = [\<lparr>prPattern = ''api'', prGroup = ''Ops''\<rparr>]"
    "ProjectRepo_GetByName ''api-server'' sample_store = Inl ErrNotFound"
    "map_sum id gID (GroupRepo_GetByName ''Ops'' sample_store) = Inr ''g2''" by code_simp+
  then have "attributed mapped_attribution ''api-server'' sample_store = ''g2''"
    by (auto simp: attributed_def resolve_spec_def split: sum.splits)
  ultimately show ?thesis
    using Ingest_attribution [OF _ sample_store_ok, of "''t9''" "''api-server''" "''api-server''" "[]" "''p9''" _
        mapped_attribution "\<lambda>k. 50" "''u1''" "[]" "[]" "''running''" 5 40] by auto
qed

end
