(* ===== verification/History_Purge.thy ===== *)
theory History_Purge
  imports Raft_Store
begin

text \<open>
  Retention of the pipeline history, \<^verbatim>\<open>src/internal/service/history_purge.go\<close>: the purge of one
  trace, the purge of all expired traces, the sweeper, the cached statistics. The log and metric
  backends are arguments that say how each delete ends (\<open>None\<close> is a backend that is not configured).
  \<open>alive\<close> is the number of checks of the context that still find it alive, so that a loop may be
  cancelled before any of its rounds; \<open>clk k\<close> is the \<open>k\<close>-th reading of the clock in one call. The three
  entry points run under one mutex and each is one step. Prometheus counters and log lines are left
  out. Go's formatting of times and durations is the pair of arguments \<open>hpTime\<close> and \<open>hpDur\<close>.
\<close>

section \<open>Data\<close>

record HistoryGCConfig =
  hcEnabled :: bool
  hcMaxAge :: duration
  hcSchedule :: duration

record HistoryGCRunSummary =
  hgStartedAt :: string
  hgFinishedAt :: string
  hgPurgedTraces :: int
  hgSkippedRunning :: int
  hgLogsDeleted :: int
  hgMetricsDeleted :: int
  hgTelemetryErrors :: int
  hgErrors :: int
  hgMessage :: string

record HistoryGCRules =
  hrEnabled :: bool
  hrMaxAge :: string
  hrSchedule :: string
  hrLastRunAt :: string
  hrLastRunSummary :: "HistoryGCRunSummary option"
  hrNextRunAt :: string

record HistoryStats =
  hsTraceCount :: nat
  hsOldestUpdatedAt :: string
  hsCollectedAt :: string
  hsGC :: HistoryGCRules

record HistoryPurgeResult =
  prPurgedTraces :: int
  prLogsDeleted :: int
  prMetricsDeleted :: int
  prTraceIDs :: "string list"
  prAlreadyPurged :: int
  prMessage :: string

record HistoryPurgeService =
  hpLogs :: "(string \<Rightarrow> error option) option"
  hpMetrics :: "(string \<Rightarrow> error option) option"
  hpCfg :: HistoryGCConfig
  hpTime :: "gotime \<Rightarrow> string"
  hpDur :: "duration \<Rightarrow> string"
  hpCached :: "HistoryStats option"
  hpCachedAt :: gotime
  hpLastGC :: "HistoryGCRunSummary option"
  hpLastGCAt :: gotime
  hpNextGCAt :: gotime

definition historyStatsTTL :: duration where "historyStatsTTL = 15 * second"

record telemetryDeleteCounts =
  tcLogs :: int
  tcMetrics :: int
  tcErrors :: int

section \<open>One trace\<close>

definition deleteTraceTelemetry :: "HistoryPurgeService \<Rightarrow> string \<Rightarrow> telemetryDeleteCounts" where
  "deleteTraceTelemetry s traceID =
     (let tc = \<lparr>tcLogs = 0, tcMetrics = 0, tcErrors = 0\<rparr>;
          tc = (case hpLogs s of
            None \<Rightarrow> tc
          | Some delete \<Rightarrow> (case delete traceID of
              Some e \<Rightarrow> tc\<lparr>tcErrors := tcErrors tc + 1\<rparr> | None \<Rightarrow> tc\<lparr>tcLogs := tcLogs tc + 1\<rparr>))
      in case hpMetrics s of
           None \<Rightarrow> tc
         | Some delete \<Rightarrow> (case delete traceID of
             Some e \<Rightarrow> tc\<lparr>tcErrors := tcErrors tc + 1\<rparr> | None \<Rightarrow> tc\<lparr>tcMetrics := tcMetrics tc + 1\<rparr>))"

definition purgeTrace ::
    "HistoryPurgeService \<Rightarrow> string \<Rightarrow> RaftStore \<Rightarrow> telemetryDeleteCounts \<times> error option \<times> RaftStore" where
  "purgeTrace s traceID rs =
     (let tc = deleteTraceTelemetry s traceID; (e, rs') = TraceMetaRepo_Delete traceID rs in (tc, e, rs'))"

definition invalidateCache :: "HistoryPurgeService \<Rightarrow> HistoryPurgeService" where
  "invalidateCache s = s\<lparr>hpCached := None, hpCachedAt := zero_time\<rparr>"

definition empty_result :: HistoryPurgeResult where
  "empty_result = \<lparr>prPurgedTraces = 0, prLogsDeleted = 0, prMetricsDeleted = 0, prTraceIDs = [],
     prAlreadyPurged = 0, prMessage = []\<rparr>"

definition Purge ::
    "string \<Rightarrow> HistoryPurgeService \<Rightarrow> RaftStore
      \<Rightarrow> (error, HistoryPurgeResult) result \<times> HistoryPurgeService \<times> RaftStore" where
  "Purge traceID s rs =
     (if \<not> ValidTraceID traceID then (Inl ErrValidation, s, rs)
      else
        let tc = deleteTraceTelemetry s traceID;
            res = empty_result\<lparr>prTraceIDs := [traceID], prLogsDeleted := tcLogs tc, prMetricsDeleted := tcMetrics tc\<rparr>
        in case TraceMetaRepo_Get traceID rs of
             Inl e \<Rightarrow>
               if e = ErrNotFound then (Inr (res\<lparr>prAlreadyPurged := 1\<rparr>), invalidateCache s, rs)
               else (Inl e, s, rs)
           | Inr _ \<Rightarrow>
               (case TraceMetaRepo_Delete traceID rs of
                  (Some e, rs') \<Rightarrow> (Inl e, s, rs')
                | (None, rs') \<Rightarrow> (Inr (res\<lparr>prPurgedTraces := 1\<rparr>), invalidateCache s, rs')))"

section \<open>All expired traces\<close>

fun purge_loop ::
    "HistoryPurgeService \<Rightarrow> nat \<Rightarrow> TraceMeta list \<Rightarrow> HistoryPurgeResult \<Rightarrow> RaftStore \<Rightarrow> HistoryPurgeResult \<times> RaftStore" where
  "purge_loop s alive [] res rs = (res, rs)"
| "purge_loop s 0 (m # ms) res rs = (res\<lparr>prMessage := ''cancelled''\<rparr>, rs)"
| "purge_loop s (Suc alive) (m # ms) res rs =
     (let (tc, e, rs) = purgeTrace s (tmTraceID m) rs;
          res = res\<lparr>prLogsDeleted := prLogsDeleted res + tcLogs tc, prMetricsDeleted := prMetricsDeleted res + tcMetrics tc\<rparr>
      in case e of
           Some _ \<Rightarrow> purge_loop s alive ms res rs
         | None \<Rightarrow> purge_loop s alive ms
             (res\<lparr>prPurgedTraces := prPurgedTraces res + 1, prTraceIDs := prTraceIDs res @ [tmTraceID m]\<rparr>) rs)"

definition disabled_message :: string where
  "disabled_message = ''max_age must be positive; history purge is disabled''"

definition PurgeAll ::
    "gotime \<Rightarrow> nat \<Rightarrow> HistoryPurgeService \<Rightarrow> RaftStore \<Rightarrow> HistoryPurgeResult \<times> HistoryPurgeService \<times> RaftStore" where
  "PurgeAll now alive s rs =
     (if hcMaxAge (hpCfg s) \<le> 0 then (empty_result\<lparr>prMessage := disabled_message\<rparr>, s, rs)
      else
        let cutoff = now - hcMaxAge (hpCfg s);
            candidates = TraceMetaRepo_ListBefore cutoff True rs;
            (res, rs) = purge_loop s alive candidates empty_result rs
        in (res, invalidateCache s, rs))"

section \<open>The sweeper\<close>

text \<open>The loop returns whether it was cancelled.\<close>

fun gc_loop ::
    "HistoryPurgeService \<Rightarrow> nat \<Rightarrow> TraceMeta list \<Rightarrow> HistoryGCRunSummary \<Rightarrow> RaftStore
      \<Rightarrow> bool \<times> HistoryGCRunSummary \<times> RaftStore" where
  "gc_loop s alive [] sm rs = (False, sm, rs)"
| "gc_loop s 0 (m # ms) sm rs = (True, sm, rs)"
| "gc_loop s (Suc alive) (m # ms) sm rs =
     (if tmStatus m = [] \<or> tmStatus m = ''running''
      then gc_loop s alive ms (sm\<lparr>hgSkippedRunning := hgSkippedRunning sm + 1\<rparr>) rs
      else
        let (tc, e, rs) = purgeTrace s (tmTraceID m) rs;
            sm = sm\<lparr>hgLogsDeleted := hgLogsDeleted sm + tcLogs tc, hgMetricsDeleted := hgMetricsDeleted sm + tcMetrics tc,
                    hgTelemetryErrors := hgTelemetryErrors sm + tcErrors tc\<rparr>
        in case e of
             Some _ \<Rightarrow> gc_loop s alive ms (sm\<lparr>hgErrors := hgErrors sm + 1\<rparr>) rs
           | None \<Rightarrow> gc_loop s alive ms (sm\<lparr>hgPurgedTraces := hgPurgedTraces sm + 1\<rparr>) rs)"

definition recordGC :: "gotime \<Rightarrow> HistoryGCRunSummary \<Rightarrow> HistoryPurgeService \<Rightarrow> HistoryPurgeService" where
  "recordGC now sm s = s\<lparr>hpLastGC := Some sm, hpLastGCAt := now, hpNextGCAt := now + hcSchedule (hpCfg s)\<rparr>"

definition gc_finish ::
    "gotime \<Rightarrow> gotime \<Rightarrow> string \<Rightarrow> HistoryGCRunSummary \<Rightarrow> HistoryPurgeService \<Rightarrow> HistoryGCRunSummary \<times> HistoryPurgeService" where
  "gc_finish t u msg sm s =
     (let sm = sm\<lparr>hgFinishedAt := hpTime s t, hgMessage := msg\<rparr> in (sm, recordGC u sm s))"

definition RunGC ::
    "(nat \<Rightarrow> gotime) \<Rightarrow> nat \<Rightarrow> HistoryPurgeService \<Rightarrow> RaftStore
      \<Rightarrow> HistoryGCRunSummary \<times> HistoryPurgeService \<times> RaftStore" where
  "RunGC clk alive s rs =
     (let sm = \<lparr>hgStartedAt = hpTime s (clk 0), hgFinishedAt = [], hgPurgedTraces = 0, hgSkippedRunning = 0,
            hgLogsDeleted = 0, hgMetricsDeleted = 0, hgTelemetryErrors = 0, hgErrors = 0, hgMessage = []\<rparr> in
      if hcMaxAge (hpCfg s) \<le> 0 then
        let (sm, s) = gc_finish (clk 1) (clk 2) disabled_message sm s in (sm, s, rs)
      else
        let cutoff = clk 1 - hcMaxAge (hpCfg s);
            candidates = TraceMetaRepo_ListBefore cutoff False rs;
            (cancelled, sm, rs) = gc_loop s alive candidates sm rs;
            s = invalidateCache s;
            msg = (if cancelled then ''cancelled''
                   else if candidates = [] then ''no traces older than max_age'' else []);
            (sm, s) = gc_finish (clk 2) (clk 3) msg sm s
        in (sm, s, rs))"

section \<open>Statistics\<close>

definition GCRules :: "HistoryPurgeService \<Rightarrow> HistoryGCRules" where
  "GCRules s =
     (let rules = \<lparr>hrEnabled = hcEnabled (hpCfg s), hrMaxAge = hpDur s (hcMaxAge (hpCfg s)),
            hrSchedule = hpDur s (hcSchedule (hpCfg s)), hrLastRunAt = [], hrLastRunSummary = None, hrNextRunAt = []\<rparr>;
          rules = (if \<not> is_zero (hpLastGCAt s)
                   then rules\<lparr>hrLastRunAt := hpTime s (hpLastGCAt s), hrLastRunSummary := hpLastGC s\<rparr> else rules)
      in if hcEnabled (hpCfg s) \<and> \<not> is_zero (hpNextGCAt s)
         then rules\<lparr>hrNextRunAt := hpTime s (hpNextGCAt s)\<rparr> else rules)"

definition Stats :: "(nat \<Rightarrow> gotime) \<Rightarrow> HistoryPurgeService \<Rightarrow> RaftStore \<Rightarrow> HistoryStats \<times> HistoryPurgeService" where
  "Stats clk s rs =
     (let fresh =
            (let (count, oldest) = TraceMetaRepo_Stats rs;
                 stats = \<lparr>hsTraceCount = count, hsOldestUpdatedAt = [], hsCollectedAt = hpTime s (clk 1), hsGC = GCRules s\<rparr>;
                 stats = (if \<not> is_zero oldest then stats\<lparr>hsOldestUpdatedAt := hpTime s oldest\<rparr> else stats)
             in (stats, s\<lparr>hpCached := Some stats, hpCachedAt := clk 2\<rparr>))
      in case hpCached s of
           Some c \<Rightarrow> if time_sub (clk 0) (hpCachedAt s) < historyStatsTTL then (c, s) else fresh
         | None \<Rightarrow> fresh)"

section \<open>What a purge deletes\<close>

definition expired_trace :: "gotime \<Rightarrow> TraceMeta \<Rightarrow> bool" where
  "expired_trace cutoff m \<longleftrightarrow> \<not> is_zero (traceSortKey m) \<and> traceSortKey m \<le> cutoff \<and> \<not> running (tmStatus m)"

lemma candidates_iff:
  "store_ok rs \<Longrightarrow> m \<in> set (TraceMetaRepo_ListBefore cutoff protect rs) \<longleftrightarrow>
     TraceMetaRepo_Get (tmTraceID m) rs = Inr m \<and> \<not> is_zero (traceSortKey m) \<and> traceSortKey m \<le> cutoff
     \<and> (protect \<longrightarrow> \<not> running (tmStatus m))"
  using vals_iff [OF fsm_inv_rest(1)]
  by (auto simp: TraceMetaRepo_ListBefore_def listTracesBefore_def TraceMetaRepo_Get_def readTrace_def)

text \<open>The protected candidates are the others without the running ones, in the same order.\<close>

lemma candidates_protected:
  "TraceMetaRepo_ListBefore cutoff True rs = filter (\<lambda>m. \<not> running (tmStatus m)) (TraceMetaRepo_ListBefore cutoff False rs)"
  by (simp add: TraceMetaRepo_ListBefore_def listTracesBefore_def filter_sort conj_ac)

lemma cmd_deleteTrace:
  "applyCommand (newCommand kindDeleteTrace (PDeleteTrace tid)) s = (Inr RespNil, s\<lparr>traces := gm_del tid (traces s)\<rparr>)"
  by (simp add: applyCommand_def applyEntityCommand_def applyTraceCacheCommand_def newCommand_def kind_defs)

text \<open>\<open>pruned X s s'\<close>: \<open>s'\<close> is \<open>s\<close> without some of the traces in \<open>X\<close>.\<close>

definition pruned :: "string set \<Rightarrow> fsmState \<Rightarrow> fsmState \<Rightarrow> bool" where
  "pruned X s s' \<longleftrightarrow> (fsm_inv s \<longrightarrow> fsm_inv s') \<and> s' = s\<lparr>traces := traces s'\<rparr>
     \<and> (\<forall>t. gm_get (traces s') t = gm_get (traces s) t \<or> t \<in> X \<and> gm_get (traces s') t = None)"

lemma pruned_refl [simp]: "pruned X s s"
  by (simp add: pruned_def)

lemma pruned_trans:
  assumes "pruned X r s" and "pruned X s t"
  shows "pruned X r t"
proof -
  have "t = r\<lparr>traces := traces t\<rparr>"
    using assms unfolding pruned_def by (metis fsmState.surjective fsmState.update_convs(13))
  moreover have "\<forall>k. gm_get (traces t) k = gm_get (traces r) k \<or> k \<in> X \<and> gm_get (traces t) k = None"
    using assms unfolding pruned_def by metis
  ultimately show ?thesis using assms by (simp add: pruned_def)
qed

lemma pruned_mono: "pruned X s t \<Longrightarrow> X \<subseteq> Y \<Longrightarrow> pruned Y s t"
  unfolding pruned_def by blast

lemma prunedD:
  assumes "pruned X s s'"
  shows "s' = s\<lparr>traces := traces s'\<rparr>" and "t \<notin> X \<Longrightarrow> readTrace t s' = readTrace t s"
proof -
  show "s' = s\<lparr>traces := traces s'\<rparr>" using assms unfolding pruned_def by (elim conjE)
  show "readTrace t s' = readTrace t s" if "t \<notin> X"
    using assms that unfolding pruned_def readTrace_def read_row_def by metis
qed

lemma pruned_delete: "pruned {tid} s (s\<lparr>traces := gm_del tid (traces s)\<rparr>)"
proof -
  have "cmd_ok s (newCommand kindDeleteTrace (PDeleteTrace tid))" by (simp add: cmd_ok_def newCommand_def)
  from applyCommand_inv [OF _ this] show ?thesis by (auto simp: pruned_def cmd_deleteTrace)
qed

lemma purgeTrace_pruned:
  assumes "purgeTrace s tid rs = (tc, e, rs')"
  shows "pruned {tid} (fsm_state rs) (fsm_state rs') \<and> (e = None \<longrightarrow> gm_get (traces (fsm_state rs')) tid = None)"
proof -
  have "applyCtx kindDeleteTrace (PDeleteTrace tid) rs = (e, rs')"
    using assms by (simp add: purgeTrace_def TraceMetaRepo_Delete_def Let_def case_prod_beta prod_eq_iff)
  then show ?thesis
  proof (cases rule: applyCtx_cases)
    case (committed r)
    then have "fsm_state rs' = (fsm_state rs)\<lparr>traces := gm_del tid (traces (fsm_state rs))\<rparr>" by (simp add: cmd_deleteTrace)
    then show ?thesis using pruned_delete [of tid "fsm_state rs"] by simp
  next
    case (lost x r)
    then have "fsm_state rs' = (fsm_state rs)\<lparr>traces := gm_del tid (traces (fsm_state rs))\<rparr>" by (simp add: cmd_deleteTrace)
    then show ?thesis using pruned_delete [of tid "fsm_state rs"] by simp
  qed simp
qed

text \<open>The two loops agree when neither is cancelled: this is where the sweeper skips running traces.\<close>

lemma loops_agree:
  assumes "length ms \<le> alive" and "length ms \<le> alive'"
    and "prPurgedTraces res = hgPurgedTraces sm" and "prLogsDeleted res = hgLogsDeleted sm"
    and "prMetricsDeleted res = hgMetricsDeleted sm"
    and "purge_loop s alive (filter (\<lambda>m. \<not> running (tmStatus m)) ms) res rs = (res', rs1)"
    and "gc_loop s alive' ms sm rs = (c, sm', rs2)"
  shows "rs1 = rs2 \<and> \<not> c \<and> prPurgedTraces res' = hgPurgedTraces sm' \<and> prLogsDeleted res' = hgLogsDeleted sm'
    \<and> prMetricsDeleted res' = hgMetricsDeleted sm'"
  using assms
proof (induction ms arbitrary: alive alive' res sm rs)
  case (Cons m ms)
  obtain n' where n': "alive' = Suc n'" "length ms \<le> n'" using Cons.prems(2) by (cases alive') auto
  show ?case
  proof (cases "running (tmStatus m)")
    case True
    then show ?thesis
      using Cons.prems n' by (intro Cons.IH [of alive n' res "sm\<lparr>hgSkippedRunning := hgSkippedRunning sm + 1\<rparr>" rs])
        (simp_all add: running_def [symmetric])
  next
    case False
    obtain n where n: "alive = Suc n" "length ms \<le> n" using Cons.prems(1) by (cases alive) auto
    obtain tc e rs0 where p: "purgeTrace s (tmTraceID m) rs = (tc, e, rs0)" by (rule prod_cases3)
    show ?thesis
      using Cons.prems(3-7) False n' n
      by (cases e; intro Cons.IH [OF n(2) n'(2)]) (auto simp: p running_def [symmetric])
  qed
qed simp


lemma gc_loop_pruned:
  assumes "gc_loop s alive ms sm rs = (c, sm', rs')"
  shows "pruned (tmTraceID ` {m \<in> set ms. \<not> running (tmStatus m)}) (fsm_state rs) (fsm_state rs')"
  using assms
proof (induction ms arbitrary: alive sm rs)
  case (Cons m ms)
  let ?X = "tmTraceID ` {x \<in> set (m # ms). \<not> running (tmStatus x)}"
  have rest: "pruned ?X (fsm_state r) (fsm_state rs')" if "gc_loop s n ms x r = (c, sm', rs')" for n x r
    using Cons.IH [OF that] by (rule pruned_mono) auto
  show ?case
  proof (cases alive)
    case (Suc n)
    show ?thesis
    proof (cases "running (tmStatus m)")
      case True
      then show ?thesis using Cons.prems by (intro rest [of n]) (auto simp: Suc running_def [symmetric])
    next
      case False
      obtain tc e rs0 where p: "purgeTrace s (tmTraceID m) rs = (tc, e, rs0)" by (rule prod_cases3)
      have "pruned ?X (fsm_state rs) (fsm_state rs0)"
        using purgeTrace_pruned [OF p] False by (auto intro: pruned_mono)
      moreover have "pruned ?X (fsm_state rs0) (fsm_state rs')"
        using Cons.prems p False by (cases e; intro rest [of n]) (auto simp: Suc running_def [symmetric])
      ultimately show ?thesis by (rule pruned_trans)
    qed
  qed (use Cons.prems in simp)
qed simp

lemma purge_loop_pruned:
  assumes "purge_loop s alive ms res rs = (res', rs')"
  shows "pruned (tmTraceID ` set ms) (fsm_state rs) (fsm_state rs')"
  using assms
proof (induction ms arbitrary: alive res rs)
  case (Cons m ms)
  let ?X = "tmTraceID ` set (m # ms)"
  obtain tc e rs0 where p: "purgeTrace s (tmTraceID m) rs = (tc, e, rs0)" by (rule prod_cases3)
  have rest: "pruned ?X (fsm_state r) (fsm_state rs')" if "purge_loop s n ms x r = (res', rs')" for n x r
    using Cons.IH [OF that] by (rule pruned_mono) auto
  have one: "pruned ?X (fsm_state rs) (fsm_state rs0)" using purgeTrace_pruned [OF p] by (auto intro: pruned_mono)
  show ?case
  proof (cases alive)
    case (Suc n)
    have "pruned ?X (fsm_state rs0) (fsm_state rs')"
      using Cons.prems p by (cases e; intro rest [of n]) (auto simp: Suc)
    with one show ?thesis by (rule pruned_trans)
  qed (use Cons.prems in simp)
qed simp

lemma RunGC_store:
  assumes "RunGC clk alive s rs = (sm, s', rs')" and "0 < hcMaxAge (hpCfg s)"
  obtains sm0 sm1 c where "gc_loop s alive (TraceMetaRepo_ListBefore (clk 1 - hcMaxAge (hpCfg s)) False rs) sm0 rs = (c, sm1, rs')"
    "hgPurgedTraces sm0 = 0" "hgLogsDeleted sm0 = 0" "hgMetricsDeleted sm0 = 0" "hgErrors sm0 = 0"
    "hgPurgedTraces sm = hgPurgedTraces sm1" "hgLogsDeleted sm = hgLogsDeleted sm1"
    "hgMetricsDeleted sm = hgMetricsDeleted sm1" "hgErrors sm = hgErrors sm1" "hpCached s' = None"
  using assms by (auto simp: RunGC_def gc_finish_def recordGC_def invalidateCache_def Let_def split: prod.splits)

lemma PurgeAll_store:
  assumes "PurgeAll now alive s rs = (res, s', rs')" and "0 < hcMaxAge (hpCfg s)"
  shows "purge_loop s alive (TraceMetaRepo_ListBefore (now - hcMaxAge (hpCfg s)) True rs) empty_result rs = (res, rs')
    \<and> s' = invalidateCache s"
  using assms by (auto simp: PurgeAll_def Let_def split: prod.splits)

text \<open>
  C39: retention never takes a trace it must keep. Whatever the cluster and the telemetry backends
  answer and whenever the context is cancelled, the sweeper and the purge of everything leave each
  trace that is running, of unknown age or younger than the maximal age exactly as it was, and
  change nothing else in the store.
\<close>

theorem purge_protects_live_traces:
  assumes ok: "store_ok rs" and m: "TraceMetaRepo_Get tid rs = Inr m"
    and live: "\<not> expired_trace (now - hcMaxAge (hpCfg s)) m"
    and gc: "RunGC clk alive s rs = (sm, s1, rs1)" "clk 1 = now" and all: "PurgeAll now alive' s rs = (res, s2, rs2)"
  shows "TraceMetaRepo_Get tid rs1 = Inr m \<and> TraceMetaRepo_Get tid rs2 = Inr m
    \<and> fsm_state rs1 = (fsm_state rs)\<lparr>traces := traces (fsm_state rs1)\<rparr>
    \<and> fsm_state rs2 = (fsm_state rs)\<lparr>traces := traces (fsm_state rs2)\<rparr>"
proof (cases "hcMaxAge (hpCfg s) \<le> 0")
  case True
  then have "rs1 = rs" "rs2 = rs"
    using gc all by (auto simp: RunGC_def PurgeAll_def gc_finish_def Let_def)
  then show ?thesis using m by simp
next
  case False
  then have pos: "0 < hcMaxAge (hpCfg s)" by simp
  let ?c = "now - hcMaxAge (hpCfg s)"
  let ?X = "tmTraceID ` {x \<in> set (TraceMetaRepo_ListBefore ?c False rs). \<not> running (tmStatus x)}"
  have "tid \<notin> ?X" using m live by (auto simp: candidates_iff [OF ok] expired_trace_def)
  moreover have "pruned ?X (fsm_state rs) (fsm_state rs1)"
    by (rule RunGC_store [OF gc(1) pos, unfolded gc(2)]) (rule gc_loop_pruned)
  moreover have c: "set (TraceMetaRepo_ListBefore ?c True rs) = {x \<in> set (TraceMetaRepo_ListBefore ?c False rs). \<not> running (tmStatus x)}"
    by (simp add: candidates_protected)
  have "pruned ?X (fsm_state rs) (fsm_state rs2)"
    by (rule purge_loop_pruned [OF conjunct1 [OF PurgeAll_store [OF all pos]], unfolded c])
  ultimately have keep: "readTrace tid (fsm_state rs1) = readTrace tid (fsm_state rs)" "readTrace tid (fsm_state rs2) = readTrace tid (fsm_state rs)"
    and frame: "fsm_state rs1 = (fsm_state rs)\<lparr>traces := traces (fsm_state rs1)\<rparr>" "fsm_state rs2 = (fsm_state rs)\<lparr>traces := traces (fsm_state rs2)\<rparr>"
    by (blast intro: prunedD)+
  show ?thesis using m keep unfolding TraceMetaRepo_Get_def by (intro conjI frame) simp_all
qed


definition sample_purge :: HistoryPurgeService where
  "sample_purge = \<lparr>hpLogs = Some (\<lambda>t. if t = ''t2'' then Some (ErrOther ''503'') else None), hpMetrics = None,
     hpCfg = \<lparr>hcEnabled = True, hcMaxAge = 100, hcSchedule = 10\<rparr>, hpTime = (\<lambda>t. []), hpDur = (\<lambda>d. []),
     hpCached = None, hpCachedAt = 0, hpLastGC = None, hpLastGCAt = 0, hpNextGCAt = 0\<rparr>"

text \<open>The running trace \<open>t1\<close> of the sample store is long past the maximal age.\<close>

theorem purge_protects_live_traces_witness:
  "TraceMetaRepo_Get ''t1'' (snd (snd (RunGC (\<lambda>k. 1000) 9 sample_purge sample_store)))
     = Inr (sample_trace ''t1'' ''u1'' ''g1'' ''running'' 20)
   \<and> TraceMetaRepo_Get ''t1'' (snd (snd (PurgeAll 1000 9 sample_purge sample_store)))
     = Inr (sample_trace ''t1'' ''u1'' ''g1'' ''running'' 20)"
proof -
  let ?g = "RunGC (\<lambda>k. 1000) 9 sample_purge sample_store" and ?a = "PurgeAll 1000 9 sample_purge sample_store"
  have "TraceMetaRepo_Get ''t1'' sample_store = Inr (sample_trace ''t1'' ''u1'' ''g1'' ''running'' 20)"
    "\<not> expired_trace (1000 - hcMaxAge (hpCfg sample_purge)) (sample_trace ''t1'' ''u1'' ''g1'' ''running'' 20)" by code_simp+
  moreover have "?g = (fst ?g, fst (snd ?g), snd (snd ?g))" "?a = (fst ?a, fst (snd ?a), snd (snd ?a))" by simp_all
  ultimately show ?thesis using purge_protects_live_traces [OF sample_store_ok] by blast
qed

text \<open>
  The sweeper and the purge of everything do the same work. Run at the same time on the same
  store, with the same answers of the cluster and the backends and neither cancelled, they leave the
  same store and report the same numbers of purged traces, logs and metrics, although one lists the
  running traces and skips them and the other never lists them.
\<close>

theorem RunGC_same_as_PurgeAll:
  assumes gc: "RunGC clk alive s rs = (sm, s1, rs1)" and all: "PurgeAll (clk 1) alive' s rs = (res, s2, rs2)"
    and alive: "length (traces (fsm_state rs)) \<le> alive" "length (traces (fsm_state rs)) \<le> alive'"
  shows "rs1 = rs2 \<and> hgPurgedTraces sm = prPurgedTraces res \<and> hgLogsDeleted sm = prLogsDeleted res
    \<and> hgMetricsDeleted sm = prMetricsDeleted res"
proof (cases "hcMaxAge (hpCfg s) \<le> 0")
  case True
  then show ?thesis using gc all by (auto simp: RunGC_def PurgeAll_def gc_finish_def empty_result_def Let_def)
next
  case False
  let ?ms = "TraceMetaRepo_ListBefore (clk 1 - hcMaxAge (hpCfg s)) False rs"
  have len: "length ?ms \<le> length (traces (fsm_state rs))"
    by (simp add: TraceMetaRepo_ListBefore_def listTracesBefore_def order_trans [OF length_filter_le])
  from False have pos: "0 < hcMaxAge (hpCfg s)" by simp
  obtain sm0 sm1 c where g: "gc_loop s alive ?ms sm0 rs = (c, sm1, rs1)" "hgPurgedTraces sm0 = 0" "hgLogsDeleted sm0 = 0"
    "hgMetricsDeleted sm0 = 0" "hgPurgedTraces sm = hgPurgedTraces sm1" "hgLogsDeleted sm = hgLogsDeleted sm1"
    "hgMetricsDeleted sm = hgMetricsDeleted sm1" by (rule RunGC_store [OF gc pos])
  have "purge_loop s alive' (filter (\<lambda>m. \<not> running (tmStatus m)) ?ms) empty_result rs = (res, rs2)"
    using PurgeAll_store [OF all pos] by (simp add: candidates_protected)
  from loops_agree [OF _ _ _ _ _ this g(1)] alive len g(2-7) show ?thesis by (simp add: empty_result_def)
qed

theorem RunGC_same_as_PurgeAll_witness:
  "hgPurgedTraces (fst (RunGC (\<lambda>k. 1000) 9 sample_purge sample_store)) = 2
   \<and> prPurgedTraces (fst (PurgeAll 1000 9 sample_purge sample_store)) = 2"
proof -
  let ?g = "RunGC (\<lambda>k. 1000) 9 sample_purge sample_store" and ?a = "PurgeAll 1000 9 sample_purge sample_store"
  have "hgPurgedTraces (fst ?g) = 2" "length (traces (fsm_state sample_store)) \<le> 9" by code_simp+
  moreover have "?g = (fst ?g, fst (snd ?g), snd (snd ?g))" "?a = (fst ?a, fst (snd ?a), snd (snd ?a))" by simp_all
  ultimately show ?thesis
    using RunGC_same_as_PurgeAll [of "\<lambda>k. 1000" 9 sample_purge sample_store _ _ _ 9] by (metis (no_types))
qed


section \<open>A complete run\<close>

lemma purgeTrace_commit:
  assumes "script rs = []"
  shows "\<exists>tc. purgeTrace s tid rs = (tc, None, rs\<lparr>fsm_state := (fsm_state rs)\<lparr>traces := gm_del tid (traces (fsm_state rs))\<rparr>\<rparr>)"
  using applyCtx_commit [OF assms cmd_deleteTrace] by (simp add: purgeTrace_def TraceMetaRepo_Delete_def)

lemma gc_loop_commit:
  assumes "script rs = []" and "length ms \<le> alive" and "gc_loop s alive ms sm rs = (c, sm', rs')"
  shows "hgErrors sm' = hgErrors sm
    \<and> hgPurgedTraces sm' = hgPurgedTraces sm + int (length (filter (\<lambda>m. \<not> running (tmStatus m)) ms))
    \<and> (\<forall>t. gm_get (traces (fsm_state rs')) t =
        (if t \<in> tmTraceID ` {m \<in> set ms. \<not> running (tmStatus m)} then None else gm_get (traces (fsm_state rs)) t))"
  using assms
proof (induction ms arbitrary: alive sm rs)
  case (Cons m ms)
  obtain n where n: "alive = Suc n" "length ms \<le> n" using Cons.prems(2) by (cases alive) auto
  show ?case
  proof (cases "running (tmStatus m)")
    case True
    with Cons.prems n have "gc_loop s n ms (sm\<lparr>hgSkippedRunning := hgSkippedRunning sm + 1\<rparr>) rs = (c, sm', rs')"
      by (simp add: running_def)
    from Cons.IH [OF Cons.prems(1) n(2) this] True show ?thesis by auto
  next
    case False
    obtain tc where p: "purgeTrace s (tmTraceID m) rs
        = (tc, None, rs\<lparr>fsm_state := (fsm_state rs)\<lparr>traces := gm_del (tmTraceID m) (traces (fsm_state rs))\<rparr>\<rparr>)"
      using purgeTrace_commit [OF Cons.prems(1)] by blast
    note loop = Cons.prems(3) [unfolded n(1) gc_loop.simps running_def [symmetric] p]
    show ?thesis
      using Cons.IH [OF _ n(2), of "rs\<lparr>fsm_state := (fsm_state rs)\<lparr>traces := gm_del (tmTraceID m) (traces (fsm_state rs))\<rparr>\<rparr>"]
        loop False Cons.prems(1) by auto
  qed
qed simp

text \<open>
  C40: one complete run of the sweeper ends every overdue trace. On a cluster that commits, with a
  positive maximal age and a context that lives long enough, the run deletes exactly the traces of
  known age that are old enough and not running, even where the log or metric backend refuses the
  deletion of their telemetry, and it reports their number and no error.
\<close>

theorem RunGC_purges_expired:
  assumes ok: "store_ok rs" and sc: "script rs = []" and pos: "0 < hcMaxAge (hpCfg s)"
    and alive: "length (traces (fsm_state rs)) \<le> alive" and run: "RunGC clk alive s rs = (sm, s', rs')"
  shows "TraceMetaRepo_Get tid rs' = (case TraceMetaRepo_Get tid rs of
      Inr m \<Rightarrow> if expired_trace (clk 1 - hcMaxAge (hpCfg s)) m then Inl ErrNotFound else Inr m
    | Inl e \<Rightarrow> Inl e)
    \<and> hgPurgedTraces sm = int (length (TraceMetaRepo_ListBefore (clk 1 - hcMaxAge (hpCfg s)) True rs))
    \<and> hgErrors sm = 0"
proof -
  let ?c = "clk 1 - hcMaxAge (hpCfg s)"
  let ?ms = "TraceMetaRepo_ListBefore ?c False rs"
  obtain sm0 sm1 c where g: "gc_loop s alive ?ms sm0 rs = (c, sm1, rs')" "hgPurgedTraces sm0 = 0" "hgErrors sm0 = 0"
    "hgPurgedTraces sm = hgPurgedTraces sm1" "hgErrors sm = hgErrors sm1" by (rule RunGC_store [OF run pos])
  have "length ?ms \<le> length (traces (fsm_state rs))"
    by (simp add: TraceMetaRepo_ListBefore_def listTracesBefore_def order_trans [OF length_filter_le])
  with alive have "length ?ms \<le> alive" by simp
  note loop = gc_loop_commit [OF sc this g(1)]
  have key: "tmTraceID m = tid" if "gm_get (traces (fsm_state rs)) tid = Some m" for m
    using tbl_okD [OF fsm_inv_rest(1) [OF ok] that] .
  have "tid \<in> tmTraceID ` {m \<in> set ?ms. \<not> running (tmStatus m)} \<longleftrightarrow>
      (\<exists>m. gm_get (traces (fsm_state rs)) tid = Some m \<and> expired_trace ?c m)"
    using key by (auto simp: candidates_iff [OF ok] expired_trace_def TraceMetaRepo_Get_def readTrace_def image_iff)
  then have "TraceMetaRepo_Get tid rs' = (case TraceMetaRepo_Get tid rs of
      Inr m \<Rightarrow> if expired_trace ?c m then Inl ErrNotFound else Inr m | Inl e \<Rightarrow> Inl e)"
    using loop by (auto simp: TraceMetaRepo_Get_def readTrace_def read_row_def split: option.splits)
  with loop g show ?thesis by (simp add: candidates_protected)
qed

theorem RunGC_purges_expired_witness:
  "TraceMetaRepo_Get ''t2'' (snd (snd (RunGC (\<lambda>k. 1000) 9 sample_purge sample_store))) = Inl ErrNotFound
   \<and> hgErrors (fst (RunGC (\<lambda>k. 1000) 9 sample_purge sample_store)) = 0"
proof -
  let ?g = "RunGC (\<lambda>k. 1000) 9 sample_purge sample_store"
  have "TraceMetaRepo_Get ''t2'' sample_store = Inr (sample_trace ''t2'' ''u2'' [] ''success'' 30)"
    "length (traces (fsm_state sample_store)) \<le> 9" "expired_trace (1000 - hcMaxAge (hpCfg sample_purge)) (sample_trace ''t2'' ''u2'' [] ''success'' 30)"
    "0 < hcMaxAge (hpCfg sample_purge)" "script sample_store = []" by code_simp+
  moreover have "?g = (fst ?g, fst (snd ?g), snd (snd ?g))" by simp
  ultimately show ?thesis
    using RunGC_purges_expired [OF sample_store_ok, of sample_purge 9 "\<lambda>k. 1000" "fst ?g" "fst (snd ?g)" "snd (snd ?g)" "''t2''"]
    by simp
qed

section \<open>Statistics after a purge\<close>

text \<open>A purge drops the cached statistics, so the next request counts the rows that are left.\<close>

lemma Stats_after_purge:
  assumes "RunGC clk alive s rs = (sm, s', rs')" and "0 < hcMaxAge (hpCfg s)"
  shows "hsTraceCount (fst (Stats clk' s' rs')) = length (traces (fsm_state rs'))"
proof -
  have "hpCached s' = None" by (rule RunGC_store [OF assms])
  then show ?thesis by (simp add: Stats_def TraceMetaRepo_Stats_def traceStats_def Let_def)
qed

lemma Stats_cached:
  assumes "hpCached s = Some c" and "clk 0 - hpCachedAt s < historyStatsTTL" and "min_duration \<le> clk 0 - hpCachedAt s"
  shows "Stats clk s rs = (c, s)"
  using assms by (auto simp: Stats_def Let_def time_sub_def historyStatsTTL_def second_def max_duration_def)

end
