(* ===== verification/Auth.thy ===== *)
theory Auth
  imports Revalidator
begin

text \<open>
  Authentication of requests: \<^verbatim>\<open>src/internal/service/auth_service.go\<close> and the legacy token file of
  \<^verbatim>\<open>auth.go\<close>. The environment \<open>AuthEnv\<close> collects the services and the library functions an
  \<^verbatim>\<open>AuthService\<close> is built from; the clock of the environment gives the time of the call and of
  the rounds of a revalidation. A call that waits for a revalidation beyond \<open>aeRounds\<close> rounds has no result
  (\<open>None\<close>). Log output is left out.
\<close>

section \<open>The legacy token file\<close>

fun split_lines :: "string \<Rightarrow> string list" where
  "split_lines [] = [[]]"
| "split_lines (c # cs) = (if c = CHR 0x0A then [] # split_lines cs
     else case split_lines cs of l # ls \<Rightarrow> (c # l) # ls | [] \<Rightarrow> [[c]])"

text \<open>\<open>data\<close> is what reading the file gives.\<close>

definition checkTokenFile :: "(error, string) result \<Rightarrow> string \<Rightarrow> (error, bool) result" where
  "checkTokenFile data token = (case data of
     Inl e \<Rightarrow> Inl e
   | Inr text \<Rightarrow> Inr (list_ex (\<lambda>line. let line = trim_space line in
       \<not> (line = [] \<or> has_prefix line ''#'') \<and> line = token) (split_lines text)))"

definition ValidateToken :: "string \<Rightarrow> (error, string) result \<Rightarrow> string \<Rightarrow> (error, string) result" where
  "ValidateToken tokensFile data token =
     (if token = [] then Inl (ErrOther ''empty token'')
      else if tokensFile = [] then Inl (ErrOther ''no tokens file configured'')
      else case checkTokenFile data token of
             Inl e \<Rightarrow> Inl e
           | Inr valid \<Rightarrow> if valid then Inr token else Inl (ErrOther ''invalid token''))"

section \<open>The service\<close>

record AuthEnv =
  aeSha :: "string \<Rightarrow> string"
  aeBcmp :: "string \<Rightarrow> string \<Rightarrow> bool"
  aeSign :: signer
  aeParse :: parser
  aeJWT :: JWTService
  aeLegacy :: "(string \<times> (error, string) result) option"
  aeReval :: "OAuthRevalidator option"
  aeProvider :: provider
  aeJitter :: "duration \<Rightarrow> duration"
  aeFresh :: "string \<Rightarrow> string"
  aeClk :: "nat \<Rightarrow> gotime"
  aeRounds :: nat

type_synonym 'a auth_result = "((error, 'a) result \<times> reval_cache \<times> RaftStore) option"

definition loadAuthorizedGroups :: "AuthEnv \<Rightarrow> User \<Rightarrow> reval_cache \<Rightarrow> RaftStore \<Rightarrow> (string list \<times> User) auth_result" where
  "loadAuthorizedGroups env u cache rs =
     (if Deactivated u then Some (Inl ErrUnauthenticated, cache, rs)
      else case aeReval env of
        Some r \<Rightarrow>
          if uOAuthProvider u \<noteq> [] then
            (case Check (aeRounds env) r (aeProvider env) (aeJitter env) (aeFresh env) (aeClk env) 0 u cache rs of
               None \<Rightarrow> None
             | Some (Inl e, u, cache, rs) \<Rightarrow> Some (Inl ErrUnauthenticated, cache, rs)
             | Some (Inr gids, u, cache, rs) \<Rightarrow> Some (Inr (gids, u), cache, rs))
          else Some (Inr (groupIDs (GroupRepo_GroupsForUser (uID u) rs), u), cache, rs)
      | None \<Rightarrow> Some (Inr (groupIDs (GroupRepo_GroupsForUser (uID u) rs), u), cache, rs))"

definition identityForUser ::
    "AuthEnv \<Rightarrow> string \<Rightarrow> auth_method \<Rightarrow> i64 \<Rightarrow> reval_cache \<Rightarrow> RaftStore \<Rightarrow> Identity auth_result" where
  "identityForUser env userID m tokenVersion cache rs = (case UserRepo_Get userID rs of
     Inl _ \<Rightarrow> Some (Inl ErrUnauthenticated, cache, rs)
   | Inr u \<Rightarrow>
       if m = AuthJWT \<and> uTokenVersion u \<noteq> tokenVersion then Some (Inl ErrSessionRevoked, cache, rs)
       else case loadAuthorizedGroups env u cache rs of
              None \<Rightarrow> None
            | Some (Inl e, cache, rs) \<Rightarrow> Some (Inl e, cache, rs)
            | Some (Inr (gids, u), cache, rs) \<Rightarrow>
                Some (Inr \<lparr>iUserID = uID u, iUsername = uUsername u, iRole = uRole u, iGroupIDs = gids, iMethod = m\<rparr>,
                  cache, rs))"

definition legacy_identity :: Identity where
  "legacy_identity = \<lparr>iUserID = ''legacy'', iUsername = ''legacy'', iRole = RoleAdmin, iGroupIDs = [], iMethod = AuthLegacyTok\<rparr>"

definition Resolve :: "AuthEnv \<Rightarrow> string \<Rightarrow> reval_cache \<Rightarrow> RaftStore \<Rightarrow> Identity auth_result" where
  "Resolve env bearer cache rs =
     (if bearer = [] then Some (Inl ErrUnauthenticated, cache, rs)
      else if has_prefix bearer ''dct_'' then
        (case Validate (aeSha env) (aeClk env 0) bearer rs of
           (Inl _, rs) \<Rightarrow> Some (Inl ErrUnauthenticated, cache, rs)
         | (Inr tok, rs) \<Rightarrow> identityForUser env (tkUserID tok) AuthAPIToken 0 cache rs)
      else case ParseAccess (aeParse env) (aeJWT env) (aeClk env 0) bearer of
             Inr c \<Rightarrow> identityForUser env (clUserID c) AuthJWT (clTokenVersion c) cache rs
           | Inl _ \<Rightarrow>
               (case aeLegacy env of
                  Some (file, data) \<Rightarrow>
                    (case ValidateToken file data bearer of
                       Inr _ \<Rightarrow> Some (Inr legacy_identity, cache, rs)
                     | Inl _ \<Rightarrow> Some (Inl ErrUnauthenticated, cache, rs))
                | None \<Rightarrow> Some (Inl ErrUnauthenticated, cache, rs)))"

definition Login :: "AuthEnv \<Rightarrow> string \<Rightarrow> string \<Rightarrow> RaftStore \<Rightarrow> (error, string \<times> string \<times> User) result" where
  "Login env username password rs = (case Authenticate (aeBcmp env) username password rs of
     Inl e \<Rightarrow> Inl e
   | Inr u \<Rightarrow>
       (case IssuePair (aeSign env) (aeJWT env) (aeClk env 0) u (groupIDs (GroupRepo_GroupsForUser (uID u) rs)) of
          Inl e \<Rightarrow> Inl e | Inr (access, refreshTok) \<Rightarrow> Inr (access, refreshTok, u)))"

definition Refresh :: "AuthEnv \<Rightarrow> string \<Rightarrow> reval_cache \<Rightarrow> RaftStore \<Rightarrow> (string \<times> string) auth_result" where
  "Refresh env refreshToken cache rs =
     (case ParseRefresh (aeParse env) (aeJWT env) (aeClk env 0) refreshToken of
        Inl _ \<Rightarrow> Some (Inl ErrUnauthenticated, cache, rs)
      | Inr c \<Rightarrow> (case UserRepo_Get (clUserID c) rs of
          Inl _ \<Rightarrow> Some (Inl ErrUnauthenticated, cache, rs)
        | Inr u \<Rightarrow>
            if clTokenVersion c \<noteq> uTokenVersion u then Some (Inl ErrSessionRevoked, cache, rs)
            else
              let maxAge = (case aeReval env of
                    Some r \<Rightarrow> if uOAuthProvider u \<noteq> [] then SessionMaxAge r else 0 | None \<Rightarrow> 0)
              in if maxAge > 0 \<and> clIssuedAt c = None then Some (Inl Panic, cache, rs)
                 else if maxAge > 0 \<and> time_sub (aeClk env 0) (the (clIssuedAt c)) > maxAge
                 then Some (Inl ErrSessionRevoked, cache, rs)
                 else (case loadAuthorizedGroups env u cache rs of
                         None \<Rightarrow> None
                       | Some (Inl e, cache, rs) \<Rightarrow> Some (Inl e, cache, rs)
                       | Some (Inr (gids, u), cache, rs) \<Rightarrow>
                           Some (IssuePair (aeSign env) (aeJWT env) (aeClk env 0) u gids, cache, rs))))"

section \<open>Facts about the parts\<close>

lemma TouchLastUsed_users:
  "users (fsm_state (snd (TokenRepo_TouchLastUsed i at' rs))) = users (fsm_state rs)"
proof -
  have t: "users (touchToken i at' s) = users s" for s by (simp add: touchToken_def split: option.splits)
  obtain e rs' where w: "TokenRepo_TouchLastUsed i at' rs = (e, rs')" by (cases "TokenRepo_TouchLastUsed i at' rs")
  have "applyCommand (newCommand kindTouchToken (PTouchToken i at')) s = (Inr RespNil, touchToken i at' s)" for s
    by (simp add: applyCommand_def applyEntityCommand_def newCommand_def kind_defs err_result_def)
  with w [unfolded TokenRepo_TouchLastUsed_def] t have "users (fsm_state rs') = users (fsm_state rs)"
    by (cases rule: applyCtx_cases) (simp, metis snd_conv, metis snd_conv)
  with w show ?thesis by simp
qed

lemma Validate_users: "users (fsm_state (snd (Validate sha now p rs))) = users (fsm_state rs)"
  by (simp add: Validate_def TouchLastUsed_users split: sum.splits option.splits)

lemma Validate_ok:
  assumes ok: "store_ok rs" and v: "Validate sha now p rs = (a, rs')"
  shows "store_ok rs'"
proof -
  have "store_ok (snd (TokenRepo_TouchLastUsed i at' rs))" for i at'
    unfolding TokenRepo_TouchLastUsed_def
    by (rule applyCtx_inv [OF ok _ prod.collapse [symmetric]]) (simp add: cmd_ok_def newCommand_def)
  with ok v show ?thesis by (auto simp: Validate_def split: if_splits sum.splits option.splits)
qed

lemma UserRepo_Get_users: "users (fsm_state rs') = users (fsm_state rs) \<Longrightarrow> UserRepo_Get i rs' = UserRepo_Get i rs"
  by (simp add: UserRepo_Get_def readUserByID_def)

text \<open>The cases in which an identity is given for a user.\<close>

lemma identityForUser_Inr:
  assumes ok: "store_ok rs" and id: "identityForUser env i m v cache rs = Some (Inr id', cache', rs')"
  obtains u where "UserRepo_Get i rs = Inr u" "\<not> Deactivated u" "iMethod id' = m" "m = AuthJWT \<Longrightarrow> uTokenVersion u = v"
    "aeReval env = None \<or> uOAuthProvider u = [] \<Longrightarrow> id' = \<lparr>iUserID = i, iUsername = uUsername u, iRole = uRole u,
       iGroupIDs = groupIDs (GroupRepo_GroupsForUser i rs), iMethod = m\<rparr> \<and> cache' = cache \<and> rs' = rs"
proof -
  from id obtain u w gids where u: "UserRepo_Get i rs = Inr u" "m = AuthJWT \<Longrightarrow> uTokenVersion u = v"
    and l: "loadAuthorizedGroups env u cache rs = Some (Inr (gids, w), cache', rs')"
    and id': "id' = \<lparr>iUserID = uID w, iUsername = uUsername w, iRole = uRole w, iGroupIDs = gids, iMethod = m\<rparr>"
    by (auto simp: identityForUser_def split: sum.splits if_splits option.splits prod.splits)
  have "\<not> Deactivated u" using l by (auto simp: loadAuthorizedGroups_def)
  moreover have "w = u \<and> gids = groupIDs (GroupRepo_GroupsForUser i rs) \<and> cache' = cache \<and> rs' = rs"
    if "aeReval env = None \<or> uOAuthProvider u = []"
    using that l UserRepo_Get_id [OF ok u(1)] by (auto simp: loadAuthorizedGroups_def split: option.splits if_splits)
  ultimately show ?thesis using u id' UserRepo_Get_id [OF ok u(1)] by (intro that [of u]) auto
qed

section \<open>Who gets an identity\<close>

text \<open>
  C3: an identity is only given for a live credential of a live account. A request that resolves carries
  either a line of the legacy token file, and then no API-token prefix and no valid access token, or a
  stored API token, or an access token that carries the user's current token version; in
  the last two cases the user exists and is not deactivated. For a user that is not subject to
  revalidation, the name, role and groups are the stored ones, and not those in the token.
\<close>

theorem Resolve_sound:
  assumes ok: "store_ok rs" and res: "Resolve env bearer cache rs = Some (Inr id', cache', rs')"
  shows "id' = legacy_identity \<and> \<not> has_prefix bearer ''dct_''
      \<and> is_err (ParseAccess (aeParse env) (aeJWT env) (aeClk env 0) bearer)
      \<and> (\<exists>file data. aeLegacy env = Some (file, data) \<and> ValidateToken file data bearer = Inr bearer)
    \<or> (\<exists>i u. UserRepo_Get i rs = Inr u \<and> \<not> Deactivated u
        \<and> (iMethod id' = AuthAPIToken \<and> has_prefix bearer ''dct_'' \<and> (\<exists>tok. gm_get (tokens (fsm_state rs)) (tkID tok) = Some tok
              \<and> tkTokenHash tok = aeSha env bearer \<and> tkUserID tok = i)
           \<or> iMethod id' = AuthJWT \<and> (\<exists>c. ParseAccess (aeParse env) (aeJWT env) (aeClk env 0) bearer = Inr c
              \<and> clUserID c = i \<and> clTokenVersion c = uTokenVersion u))
        \<and> (aeReval env = None \<or> uOAuthProvider u = [] \<longrightarrow>
             iUserID id' = i \<and> iUsername id' = uUsername u \<and> iRole id' = uRole u))"
proof (cases "has_prefix bearer ''dct_''")
  case True
  obtain a rs1 where v: "Validate (aeSha env) (aeClk env 0) bearer rs = (a, rs1)"
    by (cases "Validate (aeSha env) (aeClk env 0) bearer rs")
  with True res obtain tok where tok: "a = Inr tok" and
    id: "identityForUser env (tkUserID tok) AuthAPIToken 0 cache rs1 = Some (Inr id', cache', rs')"
    by (auto simp: Resolve_def split: if_splits sum.splits)
  have stored: "gm_get (tokens (fsm_state rs)) (tkID tok) = Some tok" "tkTokenHash tok = aeSha env bearer"
    using Validate_Inr [OF ok, of "aeSha env" "aeClk env 0" bearer tok] v tok by simp_all
  have users: "users (fsm_state rs1) = users (fsm_state rs)" using Validate_users v by (metis snd_conv)
  have ok1: "store_ok rs1" using Validate_ok [OF ok v] .
  show ?thesis
    using ok1 id
  proof (rule identityForUser_Inr)
    fix u
    assume u: "UserRepo_Get (tkUserID tok) rs1 = Inr u" "\<not> Deactivated u" "iMethod id' = AuthAPIToken"
      "aeReval env = None \<or> uOAuthProvider u = [] \<Longrightarrow> id' = \<lparr>iUserID = tkUserID tok, iUsername = uUsername u, iRole = uRole u,
         iGroupIDs = groupIDs (GroupRepo_GroupsForUser (tkUserID tok) rs1), iMethod = AuthAPIToken\<rparr> \<and> cache' = cache \<and> rs' = rs1"
    have "UserRepo_Get (tkUserID tok) rs = Inr u" using u(1) UserRepo_Get_users [OF users] by simp
    with u stored True show ?thesis by (intro disjI2 exI [of _ "tkUserID tok"] exI [of _ u]) auto
  qed
next
  case False
  show ?thesis
  proof (cases "ParseAccess (aeParse env) (aeJWT env) (aeClk env 0) bearer")
    case (Inr c)
    with False res have id: "identityForUser env (clUserID c) AuthJWT (clTokenVersion c) cache rs = Some (Inr id', cache', rs')"
      by (auto simp: Resolve_def split: if_splits)
    show ?thesis
      using ok id
    proof (rule identityForUser_Inr)
      fix u
      assume "UserRepo_Get (clUserID c) rs = Inr u" "\<not> Deactivated u" "iMethod id' = AuthJWT"
        "AuthJWT = AuthJWT \<Longrightarrow> uTokenVersion u = clTokenVersion c"
        "aeReval env = None \<or> uOAuthProvider u = [] \<Longrightarrow> id' = \<lparr>iUserID = clUserID c, iUsername = uUsername u, iRole = uRole u,
           iGroupIDs = groupIDs (GroupRepo_GroupsForUser (clUserID c) rs), iMethod = AuthJWT\<rparr> \<and> cache' = cache \<and> rs' = rs"
      with Inr show ?thesis by (intro disjI2 exI [of _ "clUserID c"] exI [of _ u]) auto
    qed
  next
    case (Inl e)
    with False res show ?thesis
      by (auto simp: Resolve_def ValidateToken_def split: if_splits option.splits prod.splits sum.splits)
  qed
qed

section \<open>Logout and password changes end every session\<close>

lemma IncrementTokenVersion_version:
  assumes ok: "store_ok rs" and u: "UserRepo_Get i rs = Inr u" and inc: "IncrementTokenVersion now i rs = (None, rs')"
  shows "\<exists>w. UserRepo_Get i rs' = Inr w \<and> uTokenVersion w = uTokenVersion u + 1"
proof -
  let ?v = "u\<lparr>uTokenVersion := uTokenVersion u + 1\<rparr>"
  obtain w where w: "UserRepo_Update now ?v rs = (None, w, rs')"
    using inc u by (auto simp: IncrementTokenVersion_def split: prod.splits)
  have "uID ?v = i" using UserRepo_Get_id [OF ok u] by simp
  with UserRepo_Update_reads [OF ok, of ?v u now w rs'] u w show ?thesis by auto
qed

text \<open>
  C4: after a logout no older token works. Once the user's token version has been
  incremented, every access token and every refresh token that carries the previous version is
  answered with a revoked session, before anything else is looked at and without any write; the increment
  is never lost to wrap-around.
\<close>

theorem logout_revokes_tokens:
  assumes ok: "store_ok rs" and u: "UserRepo_Get (clUserID c) rs = Inr u" and v: "clTokenVersion c = uTokenVersion u"
    and out: "IncrementTokenVersion now (clUserID c) rs = (None, rs')"
    and tok: "aeParse env (jsSecret (aeJWT env)) (aeClk env 0) t = Inr c" "t \<noteq> []" "\<not> has_prefix t ''dct_''"
  shows "(clType c = typAccess \<longrightarrow> Resolve env t cache rs' = Some (Inl ErrSessionRevoked, cache, rs'))
    \<and> (clType c = typRefresh \<longrightarrow> Refresh env t cache rs' = Some (Inl ErrSessionRevoked, cache, rs'))"
proof -
  obtain w where w: "UserRepo_Get (clUserID c) rs' = Inr w" "uTokenVersion w = uTokenVersion u + 1"
    using IncrementTokenVersion_version [OF ok u out] by blast
  have "uTokenVersion u + 1 \<noteq> uTokenVersion u" by simp
  with w v tok show ?thesis
    by (auto simp: Resolve_def Refresh_def ParseAccess_def ParseRefresh_def parse_def identityForUser_def)
qed

section \<open>From the login to the request\<close>

text \<open>
  C29: what the tokens of a password login give. After a login that succeeds, in the same stored state and with no legacy token file:
  up to a second before the access lifetime is over, the access token of an account that is deactivated is refused, and that of
  an account that is neither deactivated nor subject to revalidation resolves to the user's own identity,
  with the stored role and groups; once the access lifetime is over the access token is refused; the
  refresh token is refused at every time. Tokens are taken to be non-empty and without the prefix of an API token.
\<close>

theorem Login_then_Resolve:
  assumes ok: "store_ok rs" and lib: "jwt_reads_back (aeSign env) (aeParse env)"
    and login: "Login env name pw rs = Inr (a, r, u)" and legacy: "aeLegacy env = None"
    and jwt: "a \<noteq> []" "\<not> has_prefix a ''dct_''" "r \<noteq> []" "\<not> has_prefix r ''dct_''"
    and later: "env' = env\<lparr>aeClk := clk\<rparr>"
  shows "(clk 0 + second \<le> aeClk env 0 + jsAccessTTL (aeJWT env) \<longrightarrow>
      (Deactivated u \<longrightarrow> Resolve env' a cache rs = Some (Inl ErrUnauthenticated, cache, rs))
    \<and> (\<not> Deactivated u \<and> (aeReval env = None \<or> uOAuthProvider u = []) \<longrightarrow>
         Resolve env' a cache rs = Some (Inr \<lparr>iUserID = uID u, iUsername = uUsername u, iRole = uRole u,
           iGroupIDs = groupIDs (GroupRepo_GroupsForUser (uID u) rs), iMethod = AuthJWT\<rparr>, cache, rs)))
    \<and> (aeClk env 0 + jsAccessTTL (aeJWT env) \<le> clk 0 \<longrightarrow> Resolve env' a cache rs = Some (Inl ErrUnauthenticated, cache, rs))
    \<and> Resolve env' r cache rs = Some (Inl ErrUnauthenticated, cache, rs)"
proof -
  let ?gs = "groupIDs (GroupRepo_GroupsForUser (uID u) rs)" and ?x = "aeClk env 0 + jsAccessTTL (aeJWT env)"
  have u: "UserRepo_GetByUsername name rs = Inr u" and pair: "IssuePair (aeSign env) (aeJWT env) (aeClk env 0) u ?gs = Inr (a, r)"
    using login by (auto simp: Login_def Authenticate_def split: sum.splits if_splits)
  have get: "UserRepo_Get (uID u) rs = Inr u"
    using u by_name.lookup_Inr [OF ok, of "to_lower name" u]
    by (simp add: UserRepo_GetByUsername_def UserRepo_Get_def readUserByUsername_def readUserByID_def read_row_def)
  note acc = parse_issued [OF lib pair [unfolded IssuePair_Inr, THEN conjunct1], of "clk 0"]
    and ref = parse_issued [OF lib pair [unfolded IssuePair_Inr, THEN conjunct2], of "clk 0"]
  have groups: "Deactivated u \<Longrightarrow> loadAuthorizedGroups env' u cache rs = Some (Inl ErrUnauthenticated, cache, rs)"
    "\<not> Deactivated u \<Longrightarrow> aeReval env = None \<or> uOAuthProvider u = [] \<Longrightarrow>
       loadAuthorizedGroups env' u cache rs = Some (Inr (?gs, u), cache, rs)"
    using later by (auto simp: loadAuthorizedGroups_def split: option.splits)
  have "clk 0 + second \<le> ?x \<Longrightarrow> clk 0 < NewNumericDate ?x" using NewNumericDate_bounds [of ?x] by linarith
  then have valid: "clk 0 + second \<le> ?x \<longrightarrow>
      (Deactivated u \<longrightarrow> Resolve env' a cache rs = Some (Inl ErrUnauthenticated, cache, rs))
    \<and> (\<not> Deactivated u \<and> (aeReval env = None \<or> uOAuthProvider u = []) \<longrightarrow>
         Resolve env' a cache rs = Some (Inr \<lparr>iUserID = uID u, iUsername = uUsername u, iRole = uRole u,
           iGroupIDs = ?gs, iMethod = AuthJWT\<rparr>, cache, rs))"
    using acc(1) jwt(1,2) get later groups by (auto simp: Resolve_def ParseAccess_def identityForUser_def)
  have "?x \<le> clk 0 \<Longrightarrow> NewNumericDate ?x \<le> clk 0" using NewNumericDate_bounds [of ?x] by linarith
  then have expired: "?x \<le> clk 0 \<longrightarrow> Resolve env' a cache rs = Some (Inl ErrUnauthenticated, cache, rs)"
    using acc(2) [where want = typAccess] jwt(1,2) legacy later
    by (auto simp: Resolve_def ParseAccess_def is_err_def split: sum.splits)
  have "is_err (parse (aeParse env) (aeJWT env) (clk 0) r typAccess)"
    using ref [where want = typAccess] by (cases "clk 0 < NewNumericDate (aeClk env 0 + jsRefreshTTL (aeJWT env))") (auto simp: is_err_def)
  then have "Resolve env' r cache rs = Some (Inl ErrUnauthenticated, cache, rs)"
    using jwt(3,4) legacy later by (auto simp: Resolve_def ParseAccess_def is_err_def split: sum.splits)
  with valid expired show ?thesis by blast
qed

text \<open>
  The age of a session restarts with every refresh: the refresh token handed out carries the time
  of the refresh as its time of issue, whatever the presented token carried. The bound on the age of an OAuth
  session therefore limits the time between two refreshes and not the time since the login.
\<close>

lemma refresh_restarts_session_age:
  assumes lib: "jwt_reads_back (aeSign env) (aeParse env)" and ref: "Refresh env t cache rs = Some (Inr (a, r), cache', rs')"
    and later: "clk 0 + second \<le> aeClk env 0 + jsRefreshTTL (aeJWT env)"
  shows "\<exists>c. ParseRefresh (aeParse env) (aeJWT env) (clk 0) r = Inr c
    \<and> clIssuedAt c = Some (NewNumericDate (aeClk env 0))"
proof -
  obtain u gs where "IssuePair (aeSign env) (aeJWT env) (aeClk env 0) u gs = Inr (a, r)"
    using ref by (auto simp: Refresh_def Let_def split: sum.splits if_splits option.splits prod.splits)
  then have i: "issue (aeSign env) (aeJWT env) (aeClk env 0) u gs typRefresh (jsRefreshTTL (aeJWT env)) = Inr r"
    by (simp add: IssuePair_Inr)
  have "clk 0 < NewNumericDate (aeClk env 0 + jsRefreshTTL (aeJWT env))"
    using later NewNumericDate_bounds [of "aeClk env 0 + jsRefreshTTL (aeJWT env)"] by linarith
  from parse_issued(1) [OF lib i this] show ?thesis by (auto simp: ParseRefresh_def)
qed

section \<open>Examples\<close>

definition alice :: User where
  "alice = stored_user None (sample_user ''u1'' ''Alice'' 10)"

definition demo_env :: AuthEnv where
  "demo_env = \<lparr>aeSha = (\<lambda>p. if p = ''dct_x'' then ''h1'' else p), aeBcmp = (=),
     aeSign = book_sign (demo_book second alice [''g1'', ''g2'']),
     aeParse = book_parse (demo_book second alice [''g1'', ''g2'']), aeJWT = demo_service, aeLegacy = None,
     aeReval = None, aeProvider = down_provider, aeJitter = (\<lambda>d. d), aeFresh = (\<lambda>n. n), aeClk = (\<lambda>_. second),
     aeRounds = 2\<rparr>"

lemma alice_stored: "UserRepo_Get ''u1'' sample_store = Inr alice" "uID alice = ''u1''" "\<not> Deactivated alice"
  "uTokenVersion alice = 1"
  by code_simp+

theorem Resolve_sound_witness:
  "\<exists>id' cache' rs'. Resolve demo_env ''dct_x'' [] sample_store = Some (Inr id', cache', rs') \<and> iMethod id' = AuthAPIToken
    \<and> (\<exists>tok. gm_get (tokens (fsm_state sample_store)) (tkID tok) = Some tok \<and> tkTokenHash tok = ''h1''
         \<and> tkUserID tok = iUserID id')"
proof -
  let ?id = "\<lparr>iUserID = ''u1'', iUsername = ''Alice'', iRole = RoleUser, iGroupIDs = [''g1'', ''g2''], iMethod = AuthAPIToken\<rparr>"
  have "map_option fst (Resolve demo_env ''dct_x'' [] sample_store) = Some (Inr ?id)" by code_simp
  then obtain cache' rs' where r: "Resolve demo_env ''dct_x'' [] sample_store = Some (Inr ?id, cache', rs')" by auto
  from Resolve_sound [OF sample_store_ok r] show ?thesis
    using r by (auto simp: legacy_identity_def demo_env_def)
qed

theorem logout_revokes_tokens_witness:
  "Resolve demo_env ''a'' [] (snd (IncrementTokenVersion 60 ''u1'' sample_store))
     = Some (Inl ErrSessionRevoked, [], snd (IncrementTokenVersion 60 ''u1'' sample_store))
   \<and> Refresh demo_env ''r'' [] (snd (IncrementTokenVersion 60 ''u1'' sample_store))
     = Some (Inl ErrSessionRevoked, [], snd (IncrementTokenVersion 60 ''u1'' sample_store))"
proof -
  let ?i = "IncrementTokenVersion 60 ''u1'' sample_store"
  let ?a = "issue_claims second alice [''g1'', ''g2''] typAccess (900 * second)"
  let ?r = "issue_claims second alice [''g1'', ''g2''] typRefresh (3600 * second)"
  have "fst ?i = None" by code_simp
  then have i: "?i = (None, snd ?i)" by (metis prod.collapse)
  have p: "aeParse demo_env (jsSecret (aeJWT demo_env)) (aeClk demo_env 0) ''a'' = Inr ?a"
    "aeParse demo_env (jsSecret (aeJWT demo_env)) (aeClk demo_env 0) ''r'' = Inr ?r"
    by (simp_all add: demo_env_def demo_book_def book_parse_def NewNumericDate_def second_def)
  from logout_revokes_tokens [OF sample_store_ok, of ?a alice 60 "snd ?i" demo_env "''a''" "[]"]
    logout_revokes_tokens [OF sample_store_ok, of ?r alice 60 "snd ?i" demo_env "''r''" "[]"] alice_stored i p
  show ?thesis by (simp add: has_prefix_def)
qed

theorem Login_then_Resolve_witness:
  "Login demo_env ''alice'' ''pw'' sample_store = Inr (''a'', ''r'', alice)
   \<and> Resolve (demo_env\<lparr>aeClk := \<lambda>_. 800 * second\<rparr>) ''a'' [] sample_store
     = Some (Inr \<lparr>iUserID = ''u1'', iUsername = ''Alice'', iRole = RoleUser, iGroupIDs = [''g1'', ''g2''], iMethod = AuthJWT\<rparr>,
         [], sample_store)"
proof -
  have g: "groupIDs (GroupRepo_GroupsForUser ''u1'' sample_store) = [''g1'', ''g2'']"
    "UserRepo_GetByUsername ''alice'' sample_store = Inr alice" "uPasswordHash alice = ''pw''"
    "uUsername alice = ''Alice''" "uRole alice = RoleUser" by code_simp+
  have login: "Login demo_env ''alice'' ''pw'' sample_store = Inr (''a'', ''r'', alice)"
    using demo_IssuePair [of second alice "[''g1'', ''g2'']"] g alice_stored
    by (simp add: Login_def Authenticate_def demo_env_def)
  have lib: "jwt_reads_back (aeSign demo_env) (aeParse demo_env)"
    using demo_reads_back by (simp add: demo_env_def)
  have "aeReval demo_env = None" "aeLegacy demo_env = None" "aeClk demo_env 0 = second" "aeJWT demo_env = demo_service"
    by (simp_all add: demo_env_def)
  with Login_then_Resolve [OF sample_store_ok lib login, of "demo_env\<lparr>aeClk := \<lambda>_. 800 * second\<rparr>" "\<lambda>_. 800 * second" "[]"]
    login g alice_stored
  show ?thesis by (simp add: has_prefix_def demo_service_def second_def)
qed

end
