(* ===== verification/Legacy_Import.thy ===== *)
theory Legacy_Import
  imports Auth
begin

text \<open>
  The import of a flat token file, \<^verbatim>\<open>src/internal/service/legacy_import.go\<close>: every line becomes
  the API token of a new user \<^verbatim>\<open>legacy-N\<close> in the group \<^verbatim>\<open>legacy\<close>. \<open>data\<close> is what reading the
  file gives. The record \<open>ImportEnv\<close> holds the library functions the services are built on and what is
  drawn at random for the \<open>n\<close>-th token line: the ids of the user and of the token and the password.
\<close>

section \<open>The import\<close>

record LegacyImportResult =
  lirImported :: int
  lirSkipped :: int
  lirUsernames :: "string list"

record ImportEnv =
  imSha :: "string \<Rightarrow> string"
  imBgen :: "string \<Rightarrow> (error, string) result"
  imSeal :: "string \<Rightarrow> string \<Rightarrow> (error, string) result"
  imEncKey :: string
  imCompiles :: "string \<Rightarrow> bool"
  imNow :: gotime
  imGroupID :: string
  imUserID :: "int \<Rightarrow> string"
  imTokenID :: "int \<Rightarrow> string"
  imRandom :: "int \<Rightarrow> string"

definition legacy_name :: "int \<Rightarrow> string" where
  "legacy_name idx = ''legacy-'' @ show_int idx"

fun import_loop ::
    "ImportEnv \<Rightarrow> bool \<Rightarrow> Group option \<Rightarrow> int \<Rightarrow> string list \<Rightarrow> LegacyImportResult \<Rightarrow> RaftStore
      \<Rightarrow> LegacyImportResult \<times> RaftStore" where
  "import_loop env dryRun legacyGroup idx [] res rs = (res, rs)"
| "import_loop env dryRun legacyGroup idx (raw # raws) res rs =
     (let line = trim_space raw in
      if line = [] \<or> has_prefix line ''#'' then import_loop env dryRun legacyGroup idx raws res rs
      else
        let idx = idx + 1;
            username = legacy_name idx;
            skip = res\<lparr>lirSkipped := lirSkipped res + 1\<rparr>;
            done' = res\<lparr>lirImported := lirImported res + 1, lirUsernames := lirUsernames res @ [username]\<rparr>
        in case Validate (imSha env) (imNow env) line rs of
             (Inr _, rs) \<Rightarrow> import_loop env dryRun legacyGroup idx raws skip rs
           | (Inl _, rs) \<Rightarrow>
               if dryRun then import_loop env dryRun legacyGroup idx raws done' rs
               else
                 case UserService_Create (imBgen env) (imNow env) (imUserID env idx) username
                        (newPlaintextToken (imRandom env idx)) RoleUser rs of
                   (Inl _, rs) \<Rightarrow> import_loop env dryRun legacyGroup idx raws skip rs
                 | (Inr u, rs) \<Rightarrow>
                     (case ImportRaw (imSha env) (imSeal env) (imEncKey env) (imNow env) (imTokenID env idx) (uID u) line rs of
                        (Some _, rs) \<Rightarrow> import_loop env dryRun legacyGroup idx raws skip rs
                      | (None, rs) \<Rightarrow>
                          let rs = (case legacyGroup of
                                None \<Rightarrow> rs
                              | Some g \<Rightarrow> snd (addGroupMember GroupService_Members GroupService_SetMembers (gID g) (uID u) rs))
                          in import_loop env dryRun legacyGroup idx raws done' rs))"

definition ensure_legacy_group :: "ImportEnv \<Rightarrow> RaftStore \<Rightarrow> (error, Group) result \<times> RaftStore" where
  "ensure_legacy_group env rs =
     (case GroupService_Create (imCompiles env) (imNow env) (imGroupID env)
             \<lparr>giName = ''legacy'', giDescription = [], giMaxRunnerSessions = 0, giAgentAvailable = True,
              giAutoAssignPattern = []\<rparr> rs of
        (Inr g, rs) \<Rightarrow> (Inr g, rs)
      | (Inl _, rs) \<Rightarrow> (GroupRepo_GetByName ''legacy'' rs, rs))"

definition ImportTokensFile ::
    "ImportEnv \<Rightarrow> bool \<Rightarrow> (error, string) result \<Rightarrow> RaftStore \<Rightarrow> (error, LegacyImportResult) result \<times> RaftStore" where
  "ImportTokensFile env dryRun data rs = (case data of
     Inl e \<Rightarrow> (Inl e, rs)
   | Inr text \<Rightarrow>
       let start = \<lparr>lirImported = 0, lirSkipped = 0, lirUsernames = []\<rparr> in
       if dryRun then let (res, rs) = import_loop env True None 0 (split_lines text) start rs in (Inr res, rs)
       else case ensure_legacy_group env rs of
              (Inl e, rs) \<Rightarrow> (Inl e, rs)
            | (Inr g, rs) \<Rightarrow>
                let (res, rs) = import_loop env False (Some g) 0 (split_lines text) start rs in (Inr res, rs))"

definition demo_import :: ImportEnv where
  "demo_import = \<lparr>imSha = (\<lambda>s. s), imBgen = toy_bgen, imSeal = toy_seal, imEncKey = ''key'', imCompiles = (\<lambda>_. True),
     imNow = 60, imGroupID = ''gl'', imUserID = (\<lambda>n. ''ul-'' @ show_int n), imTokenID = (\<lambda>n. ''kl-'' @ show_int n),
     imRandom = (\<lambda>n. ''secret'')\<rparr>"

section \<open>Running it again\<close>

definition accepted :: "(string \<Rightarrow> string) \<Rightarrow> string \<Rightarrow> RaftStore \<Rightarrow> bool" where
  "accepted sha line rs \<longleftrightarrow> \<not> is_err (fst (Validate sha 0 line rs))"

lemma accepted_iff:
  assumes "store_ok rs"
  shows "accepted sha line rs \<longleftrightarrow> line \<noteq> [] \<and> (\<exists>t. gm_get (tokens (fsm_state rs)) (tkID t) = Some t \<and> tkTokenHash t = sha line)"
proof -
  have "accepted sha line rs \<longleftrightarrow> (\<exists>t. fst (Validate sha 0 line rs) = Inr t)"
    by (cases "fst (Validate sha 0 line rs)") (auto simp: accepted_def)
  then show ?thesis by (simp add: Validate_Inr [OF assms])
qed

lemma Validate_accepted: "accepted sha line rs \<longleftrightarrow> (\<exists>t. fst (Validate sha now line rs) = Inr t)"
  by (auto simp: accepted_def Validate_def split: sum.splits option.splits)

text \<open>Noting the last use of a token keeps every token valid that was.\<close>

lemma touchToken_hashes:
  assumes "fsm_inv s" and "gm_get (tokens s) (tkID t) = Some t" and "tkTokenHash t = h"
  shows "\<exists>t. gm_get (tokens (touchToken i at' s)) (tkID t) = Some t \<and> tkTokenHash t = h"
proof (cases "tkID t = i")
  case True
  then show ?thesis
    using assms(2,3) by (intro exI [of _ "t\<lparr>tkLastUsedAt := Some at'\<rparr>"]) (auto simp: touchToken_def)
next
  case False
  then show ?thesis using assms(2,3) by (intro exI [of _ t]) (auto simp: touchToken_def split: option.splits)
qed

lemma TouchLastUsed_state:
  "fsm_state (snd (TokenRepo_TouchLastUsed i at' rs)) = fsm_state rs
   \<or> fsm_state (snd (TokenRepo_TouchLastUsed i at' rs)) = touchToken i at' (fsm_state rs)"
proof -
  obtain e rs' where w: "TokenRepo_TouchLastUsed i at' rs = (e, rs')" by (cases "TokenRepo_TouchLastUsed i at' rs")
  have "applyCommand (newCommand kindTouchToken (PTouchToken i at')) s = (Inr RespNil, touchToken i at' s)" for s
    by (simp add: applyCommand_def applyEntityCommand_def newCommand_def kind_defs err_result_def)
  with w [unfolded TokenRepo_TouchLastUsed_def] show ?thesis
    unfolding w by (cases rule: applyCtx_cases) auto
qed

lemma Validate_keeps:
  assumes ok: "store_ok rs" and v: "Validate sha now p rs = (r, rs')" and a: "accepted sha' q rs"
  shows "accepted sha' q rs'"
proof -
  have "fsm_state rs' = fsm_state rs \<or> (\<exists>i. fsm_state rs' = touchToken i now (fsm_state rs))"
    using v TouchLastUsed_state by (auto simp: Validate_def split: if_splits sum.splits option.splits)
  then show ?thesis
    using a touchToken_hashes [OF ok]
    unfolding accepted_iff [OF ok] accepted_iff [OF Validate_ok [OF ok v]] by auto
qed

text \<open>Creating a group whose name is taken changes nothing, however the write ends.\<close>

lemma ensure_legacy_group_same:
  assumes ok: "store_ok rs" and legacy: "GroupRepo_GetByName ''legacy'' rs = Inr g"
  shows "\<exists>h r. ensure_legacy_group env rs = (Inr h, r) \<and> fsm_state r = fsm_state rs"
proof -
  have name: "gm_get (groupsByName (fsm_state rs)) (to_lower ''legacy'') \<noteq> None"
    using legacy by (auto simp: GroupRepo_GetByName_def readGroupByName_def read_idx_def split: option.splits)
  have up: "\<exists>e. upsertGroup x True (fsm_state rs) = (Some e, fsm_state rs)" if "gName x = ''legacy''" for x
    using name that by (auto simp: upsertGroup_def Let_def split: option.splits)
  have create: "\<exists>e x' r. GroupRepo_Create now x rs = (Some e, x', r) \<and> fsm_state r = fsm_state rs" if "gName x = ''legacy''" for now x
  proof -
    obtain e x' r where c: "GroupRepo_Create now x rs = (e, x', r)" by (rule prod_cases3)
    have w: "gName x' = ''legacy''" "applyCtx kindUpsertGroup (PGroup x' True) rs = (e, r)"
      using c that by (auto simp: GroupRepo_Create_def GroupRepo_upsert_def Let_def split: prod.splits if_splits)
    from up [OF w(1)] obtain e' where u: "upsertGroup x' True (fsm_state rs) = (Some e', fsm_state rs)" by blast
    from w(2) have "e \<noteq> None \<and> fsm_state r = fsm_state rs"
      by (cases rule: applyCtx_cases) (use u cmd_upsertGroup [of x' True "fsm_state rs"] in \<open>auto simp: err_result_def\<close>)
    with c show ?thesis by auto
  qed
  from create [of "\<lparr>gID = imGroupID env, gName = ''legacy'', gDescription = [], gMaxRunnerSessions = 0,
      gAgentAvailable = True, gAutoAssignPattern = [], gCreatedAt = zero_time, gUpdatedAt = zero_time\<rparr>" "imNow env"]
  obtain e x' r where c: "GroupRepo_Create (imNow env) \<lparr>gID = imGroupID env, gName = ''legacy'', gDescription = [],
      gMaxRunnerSessions = 0, gAgentAvailable = True, gAutoAssignPattern = [], gCreatedAt = zero_time,
      gUpdatedAt = zero_time\<rparr> rs = (Some e, x', r)" "fsm_state r = fsm_state rs" by auto
  have "ValidateGroupName ''legacy''" by code_simp
  with c legacy show ?thesis
    by (auto simp: ensure_legacy_group_def GroupService_Create_def validateGroupInput_def GroupRepo_GetByName_def Let_def)
qed

definition token_lines :: "string list \<Rightarrow> string list" where
  "token_lines raws = filter (\<lambda>l. \<not> (l = [] \<or> has_prefix l ''#'')) (map trim_space raws)"

lemma import_loop_known:
  assumes "store_ok rs" and "list_all (\<lambda>l. accepted (imSha env) l rs) (token_lines raws)"
    and "import_loop env dry g idx raws res rs = (res', rs')"
  shows "res' = res\<lparr>lirSkipped := lirSkipped res + int (length (token_lines raws))\<rparr>
    \<and> users (fsm_state rs') = users (fsm_state rs)"
  using assms
proof (induction raws arbitrary: idx res rs)
  case Nil
  then show ?case by (simp add: token_lines_def)
next
  case (Cons raw raws)
  show ?case
  proof (cases "trim_space raw = [] \<or> has_prefix (trim_space raw) ''#''")
    case True
    then have "token_lines (raw # raws) = token_lines raws" "import_loop env dry g idx raws res rs = (res', rs')"
      using Cons.prems(3) by (auto simp: token_lines_def)
    with Cons.IH [OF Cons.prems(1)] Cons.prems(2) show ?thesis by simp
  next
    case False
    then have l: "accepted (imSha env) (trim_space raw) rs" and lines: "token_lines (raw # raws) = trim_space raw # token_lines raws"
      using Cons.prems(2) by (auto simp: token_lines_def)
    obtain t rs1 where v: "Validate (imSha env) (imNow env) (trim_space raw) rs = (Inr t, rs1)"
      using l Validate_accepted [of "imSha env" "trim_space raw" rs "imNow env"] by (metis prod.collapse)
    note ok1 = Validate_ok [OF Cons.prems(1) v]
    have known: "list_all (\<lambda>l. accepted (imSha env) l rs1) (token_lines raws)"
      using Cons.prems(2) Validate_keeps [OF Cons.prems(1) v] by (auto simp: lines list_all_iff)
    have "import_loop env dry g (idx + 1) raws (res\<lparr>lirSkipped := lirSkipped res + 1\<rparr>) rs1 = (res', rs')"
      using Cons.prems(3) False v by (auto simp: Let_def)
    from Cons.IH [OF ok1 known this] Validate_users [of "imSha env" "imNow env" "trim_space raw" rs]
    show ?thesis by (simp add: lines v)
  qed
qed


text \<open>
  The import is idempotent. When every token line of the file is already a stored token and the
  group exists, a run imports nothing, counts every line as skipped and leaves the accounts as they are,
  whatever the cluster answers, and a dry run says the same.
\<close>

theorem import_idempotent:
  assumes ok: "store_ok rs" and legacy: "GroupRepo_GetByName ''legacy'' rs = Inr g"
    and known: "list_all (\<lambda>l. accepted (imSha env) l rs) (token_lines (split_lines text))"
  shows "\<exists>rs'. ImportTokensFile env dry (Inr text) rs =
      (Inr \<lparr>lirImported = 0, lirSkipped = int (length (token_lines (split_lines text))), lirUsernames = []\<rparr>, rs')
    \<and> users (fsm_state rs') = users (fsm_state rs)"
proof -
  let ?start = "\<lparr>lirImported = 0, lirSkipped = 0, lirUsernames = []\<rparr>"
  have loop: "\<exists>rs'. import_loop env dry h 0 (split_lines text) ?start r =
      (?start\<lparr>lirSkipped := int (length (token_lines (split_lines text)))\<rparr>, rs') \<and> users (fsm_state rs') = users (fsm_state rs)"
    if "fsm_state r = fsm_state rs" for h r
  proof -
    obtain res' rs' where l: "import_loop env dry h 0 (split_lines text) ?start r = (res', rs')"
      by (cases "import_loop env dry h 0 (split_lines text) ?start r")
    have "list_all (\<lambda>l. accepted (imSha env) l r) (token_lines (split_lines text))"
      using known ok that by (simp add: accepted_iff)
    from import_loop_known [OF _ this l] ok that show ?thesis by (auto simp: l)
  qed
  show ?thesis
  proof (cases dry)
    case True
    with loop [of rs None] show ?thesis by (auto simp: ImportTokensFile_def Let_def)
  next
    case False
    obtain h r where e: "ensure_legacy_group env rs = (Inr h, r)" "fsm_state r = fsm_state rs"
      using ensure_legacy_group_same [OF ok legacy] by blast
    from loop [OF e(2), of "Some h"] False e(1) show ?thesis by (auto simp: ImportTokensFile_def Let_def)
  qed
qed


definition legacy_store :: RaftStore where
  "legacy_store = snd (snd (GroupRepo_Create 50 (sample_group ''gl'' ''legacy'') sample_store))"

theorem import_idempotent_witness:
  "\<exists>rs'. ImportTokensFile demo_import False (Inr '' h1 '') legacy_store =
      (Inr \<lparr>lirImported = 0, lirSkipped = 1, lirUsernames = []\<rparr>, rs')"
proof -
  let ?c = "GroupRepo_Create 50 (sample_group ''gl'' ''legacy'') sample_store"
  have ok: "store_ok legacy_store"
    using GroupRepo_Create_only [of 50 "sample_group ''gl'' ''legacy''" sample_store "fst ?c" "fst (snd ?c)" "snd (snd ?c)"]
      sample_store_ok by (simp add: legacy_store_def only_groups_def)
  have "map_sum id gName (GroupRepo_GetByName ''legacy'' legacy_store) = Inr ''legacy''"
    "token_lines (split_lines '' h1 '') = [''h1'']" "accepted (imSha demo_import) ''h1'' legacy_store" by code_simp+
  moreover from this(1) obtain g where "GroupRepo_GetByName ''legacy'' legacy_store = Inr g"
    by (cases "GroupRepo_GetByName ''legacy'' legacy_store") auto
  ultimately show ?thesis using import_idempotent [OF ok, of g demo_import "'' h1 ''" False] by auto
qed

section \<open>What becomes of an imported token\<close>

text \<open>
  An imported token without the prefix of API tokens cannot be used. After any import, and once the
  token file is no longer configured, a request that carries such a line (and is no access token)
  is refused, although the import stored it as the API token of a user: the resolution looks at API tokens
  only behind the prefix.
\<close>

theorem imported_plain_token_refused:
  assumes cutover: "aeLegacy env = None" and plain: "\<not> has_prefix line ''dct_''"
    and no_jwt: "is_err (ParseAccess (aeParse env) (aeJWT env) (aeClk env 0) line)"
    and imported: "ImportTokensFile im dry data rs = (r, rs')"
  shows "Resolve env line cache rs' = Some (Inl ErrUnauthenticated, cache, rs')"
  using assms by (auto simp: Resolve_def is_err_def split: sum.splits)

theorem imported_plain_token_refused_witness:
  "fst (ImportTokensFile demo_import False (Inr ''tok-a'') sample_store)
     = Inr \<lparr>lirImported = 1, lirSkipped = 0, lirUsernames = [''legacy-1'']\<rparr>
   \<and> accepted (imSha demo_import) ''tok-a'' (snd (ImportTokensFile demo_import False (Inr ''tok-a'') sample_store))
   \<and> Resolve demo_env ''tok-a'' [] (snd (ImportTokensFile demo_import False (Inr ''tok-a'') sample_store))
     = Some (Inl ErrUnauthenticated, [], snd (ImportTokensFile demo_import False (Inr ''tok-a'') sample_store))"
proof -
  let ?i = "ImportTokensFile demo_import False (Inr ''tok-a'') sample_store"
  have "fst ?i = Inr \<lparr>lirImported = 1, lirSkipped = 0, lirUsernames = [''legacy-1'']\<rparr>"
    "accepted (imSha demo_import) ''tok-a'' (snd ?i)" by code_simp+
  moreover have f: "aeLegacy demo_env = None" "\<not> has_prefix ''tok-a'' ''dct_''"
    "is_err (ParseAccess (aeParse demo_env) (aeJWT demo_env) (aeClk demo_env 0) ''tok-a'')" by code_simp+
  moreover have "?i = (fst ?i, snd ?i)" by simp
  from imported_plain_token_refused [OF f this] have "Resolve demo_env ''tok-a'' [] (snd ?i) = Some (Inl ErrUnauthenticated, [], snd ?i)" .
  ultimately show ?thesis by blast
qed

text \<open>
  The number in the user name is the position in the file: a line inserted before an imported one
  meets the name of the imported user and is skipped.
\<close>

lemma inserted_line_skipped:
  "let rs = snd (ImportTokensFile demo_import False (Inr ''tok-b'') sample_store);
       again = ImportTokensFile demo_import False (Inr (''tok-a'' @ [CHR 0x0A] @ ''tok-b'')) rs
   in fst again = Inr \<lparr>lirImported = 0, lirSkipped = 2, lirUsernames = []\<rparr>
      \<and> \<not> accepted (imSha demo_import) ''tok-a'' (snd again)"
  by code_simp

end
