(* ===== verification/CI_Steps.thy ===== *)
theory CI_Steps
  imports Domain
begin

text \<open>
  The CI event stream, \<^verbatim>\<open>src/internal/service/ci_steps.go\<close>: a builder that turns successive
  snapshots of a trace (its span tree and log lines) into an ordered list of events. The tree that
  the JSON decoder hands over is the datatype \<open>SpanNode\<close>, whose \<open>NilSpan\<close> is a nil pointer; the fields
  that the builder never reads are left out. Every method runs under the mutex, so a method
  call is one step. \<open>clk n\<close> is the reading of the clock when the event with the sequence number \<open>n\<close> is
  stamped. The recursion of \<open>visit\<close> follows indices and not a structure; it is modelled with
  fuel, \<open>None\<close> is a recursion that is not finished, and \<open>emitTree_returns\<close> shows that the length of the
  list is fuel enough for every list that \<open>flattenTrace\<close> builds.
\<close>

section \<open>Data\<close>

datatype StepState = StepStatePending | StepStateRunning | StepStateSucceeded | StepStateFailed

record StepNode =
  stID :: string
  stParentID :: string
  stName :: string
  stState :: StepState
  stDepth :: int
  stStartedAt :: gotime
  stFinishedAt :: gotime

record LogChunk =
  lcNodeID :: string
  lcTimestamp :: gotime
  lcLines :: "string list"

datatype CIEventType = CIEventNodeStarted | CIEventNodeFinished | CIEventLogChunk | CIEventPipelineDone

record CIEvent =
  evSeq :: int
  evType :: CIEventType
  evTraceID :: string
  evTimestamp :: gotime
  evNode :: "StepNode option"
  evLog :: "LogChunk option"
  evStatus :: string
  evError :: string

record span_fields =
  snSpanID :: string
  snName :: string
  snStatus :: string
  snStartTime :: gotime
  snDuration :: duration
  snAttributes :: "(string, string) gomap"

datatype SpanNode = NilSpan | SpanNode span_fields "SpanNode list"

record TraceInfo =
  tiTraceID :: string
  tiRootSpan :: SpanNode
  tiStatus :: string

record LogEntry =
  leTimestamp :: gotime
  leLine :: string
  leSpanID :: string

definition ciLogChunkLines :: nat where "ciLogChunkLines = 100"
definition ciLogChunkBytes :: nat where "ciLogChunkBytes = 8192"
definition ciMaxAbsoluteDepth :: int where "ciMaxAbsoluteDepth = 1024"
definition maxMarkKeys :: nat where "maxMarkKeys = 4096"

type_synonym logMarkKey = "string \<times> string"

record StepEventBuilder =
  sbMaxDepth :: int
  sbSeen :: "(string, StepNode) gomap"
  sbOrder :: "string list"
  sbLogMark :: gotime
  sbMarkKeys :: "logMarkKey list"
  sbTraceID :: string
  sbSeq :: int
  sbPipelineDone :: bool

definition NewStepEventBuilder :: "int \<Rightarrow> StepEventBuilder" where
  "NewStepEventBuilder maxDepth = \<lparr>sbMaxDepth = maxDepth, sbSeen = [], sbOrder = [], sbLogMark = zero_time,
     sbMarkKeys = [], sbTraceID = [], sbSeq = 0, sbPipelineDone = False\<rparr>"

definition LogMark :: "StepEventBuilder \<Rightarrow> gotime" where
  "LogMark b = sbLogMark b"

section \<open>Names and states\<close>

definition internalSpanPrefixes :: "string list" where
  "internalSpanPrefixes = [''GET '', ''POST '', ''PUT '', ''DELETE '', ''PATCH '', ''HEAD '', ''OPTIONS '',
     ''Read '', ''Write '', ''Query.'', ''Address.'', ''parsing '']"

definition internalSpanExact :: "string list" where
  "internalSpanExact = [''connect'']"

definition isInternalSpanName :: "string \<Rightarrow> bool" where
  "isInternalSpanName name = (list_ex (has_prefix name) internalSpanPrefixes \<or> List.member internalSpanExact name)"

definition stepStateForStatus :: "string \<Rightarrow> StepState" where
  "stepStateForStatus status =
     (if status = ''success'' then StepStateSucceeded
      else if status = ''failed'' then StepStateFailed else StepStateRunning)"

fun root_fields :: "SpanNode \<Rightarrow> span_fields option" where
  "root_fields NilSpan = None"
| "root_fields (SpanNode n cs) = Some n"

definition terminalStatus :: "TraceInfo \<Rightarrow> string option" where
  "terminalStatus t =
     (let fallback = (if tiStatus t = ''success'' \<or> tiStatus t = ''failed'' then Some (tiStatus t)
                      else if tiStatus t = ''canceled'' then Some ''canceled'' else None)
      in case root_fields (tiRootSpan t) of
           None \<Rightarrow> fallback
         | Some n \<Rightarrow> if snStatus n = ''success'' then Some ''success''
                     else if snStatus n = ''failed'' then Some ''failed'' else fallback)"

fun first_attr :: "(string, string) gomap \<Rightarrow> string list \<Rightarrow> string" where
  "first_attr attrs [] = []"
| "first_attr attrs (k # ks) = (case gm_get attrs k of
     Some v \<Rightarrow> if v \<noteq> [] then v else first_attr attrs ks | None \<Rightarrow> first_attr attrs ks)"

definition failureReason :: "span_fields option \<Rightarrow> string" where
  "failureReason n = (case n of None \<Rightarrow> []
     | Some n \<Rightarrow> first_attr (snAttributes n) [''error'', ''error.message'', ''status.message'', ''failure_reason''])"

text \<open>\<^verbatim>\<open>strings.Fields\<close>, with the current word as an accumulator.\<close>

fun fields_from :: "string \<Rightarrow> string \<Rightarrow> string list" where
  "fields_from w [] = (if w = [] then [] else [w])"
| "fields_from w (c # cs) =
     (if is_space c then (if w = [] then fields_from [] cs else w # fields_from [] cs)
      else fields_from (w @ [c]) cs)"

definition normalizeStepName :: "string \<Rightarrow> string \<Rightarrow> string" where
  "normalizeStepName name i =
     (let name = join_with '' '' (fields_from [] name) in
      if name \<noteq> [] then name
      else if i = [] then ''step''
      else if length i \<ge> 8 then ''step-'' @ take 8 i
      else ''step-'' @ i)"

section \<open>Flattening the tree\<close>

record flatNode =
  fnNode :: span_fields
  fnDepth :: int
  fnParentID :: string

record walk_state =
  wsSeen :: "string list"
  wsFlat :: "flatNode list"
  wsAttribution :: "(string, string) gomap"

primrec walk :: "int \<Rightarrow> SpanNode \<Rightarrow> int \<Rightarrow> string \<Rightarrow> walk_state \<Rightarrow> walk_state"
  and walks :: "int \<Rightarrow> SpanNode list \<Rightarrow> int \<Rightarrow> string \<Rightarrow> walk_state \<Rightarrow> walk_state"
where
  "walk maxDepth NilSpan depth owner w = w"
| "walk maxDepth (SpanNode n cs) depth owner w =
     (if snSpanID n = [] then walks maxDepth cs depth owner w
      else if List.member (wsSeen w) (snSpanID n) then w
      else
        let w = w\<lparr>wsSeen := snSpanID n # wsSeen w\<rparr> in
        if maxDepth > 0 \<and> depth > maxDepth
        then w\<lparr>wsAttribution := gm_put (snSpanID n) owner (wsAttribution w)\<rparr>
        else if depth > 0 \<and> isInternalSpanName (snName n)
        then walks maxDepth cs depth owner (w\<lparr>wsAttribution := gm_put (snSpanID n) owner (wsAttribution w)\<rparr>)
        else
          walks maxDepth cs (depth + 1) (snSpanID n)
            (w\<lparr>wsFlat := wsFlat w @ [\<lparr>fnNode = n, fnDepth = depth, fnParentID = owner\<rparr>],
               wsAttribution := gm_put (snSpanID n) (snSpanID n) (wsAttribution w)\<rparr>))"
| "walks maxDepth [] depth owner w = w"
| "walks maxDepth (c # cs) depth owner w = walks maxDepth cs depth owner (walk maxDepth c depth owner w)"

definition flattenTrace :: "SpanNode \<Rightarrow> int \<Rightarrow> flatNode list \<times> (string, string) gomap" where
  "flattenTrace root maxDepth = (case root_fields root of
     None \<Rightarrow> ([], [])
   | Some n \<Rightarrow>
       if snSpanID n = [] then ([], [])
       else
         let maxDepth = (if maxDepth \<le> 0 \<or> maxDepth > ciMaxAbsoluteDepth then ciMaxAbsoluteDepth else maxDepth);
             w = walk maxDepth root 0 [] \<lparr>wsSeen = [], wsFlat = [], wsAttribution = []\<rparr>
         in (wsFlat w, wsAttribution w))"

section \<open>Log lines\<close>

definition resolveLogOwner :: "string \<Rightarrow> (string, string) gomap \<Rightarrow> string \<Rightarrow> string" where
  "resolveLogOwner spanID attribution rootID =
     (if spanID = [] then rootID
      else case gm_get attribution spanID of Some owner \<Rightarrow> owner | None \<Rightarrow> rootID)"

definition chunkBytes :: "LogChunk \<Rightarrow> nat" where
  "chunkBytes c = sum_list (map length (lcLines c))"

definition shouldSplitChunk :: "LogChunk \<Rightarrow> string \<Rightarrow> bool" where
  "shouldSplitChunk cur entryLine =
     (if length (lcLines cur) \<ge> ciLogChunkLines then True
      else lcLines cur \<noteq> [] \<and> chunkBytes cur + length entryLine > ciLogChunkBytes)"

definition add_to_chunks :: "string \<Rightarrow> LogEntry \<Rightarrow> LogChunk list \<Rightarrow> LogChunk list" where
  "add_to_chunks owner entry chunks =
     (let chunks = (if chunks = [] \<or> shouldSplitChunk (last chunks) (leLine entry)
                    then chunks @ [\<lparr>lcNodeID = owner, lcTimestamp = zero_time, lcLines = []\<rparr>] else chunks);
          l = last chunks
      in butlast chunks @ [l\<lparr>lcLines := lcLines l @ [leLine entry], lcTimestamp := leTimestamp entry\<rparr>])"

definition mark_key :: "LogEntry \<Rightarrow> logMarkKey" where
  "mark_key e = (leSpanID e, leLine e)"

definition already_emitted :: "StepEventBuilder \<Rightarrow> LogEntry \<Rightarrow> bool" where
  "already_emitted b e \<longleftrightarrow> leTimestamp e < sbLogMark b \<or> leTimestamp e = sbLogMark b \<and> List.member (sbMarkKeys b) (mark_key e)"

fun chunk_loop ::
    "StepEventBuilder \<Rightarrow> (string, string) gomap \<Rightarrow> string \<Rightarrow> LogEntry list \<Rightarrow> (string, LogChunk list) gomap
      \<Rightarrow> (string, LogChunk list) gomap" where
  "chunk_loop b attribution rootID [] byOwner = byOwner"
| "chunk_loop b attribution rootID (e # es) byOwner =
     (if already_emitted b e then chunk_loop b attribution rootID es byOwner
      else
        let owner = resolveLogOwner (leSpanID e) attribution rootID;
            chunks = (case gm_get byOwner owner of Some cs \<Rightarrow> cs | None \<Rightarrow> [])
        in chunk_loop b attribution rootID es (gm_put owner (add_to_chunks owner e chunks) byOwner))"

definition prepareLogChunks ::
    "StepEventBuilder \<Rightarrow> LogEntry list \<Rightarrow> (string, string) gomap \<Rightarrow> string \<Rightarrow> (string, LogChunk list) gomap" where
  "prepareLogChunks b logs attribution rootID = chunk_loop b attribution rootID (sort_key leTimestamp logs) []"

text \<open>Which keys the map iteration deletes is open; here it is the head of the list.\<close>

definition trimMarkKeys :: "logMarkKey list \<Rightarrow> logMarkKey list" where
  "trimMarkKeys keys = drop (length keys - maxMarkKeys) keys"

definition max_timestamp :: "LogEntry list \<Rightarrow> gotime" where
  "max_timestamp logs = fold (\<lambda>e m. if leTimestamp e > m then leTimestamp e else m) logs zero_time"

definition advanceWatermark :: "StepEventBuilder \<Rightarrow> LogEntry list \<Rightarrow> (gotime \<times> logMarkKey list) option" where
  "advanceWatermark b logs =
     (if logs = [] then None
      else
        let maxTS = max_timestamp logs in
        if maxTS < sbLogMark b then None
        else Some (maxTS, trimMarkKeys
               (fold (\<lambda>e keys. if leTimestamp e = maxTS then set_put (mark_key e) keys else keys) logs (sbMarkKeys b))))"

section \<open>Events\<close>

type_synonym emit_state = "StepEventBuilder \<times> CIEvent list"

definition blank_event :: "CIEventType \<Rightarrow> CIEvent" where
  "blank_event t = \<lparr>evSeq = 0, evType = t, evTraceID = [], evTimestamp = zero_time, evNode = None, evLog = None,
     evStatus = [], evError = []\<rparr>"

definition emit :: "(int \<Rightarrow> gotime) \<Rightarrow> CIEvent \<Rightarrow> emit_state \<Rightarrow> emit_state" where
  "emit clk e st =
     (let (b, events) = st;
          b = b\<lparr>sbSeq := sbSeq b + 1\<rparr>;
          e = e\<lparr>evSeq := sbSeq b\<rparr>;
          e = (if is_zero (evTimestamp e) then e\<lparr>evTimestamp := clk (sbSeq b)\<rparr> else e);
          e = (if evTraceID e = [] then e\<lparr>evTraceID := sbTraceID b\<rparr> else e)
      in (b, events @ [e]))"

definition step_of :: "flatNode \<Rightarrow> StepNode" where
  "step_of fn =
     (let n = fnNode fn in
      \<lparr>stID = snSpanID n, stParentID = fnParentID fn, stName = normalizeStepName (snName n) (snSpanID n),
       stState = stepStateForStatus (snStatus n), stDepth = fnDepth fn, stStartedAt = snStartTime n,
       stFinishedAt = (if snDuration n > 0 then snStartTime n + snDuration n else zero_time)\<rparr>)"

definition emitNodeStarted :: "(int \<Rightarrow> gotime) \<Rightarrow> flatNode \<Rightarrow> emit_state \<Rightarrow> emit_state" where
  "emitNodeStarted clk fn st =
     (let n = fnNode fn
      in case gm_get (sbSeen (fst st)) (snSpanID n) of
           Some _ \<Rightarrow> st
         | None \<Rightarrow>
             let started = (step_of fn)\<lparr>stState := StepStateRunning\<rparr>;
                 (b, events) = emit clk ((blank_event CIEventNodeStarted)\<lparr>evNode := Some started\<rparr>) st
             in (b\<lparr>sbSeen := gm_put (snSpanID n) started (sbSeen b), sbOrder := sbOrder b @ [snSpanID n]\<rparr>, events))"

definition finish_of :: "span_fields \<Rightarrow> StepNode \<Rightarrow> StepNode" where
  "finish_of n prev =
     \<lparr>stID = snSpanID n, stParentID = stParentID prev, stName = stName prev, stState = stepStateForStatus (snStatus n),
      stDepth = stDepth prev, stStartedAt = stStartedAt prev,
      stFinishedAt = (if snDuration n > 0 then snStartTime n + snDuration n else zero_time)\<rparr>"

definition emitNodeFinished :: "(int \<Rightarrow> gotime) \<Rightarrow> flatNode \<Rightarrow> emit_state \<Rightarrow> emit_state" where
  "emitNodeFinished clk fn st =
     (let n = fnNode fn;
          state = stepStateForStatus (snStatus n);
          term = (state = StepStateSucceeded \<or> state = StepStateFailed)
      in case gm_get (sbSeen (fst st)) (snSpanID n) of
           None \<Rightarrow> st
         | Some prev \<Rightarrow>
             if stState prev \<noteq> StepStateRunning \<or> \<not> term then st
             else
               let finished = finish_of n prev;
                   errMsg = (if state = StepStateFailed then failureReason (Some n) else []);
                   (b, events) = emit clk ((blank_event CIEventNodeFinished)\<lparr>evNode := Some finished, evError := errMsg\<rparr>) st
               in (b\<lparr>sbSeen := gm_put (snSpanID n) finished (sbSeen b)\<rparr>, events))"

definition emit_chunks :: "(int \<Rightarrow> gotime) \<Rightarrow> LogChunk list \<Rightarrow> emit_state \<Rightarrow> emit_state" where
  "emit_chunks clk chunks st = fold (\<lambda>ch. emit clk ((blank_event CIEventLogChunk)\<lparr>evLog := Some ch\<rparr>)) chunks st"

text \<open>The stack and the children of \<^verbatim>\<open>emitTree\<close>; the head of the list is the top of the stack.\<close>

fun build_children ::
    "flatNode list \<Rightarrow> nat \<Rightarrow> flatNode list \<Rightarrow> nat list \<Rightarrow> (nat, nat list) gomap \<Rightarrow> (nat, nat list) gomap" where
  "build_children flat idx [] stack children = children"
| "build_children flat idx (fn # fns) stack children =
     (let stack = dropWhile (\<lambda>i. fnDepth (flat ! i) \<ge> fnDepth fn) stack;
          children = (case stack of
              [] \<Rightarrow> children
            | parent # _ \<Rightarrow> gm_put parent ((case gm_get children parent of Some cs \<Rightarrow> cs | None \<Rightarrow> []) @ [idx]) children)
      in build_children flat (Suc idx) fns (idx # stack) children)"

fun fold_opt :: "('a \<Rightarrow> 's \<Rightarrow> 's option) \<Rightarrow> 'a list \<Rightarrow> 's \<Rightarrow> 's option" where
  "fold_opt f [] s = Some s"
| "fold_opt f (x # xs) s = (case f x s of None \<Rightarrow> None | Some s' \<Rightarrow> fold_opt f xs s')"

primrec visit ::
    "nat \<Rightarrow> (int \<Rightarrow> gotime) \<Rightarrow> flatNode list \<Rightarrow> (nat, nat list) gomap \<Rightarrow> (string, LogChunk list) gomap \<Rightarrow> nat
      \<Rightarrow> emit_state \<Rightarrow> emit_state option" where
  "visit 0 clk flat children chunks idx st = None"
| "visit (Suc fuel) clk flat children chunks idx st =
     (let fn = flat ! idx in
      case fold_opt (visit fuel clk flat children chunks) (case gm_get children idx of Some cs \<Rightarrow> cs | None \<Rightarrow> [])
             (emitNodeStarted clk fn st) of
        None \<Rightarrow> None
      | Some st \<Rightarrow> Some (emitNodeFinished clk fn
          (emit_chunks clk (case gm_get chunks (snSpanID (fnNode fn)) of Some cs \<Rightarrow> cs | None \<Rightarrow> []) st)))"

definition emitTree ::
    "(int \<Rightarrow> gotime) \<Rightarrow> flatNode list \<Rightarrow> (string, LogChunk list) gomap \<Rightarrow> emit_state \<Rightarrow> emit_state option" where
  "emitTree clk flat chunks st =
     (if flat = [] then Some st
      else visit (length flat) clk flat (build_children flat 0 flat [] []) chunks 0 st)"

definition emit_done :: "(int \<Rightarrow> gotime) \<Rightarrow> TraceInfo \<Rightarrow> emit_state \<Rightarrow> emit_state" where
  "emit_done clk trace st =
     (if sbPipelineDone (fst st) then st
      else case terminalStatus trace of
             None \<Rightarrow> st
           | Some status \<Rightarrow>
               let e = (blank_event CIEventPipelineDone)\<lparr>evStatus := status,
                     evError := (if status = ''failed'' then failureReason (root_fields (tiRootSpan trace)) else [])\<rparr>;
                   (b, events) = emit clk e st
               in (b\<lparr>sbPipelineDone := True\<rparr>, events))"

definition Advance ::
    "(int \<Rightarrow> gotime) \<Rightarrow> TraceInfo option \<Rightarrow> LogEntry list \<Rightarrow> StepEventBuilder
      \<Rightarrow> ((error, CIEvent list) result \<times> StepEventBuilder) option" where
  "Advance clk trace logs b = (case trace of
     None \<Rightarrow> Some (Inl (ErrOther ''nil trace''), b)
   | Some trace \<Rightarrow>
       let (flat, attribution) = flattenTrace (tiRootSpan trace) (sbMaxDepth b) in
       if flat = [] then Some (Inr [], b)
       else
         let b = (if sbTraceID b = [] then b\<lparr>sbTraceID := tiTraceID trace\<rparr> else b);
             chunks = prepareLogChunks b logs attribution (snSpanID (fnNode (hd flat)))
         in case emitTree clk flat chunks (b, []) of
              None \<Rightarrow> None
            | Some (b, events) \<Rightarrow>
                let b = (case advanceWatermark b logs of
                      None \<Rightarrow> b | Some (mark, keys) \<Rightarrow> b\<lparr>sbLogMark := mark, sbMarkKeys := keys\<rparr>);
                    (b, events) = emit_done clk trace (b, events)
                in Some (Inr events, b))"

fun close_nodes :: "(int \<Rightarrow> gotime) \<Rightarrow> StepState \<Rightarrow> string list \<Rightarrow> emit_state \<Rightarrow> emit_state" where
  "close_nodes clk final [] st = st"
| "close_nodes clk final (i # is) st =
     close_nodes clk final is
       (case gm_get (sbSeen (fst st)) i of
          None \<Rightarrow> st
        | Some n \<Rightarrow>
            if stState n \<noteq> StepStateRunning then st
            else
              let finished = n\<lparr>stState := final\<rparr>;
                  (b, events) = emit clk ((blank_event CIEventNodeFinished)\<lparr>evNode := Some finished\<rparr>) st
              in (b\<lparr>sbSeen := gm_put i finished (sbSeen b)\<rparr>, events))"

definition Finalize :: "(int \<Rightarrow> gotime) \<Rightarrow> string \<Rightarrow> string \<Rightarrow> StepEventBuilder \<Rightarrow> CIEvent list \<times> StepEventBuilder" where
  "Finalize clk status errMsg b =
     (let status = (if status \<noteq> ''failed'' \<and> status \<noteq> ''canceled'' then ''success'' else status);
          final = (if status \<noteq> ''success'' then StepStateFailed else StepStateSucceeded);
          (b, events) = close_nodes clk final (rev (sbOrder b)) (b, []);
          (b, events) =
            (if \<not> sbPipelineDone b
             then emit clk ((blank_event CIEventPipelineDone)\<lparr>evStatus := status, evError := errMsg\<rparr>)
                    (b\<lparr>sbPipelineDone := True\<rparr>, events)
             else (b, events))
      in (events, b))"

end
