(* ===== verification/CI_Stream.thy ===== *)
theory CI_Stream
  imports CI_Steps
begin

text \<open>
  What the CI event builder of \<open>CI_Steps\<close> guarantees to the program that reads its stream: every call
  returns; each node is started once, finished once and in this order, and after \<open>Finalize\<close> none is left
  open; sequence numbers have no gap; a snapshot that was seen already yields nothing; and
  (in \<open>CI_Lines\<close>) the log lines come out at their nodes, in time order and in bounded chunks.
\<close>

section \<open>Every call returns\<close>

lemma fold_opt_Some:
  assumes "\<And>x s. x \<in> set xs \<Longrightarrow> \<exists>s'. f x s = Some s'"
  shows "\<exists>s'. fold_opt f xs s = Some s'"
  using assms
proof (induction xs arbitrary: s)
  case (Cons x xs)
  from Cons.prems [of x s] obtain s' where "f x s = Some s'" by auto
  with Cons.IH [of s'] Cons.prems show ?case by simp
qed simp

definition kids :: "(nat, nat list) gomap \<Rightarrow> nat \<Rightarrow> nat list" where
  "kids children i = (case gm_get children i of Some cs \<Rightarrow> cs | None \<Rightarrow> [])"

lemma kids_put: "kids (gm_put p cs m) i = (if i = p then cs else kids m i)"
  by (simp add: kids_def)

lemma dropWhile_subset: "set (dropWhile P xs) \<subseteq> set xs"
  by (induction xs) auto

text \<open>Children come after their parent, and every index is entered once.\<close>

lemma build_children_step:
  assumes "stack' = dropWhile (\<lambda>i. fnDepth (flat ! i) \<ge> fnDepth fn) stack"
  shows "build_children flat idx (fn # fns) stack m = build_children flat (Suc idx) fns (idx # stack')
    (case stack' of [] \<Rightarrow> m | p # _ \<Rightarrow> gm_put p (kids m p @ [idx]) m)"
  by (simp only: build_children.simps Let_def assms [symmetric] kids_def)

lemma build_children_order:
  assumes "\<forall>i \<in> set stack. i < idx" and "\<forall>p. \<forall>c \<in> set (kids m p). p < c \<and> c < idx"
  shows "\<forall>c \<in> set (kids (build_children flat idx fns stack m) p). p < c \<and> c < idx + length fns"
  using assms
proof (induction fns arbitrary: idx stack m)
  case (Cons fn fns)
  define stack' where "stack' = dropWhile (\<lambda>i. fnDepth (flat ! i) \<ge> fnDepth fn) stack"
  have sub: "set stack' \<subseteq> set stack" unfolding stack'_def by (rule dropWhile_subset)
  let ?m = "case stack' of [] \<Rightarrow> m | p # _ \<Rightarrow> gm_put p (kids m p @ [idx]) m"
  have "\<forall>i \<in> set (idx # stack'). i < Suc idx" using sub Cons.prems(1) by (auto intro: less_SucI)
  moreover have "\<forall>p. \<forall>c \<in> set (kids ?m p). p < c \<and> c < Suc idx"
    using sub Cons.prems by (auto simp: kids_put split: list.splits intro: less_SucI)
  ultimately show ?case
    using Cons.IH [of "idx # stack'" "Suc idx" ?m] by (simp only: build_children_step [OF stack'_def]) simp
qed simp

lemma visit_Suc:
  "visit (Suc fuel) clk flat children chunks idx st =
     (case fold_opt (visit fuel clk flat children chunks) (kids children idx) (emitNodeStarted clk (flat ! idx) st) of
        None \<Rightarrow> None
      | Some st \<Rightarrow> Some (emitNodeFinished clk (flat ! idx)
          (emit_chunks clk (case gm_get chunks (snSpanID (fnNode (flat ! idx))) of Some cs \<Rightarrow> cs | None \<Rightarrow> []) st)))"
  by (simp add: kids_def Let_def)

lemma visit_returns:
  assumes "\<And>p c. c \<in> set (kids children p) \<Longrightarrow> p < c \<and> c < n" and "idx < n" and "n - idx \<le> fuel"
  shows "\<exists>st'. visit fuel clk flat children chunks idx st = Some st'"
  using assms(2,3)
proof (induction fuel arbitrary: idx st)
  case (Suc fuel)
  have "\<exists>s'. visit fuel clk flat children chunks c s = Some s'" if "c \<in> set (kids children idx)" for c s
    using assms(1) [OF that] Suc.prems by (intro Suc.IH) auto
  from fold_opt_Some [of "kids children idx" "visit fuel clk flat children chunks", OF this]
  obtain s' where "fold_opt (visit fuel clk flat children chunks) (kids children idx) (emitNodeStarted clk (flat ! idx) st) = Some s'"
    by blast
  then show ?case by (simp add: visit_Suc del: visit.simps)
qed simp

abbreviation flat_children :: "flatNode list \<Rightarrow> (nat, nat list) gomap" where
  "flat_children flat \<equiv> build_children flat 0 flat [] []"

lemma flat_children_order: "c \<in> set (kids (flat_children flat) p) \<Longrightarrow> p < c \<and> c < length flat"
  using build_children_order [of "[]" 0 "[]" flat flat p] by (simp add: kids_def)

lemma emitTree_returns: "\<exists>st'. emitTree clk flat chunks st = Some st'"
  using visit_returns [of "flat_children flat" "length flat" 0 "length flat", OF flat_children_order]
  by (auto simp: emitTree_def)

lemma Advance_returns: "\<exists>r b'. Advance clk trace logs b = Some (r, b')"
proof (cases trace)
  case (Some t)
  obtain flat attribution where f: "flattenTrace (tiRootSpan t) (sbMaxDepth b) = (flat, attribution)"
    by (cases "flattenTrace (tiRootSpan t) (sbMaxDepth b)")
  let ?b = "if sbTraceID b = [] then b\<lparr>sbTraceID := tiTraceID t\<rparr> else b"
  let ?c = "prepareLogChunks ?b logs attribution (snSpanID (fnNode (hd flat)))"
  obtain b1 es where "emitTree clk flat ?c (?b, []) = Some (b1, es)" using emitTree_returns by fastforce
  with Some f show ?thesis by (auto simp: Advance_def Let_def split: prod.splits)
qed (simp add: Advance_def)

section \<open>The protocol of a node\<close>

definition node_log :: "string \<Rightarrow> CIEvent list \<Rightarrow> CIEventType list" where
  "node_log i es = map evType (filter (\<lambda>e. case evNode e of Some n \<Rightarrow> stID n = i | None \<Rightarrow> False) es)"

definition dones :: "CIEvent list \<Rightarrow> CIEvent list" where
  "dones es = filter (\<lambda>e. evType e = CIEventPipelineDone) es"

definition life :: "StepNode option \<Rightarrow> CIEventType list" where
  "life n = (case n of None \<Rightarrow> []
     | Some n \<Rightarrow> if stState n = StepStateRunning then [CIEventNodeStarted] else [CIEventNodeStarted, CIEventNodeFinished])"

definition stream_ok :: "StepEventBuilder \<Rightarrow> CIEvent list \<Rightarrow> bool" where
  "stream_ok b es \<longleftrightarrow> (\<forall>i. node_log i es = life (gm_get (sbSeen b) i))
     \<and> map evSeq es = map int [1..<Suc (length es)] \<and> sbSeq b = int (length es)
     \<and> length (dones es) = (if sbPipelineDone b then 1 else 0)
     \<and> set (sbOrder b) = {i. gm_get (sbSeen b) i \<noteq> None}
     \<and> (\<forall>i n. gm_get (sbSeen b) i = Some n \<longrightarrow> stID n = i)"

lemma stream_okD:
  assumes "stream_ok b es"
  shows "node_log i es = life (gm_get (sbSeen b) i)" and "map evSeq es = map int [1..<Suc (length es)]"
    and "length (dones es) = (if sbPipelineDone b then 1 else 0)"
  using assms unfolding stream_ok_def by blast+

lemma node_log_append [simp]: "node_log i (es @ fs) = node_log i es @ node_log i fs"
  by (simp add: node_log_def)

lemma dones_append [simp]: "dones (es @ fs) = dones es @ dones fs"
  by (simp add: dones_def)

lemma emit_shape:
  assumes "emit clk e (b, es) = (b', es')"
  obtains e' where "b' = b\<lparr>sbSeq := sbSeq b + 1\<rparr>" "es' = es @ [e']" "evSeq e' = sbSeq b + 1" "evType e' = evType e"
    "evNode e' = evNode e" "evLog e' = evLog e" "evStatus e' = evStatus e"
  using assms by (auto simp: emit_def Let_def)

lemma emit_fst [simp]: "fst (emit clk e st) = (fst st)\<lparr>sbSeq := sbSeq (fst st) + 1\<rparr>"
  by (simp add: emit_def Let_def case_prod_beta)

lemma emit_done_flag:
  "snd (emit clk e (b\<lparr>sbPipelineDone := d\<rparr>, es)) = snd (emit clk e (b, es))"
  by (simp add: emit_def Let_def)

text \<open>One more event, with what it says about its node.\<close>

lemma stream_ok_snoc:
  assumes ok: "stream_ok b es" and seq: "evSeq e = sbSeq b + 1" "sbSeq b' = sbSeq b + 1"
    and life: "\<And>i. life (gm_get (sbSeen b') i) = life (gm_get (sbSeen b) i) @ node_log i [e]"
    and done': "sbPipelineDone b' \<longleftrightarrow> sbPipelineDone b \<or> evType e = CIEventPipelineDone"
      "evType e = CIEventPipelineDone \<Longrightarrow> \<not> sbPipelineDone b"
    and order: "set (sbOrder b') = {i. gm_get (sbSeen b') i \<noteq> None}"
    and ids: "\<And>i n. gm_get (sbSeen b') i = Some n \<Longrightarrow> stID n = i"
  shows "stream_ok b' (es @ [e])"
  using assms by (auto simp: stream_ok_def dones_def)

lemma emit_other:
  assumes "stream_ok b (past @ es)" and "evNode e = None" and "evType e \<noteq> CIEventPipelineDone"
    and "emit clk e (b, es) = (b', es')"
  shows "stream_ok b' (past @ es')"
proof -
  obtain e' where e: "b' = b\<lparr>sbSeq := sbSeq b + 1\<rparr>" "es' = es @ [e']" "evSeq e' = sbSeq b + 1" "evType e' = evType e"
    "evNode e' = evNode e" using emit_shape [OF assms(4)] by metis
  have "stream_ok b' ((past @ es) @ [e'])"
    using assms(1-3) e by (intro stream_ok_snoc [OF assms(1)]) (auto simp: node_log_def stream_ok_def)
  then show ?thesis by (simp add: e(2))
qed

lemma emit_done_event:
  assumes "stream_ok b (past @ es)" and "evNode e = None" and "evType e = CIEventPipelineDone" and "\<not> sbPipelineDone b"
    and "emit clk e (b, es) = (b', es')"
  shows "stream_ok (b'\<lparr>sbPipelineDone := True\<rparr>) (past @ es')"
proof -
  obtain e' where e: "b' = b\<lparr>sbSeq := sbSeq b + 1\<rparr>" "es' = es @ [e']" "evSeq e' = sbSeq b + 1" "evType e' = evType e"
    "evNode e' = evNode e" using emit_shape [OF assms(5)] by metis
  have "stream_ok (b'\<lparr>sbPipelineDone := True\<rparr>) ((past @ es) @ [e'])"
    using assms(1-4) e by (intro stream_ok_snoc [OF assms(1)]) (auto simp: node_log_def stream_ok_def)
  then show ?thesis by (simp add: e(2))
qed

lemma emitNodeStarted_ok:
  assumes "stream_ok b (past @ es)" and "emitNodeStarted clk fn (b, es) = (b', es')"
  shows "stream_ok b' (past @ es')"
proof (cases "gm_get (sbSeen b) (snSpanID (fnNode fn))")
  case (Some n)
  with assms show ?thesis by (simp add: emitNodeStarted_def Let_def)
next
  case None
  let ?i = "snSpanID (fnNode fn)"
  define n where "n = (step_of fn)\<lparr>stState := StepStateRunning\<rparr>"
  obtain b1 where em: "emit clk ((blank_event CIEventNodeStarted)\<lparr>evNode := Some n\<rparr>) (b, es) = (b1, es')"
    and b': "b' = b1\<lparr>sbSeen := gm_put ?i n (sbSeen b1), sbOrder := sbOrder b1 @ [?i]\<rparr>"
    using assms(2) None by (auto simp: emitNodeStarted_def n_def Let_def split: prod.splits)
  have n: "stID n = ?i" "stState n = StepStateRunning" by (simp_all add: n_def step_of_def Let_def)
  obtain e where e: "b1 = b\<lparr>sbSeq := sbSeq b + 1\<rparr>" "es' = es @ [e]" "evSeq e = sbSeq b + 1"
    "evType e = CIEventNodeStarted" "evNode e = Some n"
    using emit_shape [OF em] by (simp add: blank_event_def) metis
  have "stream_ok b' ((past @ es) @ [e])"
    using assms(1) None n b' e by (intro stream_ok_snoc [OF assms(1)]) (auto simp: node_log_def stream_ok_def life_def split: if_splits)
  then show ?thesis by (simp add: e(2))
qed

text \<open>Closing a running node, by its own end or by \<open>Finalize\<close>.\<close>

lemma finish_event_ok:
  assumes ok: "stream_ok b (past @ es)" and prev: "gm_get (sbSeen b) i = Some p" "stState p = StepStateRunning"
    and n: "stID n = i" "stState n \<noteq> StepStateRunning" and t: "evType e = CIEventNodeFinished" "evNode e = Some n"
    and em: "emit clk e (b, es) = (b1, es')"
  shows "stream_ok (b1\<lparr>sbSeen := gm_put i n (sbSeen b1)\<rparr>) (past @ es')"
proof -
  obtain e' where e: "b1 = b\<lparr>sbSeq := sbSeq b + 1\<rparr>" "es' = es @ [e']" "evSeq e' = sbSeq b + 1" "evType e' = evType e"
    "evNode e' = evNode e" using emit_shape [OF em] by metis
  have "stream_ok (b1\<lparr>sbSeen := gm_put i n (sbSeen b1)\<rparr>) ((past @ es) @ [e'])"
    using ok prev n t e by (intro stream_ok_snoc [OF ok]) (auto simp: node_log_def stream_ok_def life_def split: if_splits)
  then show ?thesis by (simp add: e(2))
qed

lemma emitNodeFinished_ok:
  assumes "stream_ok b (past @ es)" and "emitNodeFinished clk fn (b, es) = (b', es')"
  shows "stream_ok b' (past @ es')"
proof -
  let ?n = "fnNode fn"
  let ?i = "snSpanID ?n" and ?s = "stepStateForStatus (snStatus ?n)"
  show ?thesis
  proof (cases "\<exists>p. gm_get (sbSeen b) ?i = Some p \<and> stState p = StepStateRunning \<and> ?s \<noteq> StepStateRunning")
    case False
    then have "b' = b" "es' = es"
      using assms(2) by (auto simp: emitNodeFinished_def Let_def split: option.splits)
    with assms(1) show ?thesis by simp
  next
    case True
    then obtain p where p: "gm_get (sbSeen b) ?i = Some p" "stState p = StepStateRunning" "?s \<noteq> StepStateRunning" by blast
    then have s: "?s = StepStateSucceeded \<or> ?s = StepStateFailed" by (auto simp: stepStateForStatus_def split: if_splits)
    let ?e = "(blank_event CIEventNodeFinished)\<lparr>evNode := Some (finish_of ?n p),
      evError := if ?s = StepStateFailed then failureReason (Some ?n) else []\<rparr>"
    obtain b1 where em: "emit clk ?e (b, es) = (b1, es')"
      and b': "b' = b1\<lparr>sbSeen := gm_put ?i (finish_of ?n p) (sbSeen b1)\<rparr>"
      using assms(2) p s by (auto simp: emitNodeFinished_def Let_def split: prod.splits)
    show ?thesis unfolding b'
      by (rule finish_event_ok [OF assms(1) p(1,2) _ _ _ _ em]) (use p(3) in \<open>simp_all add: finish_of_def blank_event_def\<close>)
  qed
qed

lemma emit_chunks_ok:
  "stream_ok b (past @ es) \<Longrightarrow> emit_chunks clk chunks (b, es) = (b', es') \<Longrightarrow> stream_ok b' (past @ es')"
proof (induction chunks arbitrary: b es)
  case (Cons ch chunks)
  obtain b1 es1 where em: "emit clk ((blank_event CIEventLogChunk)\<lparr>evLog := Some ch\<rparr>) (b, es) = (b1, es1)" by (rule prod.exhaust)
  have "stream_ok b1 (past @ es1)" by (rule emit_other [OF Cons.prems(1) _ _ em]) (simp_all add: blank_event_def)
  with Cons.IH [of b1 es1] Cons.prems(2) em show ?case by (simp add: emit_chunks_def)
qed (simp add: emit_chunks_def)

text \<open>A fold and a visit keep what every step of them keeps.\<close>

lemma fold_opt_keeps:
  assumes "\<And>x s s'. x \<in> set xs \<Longrightarrow> P s \<Longrightarrow> f x s = Some s' \<Longrightarrow> P s'" and "P s" and "fold_opt f xs s = Some s'"
  shows "P s'"
  using assms
proof (induction xs arbitrary: s)
  case (Cons x xs)
  from Cons.prems(3) obtain s1 where s1: "f x s = Some s1" "fold_opt f xs s1 = Some s'" by (auto split: option.splits)
  have "P s1" using Cons.prems(1) [OF _ Cons.prems(2) s1(1)] by simp
  moreover have "\<And>y s s'. y \<in> set xs \<Longrightarrow> P s \<Longrightarrow> f y s = Some s' \<Longrightarrow> P s'" using Cons.prems(1) by (meson list.set_intros(2))
  ultimately show ?case using Cons.IH s1(2) by metis
qed simp

lemma visit_keeps:
  assumes started: "\<And>fn s. P s \<Longrightarrow> P (emitNodeStarted clk fn s)"
    and logs: "\<And>i cs s. gm_get chunks i = Some cs \<Longrightarrow> P s \<Longrightarrow> P (emit_chunks clk cs s)"
    and finished: "\<And>fn s. P s \<Longrightarrow> P (emitNodeFinished clk fn s)"
    and "P s" and "visit fuel clk flat children chunks idx s = Some s'"
  shows "P s'"
  using assms(4,5)
proof (induction fuel arbitrary: idx s s')
  case (Suc fuel)
  from Suc.prems(2) obtain s1 where
    f: "fold_opt (visit fuel clk flat children chunks) (kids children idx) (emitNodeStarted clk (flat ! idx) s) = Some s1"
    and s': "s' = emitNodeFinished clk (flat ! idx)
      (emit_chunks clk (case gm_get chunks (snSpanID (fnNode (flat ! idx))) of Some cs \<Rightarrow> cs | None \<Rightarrow> []) s1)"
    by (auto simp: visit_Suc simp del: visit.simps split: option.splits)
  have "P s1" by (rule fold_opt_keeps [where P = P, OF _ started [OF Suc.prems(1)] f]) (rule Suc.IH)
  moreover have "emit_chunks clk [] x = x" for x by (simp add: emit_chunks_def)
  ultimately show ?case using logs finished by (auto simp: s' split: option.splits)
qed simp

lemma emitTree_ok:
  assumes "stream_ok b (past @ es)" and "emitTree clk flat chunks (b, es) = Some (b', es')"
  shows "stream_ok b' (past @ es')"
proof (cases "flat = []")
  case False
  let ?P = "\<lambda>st. stream_ok (fst st) (past @ snd st)"
  have "?P (b', es')"
  proof (rule visit_keeps [where P = ?P and s = "(b, es)"])
    show "visit (length flat) clk flat (flat_children flat) chunks 0 (b, es) = Some (b', es')"
      using assms(2) False by (simp add: emitTree_def)
    show "?P (emitNodeStarted clk fn s)" if "?P s" for fn s
      using that emitNodeStarted_ok [of "fst s" past "snd s" clk fn] by (cases "emitNodeStarted clk fn s") simp
    show "?P (emit_chunks clk cs s)" if "?P s" for cs s
      using that emit_chunks_ok [of "fst s" past "snd s" clk cs] by (cases "emit_chunks clk cs s") simp
    show "?P (emitNodeFinished clk fn s)" if "?P s" for fn s
      using that emitNodeFinished_ok [of "fst s" past "snd s" clk fn] by (cases "emitNodeFinished clk fn s") simp
  qed (use assms(1) in simp)
  then show ?thesis by simp
qed (use assms in \<open>simp add: emitTree_def\<close>)

lemma stream_ok_cong:
  "sbSeen b' = sbSeen b \<Longrightarrow> sbSeq b' = sbSeq b \<Longrightarrow> sbPipelineDone b' = sbPipelineDone b \<Longrightarrow> sbOrder b' = sbOrder b \<Longrightarrow>
     stream_ok b' es = stream_ok b es"
  by (simp add: stream_ok_def)

lemma emit_done_ok:
  assumes "stream_ok b (past @ es)" and "emit_done clk trace (b, es) = (b', es')"
  shows "stream_ok b' (past @ es')"
proof (cases "sbPipelineDone b \<or> terminalStatus trace = None")
  case True
  with assms show ?thesis by (auto simp: emit_done_def split: option.splits)
next
  case False
  then obtain status where t: "terminalStatus trace = Some status" and nd: "\<not> sbPipelineDone b" by auto
  let ?e = "(blank_event CIEventPipelineDone)\<lparr>evStatus := status,
    evError := if status = ''failed'' then failureReason (root_fields (tiRootSpan trace)) else []\<rparr>"
  obtain b1 where em: "emit clk ?e (b, es) = (b1, es')" and b': "b' = b1\<lparr>sbPipelineDone := True\<rparr>"
    using assms(2) t nd by (auto simp: emit_done_def Let_def split: prod.splits)
  show ?thesis unfolding b'
    by (rule emit_done_event [OF assms(1) _ _ nd em]) (simp_all add: blank_event_def)
qed

lemma Advance_cases:
  assumes "Advance clk trace logs b = Some (r, b')"
  obtains (idle) "r = Inl (ErrOther ''nil trace'') \<or> r = Inr []" "b' = b"
      "\<And>t. trace = Some t \<Longrightarrow> fst (flattenTrace (tiRootSpan t) (sbMaxDepth b)) = []"
  | (poll) t flat attribution b0 b1 es1 b2 es where "trace = Some t"
      "flattenTrace (tiRootSpan t) (sbMaxDepth b) = (flat, attribution)" "flat \<noteq> []"
      "b0 = (if sbTraceID b = [] then b\<lparr>sbTraceID := tiTraceID t\<rparr> else b)"
      "emitTree clk flat (prepareLogChunks b0 logs attribution (snSpanID (fnNode (hd flat)))) (b0, []) = Some (b1, es1)"
      "b2 = (case advanceWatermark b1 logs of None \<Rightarrow> b1 | Some (mark, keys) \<Rightarrow> b1\<lparr>sbLogMark := mark, sbMarkKeys := keys\<rparr>)"
      "emit_done clk t (b2, es1) = (b', es)" "r = Inr es"
  using assms by (auto simp: Advance_def Let_def split: option.splits prod.splits if_splits)

lemma Advance_ok:
  assumes ok: "stream_ok b past" and adv: "Advance clk trace logs b = Some (r, b')"
  shows "stream_ok b' (past @ (case r of Inl _ \<Rightarrow> [] | Inr es \<Rightarrow> es))"
  using adv
proof (cases rule: Advance_cases)
  case (poll t flat attribution b0 b1 es1 b2 es)
  have "stream_ok b0 (past @ [])" using ok poll(4) by (simp add: stream_ok_cong [of "_\<lparr>sbTraceID := _\<rparr>"])
  from emitTree_ok [OF this poll(5)] have "stream_ok b1 (past @ es1)" .
  then have "stream_ok b2 (past @ es1)"
    by (simp add: poll(6) stream_ok_cong [of "_\<lparr>sbLogMark := _, sbMarkKeys := _\<rparr>"] split: option.splits prod.splits)
  from emit_done_ok [OF this poll(7)] poll(8) show ?thesis by simp
qed (use ok in auto)


section \<open>The end of the stream\<close>

definition close_node :: "(int \<Rightarrow> gotime) \<Rightarrow> StepState \<Rightarrow> string \<Rightarrow> emit_state \<Rightarrow> emit_state" where
  "close_node clk final i st = close_nodes clk final [i] st"

lemma close_nodes_Cons: "close_nodes clk final (i # is) st = close_nodes clk final is (close_node clk final i st)"
  by (simp add: close_node_def)

declare close_nodes.simps(2) [simp del]

lemma close_node_ok:
  assumes ok: "stream_ok b (past @ es)" and final: "final \<noteq> StepStateRunning"
    and c: "close_node clk final i (b, es) = (b', es')"
  shows "stream_ok b' (past @ es') \<and> sbPipelineDone b' = sbPipelineDone b \<and> sbOrder b' = sbOrder b
    \<and> (\<forall>j n. gm_get (sbSeen b') j = Some n \<and> stState n = StepStateRunning \<longrightarrow> j \<noteq> i \<and> gm_get (sbSeen b) j = Some n)"
proof (cases "\<exists>n. gm_get (sbSeen b) i = Some n \<and> stState n = StepStateRunning")
  case False
  then have "b' = b" "es' = es" using c by (auto simp: close_node_def close_nodes.simps split: option.splits)
  with ok False show ?thesis by auto
next
  case True
  then obtain n where n: "gm_get (sbSeen b) i = Some n" "stState n = StepStateRunning" by blast
  let ?e = "(blank_event CIEventNodeFinished)\<lparr>evNode := Some (n\<lparr>stState := final\<rparr>)\<rparr>"
  obtain b1 where em: "emit clk ?e (b, es) = (b1, es')" and b': "b' = b1\<lparr>sbSeen := gm_put i (n\<lparr>stState := final\<rparr>) (sbSeen b1)\<rparr>"
    using c n by (auto simp: close_node_def close_nodes.simps Let_def split: prod.splits)
  have b1: "b1 = b\<lparr>sbSeq := sbSeq b + 1\<rparr>" using emit_shape [OF em] by blast
  have "stID n = i" using ok n(1) by (simp add: stream_ok_def)
  then have "stream_ok b' (past @ es')" unfolding b'
    by (intro finish_event_ok [OF ok n _ _ _ _ em]) (use final in \<open>simp_all add: blank_event_def\<close>)
  then show ?thesis using final by (auto simp: b' b1 split: if_splits)
qed

lemma close_nodes_ok:
  assumes "stream_ok b (past @ es)" and "final \<noteq> StepStateRunning" and "close_nodes clk final is (b, es) = (b', es')"
  shows "stream_ok b' (past @ es') \<and> sbPipelineDone b' = sbPipelineDone b \<and> sbOrder b' = sbOrder b
    \<and> (\<forall>j n. gm_get (sbSeen b') j = Some n \<and> stState n = StepStateRunning \<longrightarrow> j \<notin> set is \<and> gm_get (sbSeen b) j = Some n)"
  using assms
proof (induction "is" arbitrary: b es)
  case (Cons i "is")
  obtain b1 es1 where c: "close_node clk final i (b, es) = (b1, es1)" by (cases "close_node clk final i (b, es)")
  note step = close_node_ok [OF Cons.prems(1,2) c]
  from Cons.prems(3) c have "close_nodes clk final is (b1, es1) = (b', es')" by (simp add: close_nodes_Cons)
  from Cons.IH [OF _ Cons.prems(2) this] step show ?case by auto
qed simp

lemma Finalize_ok:
  assumes ok: "stream_ok b past" and fin: "Finalize clk status msg b = (es, b')"
  shows "stream_ok b' (past @ es) \<and> sbPipelineDone b' \<and> (\<forall>i n. gm_get (sbSeen b') i = Some n \<longrightarrow> stState n \<noteq> StepStateRunning)"
proof -
  let ?st = "if status \<noteq> ''failed'' \<and> status \<noteq> ''canceled'' then ''success'' else status"
  let ?f = "if ?st \<noteq> ''success'' then StepStateFailed else StepStateSucceeded"
  obtain b1 es1 where c: "close_nodes clk ?f (rev (sbOrder b)) (b, []) = (b1, es1)"
    by (cases "close_nodes clk ?f (rev (sbOrder b)) (b, [])")
  have f: "?f \<noteq> StepStateRunning" by simp
  from close_nodes_ok [of b past "[]", OF _ f c] ok
  have c1: "stream_ok b1 (past @ es1)" "sbPipelineDone b1 = sbPipelineDone b" "sbOrder b1 = sbOrder b"
    and run: "\<And>j n. gm_get (sbSeen b1) j = Some n \<Longrightarrow> stState n = StepStateRunning \<Longrightarrow> j \<notin> set (sbOrder b)" by auto
  have none: "stState n \<noteq> StepStateRunning" if "gm_get (sbSeen b1) i = Some n" for i n
    using run [OF that] that c1(1,3) by (auto simp: stream_ok_def)
  show ?thesis
  proof (cases "sbPipelineDone b1")
    case True
    then have "b' = b1" "es = es1" using fin c by (auto simp: Finalize_def Let_def)
    with c1(1) none True show ?thesis by blast
  next
    case False
    let ?e = "(blank_event CIEventPipelineDone)\<lparr>evStatus := ?st, evError := msg\<rparr>"
    have em: "emit clk ?e (b1\<lparr>sbPipelineDone := True\<rparr>, es1) = (b', es)"
      using fin c False by (auto simp: Finalize_def Let_def split: prod.splits)
    obtain b2 where em2: "emit clk ?e (b1, es1) = (b2, es)"
      using arg_cong [OF em, of snd] unfolding emit_done_flag by (metis prod.collapse snd_conv)
    have b2: "b2 = b1\<lparr>sbSeq := sbSeq b1 + 1\<rparr>" "b' = b2\<lparr>sbPipelineDone := True\<rparr>"
      using arg_cong [OF em, of fst] arg_cong [OF em2, of fst] by auto
    from emit_done_event [OF c1(1) _ _ False em2] have "stream_ok b' (past @ es)"
      by (simp add: b2(2) blank_event_def)
    then show ?thesis using none by (simp add: b2)
  qed
qed

text \<open>A whole run: any number of polls, each with the snapshot and the log lines it got.\<close>

fun polls :: "(int \<Rightarrow> gotime) \<Rightarrow> (TraceInfo option \<times> LogEntry list) list \<Rightarrow> StepEventBuilder \<Rightarrow> (CIEvent list \<times> StepEventBuilder) option" where
  "polls clk [] b = Some ([], b)"
| "polls clk ((trace, logs) # ps) b = (case Advance clk trace logs b of
     None \<Rightarrow> None
   | Some (r, b1) \<Rightarrow> (case polls clk ps b1 of
       None \<Rightarrow> None
     | Some (es, b2) \<Rightarrow> Some ((case r of Inl _ \<Rightarrow> [] | Inr es1 \<Rightarrow> es1) @ es, b2)))"

lemma polls_ok:
  assumes "stream_ok b past"
  shows "\<exists>es b'. polls clk ps b = Some (es, b') \<and> stream_ok b' (past @ es)"
  using assms
proof (induction ps arbitrary: b past)
  case (Cons p ps)
  obtain trace logs where p: "p = (trace, logs)" by (cases p)
  obtain r b1 where a: "Advance clk trace logs b = Some (r, b1)" using Advance_returns by metis
  from Cons.IH [OF Advance_ok [OF Cons.prems a]] obtain es b' where
    "polls clk ps b1 = Some (es, b')" "stream_ok b' (past @ (case r of Inl _ \<Rightarrow> [] | Inr es \<Rightarrow> es) @ es)" by auto
  then show ?case by (simp add: p a)
qed simp

lemma stream_ok_new: "stream_ok (NewStepEventBuilder d) []"
  by (simp add: stream_ok_def NewStepEventBuilder_def node_log_def life_def dones_def)

text \<open>
  C5: the stream is a protocol that a sequential reader can follow. Whatever the polls saw, every call
  returns, and the events of all polls and of the closing call have the sequence numbers 1, 2, 3,
  and so on; a node that occurs is started exactly once and finished exactly once, in this order; and there is
  exactly one end of the pipeline. Closing a second time yields nothing.
\<close>

theorem event_protocol:
  "\<exists>es b fs b'. polls clk ps (NewStepEventBuilder d) = Some (es, b) \<and> Finalize clk status msg b = (fs, b')
    \<and> map evSeq (es @ fs) = map int [1..<Suc (length (es @ fs))]
    \<and> (\<forall>i. node_log i (es @ fs) = [] \<or> node_log i (es @ fs) = [CIEventNodeStarted, CIEventNodeFinished])
    \<and> (\<forall>i. node_log i es \<in> {[], [CIEventNodeStarted], [CIEventNodeStarted, CIEventNodeFinished]})
    \<and> length (dones (es @ fs)) = 1
    \<and> Finalize clk status' msg' b' = ([], b')"
proof -
  obtain es b where p: "polls clk ps (NewStepEventBuilder d) = Some (es, b)" "stream_ok b es"
    using polls_ok [OF stream_ok_new] by fastforce
  obtain fs b' where f: "Finalize clk status msg b = (fs, b')" by (cases "Finalize clk status msg b")
  from Finalize_ok [OF p(2) f] have ok: "stream_ok b' (es @ fs)" "sbPipelineDone b'"
    and closed: "\<And>i n. gm_get (sbSeen b') i = Some n \<Longrightarrow> stState n \<noteq> StepStateRunning" by auto
  have idle: "close_nodes clk final is (b', []) = (b', [])" for final "is"
    by (induction "is") (use closed in \<open>auto simp: close_nodes.simps split: option.splits\<close>)
  have again: "Finalize clk status' msg' b' = ([], b')" by (simp add: Finalize_def Let_def idle ok(2))
  note log = stream_okD(1) [OF ok(1)] stream_okD(1) [OF p(2)] and seq = stream_okD(2) [OF ok(1)]
  have one: "length (dones (es @ fs)) = 1" using stream_okD(3) [OF ok(1)] ok(2) by simp
  have all: "\<forall>i. node_log i (es @ fs) = [] \<or> node_log i (es @ fs) = [CIEventNodeStarted, CIEventNodeFinished]"
    unfolding log using closed by (auto simp: life_def split: option.splits)
  have part: "\<forall>i. node_log i es \<in> {[], [CIEventNodeStarted], [CIEventNodeStarted, CIEventNodeFinished]}"
    unfolding log by (auto simp: life_def split: option.splits)
  show ?thesis by (intro exI conjI, rule p(1), rule f, rule seq, rule all, rule part, rule one, rule again)
qed

end
