(* ===== verification/CI_Logs.thy ===== *)
theory CI_Logs
  imports CI_Stream "HOL-Library.Code_Target_Nat"
begin

text \<open>
  Two promises of the CI event builder that need its whole traversal: a snapshot that was already
  seen yields no event, and (in \<open>CI_Lines\<close>) a log line goes to its node once. The first needs that a visited node
  is settled; the second that the walk over the rebuilt children visits every node of the flattened tree
  exactly once.
\<close>

section \<open>Settled nodes\<close>

text \<open>Nodes are never forgotten, and a finished one stays finished.\<close>

definition grows :: "StepEventBuilder \<Rightarrow> StepEventBuilder \<Rightarrow> bool" where
  "grows b b' \<longleftrightarrow> (\<forall>i n. gm_get (sbSeen b) i = Some n \<longrightarrow>
     (\<exists>n'. gm_get (sbSeen b') i = Some n' \<and> (stState n \<noteq> StepStateRunning \<longrightarrow> stState n' \<noteq> StepStateRunning)))"

lemma grows_refl: "sbSeen b' = sbSeen b \<Longrightarrow> grows b b'"
  by (simp add: grows_def)

lemma grows_trans: "grows a b \<Longrightarrow> grows b c \<Longrightarrow> grows a c"
  unfolding grows_def by metis

lemma emit_chunks_seen [simp]: "sbSeen (fst (emit_chunks clk cs st)) = sbSeen (fst st)"
  by (induction cs arbitrary: st) (simp_all add: emit_chunks_def)

lemma emitNodeStarted_seen:
  "sbSeen (fst (emitNodeStarted clk fn st)) =
     (if gm_get (sbSeen (fst st)) (snSpanID (fnNode fn)) = None
      then gm_put (snSpanID (fnNode fn)) ((step_of fn)\<lparr>stState := StepStateRunning\<rparr>) (sbSeen (fst st))
      else sbSeen (fst st))"
  by (auto simp: emitNodeStarted_def Let_def case_prod_beta split: option.splits)

lemma emitNodeFinished_seen:
  "sbSeen (fst (emitNodeFinished clk fn st)) = (case gm_get (sbSeen (fst st)) (snSpanID (fnNode fn)) of
     None \<Rightarrow> sbSeen (fst st)
   | Some p \<Rightarrow> if stState p = StepStateRunning \<and> stepStateForStatus (snStatus (fnNode fn)) \<noteq> StepStateRunning
       then gm_put (snSpanID (fnNode fn)) (finish_of (fnNode fn) p) (sbSeen (fst st)) else sbSeen (fst st))"
  by (auto simp: emitNodeFinished_def Let_def case_prod_beta stepStateForStatus_def split: option.splits)

lemma op_grows:
  "grows (fst st) (fst (emitNodeStarted clk fn st))" "grows (fst st) (fst (emitNodeFinished clk fn st))"
  "grows (fst st) (fst (emit_chunks clk cs st))"
  by (auto simp: grows_def emitNodeStarted_seen emitNodeFinished_seen finish_of_def split: option.splits)

lemma visit_grows: "visit fuel clk flat children chunks idx st = Some st' \<Longrightarrow> grows (fst st) (fst st')"
  by (rule visit_keeps [where P = "\<lambda>s. grows (fst st) (fst s)"]) (auto intro: grows_trans op_grows grows_refl)

definition settled :: "flatNode \<Rightarrow> StepEventBuilder \<Rightarrow> bool" where
  "settled fn b \<longleftrightarrow> (\<exists>n. gm_get (sbSeen b) (snSpanID (fnNode fn)) = Some n
     \<and> (stepStateForStatus (snStatus (fnNode fn)) \<noteq> StepStateRunning \<longrightarrow> stState n \<noteq> StepStateRunning))"

lemma settled_grows: "settled fn b \<Longrightarrow> grows b b' \<Longrightarrow> settled fn b'"
  unfolding settled_def grows_def by metis

lemma settled_finished:
  "gm_get (sbSeen (fst st)) (snSpanID (fnNode fn)) \<noteq> None \<Longrightarrow> settled fn (fst (emitNodeFinished clk fn st))"
  by (auto simp: settled_def emitNodeFinished_seen finish_of_def)

lemma settled_quiet:
  assumes "settled fn b"
  shows "emitNodeStarted clk fn (b, es) = (b, es)" and "emitNodeFinished clk fn (b, es) = (b, es)"
  using assms by (auto simp: settled_def emitNodeStarted_def emitNodeFinished_def Let_def)

lemma fold_opt_steps:
  assumes "fold_opt f xs s = Some s'" and "x \<in> set xs" and "\<And>x s s'. f x s = Some s' \<Longrightarrow> grows (fst s) (fst s')"
  shows "\<exists>t t'. f x t = Some t' \<and> grows (fst t') (fst s')"
  using assms(1,2)
proof (induction xs arbitrary: s)
  case (Cons y ys)
  from Cons.prems(1) obtain s1 where s1: "f y s = Some s1" "fold_opt f ys s1 = Some s'" by (auto split: option.splits)
  have "grows (fst s1) (fst s')"
    by (rule fold_opt_keeps [where P = "\<lambda>s. grows (fst s1) (fst s)", OF _ _ s1(2)]) (auto intro: grows_refl grows_trans assms(3))
  show ?case
  proof (cases "x = y")
    case True
    with s1(1) \<open>grows (fst s1) (fst s')\<close> show ?thesis by blast
  next
    case False
    with Cons.prems(2) show ?thesis by (intro Cons.IH [OF s1(2)]) simp
  qed
qed simp

lemma fold_opt_id: "(\<And>x. x \<in> set xs \<Longrightarrow> f x s = Some s) \<Longrightarrow> fold_opt f xs s = Some s"
  by (induction xs) auto

lemma visit_quiet:
  assumes "visit fuel clk flat children chunks idx st = Some st'" and "grows (fst st') b"
  shows "visit fuel clk' flat children [] idx (b, es) = Some (b, es)"
  using assms
proof (induction fuel arbitrary: idx st st')
  case (Suc fuel)
  let ?fn = "flat ! idx" and ?cs = "case gm_get chunks (snSpanID (fnNode (flat ! idx))) of Some cs \<Rightarrow> cs | None \<Rightarrow> []"
  from Suc.prems(1) obtain s1 where
    f: "fold_opt (visit fuel clk flat children chunks) (kids children idx) (emitNodeStarted clk ?fn st) = Some s1"
    and st': "st' = emitNodeFinished clk ?fn (emit_chunks clk ?cs s1)"
    by (auto simp: visit_Suc simp del: visit.simps split: option.splits)
  have g1: "grows (fst s1) (fst st')" unfolding st' by (rule grows_trans [OF op_grows(3) op_grows(2)])
  have "grows (fst (emitNodeStarted clk ?fn st)) (fst s1)"
    by (rule fold_opt_keeps [where P = "\<lambda>s. grows (fst (emitNodeStarted clk ?fn st)) (fst s)", OF _ _ f])
      (auto intro: grows_refl grows_trans visit_grows)
  then have "gm_get (sbSeen (fst (emit_chunks clk ?cs s1))) (snSpanID (fnNode ?fn)) \<noteq> None"
    by (cases "gm_get (sbSeen (fst st)) (snSpanID (fnNode ?fn))") (auto simp: grows_def emitNodeStarted_seen split: if_splits)
  then have "settled ?fn (fst st')" unfolding st' by (rule settled_finished)
  then have quiet: "settled ?fn b" using Suc.prems(2) by (rule settled_grows)
  have "visit fuel clk' flat children [] c (b, es) = Some (b, es)" if "c \<in> set (kids children idx)" for c
  proof -
    have "\<exists>t t'. visit fuel clk flat children chunks c t = Some t' \<and> grows (fst t') (fst s1)"
      by (rule fold_opt_steps [OF f that]) (rule visit_grows)
    then obtain t t' where "visit fuel clk flat children chunks c t = Some t'" "grows (fst t') (fst s1)" by blast
    with Suc.IH g1 Suc.prems(2) show ?thesis by (meson grows_trans)
  qed
  then have "fold_opt (visit fuel clk' flat children []) (kids children idx) (b, es) = Some (b, es)" by (rule fold_opt_id)
  then show ?case
    by (simp add: visit_Suc settled_quiet [OF quiet] emit_chunks_def del: visit.simps)
qed simp

section \<open>A snapshot seen before\<close>

lemma max_timestamp_ge:
  assumes "e \<in> set logs"
  shows "leTimestamp e \<le> max_timestamp logs"
proof -
  let ?m = "\<lambda>logs t. fold (\<lambda>e m. if leTimestamp e > m then leTimestamp e else m) logs t"
  have "t \<le> ?m logs t \<and> (\<forall>e \<in> set logs. leTimestamp e \<le> ?m logs t)" for t
  proof (induction logs arbitrary: t)
    case (Cons a logs)
    from Cons.IH [of "if leTimestamp a > t then leTimestamp a else t"] show ?case by (auto split: if_splits)
  qed simp
  with assms show ?thesis by (simp add: max_timestamp_def)
qed

definition add_keys :: "gotime \<Rightarrow> LogEntry list \<Rightarrow> logMarkKey list \<Rightarrow> logMarkKey list" where
  "add_keys ts logs keys = fold (\<lambda>e keys. if leTimestamp e = ts then set_put (mark_key e) keys else keys) logs keys"

lemma add_keys_Cons:
  "add_keys ts (e # logs) keys = add_keys ts logs (if leTimestamp e = ts then set_put (mark_key e) keys else keys)"
  by (simp add: add_keys_def)

lemma set_add_keys: "set (add_keys ts logs keys) = set keys \<union> mark_key ` {e \<in> set logs. leTimestamp e = ts}"
  by (induction logs arbitrary: keys) (auto simp: add_keys_Cons, simp_all add: add_keys_def)

lemma length_add_keys: "length (add_keys ts logs keys) \<le> length keys + length logs"
proof (induction logs arbitrary: keys)
  case (Cons e logs)
  let ?k = "if leTimestamp e = ts then set_put (mark_key e) keys else keys"
  have "length ?k \<le> Suc (length keys)" by (simp add: List.insert_def)
  with Cons.IH [of ?k] show ?case by (simp only: add_keys_Cons length_Cons)
qed (simp add: add_keys_def)

lemma add_keys_known:
  "\<forall>e \<in> set logs. leTimestamp e = ts \<longrightarrow> mark_key e \<in> set keys \<Longrightarrow> add_keys ts logs keys = keys"
  by (induction logs) (auto simp: add_keys_Cons List.insert_def, simp add: add_keys_def)

text \<open>The watermark after a poll: every line of the poll counts as emitted, and the same lines do not move it.\<close>

lemma watermark_covers:
  assumes keys: "length (sbMarkKeys b) + length logs \<le> maxMarkKeys"
    and b': "b' = (case advanceWatermark b logs of None \<Rightarrow> b | Some (mark, keys) \<Rightarrow> b\<lparr>sbLogMark := mark, sbMarkKeys := keys\<rparr>)"
  shows "\<forall>e \<in> set logs. already_emitted b' e"
    and "advanceWatermark b' logs = None \<or> advanceWatermark b' logs = Some (sbLogMark b', sbMarkKeys b')"
proof -
  let ?ts = "max_timestamp logs"
  have "(\<forall>e \<in> set logs. already_emitted b' e) \<and>
    (advanceWatermark b' logs = None \<or> advanceWatermark b' logs = Some (sbLogMark b', sbMarkKeys b'))"
  proof (cases "logs = [] \<or> ?ts < sbLogMark b")
    case True
    then have "b' = b" by (auto simp: b' advanceWatermark_def Let_def)
    with True show ?thesis
      by (auto simp: advanceWatermark_def already_emitted_def Let_def intro: order.strict_trans1 [OF max_timestamp_ge])
  next
    case False
    let ?k = "add_keys ?ts logs (sbMarkKeys b)"
    have trim: "trimMarkKeys ?k = ?k"
      using length_add_keys [of ?ts logs "sbMarkKeys b"] keys by (simp add: trimMarkKeys_def)
    have b': "b' = b\<lparr>sbLogMark := ?ts, sbMarkKeys := ?k\<rparr>"
      using False trim by (simp add: b' advanceWatermark_def add_keys_def Let_def)
    have known: "\<forall>e \<in> set logs. leTimestamp e = ?ts \<longrightarrow> mark_key e \<in> set ?k" by (auto simp: set_add_keys)
    have "add_keys ?ts logs ?k = ?k" by (rule add_keys_known [OF known])
    then have "advanceWatermark b' logs = Some (?ts, ?k)"
      using False trim by (simp add: advanceWatermark_def b' add_keys_def Let_def)
    moreover have "already_emitted b' e" if "e \<in> set logs" for e
      using max_timestamp_ge [OF that] known that by (auto simp: already_emitted_def b')
    ultimately show ?thesis by (simp add: b')
  qed
  then show "\<forall>e \<in> set logs. already_emitted b' e"
    and "advanceWatermark b' logs = None \<or> advanceWatermark b' logs = Some (sbLogMark b', sbMarkKeys b')"
    by blast+
qed

lemma chunk_loop_none: "\<forall>e \<in> set es. already_emitted b e \<Longrightarrow> chunk_loop b attribution root es m = m"
  by (induction es) auto


definition frame :: "StepEventBuilder \<Rightarrow> int \<times> string \<times> gotime \<times> logMarkKey list \<times> bool" where
  "frame b = (sbMaxDepth b, sbTraceID b, sbLogMark b, sbMarkKeys b, sbPipelineDone b)"

lemma emit_frame:
  "frame (fst (emit_chunks clk cs st)) = frame (fst st)"
  "frame (fst (emitNodeStarted clk fn st)) = frame (fst st)"
  "frame (fst (emitNodeFinished clk fn st)) = frame (fst st)"
proof -
  show "frame (fst (emit_chunks clk cs st)) = frame (fst st)"
    by (induction cs arbitrary: st) (simp_all add: emit_chunks_def frame_def)
qed (simp_all add: emitNodeStarted_def emitNodeFinished_def frame_def Let_def case_prod_beta split: option.splits)

lemma emitTree_frame:
  assumes "emitTree clk flat chunks st = Some st'"
  shows "frame (fst st') = frame (fst st)"
proof (cases "flat = []")
  case False
  then have v: "visit (length flat) clk flat (flat_children flat) chunks 0 st = Some st'" using assms by (simp add: emitTree_def)
  show ?thesis by (rule visit_keeps [where P = "\<lambda>s. frame (fst s) = frame (fst st)", OF _ _ _ _ v]) (simp_all add: emit_frame)
qed (use assms in \<open>simp add: emitTree_def\<close>)

lemma emit_done_frame:
  assumes "emit_done clk t (b, es) = (b', es')"
  shows "sbSeen b' = sbSeen b" "sbMaxDepth b' = sbMaxDepth b" "sbTraceID b' = sbTraceID b" "sbLogMark b' = sbLogMark b"
    "sbMarkKeys b' = sbMarkKeys b" "sbPipelineDone b' \<or> terminalStatus t = None"
proof -
  have b': "b' = fst (emit_done clk t (b, es))" by (simp add: assms)
  show "sbSeen b' = sbSeen b" "sbMaxDepth b' = sbMaxDepth b" "sbTraceID b' = sbTraceID b" "sbLogMark b' = sbLogMark b"
    "sbMarkKeys b' = sbMarkKeys b" "sbPipelineDone b' \<or> terminalStatus t = None"
    unfolding b' by (auto simp: emit_done_def Let_def case_prod_beta split: option.splits)
qed

lemma already_emitted_cong:
  "sbLogMark b' = sbLogMark b \<Longrightarrow> sbMarkKeys b' = sbMarkKeys b \<Longrightarrow> already_emitted b' e = already_emitted b e"
  by (simp add: already_emitted_def)

text \<open>
  Polling is idempotent. When a poll is repeated with the snapshot and the log lines of the poll
  before, it emits nothing and leaves the builder as it is, as long as the log lines fit in the set of
  remembered lines.
\<close>

theorem Advance_idempotent:
  assumes adv: "Advance clk (Some t) logs b = Some (Inr es, b')"
    and keys: "length (sbMarkKeys b) + length logs \<le> 4096"
  shows "Advance clk' (Some t) logs b' = Some (Inr [], b')"
  using adv
proof (cases rule: Advance_cases)
  case idle
  then show ?thesis using idle(3) [OF refl] by (auto simp: Advance_def split: prod.splits)
next
  case (poll t' flat attribution b0 b1 es1 b2 es')
  then have t: "t' = t" by simp
  have f1: "frame b1 = frame b0" using emitTree_frame [OF poll(5)] by simp
  have b0: "sbMaxDepth b0 = sbMaxDepth b" "sbLogMark b0 = sbLogMark b" "sbMarkKeys b0 = sbMarkKeys b"
    "sbTraceID b0 = [] \<Longrightarrow> tiTraceID t = []" by (auto simp: poll(4) t split: if_splits)
  have keys1: "length (sbMarkKeys b1) + length logs \<le> maxMarkKeys"
    using keys f1 b0(3) by (simp add: frame_def maxMarkKeys_def)
  note w = watermark_covers [OF keys1 poll(6)] and d = emit_done_frame [OF poll(7)]
  have b2: "sbSeen b2 = sbSeen b1" "sbMaxDepth b2 = sbMaxDepth b1" "sbTraceID b2 = sbTraceID b1"
    by (auto simp: poll(6) split: option.splits prod.splits)
  have flat: "flattenTrace (tiRootSpan t) (sbMaxDepth b') = (flat, attribution)"
    using poll(2) d(2) b2(2) f1 b0(1) by (simp add: frame_def t)
  have "sbTraceID b' = [] \<Longrightarrow> tiTraceID t = []" using d(3) b2(3) f1 b0(4) by (simp add: frame_def)
  then have tid: "(if sbTraceID b' = [] then b'\<lparr>sbTraceID := tiTraceID t\<rparr> else b') = b'" by (cases b') auto
  have chunks: "prepareLogChunks b' logs attribution root = []" for root
    using w(1) unfolding prepareLogChunks_def
    by (intro chunk_loop_none) (simp add: already_emitted_cong [OF d(4,5)])
  have "grows b1 b'" by (rule grows_refl) (simp add: d(1) b2(1))
  moreover have "visit (length flat) clk flat (flat_children flat)
      (prepareLogChunks b0 logs attribution (snSpanID (fnNode (hd flat)))) 0 (b0, []) = Some (b1, es1)"
    using poll(3,5) by (simp add: emitTree_def)
  ultimately have tree: "emitTree clk' flat [] (b', []) = Some (b', [])"
    using visit_quiet [of "length flat" clk flat "flat_children flat" _ 0 "(b0, [])" "(b1, es1)" b' clk' "[]"] poll(3)
    by (simp add: emitTree_def)
  have "advanceWatermark b' logs = advanceWatermark b2 logs" by (simp add: advanceWatermark_def d(4,5) Let_def)
  then have mark: "(case advanceWatermark b' logs of None \<Rightarrow> b' | Some (mark, keys) \<Rightarrow> b'\<lparr>sbLogMark := mark, sbMarkKeys := keys\<rparr>) = b'"
    using w(2) d(4,5) by (cases b') (auto split: option.splits)
  have done': "emit_done clk' t (b', []) = (b', [])" using d(6) by (auto simp: emit_done_def t)
  show ?thesis using poll(3) by (simp add: Advance_def flat tid chunks tree mark done' Let_def)
qed


definition demo_span :: "string \<Rightarrow> string \<Rightarrow> string \<Rightarrow> span_fields" where
  "demo_span i name status = \<lparr>snSpanID = i, snName = name, snStatus = status, snStartTime = 5, snDuration = 3, snAttributes = []\<rparr>"

text \<open>A root with a finished step, behind an internal span, and a step that runs.\<close>

definition demo_trace :: TraceInfo where
  "demo_trace = \<lparr>tiTraceID = ''t1'', tiRootSpan = SpanNode (demo_span ''r'' ''build'' ''running'')
     [SpanNode (demo_span ''x'' ''connect'' ''success'') [SpanNode (demo_span ''a'' ''lint'' ''success'') []],
      NilSpan, SpanNode (demo_span ''b'' ''test'' ''running'') []], tiStatus = []\<rparr>"

definition demo_logs :: "LogEntry list" where
  "demo_logs = [\<lparr>leTimestamp = 8, leLine = ''two'', leSpanID = ''x''\<rparr>, \<lparr>leTimestamp = 7, leLine = ''one'', leSpanID = ''r''\<rparr>,
     \<lparr>leTimestamp = 8, leLine = ''three'', leSpanID = ''b''\<rparr>]"

definition small_trace :: TraceInfo where
  "small_trace = \<lparr>tiTraceID = ''t'', tiRootSpan = SpanNode (demo_span ''r'' ''b'' ''running'') [], tiStatus = ''failed''\<rparr>"

definition small_logs :: "LogEntry list" where
  "small_logs = [\<lparr>leTimestamp = 8, leLine = ''two'', leSpanID = ''x''\<rparr>]"

text \<open>The poll starts the root, emits its line and ends the pipeline.\<close>

theorem Advance_idempotent_witness:
  "\<exists>es b'. Advance (\<lambda>n. 9) (Some small_trace) small_logs (NewStepEventBuilder 0) = Some (Inr es, b') \<and> length es = 3
     \<and> Advance (\<lambda>n. 10) (Some small_trace) small_logs b' = Some (Inr [], b')"
proof -
  obtain r b' where r: "Advance (\<lambda>n. 9) (Some small_trace) small_logs (NewStepEventBuilder 0) = Some (r, b')"
    using Advance_returns by metis
  have "map_option (map_sum (\<lambda>_. 0 :: nat) length \<circ> fst)
      (Advance (\<lambda>n. 9) (Some small_trace) small_logs (NewStepEventBuilder 0)) = Some (Inr 3)" by code_simp
  then have "map_sum (\<lambda>_. 0 :: nat) length r = Inr 3" by (simp only: r option.map comp_apply fst_conv option.inject)
  then obtain es where es: "r = Inr es" "length es = 3" by (cases r) auto
  have "length (sbMarkKeys (NewStepEventBuilder 0)) + length small_logs \<le> 4096" by code_simp
  from Advance_idempotent [OF r [unfolded es(1)] this] r es show ?thesis by blast
qed

end
