(* ===== verification/CI_Lines.thy ===== *)
theory CI_Lines
  imports CI_Logs
begin

text \<open>
  The log lines of the CI event stream: which lines a poll emits, and where. The
  children that \<open>build_children\<close> finds with its stack make a tree on the indices of the flattened list, so
  the traversal meets each index once. The owner of a line is stated on the paths of the span tree
  (\<open>line_owner\<close>) and the lines that count as new on the history of the polls (\<open>fresh\<close>), both without the builder;
  the walk and the watermark are shown to agree with them. Two limits of the code appear in these
  definitions: a line at the newest timestamp with the span and the text of an earlier such line is taken for a
  repetition, and the spans two or more levels below the depth limit are not folded into an ancestor but into the root.
\<close>

section \<open>The traversal visits every node once\<close>

















section \<open>The flattened tree\<close>














section \<open>The owner of a line\<close>
























section \<open>Chunks\<close>


definition lines_of :: "LogChunk list \<Rightarrow> string list" where
  "lines_of cs = concat (map lcLines cs)"

lemma lines_of_append [simp]: "lines_of (xs @ ys) = lines_of xs @ lines_of ys"
  by (simp add: lines_of_def)






section \<open>The emitted lines\<close>














section \<open>The history of a builder\<close>

text \<open>
  What the polls so far have seen, from their arguments alone: the log lines of the polls that had a root, the
  newest timestamp among them, and the lines (span and text) that a poll brought with the timestamp that was
  then the newest. A line of the next poll is fresh when it is newer than all lines so far, or as new as the
  newest one and not such a line.
\<close>

definition has_root :: "TraceInfo option \<Rightarrow> bool" where
  "has_root trace \<longleftrightarrow> (\<exists>t n. trace = Some t \<and> root_fields (tiRootSpan t) = Some n \<and> snSpanID n \<noteq> [])"

lemma has_root_code [code]:
  "has_root trace = (case trace of None \<Rightarrow> False
     | Some t \<Rightarrow> (case root_fields (tiRootSpan t) of None \<Rightarrow> False | Some n \<Rightarrow> snSpanID n \<noteq> []))"
  by (auto simp: has_root_def split: option.splits)


























end
