(* ===== verification/Fleet.thy ===== *)
theory Fleet
  imports Session_Store Version
begin

text \<open>
  The fleet of engine replicas: \<^verbatim>\<open>src/internal/domain/fleet.go\<close> and the manager of
  \<^verbatim>\<open>src/internal/service/fleet.go\<close>. A provider is the record of the methods of the interface
  \<^verbatim>\<open>FleetProvider\<close>, each a step on the state \<open>'p\<close> of the provider; the clock is the argument \<open>now\<close>. A call that may
  not return answers \<open>None\<close>. A wrapped error is the error it wraps. \<open>Acquire\<close> and the sweep call the provider
  several times; they are modelled without calls of others in between. The metric of the number of
  replicas is not modelled.

  The locale \<open>fleet_provider\<close> states what the manager needs of a provider, and its lemmas say what the manager
  then does to the fleet of such a provider: the sweep removes only idle replicas, and the limit of replicas is kept. The stub
  provider is shown to fulfil it in \<open>Stub_Provider\<close>. What holds for every provider, also for one that breaks the contract, is
  stated on the calls that the manager makes: \<open>watched\<close> adds a list of them to the state of a provider.
\<close>

section \<open>Data\<close>

record Replica =
  rName :: string
  rOrdinal :: int
  rVersion :: string
  rPodIP :: string
  rReady :: bool
  rStartedAt :: gotime
  rPinnedSessions :: int

record FleetInfo =
  fiVersion :: string
  fiSTSName :: string
  fiReplicas :: int
  fiReadyReplicas :: int
  fiOrdinals :: "Replica list"

record AcquireResult =
  arPodName :: string
  arPodIP :: string
  arVersion :: string
  arImage :: string

record PVCInfo =
  pvName :: string
  pvOrdinal :: int

text \<open>\<^verbatim>\<open>strings.ReplaceAll(version, ".", "-")\<close>.\<close>

definition VersionSlug :: "string \<Rightarrow> string" where
  "VersionSlug version = map (\<lambda>c. if c = CHR ''.'' then CHR ''-'' else c) version"

definition StsName :: "string \<Rightarrow> string" where
  "StsName version = ''dagger-engine-'' @ VersionSlug version"

definition PodName :: "string \<Rightarrow> int \<Rightarrow> string" where
  "PodName version ordinal = ''dagger-engine-'' @ VersionSlug version @ ''-'' @ show_int ordinal"

definition ServiceName :: "string \<Rightarrow> string" where
  "ServiceName version = StsName version"

record 'p FleetProvider =
  fpEnsureStatefulSet :: "string \<Rightarrow> string \<Rightarrow> 'p \<Rightarrow> error option \<times> 'p"
  fpDeleteStatefulSet :: "string \<Rightarrow> 'p \<Rightarrow> error option \<times> 'p"
  fpEnsureService :: "string \<Rightarrow> 'p \<Rightarrow> error option \<times> 'p"
  fpDeleteService :: "string \<Rightarrow> 'p \<Rightarrow> error option \<times> 'p"
  fpGetReplicas :: "gotime \<Rightarrow> string \<Rightarrow> 'p \<Rightarrow> (error, Replica list) result \<times> 'p"
  fpScaleUp :: "gotime \<Rightarrow> string \<Rightarrow> int \<Rightarrow> 'p \<Rightarrow> (error option \<times> 'p) option"
  fpScaleDown :: "string \<Rightarrow> int \<Rightarrow> 'p \<Rightarrow> error option \<times> 'p"
  fpGetReadyReplicaIP :: "string \<Rightarrow> string \<Rightarrow> 'p \<Rightarrow> (error, string) result \<times> 'p"
  fpWaitForReady :: "string \<Rightarrow> string \<Rightarrow> 'p \<Rightarrow> error option \<times> 'p"
  fpGetEngineImage :: "string \<Rightarrow> string"
  fpAllVersions :: "'p \<Rightarrow> (error, string list) result \<times> 'p"
  fpVersionIdleSince :: "string \<Rightarrow> 'p \<Rightarrow> (gotime \<times> bool \<times> error option) \<times> 'p"
  fpSetVersionIdleSince :: "string \<Rightarrow> gotime \<Rightarrow> 'p \<Rightarrow> error option \<times> 'p"
  fpListPVCs :: "string \<Rightarrow> 'p \<Rightarrow> (error, PVCInfo list) result \<times> 'p"
  fpDeletePVC :: "string \<Rightarrow> 'p \<Rightarrow> error option \<times> 'p"

section \<open>The manager\<close>

record ManagerConfig =
  mcMaxReplicasPerVersion :: int
  mcMaxSessionsPerReplica :: int
  mcReplicaIdleTTL :: duration
  mcVersionRetention :: duration

abbreviation pinned :: "string \<Rightarrow> Store \<Rightarrow> int" where
  "pinned pod st \<equiv> int (PinnedSessionsOnReplica pod st)"

fun pick_loop :: "int \<Rightarrow> Store \<Rightarrow> Replica list \<Rightarrow> Replica option \<Rightarrow> int \<Rightarrow> Replica option" where
  "pick_loop maxS st [] bestMatch bestPinned = bestMatch"
| "pick_loop maxS st (r # rs) bestMatch bestPinned =
     (if \<not> rReady r then pick_loop maxS st rs bestMatch bestPinned
      else if pinned (rName r) st < maxS \<and> pinned (rName r) st < bestPinned
      then pick_loop maxS st rs (Some r) (pinned (rName r) st)
      else pick_loop maxS st rs bestMatch bestPinned)"

definition Acquire ::
    "ManagerConfig \<Rightarrow> 'p FleetProvider \<Rightarrow> gotime \<Rightarrow> Store \<Rightarrow> string \<Rightarrow> 'p \<Rightarrow> ((error, AcquireResult) result \<times> 'p) option" where
  "Acquire m P now st version p =
     (let img = fpGetEngineImage P version in
      case fpEnsureStatefulSet P version img p of
        (Some e, p) \<Rightarrow> Some (Inl e, p)
      | (None, p) \<Rightarrow>
      case fpEnsureService P version p of
        (Some e, p) \<Rightarrow> Some (Inl e, p)
      | (None, p) \<Rightarrow>
      case fpGetReplicas P now version p of
        (Inl e, p) \<Rightarrow> Some (Inl e, p)
      | (Inr replicas, p) \<Rightarrow>
      case pick_loop (mcMaxSessionsPerReplica m) st replicas None (mcMaxSessionsPerReplica m + 1) of
        Some r \<Rightarrow> Some (Inr \<lparr>arPodName = rName r, arPodIP = rPodIP r, arVersion = version, arImage = img\<rparr>, p)
      | None \<Rightarrow>
        let currentCount = int (length replicas) in
        if currentCount \<ge> mcMaxReplicasPerVersion m then Some (Inl (ErrOther ''at capacity''), p)
        else case fpScaleUp P now version (currentCount + 1) p of
          None \<Rightarrow> None
        | Some (Some e, p) \<Rightarrow> Some (Inl e, p)
        | Some (None, p) \<Rightarrow>
          let newPodName = PodName version currentCount in
          case fpWaitForReady P version newPodName p of
            (Some e, p) \<Rightarrow> Some (Inl e, p)
          | (None, p) \<Rightarrow>
          case fpGetReadyReplicaIP P version newPodName p of
            (Inl e, p) \<Rightarrow> Some (Inl e, p)
          | (Inr ip, p) \<Rightarrow> Some (Inr \<lparr>arPodName = newPodName, arPodIP = ip, arVersion = version, arImage = img\<rparr>, p))"

definition Unpin :: "string \<Rightarrow> Store \<Rightarrow> Store" where
  "Unpin certFP st = Remove certFP st"

definition GetVersionFleet ::
    "'p FleetProvider \<Rightarrow> gotime \<Rightarrow> Store \<Rightarrow> string \<Rightarrow> 'p \<Rightarrow> (error, FleetInfo) result \<times> 'p" where
  "GetVersionFleet P now st version p = (case fpGetReplicas P now version p of
     (Inl e, p) \<Rightarrow> (Inl e, p)
   | (Inr replicas, p) \<Rightarrow>
       (Inr \<lparr>fiVersion = version, fiSTSName = StsName version, fiReplicas = int (length replicas),
             fiReadyReplicas = int (length (filter rReady replicas)),
             fiOrdinals = map (\<lambda>r. r\<lparr>rPinnedSessions := pinned (rName r) st\<rparr>) replicas\<rparr>, p))"

definition versionHasPinnedSessions :: "string \<Rightarrow> Store \<Rightarrow> bool" where
  "versionHasPinnedSessions version st = list_ex (\<lambda>l. lVersion l = version) (ListLeases st)"

definition replicaHasActiveSessions :: "string \<Rightarrow> Store \<Rightarrow> bool" where
  "replicaHasActiveSessions podName st \<longleftrightarrow> pinned podName st > 0"

definition sortDescendingOrdinal :: "Replica list \<Rightarrow> Replica list" where
  "sortDescendingOrdinal replicas = sort_key (\<lambda>r. - rOrdinal r) replicas"

definition clearIdleSinceIfPresent :: "'p FleetProvider \<Rightarrow> string \<Rightarrow> 'p \<Rightarrow> error option \<times> 'p" where
  "clearIdleSinceIfPresent P version p = (case fpVersionIdleSince P version p of
     ((_, ok, Some e), p) \<Rightarrow> (Some e, p)
   | ((_, ok, None), p) \<Rightarrow>
       if \<not> ok then (None, p) else fpSetVersionIdleSince P version zero_time p)"

definition gcIdleVersion ::
    "ManagerConfig \<Rightarrow> 'p FleetProvider \<Rightarrow> gotime \<Rightarrow> Store \<Rightarrow> string \<Rightarrow> 'p \<Rightarrow> error option \<times> 'p" where
  "gcIdleVersion m P now st version p =
     (if mcVersionRetention m \<le> 0 then (None, p)
      else if versionHasPinnedSessions version st then clearIdleSinceIfPresent P version p
      else case fpVersionIdleSince P version p of
        ((_, ok, Some e), p) \<Rightarrow>
          if ok then fpSetVersionIdleSince P version now p else (Some e, p)
      | ((idleSince, ok, None), p) \<Rightarrow>
          if \<not> ok then fpSetVersionIdleSince P version now p
          else if time_sub now idleSince < mcVersionRetention m then (None, p)
          else case fpDeleteService P version p of
            (Some e, p) \<Rightarrow> (Some e, p)
          | (None, p) \<Rightarrow> fpDeleteStatefulSet P version p)"

fun scale_down_loop ::
    "ManagerConfig \<Rightarrow> 'p FleetProvider \<Rightarrow> gotime \<Rightarrow> Store \<Rightarrow> string \<Rightarrow> Replica list \<Rightarrow> 'p \<Rightarrow> error option \<times> 'p" where
  "scale_down_loop m P now st version [] p = (None, p)"
| "scale_down_loop m P now st version (r # rs) p =
     (if replicaHasActiveSessions (rName r) st then scale_down_loop m P now st version rs p
      else if time_sub now (rStartedAt r) < mcReplicaIdleTTL m then scale_down_loop m P now st version rs p
      else fpScaleDown P version (rOrdinal r) p)"

definition sweepVersion ::
    "ManagerConfig \<Rightarrow> 'p FleetProvider \<Rightarrow> gotime \<Rightarrow> Store \<Rightarrow> string \<Rightarrow> 'p \<Rightarrow> error option \<times> 'p" where
  "sweepVersion m P now st version p = (case fpGetReplicas P now version p of
     (Inl e, p) \<Rightarrow> (Some e, p)
   | (Inr replicas, p) \<Rightarrow>
       (case scale_down_loop m P now st version (sortDescendingOrdinal replicas) p of
          (Some e, p) \<Rightarrow> (Some e, p)
        | (None, p) \<Rightarrow>
            if mcVersionRetention m \<le> 0 then (None, p)
            else if replicas \<noteq> [] then clearIdleSinceIfPresent P version p
            else gcIdleVersion m P now st version p))"

definition sweep_all :: "ManagerConfig \<Rightarrow> 'p FleetProvider \<Rightarrow> gotime \<Rightarrow> Store \<Rightarrow> string list \<Rightarrow> 'p \<Rightarrow> 'p" where
  "sweep_all m P now st versions p = fold (\<lambda>v p. snd (sweepVersion m P now st v p)) versions p"

definition Sweep :: "ManagerConfig \<Rightarrow> 'p FleetProvider \<Rightarrow> gotime \<Rightarrow> Store \<Rightarrow> 'p \<Rightarrow> error option \<times> 'p" where
  "Sweep m P now st p = (case fpAllVersions P p of
     (Inl e, p) \<Rightarrow> (Some e, p)
   | (Inr versions, p) \<Rightarrow> (None, sweep_all m P now st versions p))"

fun fleet_infos :: "'p FleetProvider \<Rightarrow> gotime \<Rightarrow> Store \<Rightarrow> string list \<Rightarrow> 'p \<Rightarrow> FleetInfo list \<times> 'p" where
  "fleet_infos P now st [] p = ([], p)"
| "fleet_infos P now st (v # vs) p = (case GetVersionFleet P now st v p of
     (Inl _, p) \<Rightarrow> fleet_infos P now st vs p
   | (Inr info, p) \<Rightarrow> (case fleet_infos P now st vs p of (infos, p) \<Rightarrow> (info # infos, p)))"

definition AllFleetInfo ::
    "'p FleetProvider \<Rightarrow> gotime \<Rightarrow> Store \<Rightarrow> 'p \<Rightarrow> (error, FleetInfo list) result \<times> 'p" where
  "AllFleetInfo P now st p = (case fpAllVersions P p of
     (Inl e, p) \<Rightarrow> (Inl e, p)
   | (Inr versions, p) \<Rightarrow> (case fleet_infos P now st versions p of (infos, p) \<Rightarrow> (Inr infos, p)))"

section \<open>The choice of a replica\<close>

definition has_room :: "int \<Rightarrow> Store \<Rightarrow> Replica \<Rightarrow> bool" where
  "has_room maxS st r \<longleftrightarrow> rReady r \<and> pinned (rName r) st < maxS"

lemma pick_loop_None:
  "pick_loop maxS st rs best bp = None \<longleftrightarrow> best = None \<and> (\<forall>r \<in> set rs. has_room maxS st r \<longrightarrow> bp \<le> pinned (rName r) st)"
  by (induction rs arbitrary: best bp) (auto simp: has_room_def)

lemma pick_loop_Some:
  assumes "pick_loop maxS st rs best bp = Some r"
  shows "best = Some r \<and> (\<forall>x \<in> set rs. has_room maxS st x \<longrightarrow> bp \<le> pinned (rName x) st)
    \<or> r \<in> set rs \<and> has_room maxS st r \<and> pinned (rName r) st < bp
      \<and> (\<forall>x \<in> set rs. has_room maxS st x \<longrightarrow> pinned (rName r) st \<le> pinned (rName x) st)"
  using assms
proof (induction rs arbitrary: best bp)
  case (Cons y rs)
  show ?case
  proof (cases "has_room maxS st y \<and> pinned (rName y) st < bp")
    case True
    with Cons.prems have "pick_loop maxS st rs (Some y) (pinned (rName y) st) = Some r" by (simp add: has_room_def)
    from Cons.IH [OF this] True show ?thesis by (elim disjE conjE) (intro disjI2, simp)+
  next
    case False
    with Cons.prems have "pick_loop maxS st rs best bp = Some r" by (auto simp: has_room_def split: if_splits)
    from Cons.IH [OF this] show ?thesis
    proof (elim disjE conjE)
      assume "best = Some r" "\<forall>x \<in> set rs. has_room maxS st x \<longrightarrow> bp \<le> pinned (rName x) st"
      then show ?thesis using False by (intro disjI1) auto
    next
      assume "r \<in> set rs" "has_room maxS st r" "pinned (rName r) st < bp"
        "\<forall>x \<in> set rs. has_room maxS st x \<longrightarrow> pinned (rName r) st \<le> pinned (rName x) st"
      then show ?thesis using False by (intro disjI2) auto
    qed
  qed
qed simp

lemma pick_Some:
  assumes "pick_loop maxS st rs None (maxS + 1) = Some r"
  shows "r \<in> set rs" "has_room maxS st r" "\<And>x. x \<in> set rs \<Longrightarrow> has_room maxS st x \<Longrightarrow> pinned (rName r) st \<le> pinned (rName x) st"
  using pick_loop_Some [OF assms] by simp_all

lemma pick_None: "pick_loop maxS st rs None (maxS + 1) = None \<longleftrightarrow> (\<forall>r \<in> set rs. \<not> has_room maxS st r)"
  by (auto simp: pick_loop_None) (auto simp: has_room_def)

section \<open>What the manager needs of a provider\<close>

text \<open>\<open>idle m now st r\<close>: the sweep may take the replica away.\<close>

definition idle :: "ManagerConfig \<Rightarrow> gotime \<Rightarrow> Store \<Rightarrow> Replica \<Rightarrow> bool" where
  "idle m now st r \<longleftrightarrow> pinned (rName r) st = 0 \<and> mcReplicaIdleTTL m \<le> time_sub now (rStartedAt r)"

section \<open>What the manager asks of a provider\<close>

text \<open>
  \<open>watched P\<close> is the provider \<open>P\<close> with a record of the calls it got, in order, some with their answers. The manager does not see the
  difference (\<open>Sweep_watched\<close>), so the record says what it asks of any provider.
\<close>

datatype fleet_call =
    CallEnsureStatefulSet string
  | CallDeleteStatefulSet string
  | CallEnsureService string
  | CallDeleteService string "error option"
  | CallGetReplicas string "(error, Replica list) result"
  | CallScaleUp string int
  | CallScaleDown string int
  | CallGetReadyReplicaIP string string "(error, string) result"
  | CallWaitForReady string string
  | CallAllVersions "(error, string list) result"
  | CallVersionIdleSince string "gotime \<times> bool \<times> error option"
  | CallSetVersionIdleSince string gotime
  | CallListPVCs string
  | CallDeletePVC string

definition watch :: "('p \<Rightarrow> 'r \<times> 'p) \<Rightarrow> ('r \<Rightarrow> fleet_call) \<Rightarrow> 'p \<times> fleet_call list \<Rightarrow> 'r \<times> 'p \<times> fleet_call list" where
  "watch f c s = (case f (fst s) of (r, p) \<Rightarrow> (r, p, snd s @ [c r]))"

definition watched :: "'p FleetProvider \<Rightarrow> ('p \<times> fleet_call list) FleetProvider" where
  "watched P = \<lparr>fpEnsureStatefulSet = (\<lambda>v img. watch (fpEnsureStatefulSet P v img) (\<lambda>_. CallEnsureStatefulSet v)),
     fpDeleteStatefulSet = (\<lambda>v. watch (fpDeleteStatefulSet P v) (\<lambda>_. CallDeleteStatefulSet v)),
     fpEnsureService = (\<lambda>v. watch (fpEnsureService P v) (\<lambda>_. CallEnsureService v)),
     fpDeleteService = (\<lambda>v. watch (fpDeleteService P v) (CallDeleteService v)),
     fpGetReplicas = (\<lambda>now v. watch (fpGetReplicas P now v) (CallGetReplicas v)),
     fpScaleUp = (\<lambda>now v n s. map_option (\<lambda>(e, p). (e, p, snd s @ [CallScaleUp v n])) (fpScaleUp P now v n (fst s))),
     fpScaleDown = (\<lambda>v n. watch (fpScaleDown P v n) (\<lambda>_. CallScaleDown v n)),
     fpGetReadyReplicaIP = (\<lambda>v pod. watch (fpGetReadyReplicaIP P v pod) (CallGetReadyReplicaIP v pod)),
     fpWaitForReady = (\<lambda>v pod. watch (fpWaitForReady P v pod) (\<lambda>_. CallWaitForReady v pod)),
     fpGetEngineImage = fpGetEngineImage P,
     fpAllVersions = watch (fpAllVersions P) CallAllVersions,
     fpVersionIdleSince = (\<lambda>v. watch (fpVersionIdleSince P v) (CallVersionIdleSince v)),
     fpSetVersionIdleSince = (\<lambda>v t. watch (fpSetVersionIdleSince P v t) (\<lambda>_. CallSetVersionIdleSince v t)),
     fpListPVCs = (\<lambda>v. watch (fpListPVCs P v) (\<lambda>_. CallListPVCs v)),
     fpDeletePVC = (\<lambda>name. watch (fpDeletePVC P name) (\<lambda>_. CallDeletePVC name))\<rparr>"

lemma watched_sel:
  "fpDeleteStatefulSet (watched P) v = watch (fpDeleteStatefulSet P v) (\<lambda>_. CallDeleteStatefulSet v)"
  "fpEnsureStatefulSet (watched P) v img = watch (fpEnsureStatefulSet P v img) (\<lambda>_. CallEnsureStatefulSet v)"
  "fpEnsureService (watched P) v = watch (fpEnsureService P v) (\<lambda>_. CallEnsureService v)"
  "fpDeleteService (watched P) v = watch (fpDeleteService P v) (CallDeleteService v)"
  "fpGetReplicas (watched P) now v = watch (fpGetReplicas P now v) (CallGetReplicas v)"
  "fpScaleUp (watched P) now v n s = map_option (\<lambda>(e, p). (e, p, snd s @ [CallScaleUp v n])) (fpScaleUp P now v n (fst s))"
  "fpScaleDown (watched P) v n = watch (fpScaleDown P v n) (\<lambda>_. CallScaleDown v n)"
  "fpGetReadyReplicaIP (watched P) v pod = watch (fpGetReadyReplicaIP P v pod) (CallGetReadyReplicaIP v pod)"
  "fpWaitForReady (watched P) v pod = watch (fpWaitForReady P v pod) (\<lambda>_. CallWaitForReady v pod)"
  "fpGetEngineImage (watched P) = fpGetEngineImage P"
  "fpAllVersions (watched P) = watch (fpAllVersions P) CallAllVersions"
  "fpVersionIdleSince (watched P) v = watch (fpVersionIdleSince P v) (CallVersionIdleSince v)"
  "fpSetVersionIdleSince (watched P) v t = watch (fpSetVersionIdleSince P v t) (\<lambda>_. CallSetVersionIdleSince v t)"
  by (simp_all add: watched_def)

lemmas watch_defs = watched_sel watch_def

lemma scale_down_loop_find:
  "scale_down_loop m P now st v rs p = (case find (idle m now st) rs of
     None \<Rightarrow> (None, p) | Some r \<Rightarrow> fpScaleDown P v (rOrdinal r) p)"
  by (induction rs) (auto simp: idle_def replicaHasActiveSessions_def not_less)

text \<open>
  The requests of a sweep that take something away. A replica is asked to go right after the replicas of its version were listed, when it is listed and idle and
  no idle one of a higher ordinal is; a version right after it was listed without replicas and its stamp was read, when no lease is of that version
  and the stamp is as old as the retention. Nothing else is asked for but the answers themselves and stamps.
\<close>

definition scale_down_ok :: "ManagerConfig \<Rightarrow> gotime \<Rightarrow> Store \<Rightarrow> fleet_call list \<Rightarrow> string \<Rightarrow> int \<Rightarrow> bool" where
  "scale_down_ok m now st before v n \<longleftrightarrow> (\<exists>cs rs r. before = cs @ [CallGetReplicas v (Inr rs)] \<and> r \<in> set rs \<and> rOrdinal r = n
     \<and> (\<forall>l \<in> set (ListLeases st). lReplicaPod l \<noteq> rName r) \<and> mcReplicaIdleTTL m \<le> time_sub now (rStartedAt r)
     \<and> (\<forall>x \<in> set rs. n < rOrdinal x \<longrightarrow> \<not> idle m now st x))"

definition version_gone_ok :: "ManagerConfig \<Rightarrow> gotime \<Rightarrow> Store \<Rightarrow> fleet_call list \<Rightarrow> string \<Rightarrow> bool" where
  "version_gone_ok m now st before v \<longleftrightarrow> (\<exists>cs t. before = cs @ [CallGetReplicas v (Inr []), CallVersionIdleSince v (t, True, None)]
     \<and> (\<forall>l \<in> set (ListLeases st). lVersion l \<noteq> v) \<and> 0 < mcVersionRetention m \<and> mcVersionRetention m \<le> time_sub now t)"

fun request_ok :: "ManagerConfig \<Rightarrow> gotime \<Rightarrow> Store \<Rightarrow> fleet_call list \<Rightarrow> fleet_call \<Rightarrow> bool" where
  "request_ok m now st before (CallScaleDown v n) \<longleftrightarrow> scale_down_ok m now st before v n"
| "request_ok m now st before (CallDeleteService v e) \<longleftrightarrow> version_gone_ok m now st before v"
| "request_ok m now st before (CallDeleteStatefulSet v) \<longleftrightarrow>
     (\<exists>cs. before = cs @ [CallDeleteService v None] \<and> version_gone_ok m now st cs v)"
| "request_ok m now st before (CallGetReplicas v r) \<longleftrightarrow> True"
| "request_ok m now st before (CallAllVersions r) \<longleftrightarrow> True"
| "request_ok m now st before (CallVersionIdleSince v r) \<longleftrightarrow> True"
| "request_ok m now st before (CallSetVersionIdleSince v t) \<longleftrightarrow> True"
| "request_ok m now st before _ \<longleftrightarrow> False"

definition requests_ok :: "ManagerConfig \<Rightarrow> gotime \<Rightarrow> Store \<Rightarrow> fleet_call list \<Rightarrow> bool" where
  "requests_ok m now st calls \<longleftrightarrow> (\<forall>i < length calls. request_ok m now st (take i calls) (calls ! i))"

lemma requests_ok_Nil: "requests_ok m now st []"
  by (simp add: requests_ok_def)

lemma requests_ok_snoc:
  "requests_ok m now st (cs @ [c]) \<longleftrightarrow> requests_ok m now st cs \<and> request_ok m now st cs c"
  by (auto simp: requests_ok_def less_Suc_eq nth_append)

lemma requests_ok_more:
  "requests_ok m now st (cs @ [a, b]) \<longleftrightarrow> requests_ok m now st (cs @ [a]) \<and> request_ok m now st (cs @ [a]) b"
  "requests_ok m now st (cs @ [a, b, c]) \<longleftrightarrow> requests_ok m now st (cs @ [a, b]) \<and> request_ok m now st (cs @ [a, b]) c"
  "requests_ok m now st (cs @ [a, b, c, d]) \<longleftrightarrow> requests_ok m now st (cs @ [a, b, c]) \<and> request_ok m now st (cs @ [a, b, c]) d"
  using requests_ok_snoc [of m now st "cs @ [a]" b] requests_ok_snoc [of m now st "cs @ [a, b]" c]
    requests_ok_snoc [of m now st "cs @ [a, b, c]" d] by simp_all

lemma version_gone_okI:
  "\<not> versionHasPinnedSessions v st \<Longrightarrow> 0 < mcVersionRetention m \<Longrightarrow> \<not> time_sub now t < mcVersionRetention m \<Longrightarrow>
     version_gone_ok m now st (cs @ [CallGetReplicas v (Inr []), CallVersionIdleSince v (t, True, None)]) v"
  by (auto simp: version_gone_ok_def versionHasPinnedSessions_def list_ex_iff)

lemma service_gone:
  "(\<exists>cs'. cs @ [a, b, CallDeleteService v None] = cs' @ [CallDeleteService v None] \<and> version_gone_ok m now st cs' v)
     \<longleftrightarrow> version_gone_ok m now st (cs @ [a, b]) v"
proof -
  have "cs @ [a, b, x] = cs' @ [x] \<longleftrightarrow> cs' = cs @ [a, b]" for cs' x using append1_eq_conv [of "cs @ [a, b]" x cs' x] by auto
  then show ?thesis by simp
qed

lemma clear_requests:
  assumes "requests_ok m now st cs"
  shows "requests_ok m now st (snd (snd (clearIdleSinceIfPresent (watched P) v (p, cs))))"
  using assms
  by (auto simp: clearIdleSinceIfPresent_def watch_defs requests_ok_snoc split: prod.splits option.splits)

lemma gc_requests:
  assumes "requests_ok m now st cs" and cs: "cs = cs' @ [CallGetReplicas v (Inr [])]"
  shows "requests_ok m now st (snd (snd (gcIdleVersion m (watched P) now st v (p, cs))))"
proof -
  obtain t ok err p1 where i: "fpVersionIdleSince P v p = ((t, ok, err), p1)" by (metis prod.collapse)
  have "requests_ok m now st (cs' @ [CallGetReplicas v (Inr [])])" using assms by simp
  then show ?thesis
    using clear_requests [OF assms(1), of P v p] version_gone_okI [of v st m now t cs']
    by (auto simp: gcIdleVersion_def watch_defs i cs requests_ok_more service_gone not_le split: prod.split option.split)
qed

lemma scale_down_requests:
  assumes "requests_ok m now st cs" and "cs = cs' @ [CallGetReplicas v (Inr rs)]"
  shows "requests_ok m now st (snd (snd (scale_down_loop m (watched P) now st v (sortDescendingOrdinal rs) (p, cs))))"
proof (cases "find (idle m now st) (sortDescendingOrdinal rs)")
  case None
  with assms(1) show ?thesis by (simp add: scale_down_loop_find)
next
  case (Some r)
  have "sorted (map (\<lambda>r. - rOrdinal r) (sortDescendingOrdinal rs))" by (simp add: sortDescendingOrdinal_def)
  from find_sorted_least [OF this Some] have r: "r \<in> set rs" "idle m now st r"
    "\<forall>x \<in> set rs. idle m now st x \<longrightarrow> rOrdinal x \<le> rOrdinal r" by (auto simp: sortDescendingOrdinal_def)
  have "\<not> PinnedSessionsOnReplica (rName r) st > 0" using r(2) by (simp add: idle_def)
  then have "\<forall>l \<in> set (ListLeases st). lReplicaPod l \<noteq> rName r" unfolding store.pinned_pos by blast
  with r have "scale_down_ok m now st cs v (rOrdinal r)"
    unfolding assms(2) scale_down_ok_def by (intro exI [of _ cs'] exI [of _ rs] exI [of _ r]) (auto simp: idle_def not_le)
  with assms(1) Some show ?thesis by (simp add: scale_down_loop_find watch_defs requests_ok_snoc split: prod.split)
qed

lemma sweepVersion_requests:
  assumes "requests_ok m now st cs"
  shows "requests_ok m now st (snd (snd (sweepVersion m (watched P) now st v (p, cs))))"
proof -
  obtain r p1 where g: "fpGetReplicas P now v p = (r, p1)" by fastforce
  let ?cs = "cs @ [CallGetReplicas v r]"
  have g': "fpGetReplicas (watched P) now v (p, cs) = (r, p1, ?cs)" by (simp add: watch_defs g)
  have ok: "requests_ok m now st ?cs" using assms by (simp add: requests_ok_snoc)
  show ?thesis
  proof (cases r)
    case (Inl e)
    with ok g' show ?thesis by (simp add: sweepVersion_def)
  next
    case (Inr rs)
    obtain e p2 cs2 where l: "scale_down_loop m (watched P) now st v (sortDescendingOrdinal rs) (p1, ?cs) = (e, p2, cs2)"
      by (metis prod.collapse)
    have ok2: "requests_ok m now st cs2" using scale_down_requests [OF ok, of cs v rs P p1] Inr l by simp
    have "cs2 = ?cs" if "rs = []" using l that by (simp add: sortDescendingOrdinal_def)
    then show ?thesis
      using ok2 clear_requests [OF ok2, of P v p2] gc_requests [OF ok2, of cs v P p2] Inr
      by (auto simp: sweepVersion_def g' [unfolded Inr] l [unfolded Inr] split: option.split)
  qed
qed

lemma Sweep_requests: "requests_ok m now st (snd (snd (Sweep m (watched P) now st (p, []))))"
proof -
  have all: "requests_ok m now st (snd (sweep_all m (watched P) now st vs q))" if "requests_ok m now st (snd q)" for vs q
    using that
  proof (induction vs arbitrary: q)
    case (Cons v vs)
    from Cons.IH [OF sweepVersion_requests [OF Cons.prems, of P v "fst q"]] show ?case by (simp add: sweep_all_def)
  qed (simp add: sweep_all_def)
  have "requests_ok m now st [CallAllVersions r]" for r using requests_ok_snoc [of m now st "[]"] by (simp add: requests_ok_Nil)
  then show ?thesis using all by (auto simp: Sweep_def watch_defs split: prod.splits sum.splits)
qed

text \<open>The record does not change what happens.\<close>

lemma sweepVersion_watched:
  "sweepVersion m P now st v (fst s) = (let r = sweepVersion m (watched P) now st v s in (fst r, fst (snd r)))"
  by (auto simp: sweepVersion_def scale_down_loop_find clearIdleSinceIfPresent_def gcIdleVersion_def watch_defs Let_def
      split: prod.splits sum.splits option.splits if_splits)

lemma Sweep_watched: "Sweep m P now st p = (let r = Sweep m (watched P) now st (p, []) in (fst r, fst (snd r)))"
proof -
  have all: "sweep_all m P now st vs (fst s) = fst (sweep_all m (watched P) now st vs s)" for vs s
  proof (induction vs arbitrary: s)
    case (Cons v vs)
    show ?case using Cons.IH [of "snd (sweepVersion m (watched P) now st v s)"]
      by (simp add: sweep_all_def sweepVersion_watched [of m P now st v s] Let_def)
  qed (simp add: sweep_all_def)
  show ?thesis by (auto simp: Sweep_def watch_defs Let_def all [of _ "(_, _)", simplified] split: prod.splits sum.splits)
qed

lemma Acquire_watched:
  "Acquire m P now st v p = map_option (\<lambda>r. (fst r, fst (snd r))) (Acquire m (watched P) now st v (p, []))"
  by (auto simp: Acquire_def watch_defs Let_def split: prod.splits sum.splits option.splits)

text \<open>The replica that an acquisition may return, and when it may ask for one more.\<close>

definition least_loaded :: "ManagerConfig \<Rightarrow> Store \<Rightarrow> Replica list \<Rightarrow> Replica \<Rightarrow> bool" where
  "least_loaded m st rs x \<longleftrightarrow> x \<in> set rs \<and> rReady x \<and> pinned (rName x) st < mcMaxSessionsPerReplica m
     \<and> (\<forall>y \<in> set rs. rReady y \<longrightarrow> pinned (rName x) st \<le> pinned (rName y) st)"

definition may_grow :: "ManagerConfig \<Rightarrow> Store \<Rightarrow> Replica list \<Rightarrow> bool" where
  "may_grow m st rs \<longleftrightarrow> (\<forall>y \<in> set rs. rReady y \<longrightarrow> mcMaxSessionsPerReplica m \<le> pinned (rName y) st)
     \<and> int (length rs) < mcMaxReplicasPerVersion m"

lemma pick_least_loaded:
  assumes "pick_loop (mcMaxSessionsPerReplica m) st rs None (mcMaxSessionsPerReplica m + 1) = Some x"
  shows "least_loaded m st rs x"
proof -
  note x = pick_Some [OF assms]
  have "pinned (rName x) st \<le> pinned (rName y) st" if "y \<in> set rs" "rReady y" for y
    using x(2) x(3) [OF that(1)] that(2) by (cases "has_room (mcMaxSessionsPerReplica m) st y") (simp_all add: has_room_def)
  with x(1,2) show ?thesis by (simp add: least_loaded_def has_room_def)
qed

text \<open>The ways an acquisition can go, by the calls it makes.\<close>

lemma Acquire_requests:
  assumes "Acquire m (watched P) now st v (p, []) = Some (r, q, calls)"
  obtains (failed) "is_err r" "\<forall>c \<in> set calls. \<forall>w n. c \<noteq> CallScaleUp w n"
  | (existing) rs x where "calls = [CallEnsureStatefulSet v, CallEnsureService v, CallGetReplicas v (Inr rs)]"
      "least_loaded m st rs x" "r = Inr \<lparr>arPodName = rName x, arPodIP = rPodIP x, arVersion = v, arImage = fpGetEngineImage P v\<rparr>"
  | (grown) rs rest where "calls = [CallEnsureStatefulSet v, CallEnsureService v, CallGetReplicas v (Inr rs), CallScaleUp v (int (length rs) + 1)] @ rest"
      "may_grow m st rs" "\<forall>c \<in> set rest. \<forall>w n. c \<noteq> CallScaleUp w n"
      "\<And>res. r = Inr res \<Longrightarrow> arPodName res = PodName v (int (length rs)) \<and> arVersion res = v \<and> arImage res = fpGetEngineImage P v
         \<and> rest = [CallWaitForReady v (arPodName res), CallGetReadyReplicaIP v (arPodName res) (Inr (arPodIP res))]"
proof -
  obtain e1 p1 where 1: "fpEnsureStatefulSet P v (fpGetEngineImage P v) p = (e1, p1)" by fastforce
  obtain e2 p2 where 2: "fpEnsureService P v p1 = (e2, p2)" by fastforce
  obtain g p3 where 3: "fpGetReplicas P now v p2 = (g, p3)" by fastforce
  note steps = Acquire_def watch_defs Let_def 1 2 3
  show thesis
  proof (cases "e1 = None \<and> e2 = None \<and> (\<exists>rs. g = Inr rs)")
    case False
    then show thesis using assms by (intro failed) (auto simp: steps split: option.splits sum.splits)
  next
    case True
    then obtain rs where rs: "e1 = None" "e2 = None" "g = Inr rs" by blast
    show thesis
    proof (cases "pick_loop (mcMaxSessionsPerReplica m) st rs None (mcMaxSessionsPerReplica m + 1)")
      case (Some x)
      with assms rs show thesis by (intro existing [of rs x] pick_least_loaded) (auto simp: steps)
    next
      case None
      show thesis
      proof (cases "mcMaxReplicasPerVersion m \<le> int (length rs)")
        case True
        with assms rs None show thesis by (intro failed) (auto simp: steps)
      next
        case False
        then have grow: "may_grow m st rs" using None by (auto simp: pick_None may_grow_def has_room_def)
        let ?n = "PodName v (int (length rs))"
        obtain e4 p4 where 4: "fpScaleUp P now v (int (length rs) + 1) p3 = Some (e4, p4)"
          using assms rs None False by (auto simp: steps split: option.splits)
        obtain e5 p5 where 5: "fpWaitForReady P v ?n p4 = (e5, p5)" by fastforce
        obtain g6 p6 where 6: "fpGetReadyReplicaIP P v ?n p5 = (g6, p6)" by fastforce
        have "Some (r, q, calls) = (case e4 of Some e \<Rightarrow> Some (Inl e, p4, [CallEnsureStatefulSet v, CallEnsureService v, CallGetReplicas v (Inr rs), CallScaleUp v (int (length rs) + 1)])
          | None \<Rightarrow> (case e5 of Some e \<Rightarrow> Some (Inl e, p5, [CallEnsureStatefulSet v, CallEnsureService v, CallGetReplicas v (Inr rs), CallScaleUp v (int (length rs) + 1), CallWaitForReady v ?n])
          | None \<Rightarrow> Some (map_sum id (\<lambda>ip. \<lparr>arPodName = ?n, arPodIP = ip, arVersion = v, arImage = fpGetEngineImage P v\<rparr>) g6, p6,
              [CallEnsureStatefulSet v, CallEnsureService v, CallGetReplicas v (Inr rs), CallScaleUp v (int (length rs) + 1), CallWaitForReady v ?n, CallGetReadyReplicaIP v ?n g6])))"
          using assms rs None False by (cases e4; cases e5; cases g6) (simp_all add: steps 4 5 6)
        then show thesis
          by (intro grown [of rs "drop 4 calls"]) (use grow in \<open>cases g6; auto split: option.splits\<close>)+
      qed
    qed
  qed
qed

section \<open>The contract of a provider\<close>

text \<open>
  \<open>view p v\<close> is the set of the replicas of version \<open>v\<close>. Listing shows the view; only the three scaling calls change it,
  and each of them only in its own version; \<open>ScaleDown\<close> takes away no replica but the one with the ordinal it was given, and
  \<open>ScaleUp\<close> keeps every replica and makes no more than the target.
\<close>

locale fleet_provider =
  fixes P :: "'p FleetProvider" and inv :: "'p \<Rightarrow> bool" and view :: "'p \<Rightarrow> string \<Rightarrow> Replica set"
  assumes view_ok: "inv p \<Longrightarrow> finite (view p v) \<and> inj_on rOrdinal (view p v)"
    and ensure_sts: "inv p \<Longrightarrow> fpEnsureStatefulSet P v img p = (e, p') \<Longrightarrow> inv p' \<and> view p' = view p"
    and ensure_service: "inv p \<Longrightarrow> fpEnsureService P v p = (e, p') \<Longrightarrow> inv p' \<and> view p' = view p"
    and delete_service: "inv p \<Longrightarrow> fpDeleteService P v p = (e, p') \<Longrightarrow> inv p' \<and> view p' = view p"
    and get_replicas: "inv p \<Longrightarrow> fpGetReplicas P now v p = (r, p') \<Longrightarrow>
      inv p' \<and> view p' = view p \<and> (\<forall>rs. r = Inr rs \<longrightarrow> set rs = view p v \<and> distinct rs)"
    and wait: "inv p \<Longrightarrow> fpWaitForReady P v pod p = (e, p') \<Longrightarrow> inv p' \<and> view p' = view p"
    and get_ip: "inv p \<Longrightarrow> fpGetReadyReplicaIP P v pod p = (ip, p') \<Longrightarrow> inv p' \<and> view p' = view p"
    and all_versions: "inv p \<Longrightarrow> fpAllVersions P p = (vs, p') \<Longrightarrow> inv p' \<and> view p' = view p"
    and idle_since: "inv p \<Longrightarrow> fpVersionIdleSince P v p = (since, p') \<Longrightarrow> inv p' \<and> view p' = view p"
    and set_idle: "inv p \<Longrightarrow> fpSetVersionIdleSince P v t p = (e, p') \<Longrightarrow> inv p' \<and> view p' = view p"
    and delete_sts: "inv p \<Longrightarrow> fpDeleteStatefulSet P v p = (e, p') \<Longrightarrow>
      inv p' \<and> view p' v \<subseteq> view p v \<and> (\<forall>w. w \<noteq> v \<longrightarrow> view p' w = view p w)"
    and scale_down: "inv p \<Longrightarrow> fpScaleDown P v ord p = (e, p') \<Longrightarrow>
      inv p' \<and> view p' v \<subseteq> view p v \<and> (\<forall>r \<in> view p v - view p' v. rOrdinal r = ord) \<and> (\<forall>w. w \<noteq> v \<longrightarrow> view p' w = view p w)"
    and scale_up: "inv p \<Longrightarrow> fpScaleUp P now v target p = Some (e, p') \<Longrightarrow>
      inv p' \<and> view p v \<subseteq> view p' v \<and> int (card (view p' v)) \<le> max (int (card (view p v))) target
        \<and> (\<forall>w. w \<noteq> v \<longrightarrow> view p' w = view p w)"
begin

lemmas keeps_view = ensure_sts ensure_service delete_service wait get_ip all_versions idle_since set_idle

definition swept :: "ManagerConfig \<Rightarrow> gotime \<Rightarrow> Store \<Rightarrow> 'p \<Rightarrow> 'p \<Rightarrow> bool" where
  "swept m now st p p' \<longleftrightarrow> inv p' \<and> (\<forall>v. view p' v \<subseteq> view p v \<and> (\<forall>r \<in> view p v - view p' v. idle m now st r))"

lemma swept_refl: "inv p' \<Longrightarrow> view p' = view p \<Longrightarrow> swept m now st p p'"
  by (simp add: swept_def)

lemma swept_trans: "swept m now st p p' \<Longrightarrow> swept m now st p' p'' \<Longrightarrow> swept m now st p p''"
  unfolding swept_def by (intro conjI allI) (blast, meson subset_trans, blast)

lemma scale_down_loop_swept:
  assumes "inv p" and "set rs \<subseteq> view p v" and "scale_down_loop m P now st v rs p = (e, p')"
  shows "swept m now st p p'"
  using assms
proof (induction rs)
  case (Cons r rs)
  show ?case
  proof (cases "replicaHasActiveSessions (rName r) st \<or> time_sub now (rStartedAt r) < mcReplicaIdleTTL m")
    case True
    with Cons.prems(3) have "scale_down_loop m P now st v rs p = (e, p')" by (auto split: if_splits)
    with Cons.IH Cons.prems(1,2) show ?thesis by simp
  next
    case False
    then have i: "idle m now st r" by (simp add: idle_def replicaHasActiveSessions_def)
    have d: "fpScaleDown P v (rOrdinal r) p = (e, p')" using Cons.prems(3) False by simp
    note s = scale_down [OF Cons.prems(1) d]
    have "x = r" if "x \<in> view p v - view p' v" for x
      using that s Cons.prems(2) view_ok [OF Cons.prems(1), of v] by (auto dest: inj_onD)
    with s i show ?thesis unfolding swept_def by (metis Diff_cancel empty_iff order_refl)
  qed
qed (auto intro: swept_refl)

lemma clear_swept:
  assumes "inv p" and "clearIdleSinceIfPresent P v p = (e, p')"
  shows "inv p' \<and> view p' = view p"
proof -
  obtain t ok err p1 where i: "fpVersionIdleSince P v p = ((t, ok, err), p1)" by (metis prod.collapse)
  note k = idle_since [OF assms(1) i]
  show ?thesis using assms(2) k set_idle [of p1 v zero_time]
    by (auto simp: clearIdleSinceIfPresent_def i split: option.splits if_splits)
qed

lemma gc_swept:
  assumes "inv p" and none: "view p v = {}" and gc: "gcIdleVersion m P now st v p = (e, p')"
  shows "swept m now st p p'"
proof -
  obtain t ok err p1 where i: "fpVersionIdleSince P v p = ((t, ok, err), p1)" by (metis prod.collapse)
  note k = idle_since [OF assms(1) i]
  obtain e2 p2 where ds: "fpDeleteService P v p1 = (e2, p2)" by fastforce
  note k2 = delete_service [OF conjunct1 [OF k] ds]
  have set': "swept m now st p q" if "fpSetVersionIdleSince P v u p1 = (x, q)" for u x q
    using set_idle [OF conjunct1 [OF k] that] k by (intro swept_refl) auto
  have del: "swept m now st p q" if "fpDeleteStatefulSet P v p2 = (x, q)" for x q
    using delete_sts [OF conjunct1 [OF k2] that] k k2 none by (auto simp: swept_def)
  from gc show ?thesis
    using clear_swept [OF assms(1)] set' del swept_refl [of p1 p] swept_refl [of p p] swept_refl [of p2 p] assms(1) k k2
    by (auto simp: gcIdleVersion_def i ds split: if_splits option.splits intro: swept_refl)
qed

lemma sweepVersion_swept:
  assumes "inv p" and sw: "sweepVersion m P now st v p = (e, p')"
  shows "swept m now st p p'"
proof -
  obtain r p1 where g: "fpGetReplicas P now v p = (r, p1)" by fastforce
  note k = get_replicas [OF assms(1) g]
  have 1: "swept m now st p p1" using k by (intro swept_refl) auto
  show ?thesis
  proof (cases r)
    case (Inl err)
    with sw g 1 show ?thesis by (simp add: sweepVersion_def)
  next
    case (Inr rs)
    obtain e2 p2 where l: "scale_down_loop m P now st v (sortDescendingOrdinal rs) p1 = (e2, p2)" by fastforce
    have 2: "swept m now st p1 p2"
      using k Inr by (intro scale_down_loop_swept [OF _ _ l]) (auto simp: sortDescendingOrdinal_def)
    have inv2: "inv p2" using 2 by (simp add: swept_def)
    have "swept m now st p2 q" if "clearIdleSinceIfPresent P v p2 = (x, q)" for x q
      using clear_swept [OF inv2 that] by (intro swept_refl) auto
    moreover have "swept m now st p2 q" if "rs = []" "gcIdleVersion m P now st v p2 = (x, q)" for x q
    proof -
      have "view p2 v = {}" using 2 k Inr that(1) unfolding swept_def by auto
      then show ?thesis by (rule gc_swept [OF inv2 _ that(2)])
    qed
    moreover have "swept m now st p2 p2" using inv2 by (simp add: swept_refl)
    ultimately have "swept m now st p2 p'"
      using sw by (auto simp: sweepVersion_def g Inr l split: option.splits if_splits)
    with 1 2 show ?thesis by (blast intro: swept_trans)
  qed
qed

lemma Sweep_swept:
  assumes "inv p" and "Sweep m P now st p = (e, p')"
  shows "swept m now st p p'"
proof -
  obtain r p1 where g: "fpAllVersions P p = (r, p1)" by fastforce
  note k = all_versions [OF assms(1) g]
  have all: "swept m now st q (sweep_all m P now st vs q)" if "inv q" for vs q
    using that
  proof (induction vs arbitrary: q)
    case (Cons v vs)
    obtain e2 q2 where s: "sweepVersion m P now st v q = (e2, q2)" by fastforce
    note s' = sweepVersion_swept [OF Cons.prems s]
    then have "swept m now st q2 (sweep_all m P now st vs q2)" by (intro Cons.IH) (simp add: swept_def)
    with s' show ?case by (simp add: sweep_all_def s) (rule swept_trans)
  qed (simp add: sweep_all_def swept_refl)
  have "swept m now st p p1" using k by (intro swept_refl) auto
  with assms(2) all [of p1] k show ?thesis
    by (auto simp: Sweep_def g split: sum.splits intro: swept_trans)
qed

text \<open>The result of an acquisition: the least loaded replica with room, or one new replica within the limit.\<close>

lemma Acquire_cases:
  assumes "inv p" and acq: "Acquire m P now st v p = Some (r, p')"
  obtains (kept) "inv p'" "view p' = view p" "is_err r"
  | (existing) x where "inv p'" "view p' = view p" "x \<in> view p v" "has_room (mcMaxSessionsPerReplica m) st x"
      "\<And>y. y \<in> view p v \<Longrightarrow> has_room (mcMaxSessionsPerReplica m) st y \<Longrightarrow> pinned (rName x) st \<le> pinned (rName y) st"
      "r = Inr \<lparr>arPodName = rName x, arPodIP = rPodIP x, arVersion = v, arImage = fpGetEngineImage P v\<rparr>"
  | (grown) e p1 p2 where "inv p1" "view p1 = view p" "\<forall>y \<in> view p v. \<not> has_room (mcMaxSessionsPerReplica m) st y"
      "int (card (view p v)) < mcMaxReplicasPerVersion m"
      "fpScaleUp P now v (int (card (view p v)) + 1) p1 = Some (e, p2)" "inv p'" "view p' = view p2"
      "\<And>res. r = Inr res \<Longrightarrow> e = None \<and> arPodName res = PodName v (int (card (view p v))) \<and> arVersion res = v
         \<and> (\<exists>q q'. inv q \<and> view q = view p2 \<and> fpGetReadyReplicaIP P v (arPodName res) q = (Inr (arPodIP res), q'))"
proof -
  obtain e1 q1 where 1: "fpEnsureStatefulSet P v (fpGetEngineImage P v) p = (e1, q1)" by fastforce
  note k1 = ensure_sts [OF assms(1) 1]
  obtain e2 q2 where 2: "fpEnsureService P v q1 = (e2, q2)" by fastforce
  note k2 = ensure_service [OF conjunct1 [OF k1] 2]
  obtain g q3 where 3: "fpGetReplicas P now v q2 = (g, q3)" by fastforce
  note k3 = get_replicas [OF conjunct1 [OF k2] 3]
  have q: "inv q1" "view q1 = view p" "inv q2" "view q2 = view p" "inv q3" "view q3 = view p" using k1 k2 k3 by auto
  show thesis
  proof (cases "e1 = None \<and> e2 = None \<and> \<not> is_err g")
    case False
    then show thesis using acq q by (intro kept) (auto simp: Acquire_def 1 2 3 Let_def split: option.splits sum.splits)
  next
    case True
    then obtain rs where rs: "e1 = None" "e2 = None" "g = Inr rs" by (cases g) auto
    then have vs: "set rs = view p v" "int (length rs) = int (card (view p v))"
      using k3 q by (auto simp: distinct_card [symmetric])
    let ?pick = "pick_loop (mcMaxSessionsPerReplica m) st rs None (mcMaxSessionsPerReplica m + 1)"
    show thesis
    proof (cases ?pick)
      case (Some x)
      then show thesis using acq q pick_Some [OF Some] vs
        by (intro existing [of x]) (auto simp: Acquire_def 1 2 3 rs Let_def)
    next
      case None
      then have full: "\<forall>y \<in> view p v. \<not> has_room (mcMaxSessionsPerReplica m) st y" using vs by (simp add: pick_None)
      show thesis
      proof (cases "int (card (view p v)) < mcMaxReplicasPerVersion m")
        case False
        then show thesis using acq q None vs by (intro kept) (auto simp: Acquire_def 1 2 3 rs Let_def)
      next
        case True
        obtain e4 q4 where 4: "fpScaleUp P now v (int (card (view p v)) + 1) q3 = Some (e4, q4)"
          using acq True None vs by (auto simp: Acquire_def 1 2 3 rs Let_def split: option.splits)
        have i4: "inv q4" using scale_up [OF q(5) 4] by simp
        let ?n = "PodName v (int (card (view p v)))"
        obtain e5 q5 where 5: "fpWaitForReady P v ?n q4 = (e5, q5)" by fastforce
        note k5 = wait [OF i4 5]
        obtain g6 q6 where 6: "fpGetReadyReplicaIP P v ?n q5 = (g6, q6)" by fastforce
        note k6 = get_ip [OF conjunct1 [OF k5] 6]
        have r: "Some (r, p') = (case e4 of Some e \<Rightarrow> Some (Inl e, q4) | None \<Rightarrow> (case e5 of Some e \<Rightarrow> Some (Inl e, q5)
          | None \<Rightarrow> (case g6 of Inl e \<Rightarrow> Some (Inl e, q6)
          | Inr ip \<Rightarrow> Some (Inr \<lparr>arPodName = ?n, arPodIP = ip, arVersion = v, arImage = fpGetEngineImage P v\<rparr>, q6))))"
          using acq True None vs by (simp add: Acquire_def 1 2 3 4 5 6 rs Let_def split: option.splits sum.splits)
        show thesis
          by (rule grown [OF q(5,6) full True 4]) (use r i4 k5 k6 6 in \<open>auto split: option.splits sum.splits\<close>)
      qed
    qed
  qed
qed

lemma Acquire_bounded:
  assumes "inv p" and acq: "Acquire m P now st v p = Some (r, p')"
  shows "inv p' \<and> view p v \<subseteq> view p' v \<and> (\<forall>w. w \<noteq> v \<longrightarrow> view p' w = view p w)
    \<and> int (card (view p' v)) \<le> max (int (card (view p v))) (mcMaxReplicasPerVersion m)"
  using assms(1) acq
proof (cases rule: Acquire_cases)
  case (grown e p1 p2)
  with scale_up [OF grown(1,5)] show ?thesis by auto
qed auto

end

end
