(* ===== verification/Stub_Provider.thy ===== *)
theory Stub_Provider
  imports Fleet
begin

text \<open>
  The in-memory provider of \<^verbatim>\<open>src/internal/repository/stub_provider.go\<close>, and the fleet manager on top of it. Every method
  runs under the mutex and is one step. The loop of \<open>ScaleUp\<close> counts the map and not the ordinals, so it may
  run for ever; it is a partial function, and \<open>None\<close> is a call that does not return. The
  stub fulfils the contract \<open>fleet_provider\<close>, and the properties of the manager follow.
\<close>

section \<open>The provider\<close>

record stubSTS =
  ssReplicasM :: "(string, Replica) gomap"
  ssNextIP :: int
  ssIdleSince :: gotime
  ssPvcs :: "string list"

type_synonym StubProvider = "(string, stubSTS) gomap"

definition NewStubProvider :: StubProvider where
  "NewStubProvider = []"

definition new_sts :: stubSTS where
  "new_sts = \<lparr>ssReplicasM = [], ssNextIP = 0, ssIdleSince = zero_time, ssPvcs = []\<rparr>"

definition enginePVCName :: "string \<Rightarrow> int \<Rightarrow> string" where
  "enginePVCName version ordinal = ''dagger-kubernetes-'' @ StsName version @ ''-'' @ show_int ordinal"

definition extractPVCOrdinal :: "string \<Rightarrow> string \<Rightarrow> int" where
  "extractPVCOrdinal pvcName version =
     (let prefix = ''dagger-kubernetes-'' @ StsName version @ ''-'' in
      if \<not> has_prefix pvcName prefix then - 1
      else case Atoi (drop (length prefix) pvcName) of None \<Rightarrow> - 1 | Some n \<Rightarrow> n)"

definition Stub_EnsureStatefulSet :: "string \<Rightarrow> string \<Rightarrow> StubProvider \<Rightarrow> error option \<times> StubProvider" where
  "Stub_EnsureStatefulSet version img p =
     (None, case gm_get p version of None \<Rightarrow> gm_put version new_sts p | Some _ \<Rightarrow> p)"

definition Stub_DeleteStatefulSet :: "string \<Rightarrow> StubProvider \<Rightarrow> error option \<times> StubProvider" where
  "Stub_DeleteStatefulSet version p = (None, gm_del version p)"

definition Stub_EnsureService :: "string \<Rightarrow> StubProvider \<Rightarrow> error option \<times> StubProvider" where
  "Stub_EnsureService version p = (None, p)"

definition Stub_DeleteService :: "string \<Rightarrow> StubProvider \<Rightarrow> error option \<times> StubProvider" where
  "Stub_DeleteService version p = (None, p)"

definition Stub_GetReplicas :: "gotime \<Rightarrow> string \<Rightarrow> StubProvider \<Rightarrow> (error, Replica list) result \<times> StubProvider" where
  "Stub_GetReplicas now version p = (case gm_get p version of
     None \<Rightarrow> (Inr [], p)
   | Some sts \<Rightarrow> (Inr (sort_key rOrdinal (map snd (ssReplicasM sts))), p))"

definition add_replica :: "gotime \<Rightarrow> string \<Rightarrow> stubSTS \<Rightarrow> stubSTS" where
  "add_replica now version sts =
     (let ordinal = int (length (ssReplicasM sts));
          podName = PodName version ordinal;
          ip = ''10.0.0.'' @ show_int (ssNextIP sts mod 254 + 1)
      in sts\<lparr>ssNextIP := ssNextIP sts + 1,
             ssReplicasM := gm_put podName \<lparr>rName = podName, rOrdinal = ordinal, rVersion = version, rPodIP = ip,
               rReady = True, rStartedAt = now, rPinnedSessions = 0\<rparr> (ssReplicasM sts),
             ssPvcs := set_put (enginePVCName version ordinal) (ssPvcs sts)\<rparr>)"

partial_function (option) scale_up_loop :: "gotime \<Rightarrow> string \<Rightarrow> int \<Rightarrow> stubSTS \<Rightarrow> stubSTS option" where
  [code]: "scale_up_loop now version target sts =
     (if int (length (ssReplicasM sts)) < target then scale_up_loop now version target (add_replica now version sts)
      else Some sts)"

definition Stub_ScaleUp :: "gotime \<Rightarrow> string \<Rightarrow> int \<Rightarrow> StubProvider \<Rightarrow> (error option \<times> StubProvider) option" where
  "Stub_ScaleUp now version target p = (case gm_get p version of
     None \<Rightarrow> Some (Some (ErrOther ''statefulset not found''), p)
   | Some sts \<Rightarrow> (case scale_up_loop now version target sts of
       None \<Rightarrow> None | Some sts \<Rightarrow> Some (None, gm_put version sts p)))"

definition Stub_ScaleDown :: "string \<Rightarrow> int \<Rightarrow> StubProvider \<Rightarrow> error option \<times> StubProvider" where
  "Stub_ScaleDown version ordinal p = (case gm_get p version of
     None \<Rightarrow> (Some (ErrOther ''statefulset not found''), p)
   | Some sts \<Rightarrow> (None, gm_put version (sts\<lparr>ssReplicasM := gm_del (PodName version ordinal) (ssReplicasM sts)\<rparr>) p))"

definition Stub_GetReadyReplicaIP :: "string \<Rightarrow> string \<Rightarrow> StubProvider \<Rightarrow> (error, string) result \<times> StubProvider" where
  "Stub_GetReadyReplicaIP version podName p = (case gm_get p version of
     None \<Rightarrow> (Inl (ErrOther ''statefulset not found''), p)
   | Some sts \<Rightarrow> (case gm_get (ssReplicasM sts) podName of
       None \<Rightarrow> (Inl (ErrOther ''replica not found''), p)
     | Some r \<Rightarrow> (Inr (rPodIP r), p)))"

definition Stub_WaitForReady :: "string \<Rightarrow> string \<Rightarrow> StubProvider \<Rightarrow> error option \<times> StubProvider" where
  "Stub_WaitForReady version podName p = (None, p)"

definition Stub_GetEngineImage :: "string \<Rightarrow> string" where
  "Stub_GetEngineImage version = ''registry.dagger.io/engine:'' @ version"

definition Stub_AllVersions :: "StubProvider \<Rightarrow> (error, string list) result \<times> StubProvider" where
  "Stub_AllVersions p = (Inr (map fst p), p)"

definition Stub_VersionIdleSince :: "string \<Rightarrow> StubProvider \<Rightarrow> (gotime \<times> bool \<times> error option) \<times> StubProvider" where
  "Stub_VersionIdleSince version p = (case gm_get p version of
     None \<Rightarrow> ((zero_time, False, None), p)
   | Some sts \<Rightarrow> if is_zero (ssIdleSince sts) then ((zero_time, False, None), p) else ((ssIdleSince sts, True, None), p))"

definition Stub_SetVersionIdleSince :: "string \<Rightarrow> gotime \<Rightarrow> StubProvider \<Rightarrow> error option \<times> StubProvider" where
  "Stub_SetVersionIdleSince version idleSince p = (case gm_get p version of
     None \<Rightarrow> (None, p)
   | Some sts \<Rightarrow> (None, gm_put version (sts\<lparr>ssIdleSince := idleSince\<rparr>) p))"

definition Stub_ListPVCs :: "string \<Rightarrow> StubProvider \<Rightarrow> (error, PVCInfo list) result \<times> StubProvider" where
  "Stub_ListPVCs version p = (case gm_get p version of
     None \<Rightarrow> (Inr [], p)
   | Some sts \<Rightarrow> (Inr (sort_key pvOrdinal
       (map (\<lambda>name. \<lparr>pvName = name, pvOrdinal = extractPVCOrdinal name version\<rparr>) (ssPvcs sts))), p))"

definition Stub_DeletePVC :: "string \<Rightarrow> StubProvider \<Rightarrow> error option \<times> StubProvider" where
  "Stub_DeletePVC name p = (None, gm_map (\<lambda>sts. sts\<lparr>ssPvcs := set_del name (ssPvcs sts)\<rparr>) p)"

definition Stub_AddPVC :: "string \<Rightarrow> int \<Rightarrow> StubProvider \<Rightarrow> StubProvider" where
  "Stub_AddPVC version ordinal p =
     (let sts = (case gm_get p version of Some sts \<Rightarrow> sts | None \<Rightarrow> new_sts)
      in gm_put version (sts\<lparr>ssPvcs := set_put (enginePVCName version ordinal) (ssPvcs sts)\<rparr>) p)"

definition stub :: "StubProvider FleetProvider" where
  "stub = \<lparr>fpEnsureStatefulSet = Stub_EnsureStatefulSet, fpDeleteStatefulSet = Stub_DeleteStatefulSet,
     fpEnsureService = Stub_EnsureService, fpDeleteService = Stub_DeleteService, fpGetReplicas = Stub_GetReplicas,
     fpScaleUp = Stub_ScaleUp, fpScaleDown = Stub_ScaleDown, fpGetReadyReplicaIP = Stub_GetReadyReplicaIP,
     fpWaitForReady = Stub_WaitForReady, fpGetEngineImage = Stub_GetEngineImage, fpAllVersions = Stub_AllVersions,
     fpVersionIdleSince = Stub_VersionIdleSince, fpSetVersionIdleSince = Stub_SetVersionIdleSince,
     fpListPVCs = Stub_ListPVCs, fpDeletePVC = Stub_DeletePVC\<rparr>"

section \<open>Names\<close>

lemma show_nat_inj: "show_nat m = show_nat n \<Longrightarrow> m = n"
  by (metis digits_val_show of_nat_eq_iff)

lemma show_nat_no_sign: "CHR ''-'' # ds \<noteq> show_nat n"
proof
  assume "CHR ''-'' # ds = show_nat n"
  with show_nat_digits [of n] have "list_all is_digit (CHR ''-'' # ds)" by (simp only:)
  then have "is_digit CHR ''-''" by simp
  then show False by (simp add: is_digit_def char_in_def less_eq_char_def)
qed

lemma show_int_inj: "show_int i = show_int j \<Longrightarrow> i = j"
  using show_nat_no_sign [symmetric] show_nat_no_sign
  by (fastforce simp: show_int_def dest: show_nat_inj split: if_splits)

lemma PodName_inj [simp]: "PodName v i = PodName v j \<longleftrightarrow> i = j"
  using show_int_inj by (auto simp: PodName_def)

section \<open>The invariant and the view\<close>

definition sts_ok :: "string \<Rightarrow> stubSTS \<Rightarrow> bool" where
  "sts_ok v sts \<longleftrightarrow> gm_ok (ssReplicasM sts)
     \<and> (\<forall>k r. gm_get (ssReplicasM sts) k = Some r \<longrightarrow> 0 \<le> rOrdinal r \<and> rVersion r = v \<and> rName r = k \<and> k = PodName v (rOrdinal r))"

definition stub_inv :: "StubProvider \<Rightarrow> bool" where
  "stub_inv p \<longleftrightarrow> gm_ok p \<and> (\<forall>v sts. gm_get p v = Some sts \<longrightarrow> sts_ok v sts)"

definition stub_view :: "StubProvider \<Rightarrow> string \<Rightarrow> Replica set" where
  "stub_view p v = (case gm_get p v of None \<Rightarrow> {} | Some sts \<Rightarrow> set (map snd (ssReplicasM sts)))"

lemma sts_ok_replica:
  assumes "sts_ok v sts" and "r \<in> snd ` set (ssReplicasM sts)"
  shows "gm_get (ssReplicasM sts) (PodName v (rOrdinal r)) = Some r" and "0 \<le> rOrdinal r"
proof -
  from assms obtain k where k: "gm_get (ssReplicasM sts) k = Some r" by (auto simp: sts_ok_def gm_get_in)
  with assms(1) have "k = PodName v (rOrdinal r) \<and> 0 \<le> rOrdinal r" by (simp add: sts_ok_def)
  with k show "gm_get (ssReplicasM sts) (PodName v (rOrdinal r)) = Some r" and "0 \<le> rOrdinal r" by simp_all
qed

lemma sts_ok_inj:
  assumes "sts_ok v sts"
  shows "inj_on rOrdinal (snd ` set (ssReplicasM sts))"
proof (rule inj_onI)
  fix r x
  assume r: "r \<in> snd ` set (ssReplicasM sts)" and x: "x \<in> snd ` set (ssReplicasM sts)" and eq: "rOrdinal r = rOrdinal x"
  have "Some r = gm_get (ssReplicasM sts) (PodName v (rOrdinal r))" by (rule sts_ok_replica(1) [OF assms r, symmetric])
  also have "\<dots> = gm_get (ssReplicasM sts) (PodName v (rOrdinal x))" by (simp only: eq)
  also have "\<dots> = Some x" by (rule sts_ok_replica(1) [OF assms x])
  finally show "r = x" by (rule option.inject [THEN iffD1])
qed

lemma sts_ok_distinct:
  assumes "sts_ok v sts"
  shows "distinct (map snd (ssReplicasM sts))"
proof -
  have m: "gm_ok (ssReplicasM sts)" using assms by (simp add: sts_ok_def)
  have "x = y" if "x \<in> set (ssReplicasM sts)" "y \<in> set (ssReplicasM sts)" "snd x = snd y" for x y
  proof -
    have "gm_get (ssReplicasM sts) (fst x) = Some (snd x)" "gm_get (ssReplicasM sts) (fst y) = Some (snd y)"
      using that(1,2) m by (simp_all only: gm_get_in prod.collapse)
    then have "rName (snd x) = fst x" "rName (snd y) = fst y" using assms by (simp_all add: sts_ok_def)
    with that(3) have "fst x = fst y" by simp
    with that(3) show ?thesis by (simp add: prod_eq_iff)
  qed
  then have "inj_on snd (set (ssReplicasM sts))" by (intro inj_onI) blast
  with m show ?thesis by (simp add: distinct_map gm_ok_def)
qed

text \<open>What the loop of \<open>ScaleUp\<close> does when it returns.\<close>

definition free_next :: "string \<Rightarrow> stubSTS \<Rightarrow> bool" where
  "free_next v sts \<longleftrightarrow> gm_get (ssReplicasM sts) (PodName v (int (length (ssReplicasM sts)))) = None"

lemma update_new: "gm_get m k = None \<Longrightarrow> gm_put k x m = m @ [(k, x)]"
  by (induction m) (auto split: if_splits)

lemma length_update: "gm_get m k \<noteq> None \<Longrightarrow> length (gm_put k x m) = length m"
  by (induction m) auto

lemma add_replica_free:
  assumes "free_next v sts"
  shows "length (ssReplicasM (add_replica now v sts)) = Suc (length (ssReplicasM sts))"
    and "set (ssReplicasM sts) \<subseteq> set (ssReplicasM (add_replica now v sts))"
  using assms by (auto simp: add_replica_def free_next_def Let_def update_new)

lemma add_replica_taken:
  assumes "\<not> free_next v sts"
  shows "length (ssReplicasM (add_replica now v sts)) = length (ssReplicasM sts)" and "\<not> free_next v (add_replica now v sts)"
  using assms by (auto simp: add_replica_def free_next_def Let_def length_update)

lemma add_replica_ok: "sts_ok v sts \<Longrightarrow> sts_ok v (add_replica now v sts)"
  by (auto simp: sts_ok_def add_replica_def Let_def split: if_splits)

lemma scale_up_loop_result:
  assumes "scale_up_loop now v target sts = Some sts'"
  shows "(int (length (ssReplicasM sts)) < target \<longrightarrow> free_next v sts) \<and> (sts_ok v sts \<longrightarrow> sts_ok v sts')
    \<and> set (ssReplicasM sts) \<subseteq> set (ssReplicasM sts')
    \<and> int (length (ssReplicasM sts')) = max (int (length (ssReplicasM sts))) target"
proof (rule scale_up_loop.raw_induct [OF _ assms])
  fix loop now v target sts sts'
  assume IH: "\<And>now v target sts sts'. loop now v target sts = Some sts' \<Longrightarrow>
      (int (length (ssReplicasM sts)) < target \<longrightarrow> free_next v sts) \<and> (sts_ok v sts \<longrightarrow> sts_ok v sts')
      \<and> set (ssReplicasM sts) \<subseteq> set (ssReplicasM sts')
      \<and> int (length (ssReplicasM sts')) = max (int (length (ssReplicasM sts))) target"
    and body: "(if int (length (ssReplicasM sts)) < target then loop now v target (add_replica now v sts) else Some sts) = Some sts'"
  show "(int (length (ssReplicasM sts)) < target \<longrightarrow> free_next v sts) \<and> (sts_ok v sts \<longrightarrow> sts_ok v sts')
      \<and> set (ssReplicasM sts) \<subseteq> set (ssReplicasM sts')
      \<and> int (length (ssReplicasM sts')) = max (int (length (ssReplicasM sts))) target"
  proof (cases "int (length (ssReplicasM sts)) < target")
    case True
    with body have l: "loop now v target (add_replica now v sts) = Some sts'" by simp
    note ih = IH [OF l]
    have "free_next v sts" using add_replica_taken ih True by metis
    with ih add_replica_free [OF this, of now] add_replica_ok True show ?thesis by auto
  next
    case False
    with body show ?thesis by simp
  qed
qed

section \<open>The stub fulfils the contract\<close>

lemma stub_view_put:
  "stub_view (gm_put v sts p) w = (if w = v then set (map snd (ssReplicasM sts)) else stub_view p w)"
  by (simp add: stub_view_def)

lemma stub_view_Some: "gm_get p v = Some sts \<Longrightarrow> stub_view p v = set (map snd (ssReplicasM sts))"
  by (simp add: stub_view_def)

lemma stub_view_same: "gm_get p v = Some sts \<Longrightarrow> ssReplicasM sts' = ssReplicasM sts \<Longrightarrow> stub_view (gm_put v sts' p) = stub_view p"
  by (rule ext) (simp add: stub_view_put stub_view_Some)

lemma stub_invD: "stub_inv p \<Longrightarrow> gm_get p v = Some sts \<Longrightarrow> sts_ok v sts"
  by (simp add: stub_inv_def)

lemma stub_inv_put: "stub_inv p \<Longrightarrow> sts_ok v sts \<Longrightarrow> stub_inv (gm_put v sts p)"
  by (simp add: stub_inv_def)

lemma stub_inv_del: "stub_inv p \<Longrightarrow> stub_inv (gm_del v p)"
  by (auto simp: stub_inv_def split: if_splits)

lemma sts_ok_new: "sts_ok v new_sts"
  by (simp add: sts_ok_def new_sts_def)

lemma sts_ok_idle: "sts_ok v sts \<Longrightarrow> sts_ok v (sts\<lparr>ssIdleSince := t\<rparr>)"
  by (simp add: sts_ok_def)

lemma sts_ok_remove: "sts_ok v sts \<Longrightarrow> sts_ok v (sts\<lparr>ssReplicasM := gm_del k (ssReplicasM sts)\<rparr>)"
  by (auto simp: sts_ok_def split: if_splits)

lemmas stub_defs = Stub_EnsureStatefulSet_def Stub_DeleteStatefulSet_def Stub_EnsureService_def Stub_DeleteService_def
  Stub_GetReplicas_def Stub_ScaleUp_def Stub_ScaleDown_def Stub_GetReadyReplicaIP_def Stub_WaitForReady_def
  Stub_AllVersions_def Stub_VersionIdleSince_def Stub_SetVersionIdleSince_def

lemma stub_view_ok: "stub_inv p \<Longrightarrow> finite (stub_view p v) \<and> inj_on rOrdinal (stub_view p v)"
  using sts_ok_inj by (auto simp: stub_view_def stub_inv_def split: option.splits)

lemma stub_ensure:
  assumes "stub_inv p" and "Stub_EnsureStatefulSet v img p = (e, p')"
  shows "stub_inv p' \<and> stub_view p' = stub_view p"
proof (cases "gm_get p v")
  case None
  then have "stub_view (gm_put v new_sts p) w = stub_view p w" for w
    unfolding stub_view_put by (simp add: stub_view_def new_sts_def)
  then show ?thesis using assms None stub_inv_put [OF assms(1) sts_ok_new] by (auto simp: Stub_EnsureStatefulSet_def)
qed (use assms in \<open>auto simp: Stub_EnsureStatefulSet_def\<close>)

lemma stub_set_idle:
  assumes "stub_inv p" and "Stub_SetVersionIdleSince v t p = (e, p')"
  shows "stub_inv p' \<and> stub_view p' = stub_view p"
proof (cases "gm_get p v")
  case (Some sts)
  with assms stub_inv_put [OF assms(1) sts_ok_idle [OF stub_invD [OF assms(1) Some]]] show ?thesis
    by (simp add: Stub_SetVersionIdleSince_def) (metis stub_view_same [OF Some] stubSTS.select_convs(1) stubSTS.surjective stubSTS.update_convs(3))
qed (use assms in \<open>auto simp: Stub_SetVersionIdleSince_def\<close>)

lemma stub_get_replicas:
  assumes "stub_inv p" and "Stub_GetReplicas now v p = (r, p')"
  shows "stub_inv p' \<and> stub_view p' = stub_view p \<and> (\<forall>rs. r = Inr rs \<longrightarrow> set rs = stub_view p v \<and> distinct rs)"
proof (cases "gm_get p v")
  case (Some sts)
  with assms sts_ok_distinct [OF stub_invD [OF assms(1) Some]] show ?thesis
    by (simp add: Stub_GetReplicas_def stub_view_Some) (metis list.set_map set_sort sum.inject(2) distinct_sort)
qed (use assms in \<open>auto simp: Stub_GetReplicas_def stub_view_def\<close>)

lemma stub_scale_down:
  assumes "stub_inv p" and "Stub_ScaleDown v ord p = (e, p')"
  shows "stub_inv p' \<and> stub_view p' v \<subseteq> stub_view p v \<and> (\<forall>r \<in> stub_view p v - stub_view p' v. rOrdinal r = ord)
    \<and> (\<forall>w. w \<noteq> v \<longrightarrow> stub_view p' w = stub_view p w)"
proof (cases "gm_get p v")
  case (Some sts)
  let ?sts = "sts\<lparr>ssReplicasM := gm_del (PodName v ord) (ssReplicasM sts)\<rparr>"
  have ok: "sts_ok v sts" by (rule stub_invD [OF assms(1) Some])
  have p': "p' = gm_put v ?sts p" using assms(2) Some by (simp add: Stub_ScaleDown_def)
  have sub: "set (gm_del (PodName v ord) (ssReplicasM sts)) \<subseteq> set (ssReplicasM sts)" by (auto simp: AList.delete_eq)
  have "rOrdinal r = ord" if "(k, r) \<in> set (ssReplicasM sts)" "r \<notin> snd ` set (gm_del (PodName v ord) (ssReplicasM sts))" for k r
  proof -
    have "k = PodName v (rOrdinal r)" using that(1) ok by (simp add: sts_ok_def gm_get_in)
    moreover have "k = PodName v ord" using that by (force simp: AList.delete_eq)
    ultimately show ?thesis by simp
  qed
  then show ?thesis using Some stub_inv_put [OF assms(1) sts_ok_remove [OF ok]] sub
    by (auto simp: p' stub_view_put stub_view_def [of p])
qed (use assms in \<open>auto simp: Stub_ScaleDown_def stub_view_def\<close>)

lemma stub_scale_up:
  assumes "stub_inv p" and up: "Stub_ScaleUp now v target p = Some (e, p')"
  shows "stub_inv p' \<and> stub_view p v \<subseteq> stub_view p' v
    \<and> int (card (stub_view p' v)) \<le> max (int (card (stub_view p v))) target \<and> (\<forall>w. w \<noteq> v \<longrightarrow> stub_view p' w = stub_view p w)"
proof (cases "gm_get p v")
  case (Some sts)
  from up Some obtain sts' where l: "scale_up_loop now v target sts = Some sts'" and p': "p' = gm_put v sts' p"
    by (auto simp: Stub_ScaleUp_def split: option.splits)
  have ok: "sts_ok v sts" by (rule stub_invD [OF assms(1) Some])
  note r = scale_up_loop_result [OF l]
  have ok': "sts_ok v sts'" using r ok by blast
  have card: "card (set (map snd (ssReplicasM x))) = length (ssReplicasM x)" if "sts_ok v x" for x
    using distinct_card [OF sts_ok_distinct [OF that]] by simp
  have v: "stub_view p v = set (map snd (ssReplicasM sts))" "stub_view p' v = set (map snd (ssReplicasM sts'))"
    by (simp_all add: stub_view_def Some p')
  show ?thesis unfolding v card [OF ok] card [OF ok']
    using r stub_inv_put [OF assms(1) ok'] by (auto simp: p' stub_view_put)
qed (use assms in \<open>auto simp: Stub_ScaleUp_def\<close>)

text \<open>Scaling up by one adds the replica with the next name.\<close>

lemma stub_scale_up_one:
  assumes "stub_inv p" and up: "Stub_ScaleUp now v (int (card (stub_view p v)) + 1) p = Some (None, p')"
  shows "\<exists>x. stub_view p' v = insert x (stub_view p v) \<and> x \<notin> stub_view p v \<and> rReady x
    \<and> rName x = PodName v (int (card (stub_view p v)))"
proof (cases "gm_get p v")
  case (Some sts)
  have ok: "sts_ok v sts" by (rule stub_invD [OF assms(1) Some])
  have view: "stub_view p v = set (map snd (ssReplicasM sts))" by (simp add: stub_view_def Some)
  have card: "card (stub_view p v) = length (ssReplicasM sts)"
    unfolding view using distinct_card [OF sts_ok_distinct [OF ok]] by simp
  from up Some obtain sts' where l: "scale_up_loop now v (int (length (ssReplicasM sts)) + 1) sts = Some sts'" and p': "p' = gm_put v sts' p"
    by (auto simp: Stub_ScaleUp_def card split: option.splits)
  have free: "free_next v sts" and ok': "sts_ok v sts'" using scale_up_loop_result [OF l] ok by auto
  have "scale_up_loop now v (int (length (ssReplicasM sts)) + 1) (add_replica now v sts) = Some (add_replica now v sts)"
    by (subst scale_up_loop.simps) (simp add: add_replica_free(1) [OF free])
  with l have "sts' = add_replica now v sts" by (subst (asm) scale_up_loop.simps) simp
  then obtain x where x: "ssReplicasM sts' = ssReplicasM sts @ [(rName x, x)]" "rReady x" "rName x = PodName v (int (card (stub_view p v)))"
    using free unfolding card by (auto simp: add_replica_def free_next_def Let_def update_new)
  have "stub_view p' v = insert x (stub_view p v)" by (simp add: p' stub_view_put view x(1))
  moreover have "x \<notin> stub_view p v" using sts_ok_distinct [OF ok'] by (simp add: x(1) view)
  ultimately show ?thesis using x by blast
qed (use assms in \<open>auto simp: Stub_ScaleUp_def\<close>)

lemma stub_ready_ip:
  assumes "stub_inv p" and "Stub_GetReadyReplicaIP v pod p = (Inr ip, p')"
  shows "\<exists>x \<in> stub_view p v. rName x = pod \<and> rPodIP x = ip"
proof -
  obtain sts x where s: "gm_get p v = Some sts" "gm_get (ssReplicasM sts) pod = Some x" "rPodIP x = ip"
    using assms(2) by (auto simp: Stub_GetReadyReplicaIP_def split: option.splits)
  have "rName x = pod" using stub_invD [OF assms(1) s(1)] s(2) by (simp add: sts_ok_def)
  moreover have "x \<in> stub_view p v" using s(2) by (auto simp: stub_view_Some [OF s(1)] dest: map_of_SomeD intro: image_eqI [of _ snd "(pod, x)"])
  ultimately show ?thesis using s(3) by blast
qed

lemma stub_name_unique:
  assumes "stub_inv p" and "x \<in> stub_view p v" and "y \<in> stub_view p v" and "rName x = rName y"
  shows "x = y"
proof -
  obtain sts where s: "gm_get p v = Some sts" using assms(2) by (auto simp: stub_view_def split: option.splits)
  note ok = stub_invD [OF assms(1) s]
  have view: "stub_view p v = snd ` set (ssReplicasM sts)" by (simp add: stub_view_Some [OF s])
  have name: "rName r = PodName v (rOrdinal r)" if "r \<in> snd ` set (ssReplicasM sts)" for r
    using ok sts_ok_replica(1) [OF ok that] unfolding sts_ok_def by blast
  note x = assms(2) [unfolded view] and y = assms(3) [unfolded view]
  have "PodName v (rOrdinal x) = PodName v (rOrdinal y)" using name [OF x] name [OF y] assms(4) by (simp only:)
  then have "rOrdinal x = rOrdinal y" by (simp only: PodName_inj)
  then show ?thesis by (rule inj_onD [OF sts_ok_inj [OF ok] _ x y])
qed

interpretation stub: fleet_provider stub stub_inv stub_view
proof (unfold_locales, goal_cases)
  case (1 p v)
  then show ?case by (rule stub_view_ok)
next
  case (2 p v img e p')
  then show ?case by (intro stub_ensure) (simp_all add: stub_def)
next
  case (5 p now v r p')
  then show ?case by (intro stub_get_replicas) (simp_all add: stub_def)
next
  case (10 p v t e p')
  then show ?case by (intro stub_set_idle) (simp_all add: stub_def)
next
  case (11 p v e p')
  then show ?case by (auto simp: stub_def Stub_DeleteStatefulSet_def stub_inv_del stub_view_def split: option.splits)
next
  case (12 p v ord e p')
  then show ?case by (intro stub_scale_down) (simp_all add: stub_def)
next
  case (13 p now v target e p')
  then show ?case by (intro stub_scale_up) (simp_all add: stub_def)
qed (auto simp: stub_def stub_defs split: option.splits if_splits)

section \<open>The manager on the stub\<close>

text \<open>
  C7: what a sweep asks a provider to take away. For any provider, whatever it answers, the sweep is described by the calls it makes: it asks for a replica to go only right
  after it has listed the replicas of the version, by the ordinal of a listed replica that no lease is pinned to and that is at least as
  old as the idle time, the highest such ordinal; it deletes the service and the set of a version only right after the version was listed without replicas and its
  stamp was found older than the retention, when no lease is of that version; and it asks for nothing else but listings and stamps. Which replica then goes is up to the provider: the in-memory
  provider takes away the one that was named, so there only replicas go that no session is pinned to and that are old enough.
\<close>

theorem Sweep_only_idle:
  "(\<exists>e q calls. Sweep m (watched P) now st (p, []) = (e, q, calls) \<and> Sweep m P now st p = (e, q) \<and> requests_ok m now st calls)
   \<and> (stub_inv s \<and> Sweep m stub now st s = (e, s') \<and> r \<in> stub_view s v \<and> r \<notin> stub_view s' v \<longrightarrow>
       (\<forall>l \<in> set (ListLeases st). lReplicaPod l \<noteq> rName r) \<and> mcReplicaIdleTTL m \<le> time_sub now (rStartedAt r))"
proof (intro conjI impI; (elim conjE)?)
  obtain e q calls where s: "Sweep m (watched P) now st (p, []) = (e, q, calls)" by (metis prod.collapse)
  with Sweep_requests [of m now st P p] Sweep_watched [of m P now st p]
  show "\<exists>e q calls. Sweep m (watched P) now st (p, []) = (e, q, calls) \<and> Sweep m P now st p = (e, q) \<and> requests_ok m now st calls"
    by (auto simp: Let_def)
next
  assume "stub_inv s" "Sweep m stub now st s = (e, s')" "r \<in> stub_view s v" "r \<notin> stub_view s' v"
  then have "idle m now st r" using stub.Sweep_swept [of s m now st e s'] by (auto simp: stub.swept_def)
  then have i: "\<not> PinnedSessionsOnReplica (rName r) st > 0" and old: "mcReplicaIdleTTL m \<le> time_sub now (rStartedAt r)"
    by (simp_all add: idle_def)
  from i show "\<forall>l \<in> set (ListLeases st). lReplicaPod l \<noteq> rName r" unfolding store.pinned_pos by blast
  from old show "mcReplicaIdleTTL m \<le> time_sub now (rStartedAt r)" .
qed

text \<open>
  The number of replicas of a version never exceeds the configured limit: neither an acquisition nor a sweep brings a version
  above it, and an acquisition takes no replica away.
\<close>

theorem fleet_within_limit:
  assumes "stub_inv p" and limit: "\<forall>w. int (card (stub_view p w)) \<le> mcMaxReplicasPerVersion m"
  shows "(\<forall>r p'. Acquire m stub now st v p = Some (r, p') \<longrightarrow>
      stub_inv p' \<and> stub_view p v \<subseteq> stub_view p' v \<and> (\<forall>w. int (card (stub_view p' w)) \<le> mcMaxReplicasPerVersion m))
    \<and> (\<forall>e p'. Sweep m stub now st p = (e, p') \<longrightarrow>
      stub_inv p' \<and> (\<forall>w. int (card (stub_view p' w)) \<le> mcMaxReplicasPerVersion m))"
proof (intro conjI allI impI)
  fix r p'
  assume "Acquire m stub now st v p = Some (r, p')"
  note a = stub.Acquire_bounded [OF assms(1) this]
  then show "stub_inv p'" "stub_view p v \<subseteq> stub_view p' v" by auto
  show "int (card (stub_view p' w)) \<le> mcMaxReplicasPerVersion m" for w
    using a limit by (cases "w = v") (auto intro: order_trans)
next
  fix e p'
  assume "Sweep m stub now st p = (e, p')"
  note s = stub.Sweep_swept [OF assms(1) this, unfolded stub.swept_def]
  then show "stub_inv p'" by blast
  show "int (card (stub_view p' w)) \<le> mcMaxReplicasPerVersion m" for w
  proof -
    have "card (stub_view p' w) \<le> card (stub_view p w)" using s stub_view_ok [OF assms(1)] by (intro card_mono) auto
    with limit show ?thesis by (meson of_nat_mono order_trans)
  qed
qed

text \<open>
  C17: the replica of an acquisition. For any provider an acquisition that succeeds has listed the replicas of the version and either returns, with no further call, a
  listed replica that is ready, has room for a session and is the least loaded of the ready ones; or, when no listed ready replica has room and fewer than
  the limit are listed, it asks the provider for exactly one replica more than were listed and returns the pod of the next ordinal with the address that the provider
  gives for it. A replica more is never asked for otherwise, also by an acquisition that fails. On the in-memory provider
  the fleet stays as it is in the first case, and in the second the version has exactly one new replica, ready, which is the one returned.
\<close>

theorem Acquire_choice:
  "(Acquire m (watched P) now st v (p, []) = Some (r, q, calls) \<longrightarrow>
      Acquire m P now st v p = Some (r, q)
    \<and> (\<forall>res. r = Inr res \<longrightarrow> (\<exists>rs x. calls = [CallEnsureStatefulSet v, CallEnsureService v, CallGetReplicas v (Inr rs)]
          \<and> least_loaded m st rs x \<and> arPodName res = rName x \<and> arPodIP res = rPodIP x
        \<or> calls = [CallEnsureStatefulSet v, CallEnsureService v, CallGetReplicas v (Inr rs), CallScaleUp v (int (length rs) + 1),
             CallWaitForReady v (arPodName res), CallGetReadyReplicaIP v (arPodName res) (Inr (arPodIP res))]
          \<and> may_grow m st rs \<and> arPodName res = PodName v (int (length rs))))
    \<and> (\<forall>w n. CallScaleUp w n \<in> set calls \<longrightarrow> w = v \<and> (\<exists>rs rest. calls = [CallEnsureStatefulSet v, CallEnsureService v,
          CallGetReplicas v (Inr rs), CallScaleUp v (int (length rs) + 1)] @ rest \<and> may_grow m st rs \<and> n = int (length rs) + 1)))
   \<and> (stub_inv s \<and> Acquire m stub now st v s = Some (Inr res, s') \<longrightarrow>
       (\<exists>x \<in> stub_view s v. arPodName res = rName x \<and> arPodIP res = rPodIP x \<and> rReady x \<and> pinned (rName x) st < mcMaxSessionsPerReplica m
          \<and> (\<forall>y \<in> stub_view s v. rReady y \<longrightarrow> pinned (rName x) st \<le> pinned (rName y) st) \<and> stub_view s' = stub_view s)
     \<or> (\<forall>y \<in> stub_view s v. rReady y \<longrightarrow> mcMaxSessionsPerReplica m \<le> pinned (rName y) st)
        \<and> int (card (stub_view s v)) < mcMaxReplicasPerVersion m
        \<and> (\<exists>x. stub_view s' v = insert x (stub_view s v) \<and> x \<notin> stub_view s v \<and> rReady x \<and> arPodName res = rName x
             \<and> arPodIP res = rPodIP x \<and> rName x = PodName v (int (card (stub_view s v))) \<and> (\<forall>w. w \<noteq> v \<longrightarrow> stub_view s' w = stub_view s w)))"
proof (intro conjI impI; (elim conjE)?)
  assume a: "Acquire m (watched P) now st v (p, []) = Some (r, q, calls)"
  then show "Acquire m P now st v p = Some (r, q)" using Acquire_watched [of m P now st v p] by simp
  show "\<forall>res. r = Inr res \<longrightarrow> (\<exists>rs x. calls = [CallEnsureStatefulSet v, CallEnsureService v, CallGetReplicas v (Inr rs)]
          \<and> least_loaded m st rs x \<and> arPodName res = rName x \<and> arPodIP res = rPodIP x
        \<or> calls = [CallEnsureStatefulSet v, CallEnsureService v, CallGetReplicas v (Inr rs), CallScaleUp v (int (length rs) + 1),
             CallWaitForReady v (arPodName res), CallGetReadyReplicaIP v (arPodName res) (Inr (arPodIP res))]
          \<and> may_grow m st rs \<and> arPodName res = PodName v (int (length rs)))"
    using a by (cases rule: Acquire_requests) (force simp: is_err_def)+
  show "\<forall>w n. CallScaleUp w n \<in> set calls \<longrightarrow> w = v \<and> (\<exists>rs rest. calls = [CallEnsureStatefulSet v, CallEnsureService v,
          CallGetReplicas v (Inr rs), CallScaleUp v (int (length rs) + 1)] @ rest \<and> may_grow m st rs \<and> n = int (length rs) + 1)"
    using a by (cases rule: Acquire_requests) auto
next
  assume inv: "stub_inv s" and "Acquire m stub now st v s = Some (Inr res, s')"
  then show "(\<exists>x \<in> stub_view s v. arPodName res = rName x \<and> arPodIP res = rPodIP x \<and> rReady x \<and> pinned (rName x) st < mcMaxSessionsPerReplica m
          \<and> (\<forall>y \<in> stub_view s v. rReady y \<longrightarrow> pinned (rName x) st \<le> pinned (rName y) st) \<and> stub_view s' = stub_view s)
     \<or> (\<forall>y \<in> stub_view s v. rReady y \<longrightarrow> mcMaxSessionsPerReplica m \<le> pinned (rName y) st)
        \<and> int (card (stub_view s v)) < mcMaxReplicasPerVersion m
        \<and> (\<exists>x. stub_view s' v = insert x (stub_view s v) \<and> x \<notin> stub_view s v \<and> rReady x \<and> arPodName res = rName x
             \<and> arPodIP res = rPodIP x \<and> rName x = PodName v (int (card (stub_view s v))) \<and> (\<forall>w. w \<noteq> v \<longrightarrow> stub_view s' w = stub_view s w))"
  proof (cases rule: stub.Acquire_cases)
    case (existing x)
    have "pinned (rName x) st \<le> pinned (rName y) st" if "y \<in> stub_view s v" "rReady y" for y
      using existing(4,5) that by (cases "has_room (mcMaxSessionsPerReplica m) st y") (auto simp: has_room_def)
    with existing show ?thesis by (intro disjI1 bexI [of _ x]) (auto simp: has_room_def)
  next
    case (grown e p1 p2)
    from grown(8) obtain q q' where ip: "e = None" "arPodName res = PodName v (int (card (stub_view s v)))" "stub_inv q" "stub_view q = stub_view p2"
      "Stub_GetReadyReplicaIP v (arPodName res) q = (Inr (arPodIP res), q')" by (auto simp: stub_def)
    have up: "Stub_ScaleUp now v (int (card (stub_view p1 v)) + 1) p1 = Some (None, p2)" using grown(2,5) ip(1) by (simp add: stub_def)
    obtain x where x: "stub_view p2 v = insert x (stub_view s v)" "x \<notin> stub_view s v" "rReady x" "rName x = PodName v (int (card (stub_view s v)))"
      using stub_scale_up_one [OF grown(1) up] grown(2) by auto
    obtain y where y: "y \<in> stub_view q v" "rName y = arPodName res" "rPodIP y = arPodIP res" using stub_ready_ip [OF ip(3,5)] by blast
    have "y = x" using stub_name_unique [OF ip(3) y(1), of x] x(1,4) y(2) ip(2,4) by simp
    moreover have "stub_view p2 w = stub_view s w" if "w \<noteq> v" for w using stub.scale_up [OF grown(1,5)] grown(2) that by simp
    ultimately show ?thesis using x y ip(2) grown(3,4,7) by (intro disjI2) (auto simp: has_room_def)
  qed simp
qed

text \<open>
  A version that nobody uses is collected: when a sweep finds it with no replica, no session and no stamp, and a later one at
  least the retention time after it finds it the same, it is gone.
\<close>

theorem idle_version_collected:
  assumes v: "gm_get p v = Some sts" "ssReplicasM sts = []" "is_zero (ssIdleSince sts)"
    and "\<not> versionHasPinnedSessions v st" and "\<not> versionHasPinnedSessions v st'"
    and "0 < mcVersionRetention m" and "\<not> is_zero t1" and "mcVersionRetention m \<le> time_sub t2 t1"
    and 1: "sweepVersion m stub t1 st v p = (e, p')" and 2: "sweepVersion m stub t2 st' v p' = (e', p'')"
  shows "e = None \<and> e' = None \<and> gm_get p' v = Some (sts\<lparr>ssIdleSince := t1\<rparr>) \<and> gm_get p'' v = None"
proof -
  have p': "e = None" "p' = gm_put v (sts\<lparr>ssIdleSince := t1\<rparr>) p"
    using 1 assms by (auto simp: sweepVersion_def stub_def Stub_GetReplicas_def sortDescendingOrdinal_def gcIdleVersion_def
        Stub_VersionIdleSince_def Stub_SetVersionIdleSince_def)
  have "sweepVersion m stub t2 st' v p' = (None, gm_del v p')"
    using assms(2,5-8) by (simp add: p' sweepVersion_def stub_def Stub_GetReplicas_def sortDescendingOrdinal_def gcIdleVersion_def
        Stub_VersionIdleSince_def Stub_DeleteService_def Stub_DeleteStatefulSet_def)
  with 2 p' show ?thesis by simp
qed

section \<open>The loop of \<open>ScaleUp\<close>\<close>

text \<open>The ordinals in use are those below the number of replicas, as long as only the highest is taken away.\<close>

definition contiguous :: "string \<Rightarrow> stubSTS \<Rightarrow> bool" where
  "contiguous v sts \<longleftrightarrow> set (map fst (ssReplicasM sts)) = PodName v ` {0..<int (length (ssReplicasM sts))}"

lemma contiguous_free: "contiguous v sts \<Longrightarrow> free_next v sts"
  by (auto simp: contiguous_def free_next_def map_of_eq_None_iff)

lemma contiguous_add:
  assumes "contiguous v sts"
  shows "contiguous v (add_replica now v sts)"
proof -
  have "{0..<int (Suc n)} = insert (int n) {0..<int n}" for n by auto
  with contiguous_free [OF assms] assms show ?thesis
    by (simp add: contiguous_def free_next_def add_replica_def update_new Let_def)
qed

text \<open>
  With contiguous ordinals, scaling up returns, and exactly the missing replicas have been added.
\<close>

theorem ScaleUp_returns:
  assumes "gm_get p v = Some sts" and "contiguous v sts"
  shows "\<exists>sts'. Stub_ScaleUp now v target p = Some (None, gm_put v sts' p) \<and> contiguous v sts'
    \<and> set (ssReplicasM sts) \<subseteq> set (ssReplicasM sts') \<and> int (length (ssReplicasM sts')) = max (int (length (ssReplicasM sts))) target"
proof -
  have "\<exists>sts'. scale_up_loop now v target sts = Some sts' \<and> contiguous v sts'" using assms(2)
  proof (induction "nat (target - int (length (ssReplicasM sts)))" arbitrary: sts)
    case 0
    then show ?case by (subst scale_up_loop.simps) simp
  next
    case (Suc n)
    have "n = nat (target - int (length (ssReplicasM (add_replica now v sts))))"
      using Suc(2) add_replica_free(1) [OF contiguous_free [OF Suc.prems]] by simp
    from Suc.hyps(1) [OF this contiguous_add [OF Suc.prems]] Suc(2) show ?case by (subst scale_up_loop.simps) auto
  qed
  then obtain sts' where l: "scale_up_loop now v target sts = Some sts'" "contiguous v sts'" by blast
  with scale_up_loop_result [OF l(1)] assms(1) show ?thesis by (auto simp: Stub_ScaleUp_def)
qed

text \<open>
  When the name of the next ordinal is taken, which happens after a lower ordinal than the highest was taken
  away, scaling up never returns.
\<close>

theorem ScaleUp_hangs:
  assumes "gm_get p v = Some sts" and "int (length (ssReplicasM sts)) < target"
    and "gm_get (ssReplicasM sts) (PodName v (int (length (ssReplicasM sts)))) \<noteq> None"
  shows "Stub_ScaleUp now v target p = None"
proof (cases "scale_up_loop now v target sts")
  case (Some sts')
  from scale_up_loop_result [OF this] assms(2,3) show ?thesis by (simp add: free_next_def)
qed (simp add: Stub_ScaleUp_def assms(1))

section \<open>Witnesses\<close>

definition demo_replica :: "int \<Rightarrow> gotime \<Rightarrow> Replica" where
  "demo_replica i t = \<lparr>rName = PodName ''v1'' i, rOrdinal = i, rVersion = ''v1'', rPodIP = ''10.0.0.1'', rReady = True,
     rStartedAt = t, rPinnedSessions = 0\<rparr>"

definition demo_sts :: "int list \<Rightarrow> stubSTS" where
  "demo_sts is = \<lparr>ssReplicasM = map (\<lambda>i. (PodName ''v1'' i, demo_replica i 5)) is, ssNextIP = 2, ssIdleSince = zero_time, ssPvcs = []\<rparr>"

definition demo_fleet :: "int list \<Rightarrow> StubProvider" where
  "demo_fleet is = [(''v1'', demo_sts is)]"

definition demo_sessions :: "int \<Rightarrow> Store" where
  "demo_sessions i = snd (Register 7 ''fp'' ''v1'' (PodName ''v1'' i) ''i'' ''t'' ''u'' (NewStore 100))"

definition demo_cfg :: ManagerConfig where
  "demo_cfg = \<lparr>mcMaxReplicasPerVersion = 3, mcMaxSessionsPerReplica = 1, mcReplicaIdleTTL = 10, mcVersionRetention = 50\<rparr>"

lemma demo_fleet_ok: "distinct is \<Longrightarrow> \<forall>i \<in> set is. 0 \<le> i \<Longrightarrow> stub_inv (demo_fleet is)"
  by (auto simp: stub_inv_def demo_fleet_def demo_sts_def sts_ok_def gm_ok_def demo_replica_def distinct_map inj_on_def comp_def
      dest!: map_of_SomeD split: if_splits)

text \<open>Replica 1 has a session; the sweep takes away replica 0.\<close>

theorem Sweep_only_idle_witness:
  "(\<exists>e p' calls. Sweep demo_cfg (watched stub) 20 (demo_sessions 1) (demo_fleet [0, 1], []) = (e, p', calls)
      \<and> CallScaleDown ''v1'' 0 \<in> set calls \<and> requests_ok demo_cfg 20 (demo_sessions 1) calls)
   \<and> (\<exists>e p'. Sweep demo_cfg stub 20 (demo_sessions 1) (demo_fleet [0, 1]) = (e, p')
      \<and> demo_replica 0 5 \<in> stub_view (demo_fleet [0, 1]) ''v1'' \<and> demo_replica 0 5 \<notin> stub_view p' ''v1''
      \<and> (\<forall>l \<in> set (ListLeases (demo_sessions 1)). lReplicaPod l \<noteq> rName (demo_replica 0 5)))"
proof -
  obtain e p' where s: "Sweep demo_cfg stub 20 (demo_sessions 1) (demo_fleet [0, 1]) = (e, p')" by fastforce
  have ok: "stub_inv (demo_fleet [0, 1])" by (rule demo_fleet_ok) simp_all
  have "demo_replica 0 5 \<notin> stub_view (snd (Sweep demo_cfg stub 20 (demo_sessions 1) (demo_fleet [0, 1]))) ''v1''" by code_simp
  then have gone: "demo_replica 0 5 \<notin> stub_view p' ''v1''" by (simp only: s snd_conv not_False_eq_True)
  have there: "demo_replica 0 5 \<in> stub_view (demo_fleet [0, 1]) ''v1''" by code_simp
  have "CallScaleDown ''v1'' 0 \<in> set (snd (snd (Sweep demo_cfg (watched stub) 20 (demo_sessions 1) (demo_fleet [0, 1], []))))" by code_simp
  then show ?thesis
    using Sweep_only_idle [where m = demo_cfg and P = stub and now = 20 and st = "demo_sessions 1" and p = "demo_fleet [0, 1]"
        and s = "demo_fleet [0, 1]" and e = e and s' = p' and r = "demo_replica 0 5" and v = "''v1''"] ok s there gone
    by auto
qed

theorem fleet_within_limit_witness:
  "\<exists>r p'. Acquire demo_cfg stub 20 (demo_sessions 0) ''v1'' (demo_fleet [0]) = Some (r, p')
    \<and> stub_view (demo_fleet [0]) ''v1'' \<subseteq> stub_view p' ''v1''
    \<and> (\<forall>w. int (card (stub_view p' w)) \<le> mcMaxReplicasPerVersion demo_cfg)"
proof -
  have "Acquire demo_cfg stub 20 (demo_sessions 0) ''v1'' (demo_fleet [0]) \<noteq> None" by code_simp
  then obtain r p' where a: "Acquire demo_cfg stub 20 (demo_sessions 0) ''v1'' (demo_fleet [0]) = Some (r, p')" by force
  have ok: "stub_inv (demo_fleet [0])" by (rule demo_fleet_ok) simp_all
  have lim: "\<forall>w. int (card (stub_view (demo_fleet [0]) w)) \<le> mcMaxReplicasPerVersion demo_cfg"
    by (simp add: stub_view_def demo_fleet_def demo_sts_def demo_cfg_def)
  from fleet_within_limit [OF ok lim, of 20 "demo_sessions 0" "''v1''"] a show ?thesis by blast
qed

text \<open>The only replica is full; the acquisition adds replica 1.\<close>

theorem Acquire_choice_witness:
  "\<exists>res p'. Acquire demo_cfg stub 20 (demo_sessions 0) ''v1'' (demo_fleet [0]) = Some (Inr res, p')
    \<and> arPodName res = PodName ''v1'' 1 \<and> card (stub_view p' ''v1'') = 2"
proof -
  let ?a = "Acquire demo_cfg stub 20 (demo_sessions 0) ''v1'' (demo_fleet [0])"
  have "case ?a of None \<Rightarrow> False | Some (r, p') \<Rightarrow> \<not> is_err r" by code_simp
  then obtain res p' where a: "?a = Some (Inr res, p')" by (auto simp: is_err_def split: option.splits sum.splits)
  have ok: "stub_inv (demo_fleet [0])" by (rule demo_fleet_ok) simp_all
  have v: "stub_view (demo_fleet [0]) ''v1'' = {demo_replica 0 5}" by (simp add: stub_view_def demo_fleet_def demo_sts_def)
  have "pinned (rName (demo_replica 0 5)) (demo_sessions 0) = 1" "mcMaxSessionsPerReplica demo_cfg = 1" by code_simp+
  with Acquire_choice [where m = demo_cfg and now = 20 and st = "demo_sessions 0" and v = "''v1''" and s = "demo_fleet [0]" and res = res and s' = p'
      and P = stub and p = "demo_fleet [0]" and r = "Inl Panic" and q = "[]" and calls = "[]"] ok a v
  show ?thesis by auto
qed

text \<open>Stamped at time 20, collected at time 70.\<close>

theorem idle_version_collected_witness:
  "gm_get (snd (sweepVersion demo_cfg stub 70 (NewStore 100) ''v1''
     (snd (sweepVersion demo_cfg stub 20 (NewStore 100) ''v1'' (demo_fleet []))))) ''v1'' = None"
proof -
  obtain e p' where 1: "sweepVersion demo_cfg stub 20 (NewStore 100) ''v1'' (demo_fleet []) = (e, p')" by fastforce
  obtain e' p'' where 2: "sweepVersion demo_cfg stub 70 (NewStore 100) ''v1'' p' = (e', p'')" by fastforce
  have "gm_get (demo_fleet []) ''v1'' = Some (demo_sts [])" "ssReplicasM (demo_sts []) = []" "is_zero (ssIdleSince (demo_sts []))"
    "\<not> versionHasPinnedSessions ''v1'' (NewStore 100)" "0 < mcVersionRetention demo_cfg" "\<not> is_zero 20"
    "mcVersionRetention demo_cfg \<le> time_sub 70 20" by code_simp+
  from idle_version_collected [OF this(1-4) this(4) this(5-7) 1 2] 1 2 show ?thesis by simp
qed

theorem ScaleUp_returns_witness:
  "\<exists>sts'. Stub_ScaleUp 20 ''v1'' 3 (demo_fleet [0, 1]) = Some (None, gm_put ''v1'' sts' (demo_fleet [0, 1]))
    \<and> length (ssReplicasM sts') = 3"
proof -
  have v: "gm_get (demo_fleet [0, 1]) ''v1'' = Some (demo_sts [0, 1])" by (simp add: demo_fleet_def)
  have "{0..<2} = {0, 1 :: int}" by auto
  then have "contiguous ''v1'' (demo_sts [0, 1])" by (simp add: contiguous_def demo_sts_def)
  from ScaleUp_returns [OF v this, of 20 3] show ?thesis by (auto simp: demo_sts_def)
qed

text \<open>Of three replicas the first is taken away; to scale up to three again never ends.\<close>

theorem ScaleUp_hangs_witness:
  "Stub_ScaleUp 20 ''v1'' 3 (snd (Stub_ScaleDown ''v1'' 0 (demo_fleet [0, 1, 2]))) = None"
proof -
  have "snd (Stub_ScaleDown ''v1'' 0 (demo_fleet [0, 1, 2])) = demo_fleet [1, 2]" by code_simp
  moreover have "Stub_ScaleUp 20 ''v1'' 3 (demo_fleet [1, 2]) = None"
    by (rule ScaleUp_hangs [of _ _ "demo_sts [1, 2]"]) (simp_all add: demo_fleet_def demo_sts_def)
  ultimately show ?thesis by simp
qed

end
