(* ===== verification/Engine_TOML.thy ===== *)
theory Engine_TOML
  imports Prelude
begin

text \<open>
  The engine configuration file of \<^verbatim>\<open>src/internal/repository/engine_toml.go\<close>. Host names and formats come from the
  operator and are quoted; \<open>toml_basic\<close> is the reading of a TOML basic string, and the round trip says
  that a quoted value is read back as it was, whatever bytes it has, and that nothing of it leaks into the rest of
  the file. The rendered file does not depend on the iteration order of the map of mirrors.
\<close>

section \<open>Quoting\<close>

definition hex_char :: "nat \<Rightarrow> char" where
  "hex_char n = (if n < 10 then char_of (48 + n) else char_of (87 + n))"

definition is_control :: "char \<Rightarrow> bool" where
  "is_control c \<longleftrightarrow> of_char c < (32 :: nat) \<or> of_char c = (127 :: nat)"

text \<open>One byte of the loop; \<^verbatim>\<open>\u%04x\<close> of a byte starts with two zeros.\<close>

definition escape_byte :: "char \<Rightarrow> string" where
  "escape_byte c =
     (if c = CHR 0x5C then [CHR 0x5C, CHR 0x5C]
      else if c = CHR 0x22 then [CHR 0x5C, CHR 0x22]
      else if c = CHR 0x08 then [CHR 0x5C, CHR ''b'']
      else if c = CHR 0x0C then [CHR 0x5C, CHR ''f'']
      else if c = CHR 0x0A then [CHR 0x5C, CHR ''n'']
      else if c = CHR 0x0D then [CHR 0x5C, CHR ''r'']
      else if c = CHR 0x09 then [CHR 0x5C, CHR ''t'']
      else if is_control c
        then [CHR 0x5C, CHR ''u'', CHR ''0'', CHR ''0'', hex_char (of_char c div 16), hex_char (of_char c mod 16)]
      else [c])"

definition tomlEscape :: "string \<Rightarrow> string" where
  "tomlEscape s = concat (map escape_byte s)"

definition tomlQuote :: "string \<Rightarrow> string" where
  "tomlQuote s = [CHR 0x22] @ tomlEscape s @ [CHR 0x22]"

section \<open>The file\<close>

record engineTOML =
  etDebug :: bool
  etLogFormat :: string
  etRegistryMirrors :: "(string, string list) gomap"
  etMirrorHTTP :: "string list"

fun unique_loop :: "string list \<Rightarrow> string list \<Rightarrow> string list \<Rightarrow> string list" where
  "unique_loop [] seen out = out"
| "unique_loop (v # vs) seen out =
     (if v = [] \<or> List.member seen v then unique_loop vs seen out else unique_loop vs (v # seen) (out @ [v]))"

definition sortedUnique :: "string list \<Rightarrow> string list" where
  "sortedUnique vs = sort (unique_loop vs [] [])"

definition mirrorHosts :: "(string, string list) gomap \<Rightarrow> string list" where
  "mirrorHosts mirrors = sort (map fst (filter (\<lambda>(host, list). list \<noteq> []) mirrors))"

definition newline :: string where "newline = [CHR 0x0A]"

definition registry_section :: "(string, string list) gomap \<Rightarrow> string \<Rightarrow> string" where
  "registry_section mirrors host =
     ''[registry.'' @ tomlQuote host @ '']'' @ newline @ ''  mirrors = [''
       @ join_with '', '' (map tomlQuote (case gm_get mirrors host of Some l \<Rightarrow> l | None \<Rightarrow> [])) @ '']'' @ newline"

definition http_section :: "string \<Rightarrow> string" where
  "http_section mirror = ''[registry.'' @ tomlQuote mirror @ '']'' @ newline @ ''  http = true'' @ newline"

definition render :: "engineTOML \<Rightarrow> string" where
  "render c = join_with newline
     ((if etDebug c then [''debug = true'' @ newline] else [])
      @ (if etLogFormat c \<noteq> [] then [''[log]'' @ newline @ ''  format = '' @ tomlQuote (etLogFormat c) @ newline] else [])
      @ map (registry_section (etRegistryMirrors c)) (mirrorHosts (etRegistryMirrors c))
      @ map http_section (sortedUnique (etMirrorHTTP c)))"

section \<open>Reading a basic string\<close>

definition hex_val :: "char \<Rightarrow> nat option" where
  "hex_val c = (let n = of_char c in
     if 48 \<le> n \<and> n \<le> 57 then Some (n - 48)
     else if 97 \<le> n \<and> n \<le> 102 then Some (n - 87)
     else if 65 \<le> n \<and> n \<le> 70 then Some (n - 55) else None)"

text \<open>
  \<^verbatim>\<open>\u\<close> with a scalar value below 128 (one byte in UTF-8); the values above do not come out of \<open>tomlEscape\<close>.
\<close>

definition scalar4 :: "string \<Rightarrow> char option" where
  "scalar4 ds = (case map hex_val ds of
     [Some a, Some b, Some c, Some d] \<Rightarrow> (let n = ((a * 16 + b) * 16 + c) * 16 + d in if n < 128 then Some (char_of n) else None)
   | _ \<Rightarrow> None)"

definition simple_escape :: "char \<Rightarrow> char option" where
  "simple_escape e =
     (if e = CHR 0x5C \<or> e = CHR 0x22 then Some e
      else if e = CHR ''b'' then Some CHR 0x08 else if e = CHR ''f'' then Some CHR 0x0C
      else if e = CHR ''n'' then Some CHR 0x0A else if e = CHR ''r'' then Some CHR 0x0D
      else if e = CHR ''t'' then Some CHR 0x09 else None)"

text \<open>The text after the opening quote: the value and what follows the closing quote.\<close>

function toml_basic :: "string \<Rightarrow> (string \<times> string) option" where
  "toml_basic [] = None"
| "toml_basic (c # cs) =
     (if c = CHR 0x22 then Some ([], cs)
      else if c = CHR 0x5C then
        (case cs of
           [] \<Rightarrow> None
         | e # es \<Rightarrow>
             if e = CHR ''u'' then
               (case scalar4 (take 4 es) of None \<Rightarrow> None | Some x \<Rightarrow> map_option (\<lambda>(s, r). (x # s, r)) (toml_basic (drop 4 es)))
             else (case simple_escape e of None \<Rightarrow> None | Some x \<Rightarrow> map_option (\<lambda>(s, r). (x # s, r)) (toml_basic es)))
      else if is_control c \<and> c \<noteq> CHR 0x09 then None
      else map_option (\<lambda>(s, r). (c # s, r)) (toml_basic cs))"
  by pat_completeness auto
termination by (relation "measure length") auto

definition read_quoted :: "string \<Rightarrow> (string \<times> string) option" where
  "read_quoted s = (case s of [] \<Rightarrow> None | c # cs \<Rightarrow> if c = CHR 0x22 then toml_basic cs else None)"

lemma hex_val_char: "n < 16 \<Longrightarrow> hex_val (hex_char n) = Some n"
  by (simp add: hex_val_def hex_char_def Let_def)

lemma scalar4_byte:
  assumes "is_control c"
  shows "scalar4 [CHR ''0'', CHR ''0'', hex_char (of_char c div 16), hex_char (of_char c mod 16)] = Some c"
proof -
  have c: "of_char c < (128 :: nat)" using assms by (auto simp: is_control_def)
  then have "hex_val (hex_char (of_char c div 16)) = Some (of_char c div 16)" by (intro hex_val_char) simp
  moreover have "hex_val (hex_char (of_char c mod 16)) = Some (of_char c mod 16)" by (intro hex_val_char) simp
  moreover have "hex_val CHR ''0'' = Some 0" by (simp add: hex_val_def)
  moreover have "(of_char c :: nat) div 16 * 16 + of_char c mod 16 = of_char c" by simp
  ultimately show ?thesis using c by (simp add: scalar4_def Let_def)
qed

lemma toml_basic_escape:
  "toml_basic (escape_byte c @ rest) = map_option (\<lambda>(s, r). (c # s, r)) (toml_basic rest)"
proof (cases "c \<in> {CHR 0x5C, CHR 0x22, CHR 0x08, CHR 0x0C, CHR 0x0A, CHR 0x0D, CHR 0x09}")
  case True
  then show ?thesis by (auto simp: escape_byte_def simple_escape_def)
next
  case False
  then show ?thesis
    using scalar4_byte [of c] by (cases "is_control c") (simp_all add: escape_byte_def)
qed

text \<open>
  A quoted value is read back unchanged, whatever bytes it is made of, and the reading ends exactly at its
  closing quote: a host name or log format cannot add anything else to the file.
\<close>

theorem tomlQuote_round_trip: "read_quoted (tomlQuote s @ rest) = Some (s, rest)"
proof -
  have "toml_basic (tomlEscape s @ CHR 0x22 # rest) = Some (s, rest)"
    by (induction s) (simp_all add: tomlEscape_def toml_basic_escape del: toml_basic.simps(2), simp)
  then show ?thesis by (simp add: read_quoted_def tomlQuote_def)
qed

section \<open>Determinism\<close>

lemma unique_loop_spec:
  "set out = set seen \<Longrightarrow> distinct out \<Longrightarrow>
     set (unique_loop vs seen out) = set out \<union> {v \<in> set vs. v \<noteq> []} \<and> distinct (unique_loop vs seen out)"
  by (induction vs seen out rule: unique_loop.induct) auto

lemma sortedUnique_spec: "set (sortedUnique vs) = {v \<in> set vs. v \<noteq> []}" "distinct (sortedUnique vs)" "sorted (sortedUnique vs)"
  using unique_loop_spec [of "[]" "[]" vs] by (simp_all add: sortedUnique_def)

lemma mirrorHosts_spec:
  assumes "gm_ok m"
  shows "distinct (mirrorHosts m)" "sorted (mirrorHosts m)" "set (mirrorHosts m) = {h. \<exists>l. gm_get m h = Some l \<and> l \<noteq> []}"
proof -
  have "distinct (map fst (filter (\<lambda>(host, list). list \<noteq> []) m))" using assms unfolding gm_ok_def by (rule distinct_map_filter)
  then show "distinct (mirrorHosts m)" "sorted (mirrorHosts m)" by (simp_all add: mirrorHosts_def)
  show "set (mirrorHosts m) = {h. \<exists>l. gm_get m h = Some l \<and> l \<noteq> []}"
    using gm_get_in [OF assms] by (force simp: mirrorHosts_def image_iff)
qed

text \<open>
  The file depends on the mirrors and not on the order in which the maps and lists are given.
\<close>

theorem render_deterministic:
  assumes "gm_ok (etRegistryMirrors c)" and "gm_ok m" and "gm_eq (etRegistryMirrors c) m" and "set (etMirrorHTTP c) = set hs"
  shows "render (c\<lparr>etRegistryMirrors := m, etMirrorHTTP := hs\<rparr>) = render c"
proof -
  have get: "gm_get (etRegistryMirrors c) = gm_get m" using assms(3) by (simp add: gm_eq_def)
  have "mirrorHosts m = mirrorHosts (etRegistryMirrors c)"
    using mirrorHosts_spec [OF assms(1)] mirrorHosts_spec [OF assms(2)] get by (intro sorted_distinct_set_unique) auto
  moreover have "sortedUnique hs = sortedUnique (etMirrorHTTP c)"
    using sortedUnique_spec [of hs] sortedUnique_spec [of "etMirrorHTTP c"] assms(4) by (intro sorted_distinct_set_unique) auto
  moreover have "registry_section m = registry_section (etRegistryMirrors c)"
    by (rule ext) (simp add: registry_section_def get)
  ultimately show ?thesis by (simp add: render_def)
qed

end
