(* ===== verification/K8s_Provider.thy ===== *)
theory K8s_Provider
  imports Stub_Provider Engine_TOML
begin

text \<open>
  The Kubernetes provider, \<^verbatim>\<open>src/internal/repository/k8s_provider.go\<close>, with the choice of the image registry of
  \<^verbatim>\<open>src/internal/domain/engine_image.go\<close>. The client library and the cluster behind it are an argument: \<open>kube_client\<close> has one
  function per call that the provider makes, and its answer may depend in any way on the calls made so far
  (\<open>kube\<close>, the list of the calls, oldest first), so every behaviour of the cluster, of other clients and of the network is
  covered. Every method appends its calls to that list. The quantities that the source hands to
  \<^verbatim>\<open>resource.MustParse\<close> stay the strings they are. \<^verbatim>\<open>WaitForReady\<close> sleeps two seconds per round under a deadline of five
  minutes, so it makes at most 150 rounds. A readiness probe is its port, delay, period and threshold. RFC 3339 formatting and parsing of the annotation are arguments.
\<close>

section \<open>Objects\<close>

record EnvVar =
  envName :: string
  envValue :: string
  envSecretKeyRef :: "(string \<times> string) option"

record VolumeMount =
  vmName :: string
  vmMountPath :: string
  vmReadOnly :: bool

datatype VolumeProjection = SecretProjection string | ConfigMapProjection string "(string \<times> string) list"

datatype VolumeSource = SecretVolume string | ProjectedVolume "VolumeProjection list" | EmptyDir

type_synonym Volume = "string \<times> VolumeSource"

record Container =
  coName :: string
  coImage :: string
  coImagePullPolicy :: string
  coCommand :: "string list"
  coArgs :: "string list"
  coEnv :: "EnvVar list"
  coVolumeMounts :: "VolumeMount list"
  coPrivileged :: "bool option"
  coRequests :: "string \<times> string"
  coLimits :: "string \<times> string"
  coReadiness :: "(int \<times> int \<times> int \<times> int) option"

record PodSpec =
  psTerminationGracePeriodSeconds :: int
  psInitContainers :: "Container list"
  psContainers :: "Container list"
  psVolumes :: "Volume list"
  psTolerations :: "string list"
  psNodeSelector :: "(string, string) gomap"

record StatefulSet =
  ksName :: string
  ksNamespace :: string
  ksLabels :: "(string, string) gomap"
  ksAnnotations :: "(string, string) gomap"
  ksResourceVersion :: string
  ksServiceName :: string
  ksReplicas :: "int option"
  ksPodManagementPolicy :: string
  ksUpdateStrategy :: string
  ksSelector :: "(string, string) gomap"
  ksTemplateLabels :: "(string, string) gomap"
  ksPodSpec :: PodSpec
  ksClaimName :: string
  ksClaimLabels :: "(string, string) gomap"
  ksClaimStorage :: string
  ksClaimStorageClass :: "string option"
  ksWhenScaled :: string
  ksWhenDeleted :: string

record Service =
  svName :: string
  svNamespace :: string
  svLabels :: "(string, string) gomap"
  svResourceVersion :: string
  svClusterIP :: string
  svSelector :: "(string, string) gomap"
  svPort :: int

record ConfigMap =
  cmName :: string
  cmNamespace :: string
  cmLabels :: "(string, string) gomap"
  cmResourceVersion :: string
  cmData :: "(string, string) gomap"

record Pod =
  pdName :: string
  pdDeleting :: bool
  pdStartTime :: "gotime option"
  pdPodIP :: string
  pdConditions :: "(string \<times> string) list"

section \<open>The client\<close>

datatype api_error = ApiNotFound | ApiAlreadyExists | ApiConflict | ApiOther string

datatype kube_call =
    CreateSTS StatefulSet | GetSTS string | UpdateSTS StatefulSet | DeleteSTS string | ListSTS "(string, string) gomap"
  | CreateSvc Service | GetSvc string | UpdateSvc Service | DeleteSvc string
  | CreateCM ConfigMap | GetCM string | UpdateCM ConfigMap | DeleteCM string
  | ListPods "(string, string) gomap" | GetPod string
  | ListClaims "(string, string) gomap" | DeleteClaim string

type_synonym kube = "kube_call list"

record kube_client =
  kcCreateSTS :: "kube \<Rightarrow> StatefulSet \<Rightarrow> api_error option"
  kcGetSTS :: "kube \<Rightarrow> string \<Rightarrow> (api_error, StatefulSet) result"
  kcUpdateSTS :: "kube \<Rightarrow> StatefulSet \<Rightarrow> api_error option"
  kcDeleteSTS :: "kube \<Rightarrow> string \<Rightarrow> api_error option"
  kcListSTS :: "kube \<Rightarrow> (string, string) gomap \<Rightarrow> (api_error, StatefulSet list) result"
  kcCreateSvc :: "kube \<Rightarrow> Service \<Rightarrow> api_error option"
  kcGetSvc :: "kube \<Rightarrow> string \<Rightarrow> (api_error, Service) result"
  kcUpdateSvc :: "kube \<Rightarrow> Service \<Rightarrow> api_error option"
  kcDeleteSvc :: "kube \<Rightarrow> string \<Rightarrow> api_error option"
  kcCreateCM :: "kube \<Rightarrow> ConfigMap \<Rightarrow> api_error option"
  kcGetCM :: "kube \<Rightarrow> string \<Rightarrow> (api_error, ConfigMap) result"
  kcUpdateCM :: "kube \<Rightarrow> ConfigMap \<Rightarrow> api_error option"
  kcDeleteCM :: "kube \<Rightarrow> string \<Rightarrow> api_error option"
  kcListPods :: "kube \<Rightarrow> (string, string) gomap \<Rightarrow> (api_error, Pod list) result"
  kcGetPod :: "kube \<Rightarrow> string \<Rightarrow> (api_error, Pod) result"
  kcListClaims :: "kube \<Rightarrow> (string, string) gomap \<Rightarrow> (api_error, string list) result"
  kcDeleteClaim :: "kube \<Rightarrow> string \<Rightarrow> api_error option"
  kcDeadline :: "kube \<Rightarrow> bool"
  kcFormatTime :: "gotime \<Rightarrow> string"
  kcParseTime :: "string \<Rightarrow> gotime option"

definition api :: "api_error \<Rightarrow> error" where
  "api e = (case e of ApiNotFound \<Rightarrow> ErrOther ''not found'' | ApiAlreadyExists \<Rightarrow> ErrOther ''already exists''
     | ApiConflict \<Rightarrow> ErrOther ''conflict'' | ApiOther s \<Rightarrow> ErrOther s)"

section \<open>Configuration\<close>

record ImageCacheMirror =
  icID :: string
  icHost :: string
  icUpstream :: string
  icInternalAddr :: string
  icExternalAddr :: string
  icBackend :: string
  icTLS :: bool

record EnvVarSource =
  esSecretName :: string
  esKey :: string

record K8sProviderConfig =
  kpNamespace :: string
  kpImageRegistry :: string
  kpStorageClass :: string
  kpStorageSize :: string
  kpPVCLabels :: "(string, string) gomap"
  kpCPURequest :: string
  kpCPULimit :: string
  kpMemoryRequest :: string
  kpMemoryLimit :: string
  kpTerminationGraceSec :: int
  kpNodeSelector :: "(string, string) gomap"
  kpTolerations :: "string list"
  kpExtraArgs :: "string list"
  kpPullPolicy :: string
  kpPrivileged :: bool
  kpExtraEnv :: "(string, string) gomap"
  kpExtraEnvFrom :: "(string, EnvVarSource) gomap"
  kpCASecret :: string
  kpCAKey :: string
  kpDebug :: bool
  kpLogFormat :: string
  kpRegistryMirrors :: "(string, string list) gomap"
  kpMirrorHTTP :: "string list"
  kpImageCacheMirrors :: "ImageCacheMirror list"

definition or_default :: "string \<Rightarrow> string \<Rightarrow> string" where
  "or_default s d = (if s = [] then d else s)"

definition NewK8sProvider :: "K8sProviderConfig \<Rightarrow> K8sProviderConfig" where
  "NewK8sProvider cfg = cfg\<lparr>
     kpNamespace := or_default (kpNamespace cfg) ''dagger-kubernetes'',
     kpImageRegistry := or_default (kpImageRegistry cfg) ''registry.dagger.io/engine'',
     kpStorageSize := or_default (kpStorageSize cfg) ''50Gi'',
     kpCPURequest := or_default (kpCPURequest cfg) ''500m'',
     kpCPULimit := or_default (kpCPULimit cfg) ''2000m'',
     kpMemoryRequest := or_default (kpMemoryRequest cfg) ''1Gi'',
     kpMemoryLimit := or_default (kpMemoryLimit cfg) ''8Gi'',
     kpTerminationGraceSec := (if kpTerminationGraceSec cfg = 0 then 120 else kpTerminationGraceSec cfg),
     kpPullPolicy := or_default (kpPullPolicy cfg) ''IfNotPresent'',
     kpCAKey := or_default (kpCAKey cfg) ''ca.crt''\<rparr>"

definition enginePort :: int where "enginePort = 9999"
definition engineConfigMapName :: string where "engineConfigMapName = ''dagger-engine-config''"
definition engineTOMLKey :: string where "engineTOMLKey = ''engine.toml''"
definition engineConfigDir :: string where "engineConfigDir = ''/etc/dagger''"
definition engineCAMountPath :: string where "engineCAMountPath = ''/usr/local/share/ca-certificates''"
definition engineImageAuthSecretName :: string where "engineImageAuthSecretName = ''engine-image-auth''"
definition volumeDaggerKubernetes :: string where "volumeDaggerKubernetes = ''dagger-kubernetes''"
definition volumeEngineConfig :: string where "volumeEngineConfig = ''engine-config''"
definition volumeCABundle :: string where "volumeCABundle = ''ca-bundle''"
definition volumeCASecret :: string where "volumeCASecret = ''ca-secret''"
definition engineIdleSinceAnnotation :: string where "engineIdleSinceAnnotation = ''dagger-kubernetes.io/idle-since''"

definition engineLabels :: "string \<Rightarrow> (string, string) gomap" where
  "engineLabels version = [(''app'', ''dagger-engine''), (''version'', version)]"

definition renderEngineTOML :: "K8sProviderConfig \<Rightarrow> string" where
  "renderEngineTOML cfg = render \<lparr>etDebug = kpDebug cfg, etLogFormat = kpLogFormat cfg,
     etRegistryMirrors = kpRegistryMirrors cfg, etMirrorHTTP = kpMirrorHTTP cfg\<rparr>"

section \<open>The StatefulSet\<close>

definition sortedKeys :: "(string, 'v) gomap \<Rightarrow> string list" where
  "sortedKeys m = sort (map fst m)"

definition secretEnvVar :: "string \<Rightarrow> string \<Rightarrow> string \<Rightarrow> EnvVar" where
  "secretEnvVar name secretName key = \<lparr>envName = name, envValue = [], envSecretKeyRef = Some (secretName, key)\<rparr>"

definition engineEnv :: "K8sProviderConfig \<Rightarrow> EnvVar list" where
  "engineEnv cfg =
     map (\<lambda>name. \<lparr>envName = name, envValue = the (gm_get (kpExtraEnv cfg) name), envSecretKeyRef = None\<rparr>) (sortedKeys (kpExtraEnv cfg))
     @ map (\<lambda>name. let src = the (gm_get (kpExtraEnvFrom cfg) name) in secretEnvVar name (esSecretName src) (esKey src))
         (sortedKeys (kpExtraEnvFrom cfg))"

definition engineVolumeMounts :: "K8sProviderConfig \<Rightarrow> VolumeMount list" where
  "engineVolumeMounts cfg =
     [\<lparr>vmName = volumeDaggerKubernetes, vmMountPath = ''/var/lib/dagger'', vmReadOnly = False\<rparr>,
      \<lparr>vmName = volumeEngineConfig, vmMountPath = engineConfigDir, vmReadOnly = False\<rparr>]
     @ (if kpCASecret cfg \<noteq> [] then [\<lparr>vmName = volumeCABundle, vmMountPath = engineCAMountPath, vmReadOnly = False\<rparr>] else [])"

definition podVolumes :: "K8sProviderConfig \<Rightarrow> string \<Rightarrow> Volume list" where
  "podVolumes cfg daggerTOML =
     [(volumeEngineConfig,
       if daggerTOML \<noteq> [] then ProjectedVolume [SecretProjection engineImageAuthSecretName,
         ConfigMapProjection engineConfigMapName [(engineTOMLKey, engineTOMLKey)]]
       else SecretVolume engineImageAuthSecretName)]
     @ (if kpCASecret cfg \<noteq> [] then [(volumeCABundle, EmptyDir), (volumeCASecret, SecretVolume (kpCASecret cfg))] else [])"

definition initContainers :: "K8sProviderConfig \<Rightarrow> string \<Rightarrow> Container list" where
  "initContainers cfg img =
     (if kpCASecret cfg = [] then []
      else [\<lparr>coName = ''ca-init'', coImage = img, coImagePullPolicy = kpPullPolicy cfg, coCommand = [''/bin/sh'', ''-c''],
             coArgs = [''cp /tmp/ca-secret/* /usr/local/share/ca-certificates/''], coEnv = [],
             coVolumeMounts = [\<lparr>vmName = volumeCASecret, vmMountPath = ''/tmp/ca-secret'', vmReadOnly = True\<rparr>,
               \<lparr>vmName = volumeCABundle, vmMountPath = ''/usr/local/share/ca-certificates'', vmReadOnly = False\<rparr>],
             coPrivileged = None, coRequests = (kpCPURequest cfg, kpMemoryRequest cfg),
             coLimits = (kpCPULimit cfg, kpMemoryLimit cfg), coReadiness = None\<rparr>])"

definition engine_container :: "K8sProviderConfig \<Rightarrow> string \<Rightarrow> Container" where
  "engine_container cfg img = \<lparr>coName = ''engine'', coImage = img, coImagePullPolicy = kpPullPolicy cfg, coCommand = [],
     coArgs = [''--addr=tcp://0.0.0.0:'' @ show_int enginePort, ''--root=/var/lib/dagger''] @ kpExtraArgs cfg,
     coEnv = engineEnv cfg, coVolumeMounts = engineVolumeMounts cfg, coPrivileged = Some (kpPrivileged cfg),
     coRequests = (kpCPURequest cfg, kpMemoryRequest cfg), coLimits = (kpCPULimit cfg, kpMemoryLimit cfg),
     coReadiness = Some (enginePort, 5, 10, 3)\<rparr>"

definition buildStatefulSet ::
    "K8sProviderConfig \<Rightarrow> string \<Rightarrow> string \<Rightarrow> string \<Rightarrow> (string, string) gomap \<Rightarrow> string \<Rightarrow> StatefulSet" where
  "buildStatefulSet cfg name version img labelMap daggerTOML =
     \<lparr>ksName = name, ksNamespace = kpNamespace cfg, ksLabels = labelMap, ksAnnotations = [], ksResourceVersion = [],
      ksServiceName = ServiceName version, ksReplicas = Some 0, ksPodManagementPolicy = ''Parallel'',
      ksUpdateStrategy = ''RollingUpdate'', ksSelector = labelMap, ksTemplateLabels = labelMap,
      ksPodSpec = \<lparr>psTerminationGracePeriodSeconds = kpTerminationGraceSec cfg, psInitContainers = initContainers cfg img,
        psContainers = [engine_container cfg img], psVolumes = podVolumes cfg daggerTOML, psTolerations = kpTolerations cfg,
        psNodeSelector = kpNodeSelector cfg\<rparr>,
      ksClaimName = volumeDaggerKubernetes,
      ksClaimLabels = fold (\<lambda>(k, v) m. gm_put k v m) labelMap (fold (\<lambda>(k, v) m. gm_put k v m) (kpPVCLabels cfg) []),
      ksClaimStorage = kpStorageSize cfg,
      ksClaimStorageClass = (if kpStorageClass cfg \<noteq> [] then Some (kpStorageClass cfg) else None),
      ksWhenScaled = ''Retain'', ksWhenDeleted = ''Delete''\<rparr>"

section \<open>Methods\<close>

definition ensureEngineConfigMap :: "K8sProviderConfig \<Rightarrow> kube_client \<Rightarrow> string \<Rightarrow> kube \<Rightarrow> error option \<times> kube" where
  "ensureEngineConfigMap cfg c daggerTOML h =
     (if daggerTOML = []
      then (case kcDeleteCM c h engineConfigMapName of
              None \<Rightarrow> None | Some ApiNotFound \<Rightarrow> None | Some e \<Rightarrow> Some (api e),
            h @ [DeleteCM engineConfigMapName])
      else
        let cm = \<lparr>cmName = engineConfigMapName, cmNamespace = kpNamespace cfg, cmLabels = [(''app'', ''dagger-engine'')],
                  cmResourceVersion = [], cmData = [(engineTOMLKey, daggerTOML)]\<rparr>;
            h1 = h @ [CreateCM cm]
        in case kcCreateCM c h cm of
             None \<Rightarrow> (None, h1)
           | Some ApiAlreadyExists \<Rightarrow>
               let h2 = h1 @ [GetCM engineConfigMapName] in
               (case kcGetCM c h1 engineConfigMapName of
                  Inl e \<Rightarrow> (Some (api e), h2)
                | Inr existing \<Rightarrow>
                    let cm = cm\<lparr>cmResourceVersion := cmResourceVersion existing\<rparr>
                    in (map_option api (kcUpdateCM c h2 cm), h2 @ [UpdateCM cm]))
           | Some e \<Rightarrow> (Some (api e), h1))"

definition K8s_EnsureStatefulSet :: "K8sProviderConfig \<Rightarrow> kube_client \<Rightarrow> string \<Rightarrow> string \<Rightarrow> kube \<Rightarrow> error option \<times> kube" where
  "K8s_EnsureStatefulSet cfg c version img h =
     (let daggerTOML = renderEngineTOML cfg in
      case ensureEngineConfigMap cfg c daggerTOML h of
        (Some e, h) \<Rightarrow> (Some e, h)
      | (None, h) \<Rightarrow>
        let name = StsName version;
            sts = buildStatefulSet cfg name version img (engineLabels version) daggerTOML;
            h1 = h @ [CreateSTS sts]
        in case kcCreateSTS c h sts of
             None \<Rightarrow> (None, h1)
           | Some ApiAlreadyExists \<Rightarrow>
               let h2 = h1 @ [GetSTS name] in
               (case kcGetSTS c h1 name of
                  Inl e \<Rightarrow> (Some (api e), h2)
                | Inr existing \<Rightarrow>
                    let sts = sts\<lparr>ksResourceVersion := ksResourceVersion existing\<rparr>;
                        sts = (case ksReplicas existing of None \<Rightarrow> sts | Some n \<Rightarrow> sts\<lparr>ksReplicas := Some n\<rparr>)
                    in (map_option api (kcUpdateSTS c h2 sts), h2 @ [UpdateSTS sts]))
           | Some e \<Rightarrow> (Some (api e), h1))"

definition K8s_DeleteStatefulSet :: "kube_client \<Rightarrow> string \<Rightarrow> kube \<Rightarrow> error option \<times> kube" where
  "K8s_DeleteStatefulSet c version h =
     (case kcDeleteSTS c h (StsName version) of None \<Rightarrow> None | Some ApiNotFound \<Rightarrow> None | Some e \<Rightarrow> Some (api e),
      h @ [DeleteSTS (StsName version)])"

definition K8s_EnsureService :: "K8sProviderConfig \<Rightarrow> kube_client \<Rightarrow> string \<Rightarrow> kube \<Rightarrow> error option \<times> kube" where
  "K8s_EnsureService cfg c version h =
     (let name = ServiceName version;
          svc = \<lparr>svName = name, svNamespace = kpNamespace cfg, svLabels = engineLabels version, svResourceVersion = [],
                 svClusterIP = ''None'', svSelector = engineLabels version, svPort = enginePort\<rparr>;
          h1 = h @ [CreateSvc svc]
      in case kcCreateSvc c h svc of
           None \<Rightarrow> (None, h1)
         | Some ApiAlreadyExists \<Rightarrow>
             let h2 = h1 @ [GetSvc name] in
             (case kcGetSvc c h1 name of
                Inl e \<Rightarrow> (Some (api e), h2)
              | Inr existing \<Rightarrow>
                  let svc = svc\<lparr>svResourceVersion := svResourceVersion existing, svClusterIP := svClusterIP existing\<rparr>
                  in (map_option api (kcUpdateSvc c h2 svc), h2 @ [UpdateSvc svc]))
         | Some e \<Rightarrow> (Some (api e), h1))"

definition K8s_DeleteService :: "kube_client \<Rightarrow> string \<Rightarrow> kube \<Rightarrow> error option \<times> kube" where
  "K8s_DeleteService c version h =
     (case kcDeleteSvc c h (ServiceName version) of None \<Rightarrow> None | Some ApiNotFound \<Rightarrow> None | Some e \<Rightarrow> Some (api e),
      h @ [DeleteSvc (ServiceName version)])"

definition isPodReady :: "Pod \<Rightarrow> bool" where
  "isPodReady pod = list_ex (\<lambda>(t, s). t = ''Ready'' \<and> s = ''True'') (pdConditions pod)"

definition extractOrdinal :: "string \<Rightarrow> string \<Rightarrow> int" where
  "extractOrdinal podName version =
     (let prefix = ''dagger-engine-'' @ VersionSlug version @ ''-'' in
      if \<not> has_prefix podName prefix then - 1
      else case Atoi (drop (length prefix) podName) of None \<Rightarrow> - 1 | Some n \<Rightarrow> n)"

definition pod_replica :: "gotime \<Rightarrow> string \<Rightarrow> Pod \<Rightarrow> Replica" where
  "pod_replica now version pod =
     \<lparr>rName = pdName pod, rOrdinal = extractOrdinal (pdName pod) version, rVersion = version, rPodIP = pdPodIP pod,
      rReady = isPodReady pod, rStartedAt = (case pdStartTime pod of None \<Rightarrow> now | Some t \<Rightarrow> t), rPinnedSessions = 0\<rparr>"

definition K8s_GetReplicas :: "kube_client \<Rightarrow> gotime \<Rightarrow> string \<Rightarrow> kube \<Rightarrow> (error, Replica list) result \<times> kube" where
  "K8s_GetReplicas c now version h =
     (case kcListPods c h (engineLabels version) of
        Inl e \<Rightarrow> Inl (api e)
      | Inr pods \<Rightarrow> Inr (map (pod_replica now version) (filter (\<lambda>pod. \<not> pdDeleting pod) pods)),
      h @ [ListPods (engineLabels version)])"

definition K8s_ListPVCs :: "kube_client \<Rightarrow> string \<Rightarrow> kube \<Rightarrow> (error, PVCInfo list) result \<times> kube" where
  "K8s_ListPVCs c version h =
     (case kcListClaims c h (engineLabels version) of
        Inl e \<Rightarrow> Inl (api e)
      | Inr names \<Rightarrow> Inr (filter (\<lambda>p. \<not> pvOrdinal p < 0)
          (map (\<lambda>name. \<lparr>pvName = name, pvOrdinal = extractPVCOrdinal name version\<rparr>) names)),
      h @ [ListClaims (engineLabels version)])"

definition K8s_DeletePVC :: "kube_client \<Rightarrow> string \<Rightarrow> kube \<Rightarrow> error option \<times> kube" where
  "K8s_DeletePVC c name h =
     (case kcDeleteClaim c h name of None \<Rightarrow> None | Some ApiNotFound \<Rightarrow> None | Some e \<Rightarrow> Some (api e), h @ [DeleteClaim name])"

primrec set_replicas_loop :: "nat \<Rightarrow> kube_client \<Rightarrow> string \<Rightarrow> int \<Rightarrow> error \<Rightarrow> kube \<Rightarrow> error option \<times> kube" where
  "set_replicas_loop 0 c name replicas lastErr h = (Some lastErr, h)"
| "set_replicas_loop (Suc attempts) c name replicas lastErr h =
     (let h1 = h @ [GetSTS name] in
      case kcGetSTS c h name of
        Inl e \<Rightarrow> (Some (api e), h1)
      | Inr sts \<Rightarrow>
          let sts = sts\<lparr>ksReplicas := Some replicas\<rparr>; h2 = h1 @ [UpdateSTS sts] in
          (case kcUpdateSTS c h1 sts of
             None \<Rightarrow> (None, h2)
           | Some ApiConflict \<Rightarrow> set_replicas_loop attempts c name replicas (api ApiConflict) h2
           | Some e \<Rightarrow> (Some (api e), h2)))"

definition setReplicas :: "kube_client \<Rightarrow> string \<Rightarrow> int \<Rightarrow> kube \<Rightarrow> error option \<times> kube" where
  "setReplicas c version replicas h = set_replicas_loop 5 c (StsName version) replicas (ErrOther []) h"

definition K8s_ScaleUp :: "kube_client \<Rightarrow> gotime \<Rightarrow> string \<Rightarrow> int \<Rightarrow> kube \<Rightarrow> (error option \<times> kube) option" where
  "K8s_ScaleUp c now version targetReplicas h =
     Some (if targetReplicas < 0 \<or> targetReplicas > 2 ^ 31 - 1 then (Some (ErrOther ''target replicas out of range''), h)
           else setReplicas c version targetReplicas h)"

definition K8s_ScaleDown :: "kube_client \<Rightarrow> string \<Rightarrow> int \<Rightarrow> kube \<Rightarrow> error option \<times> kube" where
  "K8s_ScaleDown c version ordinal h =
     (let name = StsName version; h1 = h @ [GetSTS name] in
      case kcGetSTS c h name of
        Inl e \<Rightarrow> (Some (api e), h1)
      | Inr sts \<Rightarrow>
          let current = (case ksReplicas sts of None \<Rightarrow> 0 | Some n \<Rightarrow> n) in
          if current \<le> 0 then (None, h1) else setReplicas c version (current - 1) h1)"

definition K8s_GetReadyReplicaIP :: "kube_client \<Rightarrow> string \<Rightarrow> string \<Rightarrow> kube \<Rightarrow> (error, string) result \<times> kube" where
  "K8s_GetReadyReplicaIP c version podName h =
     (case kcGetPod c h podName of
        Inl e \<Rightarrow> Inl (api e)
      | Inr pod \<Rightarrow> if pdPodIP pod = [] then Inl (ErrOther ''pod has no IP'') else Inr (pdPodIP pod),
      h @ [GetPod podName])"

primrec wait_loop :: "nat \<Rightarrow> kube_client \<Rightarrow> string \<Rightarrow> kube \<Rightarrow> error option \<times> kube" where
  "wait_loop 0 c podName h = (Some (ErrOther ''timeout waiting for pod''), h)"
| "wait_loop (Suc rounds) c podName h =
     (if kcDeadline c h then (Some (ErrOther ''timeout waiting for pod''), h)
      else
        let h1 = h @ [GetPod podName] in
        case kcGetPod c h podName of
          Inl ApiNotFound \<Rightarrow> wait_loop rounds c podName h1
        | Inl e \<Rightarrow> (Some (api e), h1)
        | Inr pod \<Rightarrow> if isPodReady pod \<and> pdPodIP pod \<noteq> [] then (None, h1) else wait_loop rounds c podName h1)"

definition K8s_WaitForReady :: "kube_client \<Rightarrow> string \<Rightarrow> string \<Rightarrow> kube \<Rightarrow> error option \<times> kube" where
  "K8s_WaitForReady c version podName h = wait_loop 150 c podName h"

definition splitRegistryRef :: "string \<Rightarrow> string \<times> string" where
  "splitRegistryRef registry =
     (if contains registry ''://'' then ([], [])
      else (takeWhile (\<lambda>c. c \<noteq> CHR ''/'') registry, dropWhile (\<lambda>c. c \<noteq> CHR ''/'') registry))"

fun mirror_loop :: "string \<Rightarrow> string \<Rightarrow> string \<Rightarrow> ImageCacheMirror list \<Rightarrow> string" where
  "mirror_loop registry host path [] = registry"
| "mirror_loop registry host path (m # ms) =
     (if icHost m \<noteq> host then mirror_loop registry host path ms
      else if icExternalAddr m \<noteq> [] then icExternalAddr m @ path
      else if icTLS m \<and> icInternalAddr m \<noteq> [] then icInternalAddr m @ path
      else mirror_loop registry host path ms)"

definition EngineImageRegistryViaMirror :: "string \<Rightarrow> ImageCacheMirror list \<Rightarrow> string" where
  "EngineImageRegistryViaMirror registry mirrors =
     (let (host, path) = splitRegistryRef registry in
      if host = [] then registry else mirror_loop registry host path mirrors)"

definition K8s_GetEngineImage :: "K8sProviderConfig \<Rightarrow> string \<Rightarrow> string" where
  "K8s_GetEngineImage cfg version = EngineImageRegistryViaMirror (kpImageRegistry cfg) (kpImageCacheMirrors cfg) @ '':'' @ version"

definition K8s_AllVersions :: "kube_client \<Rightarrow> kube \<Rightarrow> (error, string list) result \<times> kube" where
  "K8s_AllVersions c h =
     (case kcListSTS c h [(''app'', ''dagger-engine'')] of
        Inl e \<Rightarrow> Inl (api e)
      | Inr stss \<Rightarrow> Inr (List.map_filter (\<lambda>sts. gm_get (ksLabels sts) ''version'') stss),
      h @ [ListSTS [(''app'', ''dagger-engine'')]])"

definition K8s_VersionIdleSince :: "kube_client \<Rightarrow> string \<Rightarrow> kube \<Rightarrow> (gotime \<times> bool \<times> error option) \<times> kube" where
  "K8s_VersionIdleSince c version h =
     (case kcGetSTS c h (StsName version) of
        Inl ApiNotFound \<Rightarrow> (zero_time, False, None)
      | Inl e \<Rightarrow> (zero_time, False, Some (api e))
      | Inr sts \<Rightarrow> (case gm_get (ksAnnotations sts) engineIdleSinceAnnotation of
            None \<Rightarrow> (zero_time, False, None)
          | Some raw \<Rightarrow>
              if raw = [] then (zero_time, False, None)
              else (case kcParseTime c raw of
                      None \<Rightarrow> (zero_time, True, Some (ErrOther ''parse idle-since annotation''))
                    | Some t \<Rightarrow> (t, True, None))),
      h @ [GetSTS (StsName version)])"

definition K8s_SetVersionIdleSince :: "kube_client \<Rightarrow> string \<Rightarrow> gotime \<Rightarrow> kube \<Rightarrow> error option \<times> kube" where
  "K8s_SetVersionIdleSince c version idleSince h =
     (let name = StsName version; h1 = h @ [GetSTS name] in
      case kcGetSTS c h name of
        Inl ApiNotFound \<Rightarrow> (None, h1)
      | Inl e \<Rightarrow> (Some (api e), h1)
      | Inr sts \<Rightarrow>
          let sts = (if is_zero idleSince
                     then sts\<lparr>ksAnnotations := gm_del engineIdleSinceAnnotation (ksAnnotations sts)\<rparr>
                     else sts\<lparr>ksAnnotations := gm_put engineIdleSinceAnnotation (kcFormatTime c idleSince) (ksAnnotations sts)\<rparr>)
          in (map_option api (kcUpdateSTS c h1 sts), h1 @ [UpdateSTS sts]))"

definition k8s :: "K8sProviderConfig \<Rightarrow> kube_client \<Rightarrow> kube FleetProvider" where
  "k8s cfg c = \<lparr>fpEnsureStatefulSet = K8s_EnsureStatefulSet cfg c, fpDeleteStatefulSet = K8s_DeleteStatefulSet c,
     fpEnsureService = K8s_EnsureService cfg c, fpDeleteService = K8s_DeleteService c, fpGetReplicas = K8s_GetReplicas c,
     fpScaleUp = K8s_ScaleUp c, fpScaleDown = K8s_ScaleDown c, fpGetReadyReplicaIP = K8s_GetReadyReplicaIP c,
     fpWaitForReady = K8s_WaitForReady c, fpGetEngineImage = K8s_GetEngineImage cfg, fpAllVersions = K8s_AllVersions c,
     fpVersionIdleSince = K8s_VersionIdleSince c, fpSetVersionIdleSince = K8s_SetVersionIdleSince c,
     fpListPVCs = K8s_ListPVCs c, fpDeletePVC = K8s_DeletePVC c\<rparr>"

end
