(* ===== verification/K8s_Props.thy ===== *)
theory K8s_Props
  imports K8s_Provider
begin

text \<open>
  What the Kubernetes provider does to the cluster, whatever the cluster answers. Every write of a StatefulSet carries the
  resource version of the object that the call before it read, so that a concurrent change makes it
  fail instead of being lost, and it changes no more than its purpose; the retries are bounded; names and ordinals are
  read back. The sweep of the fleet manager, on this provider, can ask for fewer replicas than a busy pod needs.
\<close>

section \<open>Guarded updates\<close>

text \<open>
  \<open>guarded c R h h'\<close>: the calls from \<open>h\<close> to \<open>h'\<close> update a StatefulSet only right after they read it; the update has the
  resource version that was read and is related by \<open>R\<close> to what was read.
\<close>

definition guarded :: "kube_client \<Rightarrow> (StatefulSet \<Rightarrow> StatefulSet \<Rightarrow> bool) \<Rightarrow> kube \<Rightarrow> kube \<Rightarrow> bool" where
  "guarded c R h h' \<longleftrightarrow> (\<exists>calls. h' = h @ calls \<and> (\<forall>pre sts post. calls = pre @ UpdateSTS sts # post \<longrightarrow>
     (\<exists>pre' n read. pre = pre' @ [GetSTS n] \<and> kcGetSTS c (h @ pre') n = Inr read
       \<and> ksResourceVersion sts = ksResourceVersion read \<and> R read sts)))"

lemma guarded_refl: "guarded c R h h"
  by (simp add: guarded_def)

lemma guarded_mono:
  assumes "guarded c R h h'" and "\<And>read sts. R read sts \<Longrightarrow> R' read sts"
  shows "guarded c R' h h'"
proof -
  from assms(1) obtain calls where calls: "h' = h @ calls" "\<And>pre sts post. calls = pre @ UpdateSTS sts # post \<Longrightarrow>
     \<exists>pre' n read. pre = pre' @ [GetSTS n] \<and> kcGetSTS c (h @ pre') n = Inr read
       \<and> ksResourceVersion sts = ksResourceVersion read \<and> R read sts" unfolding guarded_def by blast
  then have "\<exists>pre' n read. pre = pre' @ [GetSTS n] \<and> kcGetSTS c (h @ pre') n = Inr read
      \<and> ksResourceVersion sts = ksResourceVersion read \<and> R' read sts" if "calls = pre @ UpdateSTS sts # post" for pre sts post
    using calls(2) [OF that] assms(2) by metis
  with calls(1) show ?thesis unfolding guarded_def by (intro exI [of _ calls]) simp
qed

lemma guarded_trans:
  assumes "guarded c R h h1" and "guarded c R h1 h2"
  shows "guarded c R h h2"
proof -
  from assms(1) obtain a where a: "h1 = h @ a" "\<And>pre sts post. a = pre @ UpdateSTS sts # post \<Longrightarrow>
     \<exists>pre' n read. pre = pre' @ [GetSTS n] \<and> kcGetSTS c (h @ pre') n = Inr read
       \<and> ksResourceVersion sts = ksResourceVersion read \<and> R read sts" unfolding guarded_def by blast
  from assms(2) obtain b where b: "h2 = h1 @ b" "\<And>pre sts post. b = pre @ UpdateSTS sts # post \<Longrightarrow>
     \<exists>pre' n read. pre = pre' @ [GetSTS n] \<and> kcGetSTS c (h1 @ pre') n = Inr read
       \<and> ksResourceVersion sts = ksResourceVersion read \<and> R read sts" unfolding guarded_def by blast
  have "\<exists>pre' n read. pre = pre' @ [GetSTS n] \<and> kcGetSTS c (h @ pre') n = Inr read
      \<and> ksResourceVersion sts = ksResourceVersion read \<and> R read sts" if "a @ b = pre @ UpdateSTS sts # post" for pre sts post
  proof -
    from that consider us where "a = pre @ UpdateSTS sts # us" | us where "pre = a @ us" "b = us @ UpdateSTS sts # post"
      by (auto simp: append_eq_append_conv2 append_eq_Cons_conv)
    then show ?thesis
    proof cases
      case (2 us)
      from b(2) [OF 2(2)] obtain u' n read where "us = u' @ [GetSTS n]" "kcGetSTS c (h1 @ u') n = Inr read"
        "ksResourceVersion sts = ksResourceVersion read" "R read sts" by blast
      then show ?thesis using 2(1) a(1) by (intro exI [of _ "a @ u'"]) auto
    qed (use a(2) in blast)
  qed
  then show ?thesis unfolding guarded_def using a(1) b(1) by (intro exI [of _ "a @ b"]) auto
qed

definition no_update :: "kube_call \<Rightarrow> bool" where
  "no_update k = (case k of UpdateSTS _ \<Rightarrow> False | _ \<Rightarrow> True)"

lemma guarded_calls:
  assumes "list_all no_update ks"
  shows "guarded c R h (h @ ks)"
proof -
  have "ks \<noteq> pre @ UpdateSTS sts # post" for pre sts post using assms by (auto simp: no_update_def)
  then show ?thesis by (simp add: guarded_def)
qed

lemma guarded_call: "no_update k \<Longrightarrow> guarded c R h (h @ [k])"
  by (rule guarded_calls) simp

lemma guarded_update:
  assumes "kcGetSTS c h n = Inr read" and "ksResourceVersion sts = ksResourceVersion read" and "R read sts"
  shows "guarded c R h (h @ [GetSTS n, UpdateSTS sts])"
proof -
  have "\<exists>pre' n read. pre = pre' @ [GetSTS n] \<and> kcGetSTS c (h @ pre') n = Inr read
      \<and> ksResourceVersion s = ksResourceVersion read \<and> R read s"
    if "[GetSTS n, UpdateSTS sts] = pre @ UpdateSTS s # post" for pre s post
  proof -
    from that have "pre = [] @ [GetSTS n]" "s = sts" by (cases pre; cases "tl pre"; simp)+
    with assms show ?thesis by (intro exI [of _ "[] :: kube"] exI [of _ n] exI [of _ read]) simp
  qed
  then show ?thesis unfolding guarded_def by (intro exI [of _ "[GetSTS n, UpdateSTS sts]"]) simp
qed

lemma set_replicas_guarded:
  "guarded c (\<lambda>read sts. sts = read\<lparr>ksReplicas := Some n\<rparr>) h (snd (set_replicas_loop k c name n e h))"
proof (induction k arbitrary: e h)
  case (Suc k)
  show ?case
  proof (cases "kcGetSTS c h name")
    case (Inl err)
    then show ?thesis by (simp add: guarded_call no_update_def)
  next
    case (Inr sts)
    let ?sts = "sts\<lparr>ksReplicas := Some n\<rparr>"
    have step: "guarded c (\<lambda>read sts. sts = read\<lparr>ksReplicas := Some n\<rparr>) h ((h @ [GetSTS name]) @ [UpdateSTS ?sts])"
      using guarded_update [of c h name sts ?sts, OF Inr] by simp
    from guarded_trans [OF step Suc.IH] step Inr show ?thesis
      by (simp add: Let_def split: option.split api_error.split)
  qed
qed (simp add: guarded_refl)

lemma config_map_guarded: "guarded c R h (snd (ensureEngineConfigMap cfg c toml h))"
  by (simp add: ensureEngineConfigMap_def guarded_calls no_update_def Let_def split: option.split api_error.split sum.split)

lemma ensure_guarded:
  "guarded c (\<lambda>read sts. ksReplicas read \<noteq> None \<longrightarrow> ksReplicas sts = ksReplicas read) h (snd (K8s_EnsureStatefulSet cfg c v img h))"
proof -
  let ?R = "\<lambda>read sts. ksReplicas read \<noteq> None \<longrightarrow> ksReplicas sts = ksReplicas (read :: StatefulSet)"
  obtain e h0 where cm: "ensureEngineConfigMap cfg c (renderEngineTOML cfg) h = (e, h0)" by fastforce
  let ?sts = "buildStatefulSet cfg (StsName v) v img (engineLabels v) (renderEngineTOML cfg)"
  let ?h1 = "h0 @ [CreateSTS ?sts]"
  have g0: "guarded c ?R h h0" using config_map_guarded [of c ?R h cfg "renderEngineTOML cfg"] cm by simp
  have g1: "guarded c ?R h ?h1" by (rule guarded_trans [OF g0 guarded_call]) (simp add: no_update_def)
  have g2: "guarded c ?R h (?h1 @ [GetSTS (StsName v)])" by (rule guarded_trans [OF g1 guarded_call]) (simp add: no_update_def)
  have g3: "guarded c ?R h (?h1 @ [GetSTS (StsName v), UpdateSTS s])"
    if "kcGetSTS c ?h1 (StsName v) = Inr read" "ksResourceVersion s = ksResourceVersion read" "?R read s" for read s
    by (rule guarded_trans [OF g1 guarded_update]) (rule that)+
  show ?thesis
  proof (cases "e = None \<and> kcCreateSTS c h0 ?sts = Some ApiAlreadyExists")
    case False
    then show ?thesis using g0 g1
      by (auto simp: K8s_EnsureStatefulSet_def cm Let_def split: option.split api_error.split)
  next
    case True
    show ?thesis
    proof (cases "kcGetSTS c ?h1 (StsName v)")
      case (Inl err)
      with True g2 show ?thesis by (simp add: K8s_EnsureStatefulSet_def cm Let_def)
    next
      case (Inr read)
      from g3 [OF Inr] True Inr show ?thesis
        by (auto simp: K8s_EnsureStatefulSet_def cm Let_def split: option.split)
    qed
  qed
qed

lemma set_idle_guarded:
  "guarded c (\<lambda>read sts. \<exists>a. sts = read\<lparr>ksAnnotations := a\<rparr>) h (snd (K8s_SetVersionIdleSince c v t h))"
proof (cases "kcGetSTS c h (StsName v)")
  case (Inl err)
  then show ?thesis by (simp add: K8s_SetVersionIdleSince_def guarded_call no_update_def Let_def split: api_error.split)
next
  case (Inr sts)
  have "guarded c (\<lambda>read sts. \<exists>a. sts = read\<lparr>ksAnnotations := a\<rparr>) h (h @ [GetSTS (StsName v), UpdateSTS (sts\<lparr>ksAnnotations := a\<rparr>)])" for a
    by (rule guarded_update [OF Inr]) auto
  with Inr show ?thesis by (simp add: K8s_SetVersionIdleSince_def Let_def)
qed

text \<open>
  C8: whatever the cluster answers, no change of somebody else is overwritten: every update of a StatefulSet follows a
  read of it and carries the resource version that was read. Ensuring a version keeps the number of replicas that was
  read, scaling changes nothing but that number, and stamping a version nothing but the annotations.
\<close>

theorem updates_guarded:
  "guarded c (\<lambda>read sts. ksReplicas read \<noteq> None \<longrightarrow> ksReplicas sts = ksReplicas read) h (snd (K8s_EnsureStatefulSet cfg c v img h))
   \<and> guarded c (\<lambda>read sts. sts = read\<lparr>ksReplicas := Some n\<rparr>) h (snd (setReplicas c v n h))
   \<and> guarded c (\<lambda>read sts. \<exists>m. sts = read\<lparr>ksReplicas := Some m\<rparr>) h (snd (K8s_ScaleDown c v i h))
   \<and> guarded c (\<lambda>read sts. \<exists>a. sts = read\<lparr>ksAnnotations := a\<rparr>) h (snd (K8s_SetVersionIdleSince c v t h))"
proof (intro conjI ensure_guarded set_idle_guarded)
  show s: "guarded c (\<lambda>read sts. sts = read\<lparr>ksReplicas := Some n\<rparr>) h (snd (setReplicas c v n h))" for h n
    unfolding setReplicas_def by (rule set_replicas_guarded)
  let ?R = "\<lambda>read sts. \<exists>m. sts = read\<lparr>ksReplicas := Some m\<rparr>"
  have weak: "guarded c ?R h' h''" if "guarded c (\<lambda>read sts. sts = read\<lparr>ksReplicas := Some m\<rparr>) h' h''" for h' h'' m
    by (rule guarded_mono [OF that]) blast
  have g: "guarded c ?R h (h @ [GetSTS (StsName v)])" by (rule guarded_call) (simp add: no_update_def)
  show "guarded c ?R h (snd (K8s_ScaleDown c v i h))"
    using g guarded_trans [OF g weak [OF s]] by (simp add: K8s_ScaleDown_def Let_def split: sum.split)
qed

section \<open>Bounded retries\<close>

lemma set_replicas_outcome:
  assumes "set_replicas_loop k c name n e h = (r, h')"
  shows "length h' \<le> length h + 2 * k
    \<and> (r = None \<longrightarrow> (\<exists>pre sts. h' = pre @ [UpdateSTS sts] \<and> kcUpdateSTS c pre sts = None \<and> ksReplicas sts = Some n))"
  using assms
proof (induction k arbitrary: e h)
  case (Suc k)
  show ?case
  proof (cases "kcGetSTS c h name")
    case (Inl err)
    with Suc.prems show ?thesis by auto
  next
    case (Inr sts)
    let ?u = "sts\<lparr>ksReplicas := Some n\<rparr>" and ?h = "h @ [GetSTS name]"
    show ?thesis
    proof (cases "kcUpdateSTS c ?h ?u = Some ApiConflict")
      case True
      with Suc.prems Inr have "set_replicas_loop k c name n (api ApiConflict) (?h @ [UpdateSTS ?u]) = (r, h')" by (simp add: Let_def)
      from Suc.IH [OF this] show ?thesis by simp
    next
      case False
      have u: "ksReplicas ?u = Some n" by simp
      show ?thesis
      proof (cases "kcUpdateSTS c ?h ?u")
        case None
        with Suc.prems Inr have "r = None" "h' = ?h @ [UpdateSTS ?u]" by (simp_all add: Let_def)
        with None u show ?thesis by auto
      next
        case (Some err)
        with False have "err \<noteq> ApiConflict" by simp
        with Suc.prems Inr Some show ?thesis by (cases err) (auto simp: Let_def)
      qed
    qed
  qed
qed auto

lemma wait_loop_outcome:
  assumes "wait_loop k c pod h = (r, h')"
  shows "length h' \<le> length h + k
    \<and> (r = None \<longrightarrow> (\<exists>pre p. h' = pre @ [GetPod pod] \<and> kcGetPod c pre pod = Inr p \<and> isPodReady p \<and> pdPodIP p \<noteq> []))"
  using assms
proof (induction k arbitrary: h)
  case (Suc k)
  show ?case
  proof (cases "kcDeadline c h")
    case True
    with Suc.prems show ?thesis by auto
  next
    case False
    consider (again) "wait_loop k c pod (h @ [GetPod pod]) = (r, h')"
      | (stop) "h' = h @ [GetPod pod]" "r \<noteq> None \<or> (\<exists>p. kcGetPod c h pod = Inr p \<and> isPodReady p \<and> pdPodIP p \<noteq> [])"
      using Suc.prems False by (auto simp: Let_def split: sum.splits api_error.splits if_splits)
    then show ?thesis
    proof cases
      case again
      from Suc.IH [OF this] show ?thesis by simp
    next
      case stop
      then show ?thesis by auto
    qed
  qed
qed auto

text \<open>
  Scaling makes at most ten calls and waiting for a pod at most 150, whatever the cluster answers; when scaling reports
  success, its last call was an accepted update to exactly the wanted number, and when waiting reports success, the last
  answer was a pod that is ready and has an address.
\<close>

theorem retries_bounded:
  "(case setReplicas c v n h of (r, h') \<Rightarrow> length h' \<le> length h + 10 \<and> (r = None \<longrightarrow>
      (\<exists>pre sts. h' = pre @ [UpdateSTS sts] \<and> kcUpdateSTS c pre sts = None \<and> ksReplicas sts = Some n)))
   \<and> (case K8s_WaitForReady c v pod h of (r, h') \<Rightarrow> length h' \<le> length h + 150 \<and> (r = None \<longrightarrow>
      (\<exists>pre p. h' = pre @ [GetPod pod] \<and> kcGetPod c pre pod = Inr p \<and> isPodReady p \<and> pdPodIP p \<noteq> [])))"
proof
  obtain r h' where s: "setReplicas c v n h = (r, h')" by fastforce
  from set_replicas_outcome [of 5, OF this [unfolded setReplicas_def]]
  show "case setReplicas c v n h of (r, h') \<Rightarrow> length h' \<le> length h + 10 \<and> (r = None \<longrightarrow>
      (\<exists>pre sts. h' = pre @ [UpdateSTS sts] \<and> kcUpdateSTS c pre sts = None \<and> ksReplicas sts = Some n))"
    unfolding s by simp
  obtain r h' where w: "K8s_WaitForReady c v pod h = (r, h')" by fastforce
  from wait_loop_outcome [OF this [unfolded K8s_WaitForReady_def]]
  show "case K8s_WaitForReady c v pod h of (r, h') \<Rightarrow> length h' \<le> length h + 150 \<and> (r = None \<longrightarrow>
      (\<exists>pre p. h' = pre @ [GetPod pod] \<and> kcGetPod c pre pod = Inr p \<and> isPodReady p \<and> pdPodIP p \<noteq> []))"
    unfolding w by simp
qed

section \<open>Ordinals\<close>

lemma Atoi_show:
  assumes "0 \<le> i" and "i \<le> max_int64"
  shows "Atoi (show_int i) = Some i"
proof -
  have ds: "list_all is_digit (show_int i)" "show_int i \<noteq> []" using show_int_digits [OF assms(1)] by auto
  then have "is_digit (hd (show_int i))" by (cases "show_int i") auto
  then have "hd (show_int i) \<noteq> CHR ''-''" "hd (show_int i) \<noteq> CHR ''+''"
    by (auto simp: is_digit_def char_in_def less_eq_char_def)
  moreover have "digits_val (show_int i) = i" using assms(1) by (simp add: show_int_def digits_val_show)
  ultimately show ?thesis using ds assms by (simp add: Atoi_def max_int64_def)
qed

lemma cut_prefix: "has_prefix (p @ s) p" "drop (length p) (p @ s) = s" for p s :: string
  by (simp_all add: has_prefix_def)

lemma extractOrdinal_PodName:
  assumes "0 \<le> i" and "i \<le> max_int64"
  shows "extractOrdinal (PodName v i) v = i"
proof -
  have pod: "PodName v i = (''dagger-engine-'' @ VersionSlug v @ ''-'') @ show_int i" by (simp add: PodName_def)
  show ?thesis unfolding extractOrdinal_def Let_def pod
    by (simp only: cut_prefix Atoi_show [OF assms] not_True_eq_False if_False option.case)
qed

text \<open>
  The ordinal is read back from the name of a pod and from the name of its volume claim.
\<close>

theorem ordinals_round_trip:
  assumes "0 \<le> i" and "i \<le> max_int64"
  shows "extractOrdinal (PodName v i) v = i \<and> extractPVCOrdinal (enginePVCName v i) v = i"
proof
  have pvc: "enginePVCName v i = (''dagger-kubernetes-'' @ StsName v @ ''-'') @ show_int i" by (simp add: enginePVCName_def)
  show "extractPVCOrdinal (enginePVCName v i) v = i" unfolding extractPVCOrdinal_def Let_def pvc
    by (simp only: cut_prefix Atoi_show [OF assms] not_True_eq_False if_False option.case)
qed (rule extractOrdinal_PodName [OF assms])

theorem ordinals_round_trip_witness:
  "extractOrdinal (PodName ''v0.18.2'' 12) ''v0.18.2'' = 12 \<and> extractPVCOrdinal (enginePVCName ''v0.18.2'' 12) ''v0.18.2'' = 12"
  by (rule ordinals_round_trip) (simp_all add: max_int64_def)

section \<open>The sweep on this provider\<close>

lemma scale_down_loop_idle:
  assumes "r \<in> set rs" and "idle m now st r"
  shows "\<exists>i. scale_down_loop m P now st v rs p = fpScaleDown P v i p"
  using assms
proof (induction rs)
  case (Cons x rs)
  then show ?case by (cases "idle m now st x") (auto simp: idle_def replicaHasActiveSessions_def)
qed simp

lemma clear_appends: "\<exists>more. snd (clearIdleSinceIfPresent (k8s cfg c) v h) = h @ more"
proof -
  obtain t ok e h1 where i: "K8s_VersionIdleSince c v h = ((t, ok, e), h1)" by (metis prod.collapse)
  then have "h1 = h @ [GetSTS (StsName v)]" by (simp add: K8s_VersionIdleSince_def)
  moreover have "\<exists>more. snd (K8s_SetVersionIdleSince c v u h1) = h1 @ more" for u
    using set_idle_guarded [of c h1 v u] by (auto simp: guarded_def)
  ultimately show ?thesis
    by (auto simp: clearIdleSinceIfPresent_def k8s_def i split: option.split)
qed

text \<open>
  The Kubernetes provider scales by count. When the pod with the highest ordinal is in use and another one is idle, the sweep
  asks for as many replicas as the ordinal of the pod in use, so that this pod is no longer covered and is the
  one that Kubernetes takes away.
\<close>

theorem sweep_drops_busy_pod:
  assumes pods: "kcListPods c h (engineLabels v) = Inr pods"
    and busy: "replicaHasActiveSessions (rName b) st" and "n = rOrdinal b + 1" and "0 < n"
    and idle: "r \<in> set (map (pod_replica now v) (filter (\<lambda>pod. \<not> pdDeleting pod) pods))" "idle m now st r"
    and 1: "kcGetSTS c (h @ [ListPods (engineLabels v)]) (StsName v) = Inr sts" "ksReplicas sts = Some n"
    and 2: "kcGetSTS c (h @ [ListPods (engineLabels v), GetSTS (StsName v)]) (StsName v) = Inr sts"
    and 3: "kcUpdateSTS c (h @ [ListPods (engineLabels v), GetSTS (StsName v), GetSTS (StsName v)]) (sts\<lparr>ksReplicas := Some (n - 1)\<rparr>) = None"
  shows "\<exists>more. snd (sweepVersion m (k8s cfg c) now st v h) = h @ [ListPods (engineLabels v), GetSTS (StsName v),
      GetSTS (StsName v), UpdateSTS (sts\<lparr>ksReplicas := Some (rOrdinal b)\<rparr>)] @ more"
proof -
  let ?rs = "map (pod_replica now v) (filter (\<lambda>pod. \<not> pdDeleting pod) pods)"
  let ?h1 = "h @ [ListPods (engineLabels v)]"
  let ?h2 = "h @ [ListPods (engineLabels v), GetSTS (StsName v), GetSTS (StsName v), UpdateSTS (sts\<lparr>ksReplicas := Some (n - 1)\<rparr>)]"
  have g: "fpGetReplicas (k8s cfg c) now v h = (Inr ?rs, ?h1)" by (simp add: k8s_def K8s_GetReplicas_def pods)
  have "setReplicas c v (n - 1) (?h1 @ [GetSTS (StsName v)]) = (None, ?h2)"
    using 2 3 by (simp add: setReplicas_def numeral_eq_Suc Let_def)
  then have down: "fpScaleDown (k8s cfg c) v i ?h1 = (None, ?h2)" for i
    using 1 \<open>0 < n\<close> by (simp add: k8s_def K8s_ScaleDown_def Let_def)
  have "r \<in> set (sortDescendingOrdinal ?rs)" using idle(1) by (simp only: sortDescendingOrdinal_def set_sort)
  from scale_down_loop_idle [where P = "k8s cfg c" and v = v and p = ?h1, OF this idle(2)] obtain i where
    "scale_down_loop m (k8s cfg c) now st v (sortDescendingOrdinal ?rs) ?h1 = fpScaleDown (k8s cfg c) v i ?h1" by blast
  with down have l: "scale_down_loop m (k8s cfg c) now st v (sortDescendingOrdinal ?rs) ?h1 = (None, ?h2)" by simp
  have "?rs \<noteq> []" using idle(1) by (metis empty_iff list.set(1))
  then have "snd (sweepVersion m (k8s cfg c) now st v h) = (if mcVersionRetention m \<le> 0 then ?h2 else snd (clearIdleSinceIfPresent (k8s cfg c) v ?h2))"
    by (simp add: sweepVersion_def g l del: map_is_Nil_conv)
  with clear_appends [of cfg c v ?h2] assms(3) show ?thesis by auto
qed

text \<open>Two pods; the session is pinned to pod 1, and pod 0 is idle.\<close>

definition demo_pod :: "int \<Rightarrow> Pod" where
  "demo_pod i = \<lparr>pdName = PodName ''v1'' i, pdDeleting = False, pdStartTime = Some 5, pdPodIP = ''10.0.0.7'',
     pdConditions = [(''Ready'', ''True'')]\<rparr>"

definition demo_k8s_cfg :: K8sProviderConfig where
  "demo_k8s_cfg = NewK8sProvider \<lparr>kpNamespace = [], kpImageRegistry = [], kpStorageClass = [], kpStorageSize = [], kpPVCLabels = [],
     kpCPURequest = [], kpCPULimit = [], kpMemoryRequest = [], kpMemoryLimit = [], kpTerminationGraceSec = 0, kpNodeSelector = [],
     kpTolerations = [], kpExtraArgs = [], kpPullPolicy = [], kpPrivileged = True, kpExtraEnv = [], kpExtraEnvFrom = [],
     kpCASecret = [], kpCAKey = [], kpDebug = False, kpLogFormat = [], kpRegistryMirrors = [], kpMirrorHTTP = [],
     kpImageCacheMirrors = []\<rparr>"

definition demo_set :: StatefulSet where
  "demo_set = (buildStatefulSet demo_k8s_cfg (StsName ''v1'') ''v1'' ''img'' (engineLabels ''v1'') [])\<lparr>ksReplicas := Some 2\<rparr>"

definition demo_client :: kube_client where
  "demo_client = \<lparr>kcCreateSTS = \<lambda>h s. None, kcGetSTS = \<lambda>h n. Inr demo_set, kcUpdateSTS = \<lambda>h s. None, kcDeleteSTS = \<lambda>h n. None,
     kcListSTS = \<lambda>h l. Inr [demo_set], kcCreateSvc = \<lambda>h s. None, kcGetSvc = \<lambda>h n. Inl ApiNotFound, kcUpdateSvc = \<lambda>h s. None,
     kcDeleteSvc = \<lambda>h n. None, kcCreateCM = \<lambda>h s. None, kcGetCM = \<lambda>h n. Inl ApiNotFound, kcUpdateCM = \<lambda>h s. None,
     kcDeleteCM = \<lambda>h n. None, kcListPods = \<lambda>h l. Inr [demo_pod 0, demo_pod 1], kcGetPod = \<lambda>h n. Inr (demo_pod 0),
     kcListClaims = \<lambda>h l. Inr [], kcDeleteClaim = \<lambda>h n. None, kcDeadline = \<lambda>h. False, kcFormatTime = \<lambda>t. [], kcParseTime = \<lambda>s. None\<rparr>"

theorem sweep_drops_busy_pod_witness:
  "\<exists>more. snd (sweepVersion demo_cfg (k8s demo_k8s_cfg demo_client) 20 (demo_sessions 1) ''v1'' []) =
     [ListPods (engineLabels ''v1''), GetSTS (StsName ''v1''), GetSTS (StsName ''v1''), UpdateSTS (demo_set\<lparr>ksReplicas := Some 1\<rparr>)] @ more"
proof -
  let ?b = "pod_replica 20 ''v1'' (demo_pod 1)"
  have ord: "rOrdinal ?b = 1"
    unfolding pod_replica_def demo_pod_def using extractOrdinal_PodName [of 1 "''v1''"] by (simp add: max_int64_def)
  have pinned: "replicaHasActiveSessions (rName ?b) (demo_sessions 1)" "idle demo_cfg 20 (demo_sessions 1) (pod_replica 20 ''v1'' (demo_pod 0))"
    by code_simp+
  have mem: "pod_replica 20 ''v1'' (demo_pod 0) \<in> set (map (pod_replica 20 ''v1'') (filter (\<lambda>pod. \<not> pdDeleting pod) [demo_pod 0, demo_pod 1]))"
    by (simp add: demo_pod_def)
  have "kcListPods demo_client [] (engineLabels ''v1'') = Inr [demo_pod 0, demo_pod 1]" by (simp add: demo_client_def)
  from sweep_drops_busy_pod [OF this pinned(1) refl _ mem pinned(2), of demo_set demo_k8s_cfg] ord show ?thesis
    by (simp add: demo_client_def demo_set_def)
qed

text \<open>A cluster in which the set exists, and in which somebody else changes it twice before an update goes through.\<close>

definition is_update :: "kube_call \<Rightarrow> bool" where
  "is_update k = (case k of UpdateSTS _ \<Rightarrow> True | _ \<Rightarrow> False)"

definition demo_busy_client :: kube_client where
  "demo_busy_client = demo_client\<lparr>kcCreateSTS := \<lambda>h s. Some ApiAlreadyExists,
     kcUpdateSTS := \<lambda>h s. if length (filter is_update h) < 2 then Some ApiConflict else None\<rparr>"

lemmas demo_clients = demo_busy_client_def demo_client_def

lemma demo_retries:
  "fst (setReplicas demo_busy_client ''v1'' 3 []) = None"
  "length (filter is_update (snd (setReplicas demo_busy_client ''v1'' 3 []))) = 3"
  by (simp_all add: setReplicas_def numeral_eq_Suc demo_clients is_update_def Let_def)

lemma demo_wait: "fst (K8s_WaitForReady demo_busy_client ''v1'' ''pod'' []) = None"
  by (simp add: K8s_WaitForReady_def numeral_eq_Suc demo_clients demo_pod_def isPodReady_def Let_def)

theorem updates_guarded_witness:
  "guarded demo_busy_client (\<lambda>read sts. ksReplicas read \<noteq> None \<longrightarrow> ksReplicas sts = ksReplicas read) []
     (snd (K8s_EnsureStatefulSet demo_k8s_cfg demo_busy_client ''v1'' ''img'' []))
   \<and> is_update (last (snd (K8s_EnsureStatefulSet demo_k8s_cfg demo_busy_client ''v1'' ''img'' [])))
   \<and> guarded demo_busy_client (\<lambda>read sts. sts = read\<lparr>ksReplicas := Some 3\<rparr>) [] (snd (setReplicas demo_busy_client ''v1'' 3 []))
   \<and> length (filter is_update (snd (setReplicas demo_busy_client ''v1'' 3 []))) = 3"
proof (intro conjI)
  note g = updates_guarded [of demo_busy_client "[]" demo_k8s_cfg "''v1''" "''img''" 3]
  show "guarded demo_busy_client (\<lambda>read sts. ksReplicas read \<noteq> None \<longrightarrow> ksReplicas sts = ksReplicas read) []
     (snd (K8s_EnsureStatefulSet demo_k8s_cfg demo_busy_client ''v1'' ''img'' []))" using g by blast
  show "guarded demo_busy_client (\<lambda>read sts. sts = read\<lparr>ksReplicas := Some 3\<rparr>) [] (snd (setReplicas demo_busy_client ''v1'' 3 []))"
    using g by blast
  have "kcDeleteCM demo_busy_client = (\<lambda>h n. None)" "kcCreateCM demo_busy_client = (\<lambda>h n. None)" by (simp_all add: demo_clients)
  then have cm: "\<exists>h. ensureEngineConfigMap demo_k8s_cfg demo_busy_client toml [] = (None, h)" for toml
    by (simp add: ensureEngineConfigMap_def Let_def)
  then obtain h where "ensureEngineConfigMap demo_k8s_cfg demo_busy_client (renderEngineTOML demo_k8s_cfg) [] = (None, h)" by blast
  then show "is_update (last (snd (K8s_EnsureStatefulSet demo_k8s_cfg demo_busy_client ''v1'' ''img'' [])))"
    by (simp add: K8s_EnsureStatefulSet_def Let_def demo_clients is_update_def)
  show "length (filter is_update (snd (setReplicas demo_busy_client ''v1'' 3 []))) = 3" by (simp add: demo_retries)
qed

theorem retries_bounded_witness:
  "fst (setReplicas demo_busy_client ''v1'' 3 []) = None \<and> (\<exists>pre sts. snd (setReplicas demo_busy_client ''v1'' 3 []) = pre @ [UpdateSTS sts]
     \<and> kcUpdateSTS demo_busy_client pre sts = None \<and> ksReplicas sts = Some 3)
   \<and> fst (K8s_WaitForReady demo_busy_client ''v1'' ''pod'' []) = None
   \<and> (\<exists>pre p. snd (K8s_WaitForReady demo_busy_client ''v1'' ''pod'' []) = pre @ [GetPod ''pod'']
     \<and> kcGetPod demo_busy_client pre ''pod'' = Inr p \<and> isPodReady p \<and> pdPodIP p \<noteq> [])"
proof -
  have "fst (setReplicas demo_busy_client ''v1'' 3 []) = None" "fst (K8s_WaitForReady demo_busy_client ''v1'' ''pod'' []) = None"
    by (simp_all add: demo_retries demo_wait)
  with retries_bounded [where c = demo_busy_client and v = "''v1''" and n = 3 and h = "[]" and pod = "''pod''"] show ?thesis by (simp add: case_prod_beta)
qed

end
