(* ===== verification/Cache_Purge.thy ===== *)
theory Cache_Purge
  imports K8s_Props
begin

text \<open>
  The purge of the local caches of a version, \<^verbatim>\<open>src/internal/service/engine_cache_purge.go\<close>: the running pods are pruned through
  their own API, then the volume claims of ordinals for which no pod was listed are deleted, terminating pods not counted. The engine API is an
  argument (\<open>pruner\<close>, \<open>None\<close> when it is not configured); the goroutines of \<^verbatim>\<open>pruneAll\<close> write one slice element each, so
  their order does not matter and they are one map. The text of an error is the error itself and a
  formatted time is the time.

  A call of \<^verbatim>\<open>Purge\<close> is three steps: it registers itself, runs, and publishes its result (also when the
  run panics); the calls of other goroutines happen between them. \<open>purge_step\<close> is their interleaving.
\<close>

record EnginePodPurgeResult =
  eppPodName :: string
  eppOrdinal :: int
  eppPruned :: bool
  eppError :: "error option"

record EnginePVCDeleteResult =
  epvPVCName :: string
  epvOrdinal :: int
  epvDeleted :: bool
  epvError :: "error option"

record EngineCachePurgeResult =
  ecVersion :: string
  ecState :: string
  ecStartedAt :: gotime
  ecFinishedAt :: "gotime option"
  ecReplicas :: int
  ecPods :: "EnginePodPurgeResult list"
  ecPVCs :: "EnginePVCDeleteResult list"
  ecMessage :: string

record EngineCachePurgeService =
  epActive :: "string list"
  epStatus :: "(string, EngineCachePurgeResult) gomap"

definition purgeStateRunning :: string where "purgeStateRunning = ''running''"
definition purgeStateCompleted :: string where "purgeStateCompleted = ''completed''"
definition purgeStateFailed :: string where "purgeStateFailed = ''failed''"

definition NewEngineCachePurgeService :: EngineCachePurgeService where
  "NewEngineCachePurgeService = \<lparr>epActive = [], epStatus = []\<rparr>"

definition Purge_Status :: "string \<Rightarrow> EngineCachePurgeService \<Rightarrow> EngineCachePurgeResult option" where
  "Purge_Status version s = gm_get (epStatus s) version"

section \<open>One run\<close>

type_synonym pruner = "string \<Rightarrow> string \<Rightarrow> error option"

definition prunePod :: "pruner \<Rightarrow> string \<Rightarrow> Replica \<Rightarrow> EnginePodPurgeResult" where
  "prunePod prune version r = (case prune (rPodIP r) version of
     Some e \<Rightarrow> \<lparr>eppPodName = rName r, eppOrdinal = rOrdinal r, eppPruned = False, eppError = Some e\<rparr>
   | None \<Rightarrow> \<lparr>eppPodName = rName r, eppOrdinal = rOrdinal r, eppPruned = True, eppError = None\<rparr>)"

definition pruneAll :: "pruner \<Rightarrow> string \<Rightarrow> Replica list \<Rightarrow> EnginePodPurgeResult list" where
  "pruneAll prune version replicas = map (prunePod prune version) replicas"

fun delete_loop :: "'p FleetProvider \<Rightarrow> int list \<Rightarrow> PVCInfo list \<Rightarrow> 'p \<Rightarrow> EnginePVCDeleteResult list \<times> 'p" where
  "delete_loop P ords [] p = ([], p)"
| "delete_loop P ords (pvc # pvcs) p =
     (if pvOrdinal pvc < 0 then delete_loop P ords pvcs p
      else if List.member ords (pvOrdinal pvc) then delete_loop P ords pvcs p
      else
        let (err, p) = fpDeletePVC P (pvName pvc) p;
            out = \<lparr>epvPVCName = pvName pvc, epvOrdinal = pvOrdinal pvc, epvDeleted = (err = None), epvError = err\<rparr>;
            (results, p) = delete_loop P ords pvcs p
        in (out # results, p))"

definition deleteOrphanedPVCs ::
    "'p FleetProvider \<Rightarrow> string \<Rightarrow> Replica list \<Rightarrow> 'p \<Rightarrow> (error, EnginePVCDeleteResult list) result \<times> 'p" where
  "deleteOrphanedPVCs P version replicas p = (case fpListPVCs P version p of
     (Inl e, p) \<Rightarrow> (Inl e, p)
   | (Inr pvcs, p) \<Rightarrow> (case delete_loop P (map rOrdinal replicas) pvcs p of (results, p) \<Rightarrow> (Inr results, p)))"

definition purgeSummary :: "EnginePodPurgeResult list \<Rightarrow> string" where
  "purgeSummary pods =
     (let pruned = int (length (filter eppPruned pods)); total = int (length pods); failed = total - pruned
      in if failed > 0
         then (if failed = 1 then show_int pruned @ '' of '' @ show_int total @ '' pods pruned; 1 pod failed''
               else show_int pruned @ '' of '' @ show_int total @ '' pods pruned; '' @ show_int failed @ '' pods failed'')
         else ''pruned '' @ show_int pruned @ '' of '' @ show_int total @ '' pods'')"

definition pvcSummary :: "EnginePVCDeleteResult list \<Rightarrow> string" where
  "pvcSummary pvcs =
     (if pvcs = [] then []
      else
        let deleted = int (length (filter epvDeleted pvcs)); total = int (length pvcs); failed = total - deleted
        in if failed > 0
           then (if failed = 1 then ''deleted '' @ show_int deleted @ '' of '' @ show_int total @ '' orphaned PVCs; 1 PVC failed''
                 else ''deleted '' @ show_int deleted @ '' of '' @ show_int total @ '' orphaned PVCs; '' @ show_int failed @ '' PVCs failed'')
           else ''deleted '' @ show_int deleted @ '' orphaned PVC(s)'')"

definition purgeMessage :: "EnginePodPurgeResult list \<Rightarrow> EnginePVCDeleteResult list \<Rightarrow> string" where
  "purgeMessage pods pvcs =
     (if pods = [] \<and> pvcs = [] then ''no running engine pods; nothing to prune''
      else let msg = purgeSummary pods; extra = pvcSummary pvcs
           in if extra \<noteq> [] then msg @ ''; '' @ extra else msg)"

definition failedPurge :: "EngineCachePurgeResult \<Rightarrow> string \<Rightarrow> EngineCachePurgeResult" where
  "failedPurge result message = result\<lparr>ecState := purgeStateFailed, ecMessage := message\<rparr>"

definition blank_purge :: "string \<Rightarrow> string \<Rightarrow> gotime \<Rightarrow> EngineCachePurgeResult" where
  "blank_purge version state startedAt = \<lparr>ecVersion = version, ecState = state, ecStartedAt = startedAt, ecFinishedAt = None,
     ecReplicas = 0, ecPods = [], ecPVCs = [], ecMessage = []\<rparr>"

definition runPurge ::
    "'p FleetProvider \<Rightarrow> pruner option \<Rightarrow> gotime \<Rightarrow> string \<Rightarrow> gotime \<Rightarrow> 'p \<Rightarrow> (EngineCachePurgeResult \<times> error option) \<times> 'p" where
  "runPurge P pruner now version startedAt p =
     (let result = blank_purge version purgeStateCompleted startedAt in
      case pruner of
        None \<Rightarrow> ((failedPurge result ''engine cache purge not configured'', Some (ErrOther ''engine cache purge not configured'')), p)
      | Some prune \<Rightarrow>
      case fpAllVersions P p of
        (Inl e, p) \<Rightarrow> ((failedPurge result ''list engine fleets failed'', Some e), p)
      | (Inr versions, p) \<Rightarrow>
      if \<not> List.member versions version
      then ((failedPurge result ''engine fleet not found'', Some (ErrOther ''engine fleet not found'')), p)
      else case fpGetReplicas P now version p of
        (Inl e, p) \<Rightarrow> ((failedPurge result ''list engine pods failed'', Some e), p)
      | (Inr replicas, p) \<Rightarrow>
        let pods = sort_key eppOrdinal (pruneAll prune version replicas);
            result = result\<lparr>ecReplicas := int (length replicas), ecPods := pods\<rparr>
        in case deleteOrphanedPVCs P version replicas p of
             (Inl e, p) \<Rightarrow> ((failedPurge result ''list engine PVCs failed'', Some e), p)
           | (Inr pvcs, p) \<Rightarrow>
               let pvcs = sort_key epvOrdinal pvcs
               in ((result\<lparr>ecPVCs := pvcs, ecMessage := purgeMessage pods pvcs\<rparr>, None), p))"

section \<open>The three steps of a call\<close>

definition purge_begin :: "string \<Rightarrow> gotime \<Rightarrow> EngineCachePurgeService \<Rightarrow> error option \<times> EngineCachePurgeService" where
  "purge_begin version startedAt s =
     (if List.member (epActive s) version then (Some (ErrOther ''purge already in progress''), s)
      else (None, s\<lparr>epActive := version # epActive s,
                    epStatus := gm_put version (blank_purge version purgeStateRunning startedAt) (epStatus s)\<rparr>))"

text \<open>\<open>None\<close> is a run that panicked.\<close>

definition finish ::
    "string \<Rightarrow> EngineCachePurgeResult option \<Rightarrow> gotime \<Rightarrow> gotime \<Rightarrow> EngineCachePurgeService \<Rightarrow> EngineCachePurgeService" where
  "finish version result startedAt now s =
     (let result = (case result of
            None \<Rightarrow> (blank_purge version purgeStateFailed startedAt)\<lparr>ecMessage := ''purge panicked''\<rparr> | Some r \<Rightarrow> r);
          result = result\<lparr>ecFinishedAt := Some now\<rparr>
      in s\<lparr>epStatus := gm_put version result (epStatus s), epActive := set_del version (epActive s)\<rparr>)"

definition Purge_cache ::
    "'p FleetProvider \<Rightarrow> pruner option \<Rightarrow> gotime \<Rightarrow> gotime \<Rightarrow> string \<Rightarrow> EngineCachePurgeService \<times> 'p
      \<Rightarrow> (EngineCachePurgeResult option \<times> error option) \<times> EngineCachePurgeService \<times> 'p" where
  "Purge_cache P pruner startedAt now version sp =
     (case purge_begin version startedAt (fst sp) of
        (Some e, s) \<Rightarrow> ((None, Some e), s, snd sp)
      | (None, s) \<Rightarrow> (case runPurge P pruner startedAt version startedAt (snd sp) of
          ((result, err), p) \<Rightarrow> ((Some result, err), finish version (Some result) startedAt now s, p)))"

text \<open>The purges that run, each with its version.\<close>

record purge_world =
  pwService :: EngineCachePurgeService
  pwRuns :: "(nat, string) gomap"

inductive purge_step :: "purge_world \<Rightarrow> purge_world \<Rightarrow> bool" where
  start: "gm_get (pwRuns w) g = None \<Longrightarrow> purge_begin v t (pwService w) = (None, s) \<Longrightarrow>
    purge_step w (w\<lparr>pwService := s, pwRuns := gm_put g v (pwRuns w)\<rparr>)"
| refuse: "purge_begin v t (pwService w) = (Some e, s) \<Longrightarrow> purge_step w (w\<lparr>pwService := s\<rparr>)"
| stop: "gm_get (pwRuns w) g = Some v \<Longrightarrow> (\<And>r. result = Some r \<Longrightarrow> ecState r \<noteq> purgeStateRunning) \<Longrightarrow>
    purge_step w (w\<lparr>pwService := finish v result t now (pwService w), pwRuns := gm_del g (pwRuns w)\<rparr>)"

inductive purge_reach :: "purge_world \<Rightarrow> bool" where
  init: "purge_reach \<lparr>pwService = NewEngineCachePurgeService, pwRuns = []\<rparr>"
| step: "purge_reach w \<Longrightarrow> purge_step w w' \<Longrightarrow> purge_reach w'"

lemma runPurge_state: "runPurge P pruner now v t p = ((r, e), p') \<Longrightarrow> ecState r \<noteq> purgeStateRunning"
  by (auto simp: runPurge_def failedPurge_def blank_purge_def purgeStateFailed_def purgeStateRunning_def purgeStateCompleted_def Let_def
      split: option.splits prod.splits sum.splits if_splits)

definition purge_inv :: "purge_world \<Rightarrow> bool" where
  "purge_inv w \<longleftrightarrow>
     (\<forall>g g' v. gm_get (pwRuns w) g = Some v \<longrightarrow> gm_get (pwRuns w) g' = Some v \<longrightarrow> g = g')
     \<and> (\<forall>v. v \<in> set (epActive (pwService w)) \<longleftrightarrow> (\<exists>g. gm_get (pwRuns w) g = Some v))
     \<and> (\<forall>v. v \<in> set (epActive (pwService w)) \<longleftrightarrow> (\<exists>r. Purge_Status v (pwService w) = Some r \<and> ecState r = purgeStateRunning))"

lemma purge_invD:
  assumes "purge_inv w"
  shows "gm_get (pwRuns w) g = Some v \<Longrightarrow> gm_get (pwRuns w) g' = Some v \<Longrightarrow> g = g'"
    and "v \<in> set (epActive (pwService w)) \<longleftrightarrow> (\<exists>g. gm_get (pwRuns w) g = Some v)"
    and "v \<in> set (epActive (pwService w)) \<longleftrightarrow> (\<exists>r. Purge_Status v (pwService w) = Some r \<and> ecState r = purgeStateRunning)"
  using assms unfolding purge_inv_def by blast+

lemma purge_invI:
  assumes "\<And>g g' v. gm_get (pwRuns w) g = Some v \<Longrightarrow> gm_get (pwRuns w) g' = Some v \<Longrightarrow> g = g'"
    and "\<And>v. v \<in> set (epActive (pwService w)) \<longleftrightarrow> (\<exists>g. gm_get (pwRuns w) g = Some v)"
    and "\<And>v. v \<in> set (epActive (pwService w)) \<longleftrightarrow> (\<exists>r. Purge_Status v (pwService w) = Some r \<and> ecState r = purgeStateRunning)"
  shows "purge_inv w"
  using assms unfolding purge_inv_def by blast

lemma purge_inv_start:
  assumes inv: "purge_inv w" and new: "gm_get (pwRuns w) g = None" and b: "purge_begin v t (pwService w) = (None, s)"
  shows "purge_inv (w\<lparr>pwService := s, pwRuns := gm_put g v (pwRuns w)\<rparr>)"
proof -
  have free: "v \<notin> set (epActive (pwService w))" and s: "s = (pwService w)\<lparr>epActive := v # epActive (pwService w),
      epStatus := gm_put v (blank_purge v purgeStateRunning t) (epStatus (pwService w))\<rparr>"
    using b by (auto simp: purge_begin_def split: if_splits)
  have other: "gm_get (pwRuns w) k \<noteq> Some v" for k using purge_invD(2) [OF inv, of v] free by blast
  have runs: "gm_get (gm_put g v (pwRuns w)) k = Some u \<longleftrightarrow> k = g \<and> u = v \<or> gm_get (pwRuns w) k = Some u" for k u
    using new by auto
  have st: "Purge_Status u s = (if u = v then Some (blank_purge v purgeStateRunning t) else Purge_Status u (pwService w))" for u
    by (simp add: s Purge_Status_def)
  show ?thesis
  proof (rule purge_invI, goal_cases)
    case (1 a b u)
    then show ?case using runs other purge_invD(1) [OF inv] by (simp del: update_conv) blast
  next
    case (2 u)
    then show ?case using runs purge_invD(2) [OF inv, of u] by (simp add: s del: update_conv) blast
  next
    case (3 u)
    then show ?case using st [of u] purge_invD(3) [OF inv, of u] by (auto simp: s blank_purge_def)
  qed
qed

lemma purge_inv_stop:
  assumes inv: "purge_inv w" and run: "gm_get (pwRuns w) g = Some v"
    and result: "\<And>r. result = Some r \<Longrightarrow> ecState r \<noteq> purgeStateRunning"
  shows "purge_inv (w\<lparr>pwService := finish v result t now (pwService w), pwRuns := gm_del g (pwRuns w)\<rparr>)"
proof -
  have runs: "gm_get (gm_del g (pwRuns w)) k = Some u \<longleftrightarrow> u \<noteq> v \<and> gm_get (pwRuns w) k = Some u" for k u
  proof (cases "k = g")
    case False
    then have "gm_get (pwRuns w) k \<noteq> Some v" using purge_invD(1) [OF inv run, of k] by blast
    with False show ?thesis by auto
  qed (use run in auto)
  have st: "Purge_Status u (finish v result t now (pwService w)) =
      (if u = v then Some ((case result of None \<Rightarrow> (blank_purge v purgeStateFailed t)\<lparr>ecMessage := ''purge panicked''\<rparr> | Some r \<Rightarrow> r)\<lparr>ecFinishedAt := Some now\<rparr>)
       else Purge_Status u (pwService w))" for u
    by (simp add: Purge_Status_def finish_def Let_def)
  have "ecState ((case result of None \<Rightarrow> (blank_purge v purgeStateFailed t)\<lparr>ecMessage := ''purge panicked''\<rparr> | Some r \<Rightarrow> r)\<lparr>ecFinishedAt := Some now\<rparr>)
      \<noteq> purgeStateRunning"
    using result by (cases result) (simp_all add: blank_purge_def purgeStateFailed_def purgeStateRunning_def)
  then have done': "(\<exists>r. Purge_Status u (finish v result t now (pwService w)) = Some r \<and> ecState r = purgeStateRunning)
      \<longleftrightarrow> u \<noteq> v \<and> (\<exists>r. Purge_Status u (pwService w) = Some r \<and> ecState r = purgeStateRunning)" for u
    unfolding st by auto
  have act: "u \<in> set (epActive (finish v result t now (pwService w))) \<longleftrightarrow> u \<noteq> v \<and> u \<in> set (epActive (pwService w))" for u
    by (auto simp: finish_def Let_def)
  show ?thesis
  proof (rule purge_invI, goal_cases)
    case (1 a b u)
    then have "gm_get (gm_del g (pwRuns w)) a = Some u" "gm_get (gm_del g (pwRuns w)) b = Some u" by simp_all
    then show ?case unfolding runs using purge_invD(1) [OF inv] by blast
  next
    case (2 u)
    have "u \<in> set (epActive (finish v result t now (pwService w))) \<longleftrightarrow> (\<exists>k. gm_get (gm_del g (pwRuns w)) k = Some u)"
      unfolding runs act purge_invD(2) [OF inv] by blast
    then show ?case by simp
  next
    case (3 u)
    have "u \<in> set (epActive (finish v result t now (pwService w))) \<longleftrightarrow>
        (\<exists>r. Purge_Status u (finish v result t now (pwService w)) = Some r \<and> ecState r = purgeStateRunning)"
      unfolding done' act purge_invD(3) [OF inv] by blast
    then show ?case by simp
  qed
qed

lemma purge_reach_inv: "purge_reach w \<Longrightarrow> purge_inv w"
proof (induction rule: purge_reach.induct)
  case init
  then show ?case by (simp add: purge_inv_def NewEngineCachePurgeService_def Purge_Status_def)
next
  case (step w w')
  from step.hyps(2) show ?case
  proof cases
    case (refuse v t e s)
    then have "s = pwService w" by (auto simp: purge_begin_def split: if_splits)
    with step.IH refuse show ?thesis by simp
  qed (use step.IH in \<open>auto intro: purge_inv_start purge_inv_stop\<close>)
qed

text \<open>
  C18: however calls interleave, at most one purge runs for a version; a version is marked as active, and its status says running,
  exactly while a purge of it runs, so a purge that has ended, even by a panic, never blocks the next.
\<close>

theorem one_purge_per_version:
  assumes "purge_reach w"
  shows "(\<forall>g g' v. gm_get (pwRuns w) g = Some v \<and> gm_get (pwRuns w) g' = Some v \<longrightarrow> g = g')
    \<and> (\<forall>v. fst (purge_begin v t (pwService w)) \<noteq> None \<longleftrightarrow> (\<exists>g. gm_get (pwRuns w) g = Some v))
    \<and> (\<forall>v. (\<exists>r. Purge_Status v (pwService w) = Some r \<and> ecState r = purgeStateRunning) \<longleftrightarrow> (\<exists>g. gm_get (pwRuns w) g = Some v))"
proof -
  note inv = purge_reach_inv [OF assms]
  have "fst (purge_begin v t (pwService w)) \<noteq> None \<longleftrightarrow> v \<in> set (epActive (pwService w))" for v by (simp add: purge_begin_def)
  with inv show ?thesis unfolding purge_inv_def by blast
qed

lemma purge_start_reach:
  "purge_reach \<lparr>pwService = snd (purge_begin v t NewEngineCachePurgeService), pwRuns = [(g, v)]\<rparr>"
proof -
  have "purge_begin v t NewEngineCachePurgeService = (None, snd (purge_begin v t NewEngineCachePurgeService))"
    by (simp add: purge_begin_def NewEngineCachePurgeService_def)
  from purge_step.start [of "\<lparr>pwService = NewEngineCachePurgeService, pwRuns = []\<rparr>" g v t] this
  have "purge_step \<lparr>pwService = NewEngineCachePurgeService, pwRuns = []\<rparr>
      \<lparr>pwService = snd (purge_begin v t NewEngineCachePurgeService), pwRuns = [(g, v)]\<rparr>" by simp
  then show ?thesis by (rule purge_reach.step [OF purge_reach.init])
qed

theorem one_purge_per_version_witness:
  "fst (purge_begin ''v1'' 9 (snd (purge_begin ''v1'' 7 NewEngineCachePurgeService))) \<noteq> None
   \<and> fst (purge_begin ''v2'' 9 (snd (purge_begin ''v1'' 7 NewEngineCachePurgeService))) = None"
proof -
  note r = one_purge_per_version [OF purge_start_reach [of "''v1''" 7 0], of 9, THEN conjunct2, THEN conjunct1, rule_format]
  from r [of "''v1''"] r [of "''v2''"] show ?thesis by (auto split: if_splits)
qed

section \<open>Which claims are deleted\<close>

lemma delete_loop_k8s:
  "snd (delete_loop (k8s cfg c) ords pvcs h) =
     h @ map (\<lambda>p. DeleteClaim (pvName p)) (filter (\<lambda>p. 0 \<le> pvOrdinal p \<and> pvOrdinal p \<notin> set ords) pvcs)"
proof (induction pvcs arbitrary: h)
  case (Cons p pvcs)
  show ?case
  proof (cases "0 \<le> pvOrdinal p \<and> pvOrdinal p \<notin> set ords")
    case True
    obtain err h1 where d: "K8s_DeletePVC c (pvName p) h = (err, h1)" by fastforce
    then have "h1 = h @ [DeleteClaim (pvName p)]" by (simp add: K8s_DeletePVC_def)
    with True Cons.IH [of h1] d show ?thesis by (simp add: k8s_def case_prod_beta)
  next
    case False
    with Cons.IH [of h] show ?thesis by auto
  qed
qed simp

lemma runPurge_calls:
  assumes "fst (K8s_AllVersions c h) = Inr vs" and "v \<in> set vs"
    and "kcListPods c (h @ [ListSTS [(''app'', ''dagger-engine'')]]) (engineLabels v) = Inr pods"
    and "fst (K8s_ListPVCs c v (h @ [ListSTS [(''app'', ''dagger-engine'')], ListPods (engineLabels v)])) = Inr pvcs"
  shows "snd (runPurge (k8s cfg c) (Some prune) now v t h) = h @ [ListSTS [(''app'', ''dagger-engine'')], ListPods (engineLabels v),
    ListClaims (engineLabels v)] @ map (\<lambda>p. DeleteClaim (pvName p)) (filter (\<lambda>p. 0 \<le> pvOrdinal p
      \<and> pvOrdinal p \<notin> set (map rOrdinal (map (pod_replica now v) (filter (\<lambda>pod. \<not> pdDeleting pod) pods)))) pvcs)"
proof -
  let ?h2 = "h @ [ListSTS [(''app'', ''dagger-engine'')], ListPods (engineLabels v)]"
  let ?rs = "map (pod_replica now v) (filter (\<lambda>pod. \<not> pdDeleting pod) pods)"
  have 1: "fpAllVersions (k8s cfg c) h = (Inr vs, h @ [ListSTS [(''app'', ''dagger-engine'')]])"
    using assms(1) by (simp add: k8s_def K8s_AllVersions_def)
  have 2: "fpGetReplicas (k8s cfg c) now v (h @ [ListSTS [(''app'', ''dagger-engine'')]]) = (Inr ?rs, ?h2)"
    using assms(3) by (simp add: k8s_def K8s_GetReplicas_def)
  have 3: "fpListPVCs (k8s cfg c) v ?h2 = (Inr pvcs, ?h2 @ [ListClaims (engineLabels v)])"
    using assms(4) by (simp add: k8s_def K8s_ListPVCs_def)
  have "snd (runPurge (k8s cfg c) (Some prune) now v t h) = snd (delete_loop (k8s cfg c) (map rOrdinal ?rs) pvcs (?h2 @ [ListClaims (engineLabels v)]))"
    using assms(2) by (simp only: runPurge_def deleteOrphanedPVCs_def 1 2 3 option.case prod.case sum.case Let_def List.member_iff
        if_False not_True_eq_False simp_thms case_prod_beta fst_conv snd_conv)
  then show ?thesis by (simp only: delete_loop_k8s append_assoc append.simps)
qed

text \<open>
  C19: the volume claims that a purge deletes, whatever the cluster answers. A purge asks the cluster for its versions, then for the pods and then for the
  claims of the version, prunes, and deletes exactly those of the listed claims whose name has an ordinal for which no pod was listed,
  not counting pods that were terminating; it deletes nothing when the version is not listed or one of the answers is an error. So the claim of a pod that was listed
  and not terminating stays, and that of a pod that was terminating, or that started after the listing, is deleted.
\<close>

theorem purge_deletes_unused_claims:
  assumes run: "runPurge (k8s cfg c) (Some prune) now v t h = ((r, e), h')"
  shows "DeleteClaim name \<in> set (drop (length h) h') \<longleftrightarrow>
    (\<exists>vs pods names. fst (K8s_AllVersions c h) = Inr vs \<and> v \<in> set vs
      \<and> kcListPods c (h @ [ListSTS [(''app'', ''dagger-engine'')]]) (engineLabels v) = Inr pods
      \<and> kcListClaims c (h @ [ListSTS [(''app'', ''dagger-engine'')], ListPods (engineLabels v)]) (engineLabels v) = Inr names
      \<and> name \<in> set names \<and> 0 \<le> extractPVCOrdinal name v
      \<and> (\<forall>pod \<in> set pods. \<not> pdDeleting pod \<longrightarrow> extractOrdinal (pdName pod) v \<noteq> extractPVCOrdinal name v))"
    (is "?del \<longleftrightarrow> ?orphan")
proof -
  let ?h1 = "h @ [ListSTS [(''app'', ''dagger-engine'')]]"
  let ?h2 = "h @ [ListSTS [(''app'', ''dagger-engine'')], ListPods (engineLabels v)]"
  have vs: "fpAllVersions (k8s cfg c) h = (fst (K8s_AllVersions c h), ?h1)" by (simp add: k8s_def K8s_AllVersions_def)
  have pods: "fpGetReplicas (k8s cfg c) now v ?h1 = (fst (K8s_GetReplicas c now v ?h1), ?h2)"
    by (simp add: k8s_def K8s_GetReplicas_def)
  have claims: "fpListPVCs (k8s cfg c) v ?h2 = (fst (K8s_ListPVCs c v ?h2), ?h2 @ [ListClaims (engineLabels v)])"
    by (simp add: k8s_def K8s_ListPVCs_def)
  consider (stopped) "h' \<in> {?h1, ?h2, ?h2 @ [ListClaims (engineLabels v)]}"
      "is_err (fst (K8s_AllVersions c h)) \<or> (\<exists>vs. fst (K8s_AllVersions c h) = Inr vs \<and> v \<notin> set vs)
       \<or> is_err (kcListPods c ?h1 (engineLabels v)) \<or> is_err (kcListClaims c ?h2 (engineLabels v))"
    | (ran) vs pods names where "fst (K8s_AllVersions c h) = Inr vs" "v \<in> set vs"
      "kcListPods c ?h1 (engineLabels v) = Inr pods" "kcListClaims c ?h2 (engineLabels v) = Inr names"
  proof (cases "fst (K8s_AllVersions c h)")
    case (Inl x)
    with run vs show ?thesis by (intro stopped) (simp_all add: runPurge_def is_err_def)
  next
    case a: (Inr vs)
    show ?thesis
    proof (cases "v \<in> set vs")
      case False
      with run vs a show ?thesis by (intro stopped) (simp_all add: runPurge_def)
    next
      case v: True
      show ?thesis
      proof (cases "kcListPods c ?h1 (engineLabels v)")
        case (Inl x)
        then have "fst (K8s_GetReplicas c now v ?h1) = Inl (api x)" by (simp add: K8s_GetReplicas_def)
        with run vs a v pods Inl show ?thesis by (intro stopped) (simp_all add: runPurge_def is_err_def)
      next
        case b: (Inr ps)
        then have g: "fst (K8s_GetReplicas c now v ?h1) = Inr (map (pod_replica now v) (filter (\<lambda>pod. \<not> pdDeleting pod) ps))"
          by (simp add: K8s_GetReplicas_def)
        show ?thesis
        proof (cases "kcListClaims c ?h2 (engineLabels v)")
          case (Inl x)
          then have "fst (K8s_ListPVCs c v ?h2) = Inl (api x)" by (simp add: K8s_ListPVCs_def)
          with run vs a v pods g claims Inl show ?thesis
            by (intro stopped) (simp_all add: runPurge_def deleteOrphanedPVCs_def Let_def is_err_def)
        next
          case (Inr names)
          with a v b show ?thesis by (rule ran)
        qed
      qed
    qed
  qed
  then show ?thesis
  proof cases
    case stopped
    then show ?thesis by (auto simp: is_err_def)
  next
    case ran
    let ?pvcs = "filter (\<lambda>p. \<not> pvOrdinal p < 0) (map (\<lambda>name. \<lparr>pvName = name, pvOrdinal = extractPVCOrdinal name v\<rparr>) names)"
    have "fst (K8s_ListPVCs c v ?h2) = Inr ?pvcs" using ran(4) by (simp add: K8s_ListPVCs_def)
    from runPurge_calls [OF ran(1-3) this, of cfg prune now t] run
    have "?del \<longleftrightarrow> DeleteClaim name \<in> set (map (\<lambda>p. DeleteClaim (pvName p)) (filter (\<lambda>p. 0 \<le> pvOrdinal p
        \<and> pvOrdinal p \<notin> set (map rOrdinal (map (pod_replica now v) (filter (\<lambda>pod. \<not> pdDeleting pod) pods)))) ?pvcs))"
      by auto
    also have "\<dots> \<longleftrightarrow> ?orphan" using ran
      by (auto simp: pod_replica_def image_iff intro!: exI [of _ "\<lparr>pvName = name, pvOrdinal = extractPVCOrdinal name v\<rparr>"])
    finally show ?thesis .
  qed
qed

text \<open>A pod of ordinal 0 runs and one of ordinal 1 terminates: the claims 1 and 7 are deleted.\<close>

theorem purge_deletes_unused_claims_witness:
  "\<exists>r e h'. runPurge (k8s demo_k8s_cfg (demo_client\<lparr>kcListPods := \<lambda>h l. Inr [demo_pod 0, (demo_pod 1)\<lparr>pdDeleting := True\<rparr>],
        kcListClaims := \<lambda>h l. Inr [enginePVCName ''v1'' 0, enginePVCName ''v1'' 1, enginePVCName ''v1'' 7]\<rparr>)) (Some (\<lambda>ip v. None)) 20 ''v1'' 20 [] = ((r, e), h')
    \<and> DeleteClaim (enginePVCName ''v1'' 7) \<in> set h' \<and> DeleteClaim (enginePVCName ''v1'' 1) \<in> set h'
    \<and> DeleteClaim (enginePVCName ''v1'' 0) \<notin> set h'"
proof -
  let ?c = "demo_client\<lparr>kcListPods := \<lambda>h l. Inr [demo_pod 0, (demo_pod 1)\<lparr>pdDeleting := True\<rparr>],
      kcListClaims := \<lambda>h l. Inr [enginePVCName ''v1'' 0, enginePVCName ''v1'' 1, enginePVCName ''v1'' 7]\<rparr>"
  obtain r e h' where run: "runPurge (k8s demo_k8s_cfg ?c) (Some (\<lambda>ip v. None)) 20 ''v1'' 20 [] = ((r, e), h')" by (metis prod.collapse)
  have ords: "extractPVCOrdinal (enginePVCName ''v1'' 0) ''v1'' = 0" "extractPVCOrdinal (enginePVCName ''v1'' 1) ''v1'' = 1"
    "extractPVCOrdinal (enginePVCName ''v1'' 7) ''v1'' = 7"
    "extractOrdinal (PodName ''v1'' 0) ''v1'' = 0" "extractOrdinal (PodName ''v1'' 1) ''v1'' = 1" by code_simp+
  have vs: "fst (K8s_AllVersions ?c []) = Inr [''v1'']"
    by (simp add: K8s_AllVersions_def demo_client_def demo_set_def buildStatefulSet_def engineLabels_def)
  note del = purge_deletes_unused_claims [OF run]
  show ?thesis
    using run del [of "enginePVCName ''v1'' 0"] del [of "enginePVCName ''v1'' 1"] del [of "enginePVCName ''v1'' 7"]
    by (simp add: vs ords) (simp add: demo_pod_def ords)
qed

end
