(* ===== verification/Base64.thy ===== *)
theory Base64
  imports Prelude
begin

text \<open>
  The standard base 64 encoding of Go's \<^verbatim>\<open>encoding/base64\<close>, which \<^verbatim>\<open>extractToken\<close>
  (\<^verbatim>\<open>src/internal/handler/auth.go\<close>) and \<^verbatim>\<open>parseDagCall\<close> (\<^verbatim>\<open>src/internal/service/dag_call.go\<close>) decode.
  \<open>DecodeString\<close> skips the two line-break characters anywhere, wants the padding, and refuses whatever follows it; the bits
  that the padding leaves over are not looked at. \<open>EncodeToString\<close> is the other direction; the round trip
  is what the other theories use.
\<close>

section \<open>Digits\<close>

definition b64_val :: "char \<Rightarrow> nat option" where
  "b64_val c = (let n = of_char c in
     if 65 \<le> n \<and> n \<le> 90 then Some (n - 65)
     else if 97 \<le> n \<and> n \<le> 122 then Some (n - 71)
     else if 48 \<le> n \<and> n \<le> 57 then Some (n + 4)
     else if n = 43 then Some 62 else if n = 47 then Some 63 else None)"

definition b64_digit :: "nat \<Rightarrow> char" where
  "b64_digit n = char_of
     (if n < 26 then n + 65 else if n < 52 then n + 71 else if n < 62 then n - 4 else if n = 62 then 43 else (47 :: nat))"

lemma b64_val_digit: "n < 64 \<Longrightarrow> b64_val (b64_digit n) = Some n"
proof -
  assume "n < 64"
  then consider "n < 26" | "26 \<le> n" "n < 52" | "52 \<le> n" "n < 62" | "n = 62" | "n = 63" by linarith
  then show ?thesis
  proof cases
    case 3
    then obtain m where "n = 52 + m" "m < 10" using le_Suc_ex [of 52 n] by auto
    then show ?thesis by (simp add: b64_val_def b64_digit_def Let_def)
  qed (simp_all add: b64_val_def b64_digit_def Let_def)
qed

lemma b64_val_none: "b64_val CHR ''='' = None" "b64_val CHR 0x0A = None" "b64_val CHR 0x0D = None"
  by (simp_all add: b64_val_def Let_def)

lemma b64_digit_not [simp]:
  "n < 64 \<Longrightarrow> b64_digit n \<noteq> CHR ''=''" "n < 64 \<Longrightarrow> b64_digit n \<noteq> CHR 0x0A" "n < 64 \<Longrightarrow> b64_digit n \<noteq> CHR 0x0D"
  using b64_val_digit [of n] b64_val_none by auto

section \<open>Quanta\<close>

text \<open>Four digits are 24 bits; \<open>quantum_bytes\<close> are the three bytes of such a number.\<close>

definition quantum_bytes :: "nat \<Rightarrow> string" where
  "quantum_bytes v = [char_of (v div 65536), char_of (v div 256), char_of v]"

definition quantum :: "nat \<Rightarrow> nat \<Rightarrow> nat \<Rightarrow> nat \<Rightarrow> nat" where
  "quantum a b c d = ((a * 64 + b) * 64 + c) * 64 + d"

fun quanta :: "string \<Rightarrow> string option" where
  "quanta [] = Some []"
| "quanta (a # b # c # d # s) = (case (b64_val a, b64_val b) of
     (Some x, Some y) \<Rightarrow>
       if c = CHR ''='' then (if d = CHR ''='' \<and> s = [] then Some (take 1 (quantum_bytes (quantum x y 0 0))) else None)
       else (case b64_val c of
           None \<Rightarrow> None
         | Some z \<Rightarrow>
             if d = CHR ''='' then (if s = [] then Some (take 2 (quantum_bytes (quantum x y z 0))) else None)
             else (case b64_val d of
                 None \<Rightarrow> None
               | Some w \<Rightarrow> map_option ((@) (quantum_bytes (quantum x y z w))) (quanta s)))
   | _ \<Rightarrow> None)"
| "quanta _ = None"

definition DecodeString :: "string \<Rightarrow> string option" where
  "DecodeString s = quanta (filter (\<lambda>c. c \<noteq> CHR 0x0A \<and> c \<noteq> CHR 0x0D) s)"

section \<open>Encoding\<close>

definition digits4 :: "nat \<Rightarrow> string" where
  "digits4 v = [b64_digit (v div 262144), b64_digit (v div 4096 mod 64), b64_digit (v div 64 mod 64), b64_digit (v mod 64)]"

definition triple :: "char \<Rightarrow> char \<Rightarrow> char \<Rightarrow> nat" where
  "triple a b c = (of_char a * 256 + of_char b) * 256 + of_char c"

fun EncodeToString :: "string \<Rightarrow> string" where
  "EncodeToString [] = []"
| "EncodeToString [a] = take 2 (digits4 (triple a CHR 0x00 CHR 0x00)) @ ''==''"
| "EncodeToString [a, b] = take 3 (digits4 (triple a b CHR 0x00)) @ ''=''"
| "EncodeToString (a # b # c # s) = digits4 (triple a b c) @ EncodeToString s"

lemma of_char_lt: "(of_char c :: nat) < 256"
  by (cases c) simp

lemma three_bytes:
  fixes x y z :: nat
  assumes "x < 256" "y < 256" "z < 256"
  shows "(x * 256 + y) * 256 + z < 16777216"
    and "((x * 256 + y) * 256 + z) div 65536 = x" and "((x * 256 + y) * 256 + z) div 256 = x * 256 + y"
  using assms by (simp_all add: div_mult2_eq [of _ 256 256, simplified])

lemmas triple_bytes = three_bytes [OF of_char_lt of_char_lt of_char_lt, folded triple_def]

lemma digits_of: "v div 262144 * 64 + v div 4096 mod 64 = v div 4096" "v div 4096 * 64 + v div 64 mod 64 = v div 64"
  "v div 64 * 64 + v mod 64 = (v :: nat)"
  using div_mult2_eq [of v 4096 64] div_mult2_eq [of v 64 64] by simp_all

lemma quantum_digits: "quantum (v div 262144) (v div 4096 mod 64) (v div 64 mod 64) (v mod 64) = v"
  unfolding quantum_def digits_of ..

lemma quantum_digits3:
  assumes "v mod 256 = 0"
  shows "quantum (v div 262144) (v div 4096 mod 64) (v div 64 mod 64) 0 = v"
proof -
  have "v mod 256 mod 64 = v mod 64" by (rule mod_mod_cancel) simp
  with assms have "v mod 64 = 0" by simp
  with quantum_digits [of v] show ?thesis by simp
qed

lemma quantum_digits2:
  assumes "v mod 65536 = 0"
  shows "quantum (v div 262144) (v div 4096 mod 64) 0 0 = v"
proof -
  from assms obtain k where "v = 65536 * k" by (auto simp: mod_eq_0_iff_dvd)
  then have "v mod 256 = 0" "v div 64 mod 64 = 0" by simp_all
  with quantum_digits3 [of v] show ?thesis by simp
qed

lemma char_of_add: "char_of (x * 256 + of_char b :: nat) = b"
proof -
  have "(x * 256 + of_char b) mod 256 = (of_char b :: nat)" using of_char_lt [of b] by simp
  then show ?thesis by (metis char_of_mod_256 char_of_char)
qed

lemma quantum_bytes_triple: "quantum_bytes (triple a b c) = [a, b, c]"
  unfolding quantum_bytes_def triple_bytes by (simp only: char_of_add char_of_char) (simp only: triple_def char_of_add)

lemma digits_lt: "triple a b c div 262144 < 64"
  using triple_bytes(1) [of a b c] by (simp add: less_mult_imp_div_less)

lemma quanta_encode: "quanta (EncodeToString s) = Some s"
proof (induction s rule: EncodeToString.induct)
  case (2 a)
  let ?v = "triple a CHR 0x00 CHR 0x00"
  have "?v mod 65536 = 0" by (simp add: triple_def)
  from quantum_digits2 [OF this] show ?case
    by (simp add: digits4_def b64_val_digit digits_lt quantum_bytes_triple numeral_2_eq_2)
next
  case (3 a b)
  let ?v = "triple a b CHR 0x00"
  have "?v mod 256 = 0" unfolding triple_def by simp
  from quantum_digits3 [OF this] show ?case
    by (simp add: digits4_def b64_val_digit digits_lt quantum_bytes_triple numeral_2_eq_2 numeral_3_eq_3)
next
  case (4 a b c s)
  then show ?case
    by (simp add: digits4_def b64_val_digit digits_lt quantum_digits quantum_bytes_triple)
qed simp

lemma encode_no_breaks: "c \<in> set (EncodeToString s) \<Longrightarrow> c \<noteq> CHR 0x0A \<and> c \<noteq> CHR 0x0D"
  by (induction s rule: EncodeToString.induct) (auto simp: digits4_def digits_lt numeral_2_eq_2 numeral_3_eq_3)

lemma DecodeString_encode: "DecodeString (EncodeToString s) = Some s"
proof -
  have "filter (\<lambda>c. c \<noteq> CHR 0x0A \<and> c \<noteq> CHR 0x0D) (EncodeToString s) = EncodeToString s"
    by (simp add: filter_id_conv encode_no_breaks)
  then show ?thesis by (simp add: DecodeString_def quanta_encode)
qed

end
