(* ===== verification/HTTP.thy ===== *)
theory HTTP
  imports Auth Base64 Version
begin

text \<open>
  What the request handlers share: the credentials of a request (\<^verbatim>\<open>src/internal/handler/auth.go\<close>), the guards of
  \<^verbatim>\<open>middleware.go\<close>, and the reading of bodies and parameters of \<^verbatim>\<open>server.go\<close> and \<^verbatim>\<open>traces_search.go\<close>. A request is the
  values that the web framework hands out; a header, cookie or parameter that is missing is the empty string, as the
  framework has it. A handler that writes an error and returns is the value \<open>Inl\<close> of its status and message; the
  message of a validation error is the text of the error, which is not modelled (\<open>None\<close>).
\<close>

section \<open>Requests\<close>

record Body =
  bdStream :: bool
  bdBytes :: string
  bdErr :: "error option"

record Request =
  rqAuthorization :: string
  rqCookies :: "(string, string) gomap"
  rqQuery :: "(string, string list) gomap"
  rqParams :: "(string, string) gomap"
  rqBody :: Body

definition Cookie :: "Request \<Rightarrow> string \<Rightarrow> string" where
  "Cookie rq k = (case gm_get (rqCookies rq) k of None \<Rightarrow> [] | Some v \<Rightarrow> v)"

definition Query :: "Request \<Rightarrow> string \<Rightarrow> string" where
  "Query rq k = (case gm_get (rqQuery rq) k of Some (v # _) \<Rightarrow> v | _ \<Rightarrow> [])"

definition PeekAll :: "Request \<Rightarrow> string \<Rightarrow> string list" where
  "PeekAll rq k = (case gm_get (rqQuery rq) k of None \<Rightarrow> [] | Some vs \<Rightarrow> vs)"

definition Param :: "Request \<Rightarrow> string \<Rightarrow> string" where
  "Param rq k = (case gm_get (rqParams rq) k of None \<Rightarrow> [] | Some v \<Rightarrow> v)"

type_synonym http_error = "int \<times> string option"

abbreviation writeError :: "int \<Rightarrow> string \<Rightarrow> http_error" where
  "writeError status message \<equiv> (status, Some message)"

section \<open>Bodies\<close>

definition maxRequestBodyBytes :: nat where "maxRequestBodyBytes = 2 ^ 20"
definition maxControlBody :: nat where "maxControlBody = 4 * 2 ^ 20"

definition errBodyTooLarge :: error where "errBodyTooLarge = ErrOther ''request body too large''"

text \<open>A stream is read up to one byte beyond the limit, so an error after that is not met.\<close>

definition readBoundedBody :: "Body \<Rightarrow> nat \<Rightarrow> (error, string) result" where
  "readBoundedBody b maxBytes =
     (if bdStream b then
        (if length (bdBytes b) > maxBytes then Inl errBodyTooLarge
         else case bdErr b of Some e \<Rightarrow> Inl e | None \<Rightarrow> Inr (bdBytes b))
      else (case bdErr b of
          Some e \<Rightarrow> Inl e
        | None \<Rightarrow> if length (bdBytes b) > maxBytes then Inl errBodyTooLarge else Inr (bdBytes b)))"

definition body_error :: "error \<Rightarrow> http_error" where
  "body_error e = (if e = errBodyTooLarge then writeError 413 ''request body too large'' else writeError 400 ''invalid body'')"

definition readControlBody :: "Request \<Rightarrow> (http_error, string) result" where
  "readControlBody rq = (case readBoundedBody (rqBody rq) maxControlBody of
     Inl e \<Rightarrow> Inl (body_error e) | Inr body \<Rightarrow> Inr body)"

text \<open>\<open>unmarshal\<close> is the JSON decoder for the type of the request.\<close>

definition decodeBody :: "(string \<Rightarrow> 'a option) \<Rightarrow> Request \<Rightarrow> (http_error, 'a) result" where
  "decodeBody unmarshal rq = (case readControlBody rq of
     Inl e \<Rightarrow> Inl e
   | Inr body \<Rightarrow> (case unmarshal body of None \<Rightarrow> Inl (writeError 400 ''invalid request'') | Some v \<Rightarrow> Inr v))"

section \<open>Parameters\<close>

definition validTraceID :: "string \<Rightarrow> bool" where
  "validTraceID i \<longleftrightarrow> i = [] \<or> name_re 0 127 i"

definition clampParam :: "int \<Rightarrow> int \<Rightarrow> string \<Rightarrow> int" where
  "clampParam dflt limit raw = (case Atoi raw of
     None \<Rightarrow> dflt | Some n \<Rightarrow> if n \<le> 0 then dflt else if n > limit then limit else n)"

definition clampLimitParam :: "string \<Rightarrow> int" where
  "clampLimitParam raw = clampParam DefaultTraceLimit MaxTraceLimit raw"

definition defaultTraceSearchLimit :: int where "defaultTraceSearchLimit = 500"
definition maxTraceSearchLimit :: int where "maxTraceSearchLimit = 2000"

definition clampSearchLimit :: "string \<Rightarrow> int" where
  "clampSearchLimit raw = clampParam defaultTraceSearchLimit maxTraceSearchLimit raw"

definition parseSearchCursor :: "string \<Rightarrow> (error, int) result" where
  "parseSearchCursor raw =
     (if raw = [] then Inr 0
      else case Atoi raw of
        None \<Rightarrow> Inl (ErrOther ''parse cursor'')
      | Some n \<Rightarrow> if n < 0 then Inl (ErrOther ''cursor must not be negative'') else Inr n)"

text \<open>Times of the search are Unix nanoseconds; \<open>now\<close> is the clock.\<close>

definition positive_ns :: "string \<Rightarrow> int option" where
  "positive_ns raw = (if raw = [] then None
     else case Atoi raw of Some ns \<Rightarrow> if ns > 0 then Some ns else None | None \<Rightarrow> None)"

definition searchWindow :: "int \<Rightarrow> Request \<Rightarrow> int \<times> int" where
  "searchWindow now rq =
     (let end' = (case positive_ns (Query rq ''end'') of Some ns \<Rightarrow> ns | None \<Rightarrow> now);
          start = end' - 24 * 3600 * second;
          start = (case positive_ns (Query rq ''start'') of Some ns \<Rightarrow> ns | None \<Rightarrow> start)
      in (start, end'))"

text \<open>\<^verbatim>\<open>strings.TrimSuffix\<close> with one slash.\<close>

definition traceIDParam :: "Request \<Rightarrow> (http_error, string) result" where
  "traceIDParam rq =
     (let p = Param rq ''traceID'';
          traceID = (if p \<noteq> [] \<and> last p = CHR ''/'' then butlast p else p)
      in if traceID = [] then Inl (writeError 400 ''missing trace ID'') else Inr traceID)"

section \<open>Credentials\<close>

definition CutPrefix :: "string \<Rightarrow> string \<Rightarrow> string option" where
  "CutPrefix s p = (if has_prefix s p then Some (drop (length p) s) else None)"

definition extractToken :: "string \<Rightarrow> (error, string) result" where
  "extractToken authHeader =
     (if authHeader = [] then Inl (ErrOther ''missing authorization'')
      else case CutPrefix authHeader ''Bearer '' of
        Some token \<Rightarrow> Inr token
      | None \<Rightarrow> (case CutPrefix authHeader ''Basic '' of
          Some payload \<Rightarrow> (case DecodeString payload of
              None \<Rightarrow> Inl (ErrOther ''decode basic auth'')
            | Some decoded \<Rightarrow> Inr (takeWhile (\<lambda>c. c \<noteq> CHR '':'') decoded))
        | None \<Rightarrow> Inl (ErrOther ''unsupported auth scheme'')))"

definition bearerFromRequest :: "string \<Rightarrow> Request \<Rightarrow> string" where
  "bearerFromRequest accessName rq =
     (let bearer = (case extractToken (rqAuthorization rq) of Inl _ \<Rightarrow> [] | Inr t \<Rightarrow> t)
      in if bearer = [] \<and> accessName \<noteq> [] then Cookie rq accessName else bearer)"

definition bearer_with_query :: "string \<Rightarrow> Request \<Rightarrow> string" where
  "bearer_with_query accessName rq =
     (let bearer = bearerFromRequest accessName rq in if bearer = [] then Query rq ''token'' else bearer)"

section \<open>Guards\<close>

text \<open>The result of a guard with the state that it leaves; \<open>None\<close> as for \<open>Resolve\<close>.\<close>

type_synonym 'a guard_result = "((http_error, 'a) result \<times> reval_cache \<times> RaftStore) option"

definition unauthorized :: "Identity auth_result \<Rightarrow> Identity guard_result" where
  "unauthorized r = (case r of
     None \<Rightarrow> None
   | Some (Inl _, cache, rs) \<Rightarrow> Some (Inl (writeError 401 ''unauthorized''), cache, rs)
   | Some (Inr i, cache, rs) \<Rightarrow> Some (Inr i, cache, rs))"

definition resolveIdentity :: "AuthEnv \<Rightarrow> string \<Rightarrow> Request \<Rightarrow> reval_cache \<Rightarrow> RaftStore \<Rightarrow> Identity guard_result" where
  "resolveIdentity env accessName rq cache rs = unauthorized (Resolve env (bearerFromRequest accessName rq) cache rs)"

definition requireAuthWithQueryFallback :: "AuthEnv \<Rightarrow> string \<Rightarrow> Request \<Rightarrow> reval_cache \<Rightarrow> RaftStore \<Rightarrow> Identity guard_result" where
  "requireAuthWithQueryFallback env accessName rq cache rs = unauthorized (Resolve env (bearer_with_query accessName rq) cache rs)"

definition requireAdmin :: "AuthEnv \<Rightarrow> string \<Rightarrow> Request \<Rightarrow> reval_cache \<Rightarrow> RaftStore \<Rightarrow> Identity guard_result" where
  "requireAdmin env accessName rq cache rs = (case resolveIdentity env accessName rq cache rs of
     None \<Rightarrow> None
   | Some (Inl e, cache, rs) \<Rightarrow> Some (Inl e, cache, rs)
   | Some (Inr i, cache, rs) \<Rightarrow>
       if \<not> IsAdmin (Some i) then Some (Inl (writeError 403 ''forbidden''), cache, rs) else Some (Inr i, cache, rs))"

text \<open>A handler behind \<^verbatim>\<open>adminOnly\<close>.\<close>

definition adminOnly ::
    "AuthEnv \<Rightarrow> string \<Rightarrow> (Identity \<Rightarrow> Request \<Rightarrow> reval_cache \<Rightarrow> RaftStore \<Rightarrow> 'a guard_result) \<Rightarrow> Request \<Rightarrow> reval_cache
      \<Rightarrow> RaftStore \<Rightarrow> 'a guard_result" where
  "adminOnly env accessName h rq cache rs = (case requireAdmin env accessName rq cache rs of
     None \<Rightarrow> None
   | Some (Inl e, cache, rs) \<Rightarrow> Some (Inl e, cache, rs)
   | Some (Inr i, cache, rs) \<Rightarrow> h i rq cache rs)"

definition authorizeTrace :: "Identity option \<Rightarrow> string \<Rightarrow> RaftStore \<Rightarrow> http_error option" where
  "authorizeTrace ident traceID rs = (case ident of
     None \<Rightarrow> Some (writeError 401 ''unauthorized'')
   | Some i \<Rightarrow> (case TraceMetaRepo_Get traceID rs of
       Inl _ \<Rightarrow> if IsAdmin ident then None else Some (writeError 404 ''trace not found'')
     | Inr m \<Rightarrow>
         if IsAdmin ident then None
         else if tmUserID m \<noteq> [] \<and> tmUserID m = iUserID i then None
         else if tmGroupID m \<noteq> [] \<and> HasGroup ident (tmGroupID m) then None
         else Some (writeError 404 ''trace not found'')))"

definition attributionUserID :: "Identity option \<Rightarrow> string" where
  "attributionUserID ident = (case ident of None \<Rightarrow> [] | Some i \<Rightarrow> if iMethod i = AuthLegacyTok then [] else iUserID i)"

definition writeServiceError :: "error \<Rightarrow> http_error" where
  "writeServiceError e = (case e of
     ErrNotFound \<Rightarrow> writeError 404 ''not found''
   | ErrTokenExists \<Rightarrow> writeError 409 ''token already exists''
   | ErrConflict \<Rightarrow> writeError 409 ''resource already exists''
   | ErrNotLeader \<Rightarrow> writeError 503 ''not the leader''
   | ErrRaftTimeout \<Rightarrow> writeError 504 ''raft apply timeout''
   | ErrInvalidCredential \<Rightarrow> writeError 401 ''invalid credentials''
   | ErrForbidden \<Rightarrow> writeError 403 ''forbidden''
   | ErrNoGroups \<Rightarrow> writeError 403 ''user is not a member of any group''
   | ErrAgentUnavailable \<Rightarrow> writeError 403 (''engines not available for any of the user'' @ [CHR 0x27] @ ''s groups'')
   | ErrQuotaExhausted \<Rightarrow> writeError 429 ''group runner session quota exhausted''
   | ErrUnauthenticated \<Rightarrow> writeError 401 ''unauthorized''
   | ErrSessionRevoked \<Rightarrow> writeError 401 ''session revoked; please sign in again''
   | ErrValidation \<Rightarrow> (400, None)
   | _ \<Rightarrow> writeError 500 ''internal error'')"

definition originAllowed :: "string list \<Rightarrow> string \<Rightarrow> bool" where
  "originAllowed corsAllowedOrigins origin = list_ex (\<lambda>allowed. allowed = origin) corsAllowedOrigins"

section \<open>Facts shared by the handlers\<close>

lemma clampParam_bounds: "0 < dflt \<Longrightarrow> dflt \<le> limit \<Longrightarrow> 0 < clampParam dflt limit raw \<and> clampParam dflt limit raw \<le> limit"
  by (simp add: clampParam_def split: option.split)

lemma readBoundedBody_length: "readBoundedBody b k = Inr s \<Longrightarrow> length s \<le> k \<and> s = bdBytes b"
  by (auto simp: readBoundedBody_def split: if_splits option.splits)

lemma resolveIdentity_cases:
  assumes "resolveIdentity env a rq cache rs = Some (r, cache', rs')"
  obtains (refused) e where "Resolve env (bearerFromRequest a rq) cache rs = Some (Inl e, cache', rs')"
      "r = Inl (writeError 401 ''unauthorized'')"
  | (granted) i where "Resolve env (bearerFromRequest a rq) cache rs = Some (Inr i, cache', rs')" "r = Inr i"
  using assms by (auto simp: resolveIdentity_def unauthorized_def split: option.splits prod.splits sum.splits)

lemma requireAdmin_cases:
  assumes "requireAdmin env a rq cache rs = Some (r, cache', rs')"
  obtains (refused) e where "r = Inl e" "fst e = 401 \<or> fst e = 403"
  | (granted) i where "Resolve env (bearerFromRequest a rq) cache rs = Some (Inr i, cache', rs')" "r = Inr i" "iRole i = RoleAdmin"
proof -
  from assms obtain q c q' where q: "resolveIdentity env a rq cache rs = Some (q, c, q')"
    by (auto simp: requireAdmin_def split: option.splits prod.splits)
  then show ?thesis
  proof (cases rule: resolveIdentity_cases)
    case (refused e)
    with assms q show ?thesis by (intro that(1) [of "writeError 401 ''unauthorized''"]) (auto simp: requireAdmin_def)
  next
    case (granted i)
    with assms q show ?thesis
      by (cases "iRole i = RoleAdmin") (auto simp: requireAdmin_def IsAdmin_def intro: that)
  qed
qed

text \<open>The Basic form of a credential names the same token as the Bearer form.\<close>

lemma extractToken_basic:
  assumes "CHR '':'' \<notin> set token"
  shows "extractToken (''Basic '' @ EncodeToString (token @ '':'' @ password)) = Inr token"
    and "extractToken (''Bearer '' @ token) = Inr token"
proof -
  have "takeWhile (\<lambda>c. c \<noteq> CHR '':'') (token @ '':'' @ password) = token" using assms by (induction token) auto
  then show "extractToken (''Basic '' @ EncodeToString (token @ '':'' @ password)) = Inr token"
    by (simp add: extractToken_def CutPrefix_def has_prefix_def DecodeString_encode)
  show "extractToken (''Bearer '' @ token) = Inr token" by (simp add: extractToken_def CutPrefix_def has_prefix_def)
qed

end
