(* ===== verification/Provisioning.thy ===== *)
theory Provisioning
  imports HTTP Stub_Provider Quota Attribution Lifecycle
begin

text \<open>
  The life of an engine session on the control and data planes, \<^verbatim>\<open>src/internal/handler/server.go\<close>: \<^verbatim>\<open>handleEngines\<close> puts
  together authentication, the version rules, the quota, the fleet, the certificate authority, the replicated
  session store and the attribution of the trace; \<^verbatim>\<open>serveDataTunnel\<close> finds the engine of a session and counts the
  open tunnels; \<^verbatim>\<open>touchSession\<close> keeps the lease alive. The state of a supervisor is its replicated store, whose
  session sink is the session store of the server, the cache of the revalidation, the fleet, and the
  lifecycle of the pipelines. The certificate authority (\<open>svMint\<close>, the fingerprint of a new certificate), the JSON decoder,
  the network and the clock are arguments; metrics and logging are left out.
\<close>

section \<open>The supervisor\<close>

record EngineRequest =
  erImage :: string
  erMinimumEngineVersion :: string
  erTraceID :: string

record EngineSpecResponse =
  spImage :: string
  spURL :: string
  spCert :: string
  spInstanceID :: string
  spUser :: string

record 'p Server =
  svAuth :: AuthEnv
  svAccessName :: string
  svUnmarshal :: "string \<Rightarrow> EngineRequest option"
  svResolver :: Resolver
  svManager :: ManagerConfig
  svProvider :: "'p FleetProvider"
  svMint :: "string \<Rightarrow> (error, string) result"
  svDataHost :: string
  svHasPort :: "string \<Rightarrow> bool"
  svBroadcaster :: bool

record 'p State =
  stReval :: reval_cache
  stRaft :: RaftStore
  stFleet :: 'p
  stLifecycle :: PipelineLifecycle

text \<open>The session store of the server is the sink of the replicated state machine.\<close>

definition sessions :: "RaftStore \<Rightarrow> Store" where
  "sessions rs = (case sessionSink (fsm_state rs) of Some st \<Rightarrow> st | None \<Rightarrow> NewStore 0)"

definition on_sessions :: "(Store \<Rightarrow> Store) \<Rightarrow> RaftStore \<Rightarrow> RaftStore" where
  "on_sessions f rs = rs\<lparr>fsm_state := (fsm_state rs)\<lparr>sessionSink := Some (f (sessions rs))\<rparr>\<rparr>"

section \<open>Provisioning\<close>

text \<open>\<^verbatim>\<open>strings.Split\<close> at a colon.\<close>

fun split_colon :: "string \<Rightarrow> string list" where
  "split_colon [] = [[]]"
| "split_colon (c # cs) = (if c = CHR '':'' then [] # split_colon cs
     else case split_colon cs of w # ws \<Rightarrow> (c # w) # ws | [] \<Rightarrow> [[c]])"

definition extractVersion :: "Resolver \<Rightarrow> string \<Rightarrow> (error, Version) result" where
  "extractVersion r img =
     (let parts = split_colon img in
      if length parts < 2 then Inl (ErrOther ''invalid image format'')
      else case ResolveMinimal r (parts ! 1) of Inl e \<Rightarrow> Inl (ErrOther ''invalid version'') | Inr v \<Rightarrow> Inr v)"

text \<open>The checks before an engine is acquired: body, trace id, version and quota.\<close>

definition admit :: "'p Server \<Rightarrow> Identity \<Rightarrow> Request \<Rightarrow> RaftStore \<Rightarrow> (http_error, EngineRequest \<times> Version) result" where
  "admit sv ident rq rs = (case readBoundedBody (rqBody rq) maxRequestBodyBytes of
     Inl e \<Rightarrow> Inl (body_error e)
   | Inr body \<Rightarrow> (case svUnmarshal sv body of
       None \<Rightarrow> Inl (writeError 400 ''invalid request'')
     | Some req \<Rightarrow>
         if \<not> validTraceID (erTraceID req) then Inl (writeError 400 ''invalid trace_id'')
         else case extractVersion (svResolver sv) (erImage req) of
           Inl _ \<Rightarrow> Inl (writeError 400 ''invalid image'')
         | Inr v \<Rightarrow>
             if \<not> IsAllowed (svResolver sv) v then Inl (writeError 400 (''version '' @ vRaw v @ '' not allowed (floor '' @ vRaw (rFloor (svResolver sv)) @ '')''))
             else case CheckEngineAccess ident rs (sessions rs) of
               Some e \<Rightarrow> Inl (writeServiceError e)
             | None \<Rightarrow> Inr (req, v)))"

text \<open>The lease through the log, or in the local store when the write fails.\<close>

definition register_lease ::
    "gotime \<Rightarrow> string \<Rightarrow> string \<Rightarrow> string \<Rightarrow> string \<Rightarrow> string \<Rightarrow> string \<Rightarrow> string \<Rightarrow> RaftStore \<Rightarrow> RaftStore" where
  "register_lease now certFP version pod instanceID traceID userID groupID rs =
     (case SessionRepo_Register now certFP version pod instanceID traceID userID groupID rs of
        (None, rs) \<Rightarrow> rs
      | (Some _, rs) \<Rightarrow>
          let rs = on_sessions (\<lambda>st. snd (Register now certFP version pod instanceID traceID userID st)) rs
          in if groupID \<noteq> [] then on_sessions (SetGroupID certFP groupID) rs else rs)"

definition only_group :: "Identity \<Rightarrow> string" where
  "only_group ident = (case iGroupIDs ident of [g] \<Rightarrow> g | _ \<Rightarrow> [])"

definition handleEngines ::
    "'p Server \<Rightarrow> gotime \<Rightarrow> int \<Rightarrow> Request \<Rightarrow> 'p State \<Rightarrow> ((http_error, EngineSpecResponse) result \<times> 'p State) option" where
  "handleEngines sv now unix rq s =
     (case resolveIdentity (svAuth sv) (svAccessName sv) rq (stReval s) (stRaft s) of
        None \<Rightarrow> None
      | Some (Inl e, cache, rs) \<Rightarrow> Some (Inl e, s\<lparr>stReval := cache, stRaft := rs\<rparr>)
      | Some (Inr ident, cache, rs) \<Rightarrow>
          let s = s\<lparr>stReval := cache, stRaft := rs\<rparr> in
          (case admit sv ident rq rs of
             Inl e \<Rightarrow> Some (Inl e, s)
           | Inr (req, v) \<Rightarrow>
               (case Acquire (svManager sv) (svProvider sv) now (sessions rs) (vRaw v) (stFleet s) of
                  None \<Rightarrow> None
                | Some (Inl _, p) \<Rightarrow> Some (Inl (writeError 429 ''no engine capacity''), s\<lparr>stFleet := p\<rparr>)
                | Some (Inr result, p) \<Rightarrow>
                    let s = s\<lparr>stFleet := p\<rparr> in
                    (case svMint sv (arPodName result) of
                       Inl _ \<Rightarrow> Some (Inl (writeError 500 ''certificate minting failed''), s)
                     | Inr certFP \<Rightarrow>
                         let instanceID = arPodName result @ ''-'' @ show_int unix;
                             rs = register_lease now certFP (vRaw v) (arPodName result) instanceID (erTraceID req)
                                    (iUserID ident) (only_group ident) rs;
                             rs = Provision now (erTraceID req) (attributionUserID (Some ident)) (vRaw v) rs;
                             url = (if svHasPort sv (svDataHost sv) then svDataHost sv else svDataHost sv @ '':443'')
                         in Some (Inr \<lparr>spImage = arImage result, spURL = url, spCert = certFP, spInstanceID = instanceID,
                                        spUser = iUsername ident\<rparr>, s\<lparr>stRaft := rs\<rparr>)))))"

section \<open>Tunnels\<close>

definition touchSession :: "gotime \<Rightarrow> string \<Rightarrow> RaftStore \<Rightarrow> RaftStore" where
  "touchSession now fp rs = (case SessionRepo_Touch now fp rs of
     (None, rs) \<Rightarrow> rs
   | (Some _, rs) \<Rightarrow> on_sessions (\<lambda>st. snd (Touch now fp st)) rs)"

text \<open>The first replica with the name of the lease's pod has the address; \<open>[]\<close> when there is none.\<close>

definition target_ip :: "string \<Rightarrow> Replica list \<Rightarrow> string" where
  "target_ip pod rs = (case find (\<lambda>r. rName r = pod) rs of None \<Rightarrow> [] | Some r \<Rightarrow> rPodIP r)"

text \<open>
  The first half of a tunnel, up to the copying of the bytes: the outcome is the address that was dialled, or the
  reason why the tunnel is closed at once. The flag says whether the tunnel was counted, so that the second half runs.
\<close>

datatype tunnel = NoLease | NoFleet Lease | NoTarget Lease | NoBackend Lease | Relayed Lease string

definition tunnel_open :: "'p Server \<Rightarrow> (string \<Rightarrow> bool) \<Rightarrow> gotime \<Rightarrow> string \<Rightarrow> 'p State \<Rightarrow> tunnel \<times> 'p State" where
  "tunnel_open sv dial now fp s = (case Get now fp (sessions (stRaft s)) of
     Inl _ \<Rightarrow> (NoLease, s)
   | Inr l \<Rightarrow>
       let s = s\<lparr>stRaft := on_sessions (\<lambda>st. snd (IncInFlight fp st)) (stRaft s),
                 stLifecycle := OnTunnelOpen (lTraceID l) (stLifecycle s)\<rparr>
       in case GetVersionFleet (svProvider sv) now (sessions (stRaft s)) (lVersion l) (stFleet s) of
            (Inl _, p) \<Rightarrow> (NoFleet l, s\<lparr>stFleet := p\<rparr>)
          | (Inr fleet, p) \<Rightarrow>
              let s = s\<lparr>stFleet := p\<rparr>; ip = target_ip (lReplicaPod l) (fiOrdinals fleet) in
              if ip = [] then (NoTarget l, s)
              else if \<not> dial ip then (NoBackend l, s)
              else (Relayed l ip, s\<lparr>stRaft := touchSession now fp (stRaft s)\<rparr>))"

text \<open>The deferred half, with the topics that are told when the trace is marked failed at once.\<close>

definition tunnel_closed :: "'p Server \<Rightarrow> gotime \<Rightarrow> string \<Rightarrow> Lease \<Rightarrow> 'p State \<Rightarrow> string list \<times> 'p State" where
  "tunnel_closed sv now fp l s =
     (let (r, st) = DecInFlightAndGet fp (sessions (stRaft s));
          remaining = (case r of Inl _ \<Rightarrow> 0 | Inr n \<Rightarrow> n);
          (fails, lc) = OnTunnelClosed (lTraceID l) remaining (stLifecycle s);
          s = s\<lparr>stRaft := on_sessions (\<lambda>_. st) (stRaft s), stLifecycle := lc\<rparr>
      in if fails then
           (let (_, topics, rs) = markFailed now (svBroadcaster sv) (lTraceID l) reasonClientConnectionLost (stRaft s)
            in (topics, s\<lparr>stRaft := rs\<rparr>))
         else ([], s))"

definition tunnel_close :: "'p Server \<Rightarrow> gotime \<Rightarrow> string \<Rightarrow> tunnel \<Rightarrow> 'p State \<Rightarrow> string list \<times> 'p State" where
  "tunnel_close sv now fp t s = (case t of
     NoLease \<Rightarrow> ([], s) | NoFleet l \<Rightarrow> tunnel_closed sv now fp l s | NoTarget l \<Rightarrow> tunnel_closed sv now fp l s
   | NoBackend l \<Rightarrow> tunnel_closed sv now fp l s | Relayed l _ \<Rightarrow> tunnel_closed sv now fp l s)"

section \<open>The session store behind the writes\<close>

lemma sessions_Some: "sessionSink (fsm_state rs) = Some st \<Longrightarrow> sessions rs = st"
  by (simp add: sessions_def)

lemma sink_on_sessions [simp]:
  "sessionSink (fsm_state (on_sessions f rs)) = Some (f (sessions rs))" "sessions (on_sessions f rs) = f (sessions rs)"
  by (simp_all add: on_sessions_def sessions_def)

lemma apply_session:
  assumes "applyCommand (newCommand kindUpsertSession (PUpsertSession l at')) s = (r, s')"
  shows "sessionSink s' = map_option (ApplySessionRegistered (l\<lparr>lLastActivity := at'\<rparr>)) (sessionSink s)"
  using assms by (auto simp: applyCommand_def applyEntityCommand_def applyTraceCacheCommand_def applySessionCommand_def
      newCommand_def kind_defs)

lemma apply_touch:
  assumes "applyCommand (newCommand kindTouchSession (PTouchSession fp at')) s = (r, s')"
  shows "sessionSink s' = map_option (ApplySessionTouched fp at') (sessionSink s)"
  using assms by (auto simp: applyCommand_def applyEntityCommand_def applyTraceCacheCommand_def applySessionCommand_def
      newCommand_def kind_defs)

lemma apply_provision:
  assumes "applyCommand (newCommand kindUpsertTraceProvision (PProvision c)) s = (r, s')"
  shows "sessionSink s' = sessionSink s"
  using assms by (auto simp: applyCommand_def applyEntityCommand_def applyTraceCacheCommand_def newCommand_def kind_defs
      upsertTraceProvision_def Let_def split: option.splits)

lemma Provision_sink: "sessionSink (fsm_state (Provision now tid uid v rs)) = sessionSink (fsm_state rs)"
proof -
  have "sessionSink (fsm_state rs') = sessionSink (fsm_state rs)"
    if "applyCtx kindUpsertTraceProvision (PProvision c) rs = (e, rs')" for c e rs'
    using that by (cases rule: applyCtx_cases) (auto dest: apply_provision)
  then show ?thesis
    by (auto simp: Provision_def TraceMetaRepo_UpsertProvision_def) (metis prod.collapse)
qed

text \<open>A new lease: registered now for a user, with no tunnel open.\<close>

definition new_lease :: "gotime \<Rightarrow> string \<Rightarrow> string \<Rightarrow> string \<Rightarrow> string \<Rightarrow> string \<Rightarrow> Lease \<Rightarrow> bool" where
  "new_lease now fp version pod traceID userID l \<longleftrightarrow> lCertFP l = fp \<and> lVersion l = version \<and> lReplicaPod l = pod
     \<and> lInFlight l = 0 \<and> lLastActivity l = now \<and> (lTraceID l = traceID \<or> lTraceID l = clipField traceID)
     \<and> (lUserID l = userID \<or> lUserID l = clipField userID)"

lemma Register_lease:
  "\<exists>l. lease fp (snd (Register now fp ver pod inst tid uid st)) = Inr l \<and> new_lease now fp ver pod tid uid l"
  by (simp add: Register_def Let_def lease_def new_lease_def)

lemma SetGroupID_lease:
  assumes "lease fp st = Inr l" and "new_lease now fp ver pod tid uid l"
  shows "\<exists>l. lease fp (SetGroupID fp' g st) = Inr l \<and> new_lease now fp ver pod tid uid l"
  using assms by (auto simp: SetGroupID_def lease_def new_lease_def split: option.splits)

lemma register_lease_lookup:
  assumes sink: "sessionSink (fsm_state rs) = Some st"
  shows "\<exists>st' l. sessionSink (fsm_state (register_lease now fp ver pod inst tid uid gid rs)) = Some st'
    \<and> ttl st' = ttl st \<and> lease fp st' = Inr l \<and> new_lease now fp ver pod tid uid l"
proof -
  obtain e rs1 where r: "SessionRepo_Register now fp ver pod inst tid uid gid rs = (e, rs1)" by fastforce
  let ?l = "\<lparr>lCertFP = fp, lVersion = ver, lReplicaPod = pod, lInstanceID = clipField inst, lLastActivity = now, lInFlight = 0,
    lTraceID = clipField tid, lUserID = clipField uid, lGroupID = clipField gid\<rparr>"
  let ?st = "ApplySessionRegistered ?l st"
  have applied: "lease fp ?st = Inr ?l" "new_lease now fp ver pod tid uid ?l" "ttl ?st = ttl st"
    by (simp_all add: ApplySessionRegistered_def lease_def new_lease_def)
  have cases: "fsm_state rs1 = fsm_state rs \<and> e \<noteq> None \<or> sessionSink (fsm_state rs1) = Some ?st"
  proof (cases "fp = []")
    case True
    with r show ?thesis by (auto simp: SessionRepo_Register_def)
  next
    case False
    with r have "applyCtx kindUpsertSession (PUpsertSession (?l\<lparr>lLastActivity := zero_time\<rparr>) now) rs = (e, rs1)"
      by (simp add: SessionRepo_Register_def)
    then show ?thesis using sink by (cases rule: applyCtx_cases) (auto dest: apply_session)
  qed
  show ?thesis
  proof (cases e)
    case None
    with cases r applied show ?thesis by (simp add: register_lease_def)
  next
    case (Some x)
    let ?st1 = "sessions rs1" and ?reg = "\<lambda>st. snd (Register now fp ver pod inst tid uid st)"
    from cases sink have t: "ttl ?st1 = ttl st" by (auto simp: sessions_def ApplySessionRegistered_def)
    obtain l where l: "lease fp (?reg ?st1) = Inr l" "new_lease now fp ver pod tid uid l"
      using Register_lease [of fp now ver pod inst tid uid ?st1] by blast
    have ttl: "ttl (?reg ?st1) = ttl st" "ttl (SetGroupID fp gid (?reg ?st1)) = ttl st"
      using t by (auto simp: Register_def Let_def SetGroupID_def split: option.split)
    from Some r l ttl SetGroupID_lease [OF l, of fp gid] show ?thesis
      by (simp add: register_lease_def Let_def)
  qed
qed

section \<open>Admission comes first\<close>

lemma handleEngines_cases:
  assumes "handleEngines sv now unix rq s = Some (r, s')"
  obtains (refused) a cache rs e where "Resolve (svAuth sv) (bearerFromRequest (svAccessName sv) rq) (stReval s) (stRaft s) = Some (a, cache, rs)"
      "r = Inl e" "s' = s\<lparr>stReval := cache, stRaft := rs\<rparr>"
  | (unserved) ident cache rs req v a p e where
      "Resolve (svAuth sv) (bearerFromRequest (svAccessName sv) rq) (stReval s) (stRaft s) = Some (Inr ident, cache, rs)"
      "admit sv ident rq rs = Inr (req, v)" "Acquire (svManager sv) (svProvider sv) now (sessions rs) (vRaw v) (stFleet s) = Some (a, p)"
      "r = Inl e" "s' = s\<lparr>stReval := cache, stRaft := rs, stFleet := p\<rparr>"
  | (granted) ident cache rs req v res p fp where
      "Resolve (svAuth sv) (bearerFromRequest (svAccessName sv) rq) (stReval s) (stRaft s) = Some (Inr ident, cache, rs)"
      "admit sv ident rq rs = Inr (req, v)" "Acquire (svManager sv) (svProvider sv) now (sessions rs) (vRaw v) (stFleet s) = Some (Inr res, p)"
      "svMint sv (arPodName res) = Inr fp"
      "r = Inr \<lparr>spImage = arImage res, spURL = (if svHasPort sv (svDataHost sv) then svDataHost sv else svDataHost sv @ '':443''),
         spCert = fp, spInstanceID = arPodName res @ ''-'' @ show_int unix, spUser = iUsername ident\<rparr>"
      "s' = s\<lparr>stReval := cache, stFleet := p, stRaft := Provision now (erTraceID req) (attributionUserID (Some ident)) (vRaw v)
         (register_lease now fp (vRaw v) (arPodName res) (arPodName res @ ''-'' @ show_int unix) (erTraceID req)
           (iUserID ident) (only_group ident) rs)\<rparr>"
proof -
  obtain q cache rs where q: "resolveIdentity (svAuth sv) (svAccessName sv) rq (stReval s) (stRaft s) = Some (q, cache, rs)"
    using assms by (auto simp: handleEngines_def split: option.splits)
  from q show thesis
  proof (cases rule: resolveIdentity_cases)
    case (refused e)
    with assms q show ?thesis by (intro that(1)) (auto simp: handleEngines_def)
  next
    case (granted ident)
    show ?thesis
    proof (cases "admit sv ident rq rs")
      case (Inl e)
      with assms q granted show ?thesis by (intro that(1)) (auto simp: handleEngines_def)
    next
      case (Inr rv)
      obtain req v where rv: "rv = (req, v)" by (cases rv)
      let ?acq = "Acquire (svManager sv) (svProvider sv) now (sessions rs) (vRaw v) (stFleet s)"
      have "?acq \<noteq> None" using assms q granted Inr rv by (cases ?acq) (auto simp: handleEngines_def Let_def)
      then obtain a p where a: "?acq = Some (a, p)" by fastforce
      show ?thesis
      proof (cases "\<exists>res fp. a = Inr res \<and> svMint sv (arPodName res) = Inr fp")
        case True
        then obtain res fp where "a = Inr res" "svMint sv (arPodName res) = Inr fp" by blast
        with assms q granted Inr rv a show ?thesis
          by (intro that(3) [of ident cache rs req v res p fp]) (simp_all add: handleEngines_def Let_def)
      next
        case False
        with assms q granted Inr rv a have "is_err r \<and> s' = s\<lparr>stReval := cache, stRaft := rs, stFleet := p\<rparr>"
          by (auto simp: handleEngines_def Let_def split: sum.splits)
        moreover from this obtain e where "r = Inl e" by (cases r) auto
        ultimately show ?thesis using granted Inr rv a by (intro that(2) [of ident cache rs req v a p e]) simp_all
      qed
    qed
  qed
qed

lemma admit_checks:
  assumes "admit sv ident rq rs = Inr (req, v)"
  shows "IsAllowed (svResolver sv) v" "extractVersion (svResolver sv) (erImage req) = Inr v" "validTraceID (erTraceID req)"
    "CheckEngineAccess ident rs (sessions rs) = None" "length (bdBytes (rqBody rq)) \<le> maxRequestBodyBytes"
  using assms readBoundedBody_length [of "rqBody rq" maxRequestBodyBytes]
  by (auto simp: admit_def split: sum.splits option.splits if_splits)

text \<open>
  C9: nobody gets an engine around the checks. If a provisioning request changes the fleet, or anything in the replicated
  store after the identity was resolved, then the request carried a credential of an identity, its body was within the
  limit, its trace id was valid, the version it asked for is allowed, and the quota admitted the identity.
\<close>

theorem engines_only_after_admission:
  assumes "handleEngines sv now unix rq s = Some (r, s')"
  shows "\<exists>a cache rs. Resolve (svAuth sv) (bearerFromRequest (svAccessName sv) rq) (stReval s) (stRaft s) = Some (a, cache, rs)
    \<and> (stFleet s' \<noteq> stFleet s \<or> stRaft s' \<noteq> rs \<or> \<not> is_err r \<longrightarrow>
       (\<exists>ident req v. a = Inr ident \<and> svUnmarshal sv (bdBytes (rqBody rq)) = Some req
          \<and> length (bdBytes (rqBody rq)) \<le> maxRequestBodyBytes \<and> validTraceID (erTraceID req)
          \<and> extractVersion (svResolver sv) (erImage req) = Inr v \<and> IsAllowed (svResolver sv) v
          \<and> CheckEngineAccess ident rs (sessions rs) = None))"
proof -
  have body: "svUnmarshal sv (bdBytes (rqBody rq)) = Some req" if "admit sv ident rq rs = Inr (req, v)" for ident rs req v
    using that readBoundedBody_length [of "rqBody rq" maxRequestBodyBytes]
    by (auto simp: admit_def split: sum.splits option.splits if_splits)
  from assms show ?thesis
  proof (cases rule: handleEngines_cases)
    case (refused a cache rs e)
    then show ?thesis by auto
  next
    case (unserved ident cache rs req v a p e)
    from admit_checks [OF this(2)] body [OF this(2)] unserved(1) show ?thesis by blast
  next
    case (granted ident cache rs req v res p fp)
    from admit_checks [OF this(2)] body [OF this(2)] granted(1) show ?thesis by blast
  qed
qed

section \<open>A granted session\<close>

text \<open>Resolving the identity leaves a session store attached to the replicated store.\<close>

definition sink_attached :: "'p Server \<Rightarrow> Request \<Rightarrow> 'p State \<Rightarrow> bool" where
  "sink_attached sv rq s = (case Resolve (svAuth sv) (bearerFromRequest (svAccessName sv) rq) (stReval s) (stRaft s) of
     Some (Inr _, _, rs) \<Rightarrow> sessionSink (fsm_state rs) \<noteq> None | _ \<Rightarrow> True)"

lemma granted_facts:
  assumes res: "handleEngines sv now unix rq s = Some (Inr resp, s')"
    and sink: "sink_attached sv rq s"
  obtains ident rs tid v p l st' where
    "Resolve (svAuth sv) (bearerFromRequest (svAccessName sv) rq) (stReval s) (stRaft s) = Some (Inr ident, stReval s', rs)"
    "IsAllowed (svResolver sv) v"
    "Acquire (svManager sv) (svProvider sv) now (sessions rs) (vRaw v) (stFleet s) = Some (Inr p, stFleet s')"
    "svMint sv (arPodName p) = Inr (spCert resp)" "spImage resp = arImage p" "stLifecycle s' = stLifecycle s"
    "sessionSink (fsm_state (stRaft s')) = Some st'" "lease (spCert resp) st' = Inr l" "ttl st' = ttl (sessions rs)"
    "new_lease now (spCert resp) (vRaw v) (arPodName p) tid (iUserID ident) l"
  using res
proof (cases rule: handleEngines_cases)
  case (granted ident cache rs req v p q fp)
  obtain st where st: "sessionSink (fsm_state rs) = Some st" using sink granted(1) by (auto simp: sink_attached_def)
  let ?rs = "register_lease now fp (vRaw v) (arPodName p) (arPodName p @ ''-'' @ show_int unix) (erTraceID req) (iUserID ident)
    (only_group ident) rs"
  obtain st' l where l: "sessionSink (fsm_state ?rs) = Some st'" "ttl st' = ttl st" "lease fp st' = Inr l"
      "new_lease now fp (vRaw v) (arPodName p) (erTraceID req) (iUserID ident) l"
    using register_lease_lookup [OF st] by blast
  have "sessionSink (fsm_state (stRaft s')) = Some st'" using granted(6) l(1) by (simp add: Provision_sink)
  then show thesis using granted admit_checks(1) [OF granted(2)] l st
    by (intro that [of ident rs v p st' l "erTraceID req"]) (simp_all add: sessions_def)
qed simp_all

text \<open>
  C10: what a granted request leaves behind. The certificate in the answer was minted for the replica that the fleet
  handed out for an allowed version; the session store holds, under the fingerprint of that certificate, a new lease of that replica for
  the user of the request, whether or not the write went through the log; and nothing else of the fleet, the
  cache or the pipelines changes.
\<close>

theorem granted_engine_has_lease:
  assumes res: "handleEngines sv now unix rq s = Some (Inr resp, s')"
    and sink: "sink_attached sv rq s"
  shows "\<exists>ident rs v p l. Resolve (svAuth sv) (bearerFromRequest (svAccessName sv) rq) (stReval s) (stRaft s)
        = Some (Inr ident, stReval s', rs)
      \<and> IsAllowed (svResolver sv) v
      \<and> Acquire (svManager sv) (svProvider sv) now (sessions rs) (vRaw v) (stFleet s) = Some (Inr p, stFleet s')
      \<and> svMint sv (arPodName p) = Inr (spCert resp) \<and> spImage resp = arImage p
      \<and> lease (spCert resp) (sessions (stRaft s')) = Inr l \<and> ttl (sessions (stRaft s')) = ttl (sessions rs)
      \<and> lReplicaPod l = arPodName p \<and> lVersion l = vRaw v \<and> lInFlight l = 0 \<and> lLastActivity l = now
      \<and> (length (iUserID ident) \<le> 256 \<longrightarrow> lUserID l = iUserID ident)
      \<and> stLifecycle s' = stLifecycle s"
proof -
  obtain ident rs tid v p l st' where g: "Resolve (svAuth sv) (bearerFromRequest (svAccessName sv) rq) (stReval s) (stRaft s)
      = Some (Inr ident, stReval s', rs)" "IsAllowed (svResolver sv) v"
    "Acquire (svManager sv) (svProvider sv) now (sessions rs) (vRaw v) (stFleet s) = Some (Inr p, stFleet s')"
    "svMint sv (arPodName p) = Inr (spCert resp)" "spImage resp = arImage p" "stLifecycle s' = stLifecycle s"
    "sessionSink (fsm_state (stRaft s')) = Some st'" "lease (spCert resp) st' = Inr l" "ttl st' = ttl (sessions rs)"
    "new_lease now (spCert resp) (vRaw v) (arPodName p) tid (iUserID ident) l"
    by (rule granted_facts [OF assms])
  moreover have "lUserID l = iUserID ident" if "length (iUserID ident) \<le> 256"
    using g(10) that by (auto simp: new_lease_def clipField_def maxSessionFieldLen_def)
  ultimately show ?thesis
    by (intro exI [of _ ident] exI [of _ rs] exI [of _ v] exI [of _ p] exI [of _ l]) (simp add: new_lease_def sessions_def)
qed

section \<open>A tunnel of a granted session\<close>

lemma stub_sel:
  "fpGetEngineImage stub = Stub_GetEngineImage" "fpEnsureStatefulSet stub = Stub_EnsureStatefulSet"
  "fpEnsureService stub = Stub_EnsureService" "fpGetReplicas stub = Stub_GetReplicas" "fpScaleUp stub = Stub_ScaleUp"
  "fpWaitForReady stub = Stub_WaitForReady" "fpGetReadyReplicaIP stub = Stub_GetReadyReplicaIP"
  by (simp_all add: stub_def)

lemma ready_ip:
  "Stub_GetReadyReplicaIP v pod q = (Inr ip, q') \<Longrightarrow>
     q' = q \<and> (\<exists>sts r. gm_get q' v = Some sts \<and> gm_get (ssReplicasM sts) pod = Some r \<and> rPodIP r = ip)"
  by (auto simp: Stub_GetReadyReplicaIP_def split: option.splits)

lemma Acquire_stub_pod:
  assumes "stub_inv p" and acq: "Acquire m stub now st v p = Some (Inr res, p')"
  shows "stub_inv p' \<and> (\<exists>sts r. gm_get p' v = Some sts \<and> gm_get (ssReplicasM sts) (arPodName res) = Some r \<and> rPodIP r = arPodIP res)"
proof (intro conjI)
  show inv: "stub_inv p'" by (rule stub.Acquire_bounded [OF assms, THEN conjunct1])
  obtain e1 p1 where e: "Stub_EnsureStatefulSet v (Stub_GetEngineImage v) p = (e1, p1)" by fastforce
  obtain sts where sts: "gm_get p1 v = Some sts"
    using e by (cases "gm_get p v") (auto simp: Stub_EnsureStatefulSet_def)
  let ?rs = "sort_key rOrdinal (map snd (ssReplicasM sts))"
  have p1: "stub_inv p1" "e1 = None"
    using stub_ensure [OF assms(1) e] e by (simp_all add: Stub_EnsureStatefulSet_def)
  let ?pick = "pick_loop (mcMaxSessionsPerReplica m) st ?rs None (mcMaxSessionsPerReplica m + 1)"
  have pre: "fpEnsureStatefulSet stub v (fpGetEngineImage stub v) p = (None, p1)" "fpEnsureService stub v p1 = (None, p1)"
    "fpGetReplicas stub now v p1 = (Inr ?rs, p1)" "fpWaitForReady stub v pod q = (None, q)" for pod q
    using e p1(2) sts by (simp_all add: stub_sel Stub_EnsureService_def Stub_GetReplicas_def Stub_WaitForReady_def)
  show "\<exists>sts r. gm_get p' v = Some sts \<and> gm_get (ssReplicasM sts) (arPodName res) = Some r \<and> rPodIP r = arPodIP res"
  proof (cases ?pick)
    case (Some x)
    then have "x \<in> snd ` set (ssReplicasM sts)" using pick_Some(1) [OF Some] by simp
    note x = sts_ok_replica(1) [OF stub_invD [OF p1(1) sts] this]
    with stub_invD [OF p1(1) sts] have "rName x = PodName v (rOrdinal x)" unfolding sts_ok_def by blast
    with x have "gm_get (ssReplicasM sts) (rName x) = Some x" by simp
    moreover have "p' = p1" "arPodName res = rName x" "arPodIP res = rPodIP x"
      using acq Some by (auto simp: Acquire_def pre(1-3) Let_def)
    ultimately show ?thesis using sts by auto
  next
    case None
    let ?n = "int (length ?rs)"
    from None acq obtain q where q: "fpGetReadyReplicaIP stub v (PodName v ?n) q = (Inr (arPodIP res), p')" "arPodName res = PodName v ?n"
      by (simp add: Acquire_def pre Let_def split: if_splits option.splits prod.splits sum.splits) auto
    from ready_ip [OF q(1) [unfolded stub_sel]] q(2) show ?thesis by auto
  qed
qed

lemma target_ip_stub:
  assumes inv: "stub_inv p" and p: "gm_get p v = Some sts" "gm_get (ssReplicasM sts) pod = Some r"
    and fl: "GetVersionFleet stub now st v p = (Inr fleet, p')"
  shows "target_ip pod (fiOrdinals fleet) = rPodIP r \<and> p' = p"
proof -
  let ?rs = "map snd (ssReplicasM sts)" and ?f = "\<lambda>r. r\<lparr>rPinnedSessions := pinned (rName r) st\<rparr>"
  note ok = stub_invD [OF inv p(1)]
  have fl': "fiOrdinals fleet = map ?f (sort_key rOrdinal ?rs)" "p' = p"
    using fl p(1) by (auto simp: GetVersionFleet_def stub_sel Stub_GetReplicas_def)
  have key: "gm_get (ssReplicasM sts) (rName x) = Some x" if "x \<in> set ?rs" for x
  proof -
    have x: "x \<in> snd ` set (ssReplicasM sts)" using that by simp
    note g = sts_ok_replica(1) [OF ok x]
    with ok have "rName x = PodName v (rOrdinal x)" unfolding sts_ok_def by blast
    with g show ?thesis by simp
  qed
  have r: "rName r = pod" "r \<in> set ?rs" using ok p(2) gm_get_val [OF p(2)] by (auto simp: sts_ok_def)
  have "\<exists>x. find (\<lambda>r. rName r = pod) (map ?f xs) = Some x \<and> rPodIP x = rPodIP r"
    if "r \<in> set xs" "set xs \<subseteq> set ?rs" for xs
    using that
  proof (induction xs)
    case (Cons y ys)
    show ?case
    proof (cases "rName y = pod")
      case True
      with key [of y] Cons.prems(2) p(2) have "y = r" by simp
      with True show ?thesis by simp
    next
      case False
      with Cons r(1) show ?thesis by auto
    qed
  qed simp
  from this [of "sort_key rOrdinal ?rs"] r(2) show ?thesis using fl' by (auto simp: target_ip_def)
qed

lemma touchSession_lease:
  assumes "sessionSink (fsm_state rs) = Some st" and "lease fp st = Inr l"
  shows "\<exists>st' l'. sessionSink (fsm_state (touchSession now fp rs)) = Some st' \<and> lease fp st' = Inr l' \<and> lInFlight l' = lInFlight l
    \<and> (\<forall>fp'. fp' \<noteq> fp \<longrightarrow> lease fp' st' = lease fp' st)"
proof -
  obtain e rs1 where r: "SessionRepo_Touch now fp rs = (e, rs1)" by fastforce
  have "fsm_state rs1 = fsm_state rs \<or> sessionSink (fsm_state rs1) = Some (ApplySessionTouched fp now st)"
  proof (cases "fp = []")
    case True
    with r show ?thesis by (auto simp: SessionRepo_Touch_def)
  next
    case False
    with r have "applyCtx kindTouchSession (PTouchSession fp now) rs = (e, rs1)" by (simp add: SessionRepo_Touch_def)
    then show ?thesis using assms(1) by (cases rule: applyCtx_cases) (auto dest: apply_touch)
  qed
  then obtain st1 l1 where 1: "sessionSink (fsm_state rs1) = Some st1" "lease fp st1 = Inr l1" "lInFlight l1 = lInFlight l"
    "\<And>fp'. fp' \<noteq> fp \<Longrightarrow> lease fp' st1 = lease fp' st"
    using assms by (auto simp: ApplySessionTouched_def lease_def split: option.splits)
  then have "lease fp (snd (Touch now fp st1)) = Inr (l1\<lparr>lLastActivity := now\<rparr>)"
    "\<And>fp'. fp' \<noteq> fp \<Longrightarrow> lease fp' (snd (Touch now fp st1)) = lease fp' st" by (simp_all add: Touch_def lease_def split: option.splits)
  with 1 r show ?thesis by (cases e) (auto simp: touchSession_def sessions_def)
qed

lemma apply_mark_failed:
  assumes "applyCommand (newCommand kindMarkTraceFailed (PMarkFailed c)) s = (r, s')"
  shows "sessionSink s' = sessionSink s"
  using assms by (auto simp: applyCommand_def applyEntityCommand_def applyTraceCacheCommand_def newCommand_def kind_defs
      markTraceFailed_def Let_def split: option.splits if_splits)

lemma markFailed_sink:
  assumes "markFailed now b tid reason rs = (ok, topics, rs')"
  shows "sessionSink (fsm_state rs') = sessionSink (fsm_state rs)"
proof -
  have "sessionSink (fsm_state rs') = sessionSink (fsm_state rs)"
    if "applyCtxResponse kindMarkTraceFailed (PMarkFailed c) rs = (r, rs')" for c r rs'
  proof -
    have "applyCtx kindMarkTraceFailed (PMarkFailed c) rs = (fsmError r, rs')" by (simp add: applyCtx_def that)
    then show ?thesis by (cases rule: applyCtx_cases) (auto dest: apply_mark_failed)
  qed
  then show ?thesis using assms
    by (auto simp: markFailed_def Attribution_MarkFailed_def TraceMetaRepo_MarkFailed_def Let_def
        split: prod.splits if_splits sum.splits response.splits)
qed

lemma tunnel_closed_sessions:
  assumes "lease fp (sessions (stRaft s)) = Inr l0"
  shows "lease fp (sessions (stRaft (snd (tunnel_closed sv now fp l s))))
    = Inr (if lInFlight l0 > 0 then l0\<lparr>lInFlight := lInFlight l0 - 1\<rparr> else l0)"
proof -
  obtain r st where d: "DecInFlightAndGet fp (sessions (stRaft s)) = (r, st)" by fastforce
  then have "lease fp st = Inr (if lInFlight l0 > 0 then l0\<lparr>lInFlight := lInFlight l0 - 1\<rparr> else l0)"
    using assms by (auto simp: DecInFlightAndGet_def lease_def Let_def split: option.splits)
  moreover have "sessions (stRaft (snd (tunnel_closed sv now fp l s))) = st"
    using markFailed_sink [of now _ "lTraceID l" reasonClientConnectionLost "on_sessions (\<lambda>_. st) (stRaft s)"]
    by (auto simp: tunnel_closed_def d Let_def sessions_Some split: prod.split)
  ultimately show ?thesis by simp
qed

text \<open>What a tunnel for the lease comes to when the provider lists \<open>rs\<close>: the first listed replica with the name that the lease records is dialled.\<close>

definition routed :: "(string \<Rightarrow> bool) \<Rightarrow> Lease \<Rightarrow> Replica list \<Rightarrow> tunnel" where
  "routed dial l rs = (case filter (\<lambda>r. rName r = lReplicaPod l) rs of
     [] \<Rightarrow> NoTarget l
   | r # _ \<Rightarrow> if rPodIP r = [] then NoTarget l else if dial (rPodIP r) then Relayed l (rPodIP r) else NoBackend l)"

lemma target_ip_filter:
  "target_ip pod (map (\<lambda>r. r\<lparr>rPinnedSessions := n r\<rparr>) rs) = (case filter (\<lambda>r. rName r = pod) rs of [] \<Rightarrow> [] | r # _ \<Rightarrow> rPodIP r)"
  by (induction rs) (auto simp: target_ip_def)

lemma inc_lease:
  assumes "lease fp st = Inr l"
  shows "lease fp (snd (IncInFlight fp st)) = Inr (l\<lparr>lInFlight := lInFlight l + 1\<rparr>)"
    and "fp' \<noteq> fp \<Longrightarrow> lease fp' (snd (IncInFlight fp st)) = lease fp' st"
  using assms by (auto simp: IncInFlight_def lease_def split: option.splits)

text \<open>
  C11: a tunnel follows its lease. For any provider and any state: a certificate without a lease, or whose lease has expired, is refused
  and nothing changes. With a live lease, the provider is asked for the replicas of the version of the lease; the tunnel is relayed to the address of the first one with the
  name that the lease records, if it has an address and answers, and to no other, and ends with the reason otherwise. In every one of these cases the
  tunnel counts once on that lease and on no other while it is open, and the end of the tunnel, in whatever state it comes, takes that one away
  again.
\<close>

theorem tunnel_follows_lease:
  assumes opened: "tunnel_open sv dial t fp s = (out, s')"
  shows "(is_err (Get t fp (sessions (stRaft s))) \<longrightarrow> out = NoLease \<and> s' = s)
    \<and> (Get t fp (sessions (stRaft s)) = Inr l \<longrightarrow>
        out = (case fst (fpGetReplicas (svProvider sv) t (lVersion l) (stFleet s)) of Inl _ \<Rightarrow> NoFleet l | Inr rs \<Rightarrow> routed dial l rs)
      \<and> stFleet s' = snd (fpGetReplicas (svProvider sv) t (lVersion l) (stFleet s))
      \<and> (\<exists>l'. lease fp (sessions (stRaft s')) = Inr l' \<and> lInFlight l' = lInFlight l + 1)
      \<and> (\<forall>fp'. fp' \<noteq> fp \<longrightarrow> lease fp' (sessions (stRaft s')) = lease fp' (sessions (stRaft s)))
      \<and> (\<forall>s2 l2 t2. lease fp (sessions (stRaft s2)) = Inr l2 \<and> 0 < lInFlight l2 \<longrightarrow>
           lease fp (sessions (stRaft (snd (tunnel_close sv t2 fp out s2)))) = Inr (l2\<lparr>lInFlight := lInFlight l2 - 1\<rparr>)))"
proof (intro conjI impI)
  let ?st = "sessions (stRaft s)"
  show "out = NoLease" if "is_err (Get t fp ?st)" using opened that by (auto simp: tunnel_open_def is_err_def split: sum.splits)
  show "s' = s" if "is_err (Get t fp ?st)" using opened that by (auto simp: tunnel_open_def is_err_def split: sum.splits)
  assume get: "Get t fp ?st = Inr l"
  then have l: "lease fp ?st = Inr l" by (auto simp: Get_def split: sum.splits if_splits)
  let ?s1 = "s\<lparr>stRaft := on_sessions (\<lambda>st. snd (IncInFlight fp st)) (stRaft s), stLifecycle := OnTunnelOpen (lTraceID l) (stLifecycle s)\<rparr>"
  obtain r p where g: "fpGetReplicas (svProvider sv) t (lVersion l) (stFleet s) = (r, p)" by fastforce
  have out: "out = (case r of Inl _ \<Rightarrow> NoFleet l | Inr rs \<Rightarrow> routed dial l rs)"
    and s': "stFleet s' = p" "stRaft s' = stRaft ?s1 \<or> stRaft s' = touchSession t fp (stRaft ?s1)"
    using opened get
    by (auto simp: tunnel_open_def GetVersionFleet_def g target_ip_filter routed_def Let_def split: sum.splits list.splits if_splits)
  then show "out = (case fst (fpGetReplicas (svProvider sv) t (lVersion l) (stFleet s)) of Inl _ \<Rightarrow> NoFleet l | Inr rs \<Rightarrow> routed dial l rs)"
    "stFleet s' = snd (fpGetReplicas (svProvider sv) t (lVersion l) (stFleet s))" by (simp_all add: g)
  obtain st' l' where two: "sessions (stRaft s') = st'" "lease fp st' = Inr l'" "lInFlight l' = lInFlight l + 1"
    "\<And>fp'. fp' \<noteq> fp \<Longrightarrow> lease fp' st' = lease fp' ?st"
    using s'(2) inc_lease [OF l]
      touchSession_lease [OF sink_on_sessions(1), of fp "\<lambda>st. snd (IncInFlight fp st)" "stRaft s" _ t]
    by (force simp: sessions_Some)
  then show "\<exists>l'. lease fp (sessions (stRaft s')) = Inr l' \<and> lInFlight l' = lInFlight l + 1"
    "\<forall>fp'. fp' \<noteq> fp \<longrightarrow> lease fp' (sessions (stRaft s')) = lease fp' ?st" by auto
  have "out \<noteq> NoLease" using out by (auto simp: routed_def split: sum.splits list.splits if_splits)
  then have "tunnel_close sv t2 fp out s2 = tunnel_closed sv t2 fp l s2" for t2 s2
    using out by (auto simp: tunnel_close_def routed_def split: sum.splits list.splits if_splits)
  then show "\<forall>s2 l2 t2. lease fp (sessions (stRaft s2)) = Inr l2 \<and> 0 < lInFlight l2 \<longrightarrow>
           lease fp (sessions (stRaft (snd (tunnel_close sv t2 fp out s2)))) = Inr (l2\<lparr>lInFlight := lInFlight l2 - 1\<rparr>)"
    by (simp add: tunnel_closed_sessions)
qed

text \<open>
  A granted session on the in-memory provider: while its time to live lasts and every dial succeeds, a tunnel that presents the certificate of the
  answer, right after it, is relayed to the address of a replica of the fleet with the name that the lease records.
\<close>

theorem granted_engine_reached:
  assumes res: "handleEngines sv now unix rq s = Some (Inr resp, s')"
    and sink: "sink_attached sv rq s"
    and fleet: "svProvider sv = stub" "stub_inv (stFleet s)" "\<forall>v. \<forall>r \<in> stub_view (stFleet s') v. rPodIP r \<noteq> []"
    and live: "t - now \<le> ttl (sessions (stRaft s'))" "ttl (sessions (stRaft s')) < max_duration" "min_duration \<le> ttl (sessions (stRaft s'))"
    and net: "\<forall>ip. dial ip"
  shows "\<exists>l ip s''. tunnel_open sv dial t (spCert resp) s' = (Relayed l ip, s'')
      \<and> (\<exists>r \<in> stub_view (stFleet s') (lVersion l). rName r = lReplicaPod l \<and> rPodIP r = ip)
      \<and> inflight (spCert resp) (sessions (stRaft s'')) = 1
      \<and> inflight (spCert resp) (sessions (stRaft (snd (tunnel_close sv t' (spCert resp) (Relayed l ip) s'')))) = 0"
proof -
  obtain ident rs tid v p l st' where g: "IsAllowed (svResolver sv) v"
    "Acquire (svManager sv) (svProvider sv) now (sessions rs) (vRaw v) (stFleet s) = Some (Inr p, stFleet s')"
    "sessionSink (fsm_state (stRaft s')) = Some st'" "lease (spCert resp) st' = Inr l"
    "new_lease now (spCert resp) (vRaw v) (arPodName p) tid (iUserID (ident :: Identity)) l"
    by (rule granted_facts [OF res sink]) (rule that)
  let ?fp = "spCert resp"
  have l: "lVersion l = vRaw v" "lReplicaPod l = arPodName p" "lInFlight l = 0" "lLastActivity l = now" using g(5) by (simp_all add: new_lease_def)
  have st: "sessions (stRaft s') = st'" using g(3) by (rule sessions_Some)
  obtain sts r where r: "stub_inv (stFleet s')" "gm_get (stFleet s') (vRaw v) = Some sts"
      "gm_get (ssReplicasM sts) (arPodName p) = Some r"
    using Acquire_stub_pod [OF fleet(2) g(2) [unfolded fleet(1)]] by blast
  have view: "r \<in> stub_view (stFleet s') (vRaw v)" "rName r = arPodName p"
    using stub_invD [OF r(1,2)] r(3) gm_get_val [OF r(3)] by (auto simp: stub_view_Some [OF r(2)] sts_ok_def)
  have get: "Get t ?fp st' = Inr l"
    using g(4) live l(4) time_sub_gt [OF live(2,3), of t now] by (simp add: Get_def expired_def st)
  let ?s1 = "s'\<lparr>stRaft := on_sessions (\<lambda>st. snd (IncInFlight ?fp st)) (stRaft s'), stLifecycle := OnTunnelOpen (lTraceID l) (stLifecycle s')\<rparr>"
  have inc: "lease ?fp (snd (IncInFlight ?fp st')) = Inr (l\<lparr>lInFlight := 1\<rparr>)"
    using g(4) l(3) by (auto simp: IncInFlight_def lease_def split: option.splits)
  obtain fl q where fl: "GetVersionFleet stub t (snd (IncInFlight ?fp st')) (vRaw v) (stFleet s') = (Inr fl, q)"
    by (simp add: GetVersionFleet_def stub_sel Stub_GetReplicas_def r(2))
  from target_ip_stub [OF r fl] have ip: "target_ip (arPodName p) (fiOrdinals fl) = rPodIP r" "q = stFleet s'" by simp_all
  let ?s2 = "?s1\<lparr>stRaft := touchSession t ?fp (stRaft ?s1)\<rparr>"
  have opened: "tunnel_open sv dial t ?fp s' = (Relayed l (rPodIP r), ?s2)"
    using bspec [OF spec [OF fleet(3)] view(1)] net by (simp add: tunnel_open_def st get fleet(1) l fl ip)
  obtain st2 l2 where two: "sessionSink (fsm_state (stRaft ?s2)) = Some st2" "lease ?fp st2 = Inr l2" "lInFlight l2 = 1"
    using touchSession_lease [OF sink_on_sessions(1), of ?fp "\<lambda>st. snd (IncInFlight ?fp st)" "stRaft s'" _ t] inc st by auto
  then have "inflight ?fp (sessions (stRaft ?s2)) = 1" by (auto simp: sessions_Some inflight_def lease_def split: option.splits)
  moreover have "lease ?fp (sessions (stRaft (snd (tunnel_closed sv t' ?fp l ?s2)))) = Inr (l2\<lparr>lInFlight := 0\<rparr>)"
    using tunnel_closed_sessions [of ?fp ?s2 l2 sv t' l] two by (simp add: sessions_Some)
  then have "inflight ?fp (sessions (stRaft (snd (tunnel_close sv t' ?fp (Relayed l (rPodIP r)) ?s2)))) = 0"
    by (auto simp: tunnel_close_def inflight_def lease_def split: option.splits)
  ultimately show ?thesis using opened view l
    by (intro exI [of _ l] exI [of _ "rPodIP r"] exI [of _ ?s2] conjI bexI [of _ r]) simp_all
qed

section \<open>Examples\<close>

definition demo_server :: "StubProvider Server" where
  "demo_server = \<lparr>svAuth = demo_env, svAccessName = ''access'', svUnmarshal = (\<lambda>_. Some \<lparr>erImage = ''img:v0.19.1'',
     erMinimumEngineVersion = [], erTraceID = ''t9''\<rparr>), svResolver = sample_resolver, svManager = demo_cfg, svProvider = stub,
     svMint = (\<lambda>pod. Inr (''fp-'' @ pod)), svDataHost = ''data.example'', svHasPort = (\<lambda>_. False), svBroadcaster = True\<rparr>"

definition demo_request :: Request where
  "demo_request = \<lparr>rqAuthorization = ''Bearer dct_x'', rqCookies = [], rqQuery = [], rqParams = [],
     rqBody = \<lparr>bdStream = True, bdBytes = ''{}'', bdErr = None\<rparr>\<rparr>"

definition demo_state :: "StubProvider State" where
  "demo_state = \<lparr>stReval = [], stRaft = sample_store, stFleet = [], stLifecycle = NewPipelineLifecycle 0\<rparr>"

definition demo_version :: Version where
  "demo_version = \<lparr>vMajor = 0, vMinor = 19, vPatch = 1, vRaw = ''v0.19.1''\<rparr>"

definition demo_identity :: Identity where
  "demo_identity = \<lparr>iUserID = ''u1'', iUsername = ''Alice'', iRole = RoleUser, iGroupIDs = [''g1'', ''g2''], iMethod = AuthAPIToken\<rparr>"

definition demo_raft :: RaftStore where
  "demo_raft = snd (snd (the (Resolve demo_env ''dct_x'' [] sample_store)))"

lemma demo_resolve:
  "Resolve (svAuth demo_server) (bearerFromRequest (svAccessName demo_server) demo_request) (stReval demo_state) (stRaft demo_state)
     = Some (Inr demo_identity, [], demo_raft)"
proof -
  have "map_option fst (Resolve demo_env ''dct_x'' [] sample_store) = Some (Inr demo_identity)"
    "map_option (fst \<circ> snd) (Resolve demo_env ''dct_x'' [] sample_store) = Some []" by code_simp+
  then have "Resolve demo_env ''dct_x'' [] sample_store = Some (Inr demo_identity, [], demo_raft)"
    by (auto simp: demo_raft_def)
  moreover have "bearerFromRequest ''access'' demo_request = ''dct_x''"
    by (simp add: bearerFromRequest_def demo_request_def extractToken_basic(2) [of "''dct_x''", simplified])
  ultimately show ?thesis by (simp add: demo_server_def demo_state_def)
qed

lemma demo_admit: "\<exists>req. admit demo_server demo_identity demo_request demo_raft = Inr (req, demo_version) \<and> erTraceID req = ''t9''"
proof -
  have "extractVersion sample_resolver ''img:v0.19.1'' = Inr demo_version" "IsAllowed sample_resolver demo_version"
    "CheckEngineAccess demo_identity demo_raft (sessions demo_raft) = None" "validTraceID ''t9''" by code_simp+
  then show ?thesis
    by (simp add: admit_def demo_server_def demo_request_def readBoundedBody_def maxRequestBodyBytes_def)
qed

lemma demo_sink: "sink_attached demo_server demo_request demo_state" "ttl (sessions demo_raft) = 100"
proof -
  have "sessionSink (fsm_state demo_raft) \<noteq> None" by code_simp
  then show "sink_attached demo_server demo_request demo_state" by (simp add: sink_attached_def demo_resolve)
  show "ttl (sessions demo_raft) = 100" by code_simp
qed

lemma demo_acquire:
  "\<exists>res p. Acquire demo_cfg stub 60 st ''v0.19.1'' [] = Some (Inr res, p) \<and> arPodName res = PodName ''v0.19.1'' 0
     \<and> (\<forall>v. \<forall>r \<in> stub_view p v. rPodIP r \<noteq> [])"
  by (simp add: Acquire_def stub_sel Stub_EnsureStatefulSet_def Stub_EnsureService_def Stub_GetReplicas_def Stub_ScaleUp_def new_sts_def
      Stub_WaitForReady_def Stub_GetReadyReplicaIP_def Let_def demo_cfg_def scale_up_loop.simps add_replica_def stub_view_def)

lemma demo_granted:
  "\<exists>resp s'. handleEngines demo_server 60 1 demo_request demo_state = Some (Inr resp, s') \<and> stFleet s' \<noteq> stFleet demo_state
     \<and> (\<forall>v. \<forall>r \<in> stub_view (stFleet s') v. rPodIP r \<noteq> [])"
proof -
  obtain req where a: "admit demo_server demo_identity demo_request demo_raft = Inr (req, demo_version)" using demo_admit by blast
  obtain res p where q: "Acquire demo_cfg stub 60 (sessions demo_raft) ''v0.19.1'' [] = Some (Inr res, p)"
    "\<forall>v. \<forall>r \<in> stub_view p v. rPodIP r \<noteq> []"
    using demo_acquire by blast
  have "stub_inv []" by (simp add: stub_inv_def)
  from Acquire_stub_pod [OF this q(1)] have "p \<noteq> []" by auto
  moreover have "resolveIdentity (svAuth demo_server) (svAccessName demo_server) demo_request (stReval demo_state) (stRaft demo_state)
      = Some (Inr demo_identity, [], demo_raft)"
    by (simp add: resolveIdentity_def demo_resolve unauthorized_def)
  moreover have "svManager demo_server = demo_cfg" "svProvider demo_server = stub" "vRaw demo_version = ''v0.19.1''"
    "stFleet demo_state = []" "\<And>pod. svMint demo_server pod = Inr (''fp-'' @ pod)"
    by (simp_all add: demo_server_def demo_version_def demo_state_def)
  ultimately show ?thesis using a q by (simp add: handleEngines_def Let_def)
qed

theorem engines_only_after_admission_witness:
  "IsAllowed sample_resolver demo_version \<and> CheckEngineAccess demo_identity demo_raft (sessions demo_raft) = None"
proof -
  obtain resp s' where g: "handleEngines demo_server 60 1 demo_request demo_state = Some (Inr resp, s')" "stFleet s' \<noteq> stFleet demo_state"
    using demo_granted by blast
  from engines_only_after_admission [OF g(1)] g(2) obtain v where
    "extractVersion (svResolver demo_server) ''img:v0.19.1'' = Inr v" "IsAllowed (svResolver demo_server) v"
    "CheckEngineAccess demo_identity demo_raft (sessions demo_raft) = None"
    by (auto simp: demo_resolve) (auto simp: demo_server_def)
  moreover have "svResolver demo_server = sample_resolver" "extractVersion sample_resolver ''img:v0.19.1'' = Inr demo_version"
    by (simp add: demo_server_def) code_simp
  ultimately show ?thesis by simp
qed

theorem granted_engine_has_lease_witness:
  "\<exists>resp s' l. handleEngines demo_server 60 1 demo_request demo_state = Some (Inr resp, s')
     \<and> lease (spCert resp) (sessions (stRaft s')) = Inr l \<and> lUserID l = ''u1'' \<and> ttl (sessions (stRaft s')) = 100"
proof -
  obtain resp s' where g: "handleEngines demo_server 60 1 demo_request demo_state = Some (Inr resp, s')" using demo_granted by blast
  from granted_engine_has_lease [OF g demo_sink(1)]
  have "\<exists>l. lease (spCert resp) (sessions (stRaft s')) = Inr l \<and> lUserID l = ''u1'' \<and> ttl (sessions (stRaft s')) = 100"
    by (auto simp: demo_resolve demo_sink(2)) (auto simp: demo_identity_def)
  with g show ?thesis by blast
qed

definition tunnel_state :: "StubProvider State" where
  "tunnel_state = demo_state\<lparr>stRaft := on_sessions (\<lambda>_. demo_sessions 1) sample_store, stFleet := demo_fleet [0, 1]\<rparr>"

theorem tunnel_follows_lease_witness:
  "\<exists>l s' l'. tunnel_open demo_server (\<lambda>ip. ip = ''10.0.0.1'') 60 ''fp'' tunnel_state = (Relayed l ''10.0.0.1'', s')
     \<and> lReplicaPod l = PodName ''v1'' 1 \<and> lease ''fp'' (sessions (stRaft s')) = Inr l' \<and> lInFlight l' = 1"
proof -
  obtain out s' where o: "tunnel_open demo_server (\<lambda>ip. ip = ''10.0.0.1'') 60 ''fp'' tunnel_state = (out, s')" by fastforce
  have "case Get 60 ''fp'' (sessions (stRaft tunnel_state)) of Inl e \<Rightarrow> False | Inr l \<Rightarrow>
      lReplicaPod l = PodName ''v1'' 1 \<and> lVersion l = ''v1'' \<and> lInFlight l = 0" by code_simp
  then obtain l where l: "Get 60 ''fp'' (sessions (stRaft tunnel_state)) = Inr l" "lReplicaPod l = PodName ''v1'' 1"
    "lVersion l = ''v1''" "lInFlight l = 0" by (auto split: sum.splits)
  have "fst (fpGetReplicas stub 60 ''v1'' (demo_fleet [0, 1])) = Inr [demo_replica 0 5, demo_replica 1 5]" by code_simp
  moreover have "svProvider demo_server = stub" "stFleet tunnel_state = demo_fleet [0, 1]" by (simp_all add: demo_server_def tunnel_state_def)
  ultimately show ?thesis using tunnel_follows_lease [OF o, of l] l o
    by (auto simp: routed_def demo_replica_def)
qed

theorem granted_engine_reached_witness:
  "\<exists>resp s' l ip s''. handleEngines demo_server 60 1 demo_request demo_state = Some (Inr resp, s')
     \<and> tunnel_open demo_server (\<lambda>_. True) 160 (spCert resp) s' = (Relayed l ip, s'')
     \<and> inflight (spCert resp) (sessions (stRaft s'')) = 1"
proof -
  obtain resp s' where g: "handleEngines demo_server 60 1 demo_request demo_state = Some (Inr resp, s')"
    "\<forall>v. \<forall>r \<in> stub_view (stFleet s') v. rPodIP r \<noteq> []" using demo_granted by blast
  obtain st' where st: "sessions (stRaft s') = st'" "ttl st' = 100"
    by (rule granted_facts [OF g(1) demo_sink(1)]) (use demo_sink(2) in \<open>auto simp: demo_resolve sessions_def\<close>)
  have "svProvider demo_server = stub" "stub_inv (stFleet demo_state)" by (simp_all add: demo_server_def demo_state_def stub_inv_def)
  from granted_engine_reached [OF g(1) demo_sink(1) this g(2), where t = 160 and dial = "\<lambda>_. True" and t' = 170]
  have "\<exists>l ip s''. tunnel_open demo_server (\<lambda>_. True) 160 (spCert resp) s' = (Relayed l ip, s'')
      \<and> inflight (spCert resp) (sessions (stRaft s'')) = 1"
    by (simp add: st max_duration_def min_duration_def) blast
  with g(1) show ?thesis by blast
qed

end
