(* ===== verification/Span_Tree.thy ===== *)
theory Span_Tree
  imports Complex_Main "HOL-Library.Monad_Syntax" "HOL-Library.Signed_Division" Domain Version
begin

text \<open>
  The span tree of a trace (\<^verbatim>\<open>src/internal/repository/trace_store.go\<close>, types of \<^verbatim>\<open>src/internal/domain/telemetry.go\<close>) and the walk
  that fills it (\<^verbatim>\<open>DeriveExec\<close> of \<^verbatim>\<open>src/internal/service/exec_info.go\<close>).

  The answer of Tempo is a decoded JSON value: an object is a Go map, a number a \<^typ>\<open>rat\<close> (a float64 of a JSON text is finite). The
  code works on pointers to nodes; a node is identified by its span id, so the heap is the map \<^verbatim>\<open>nodes\<close> from ids to nodes, and the
  \<^verbatim>\<open>Children\<close> of a node are the ids it points to. Whatever the code does through a pointer is an update of that map. The
  formatting of floats and of JSON arrays (\<^verbatim>\<open>strconv.FormatFloat\<close>, \<^verbatim>\<open>json.Marshal\<close>) is a parameter \<open>codec\<close>: only their text is stored.
  The walk is recursive over the children and may not return, so it is a \<^theory_text>\<open>partial_function\<close> into options.
\<close>

section \<open>JSON values\<close>

datatype json = JNull | JBool bool | JNum rat | JStr string | JArr "json list" | JObj "(string, json) gomap"

record codec =
  cdFormatFloat :: "rat \<Rightarrow> string"
  cdMarshal :: "string list \<Rightarrow> string"

type_synonym jmap = "(string, json) gomap"
type_synonym attrs = "(string, string) gomap"

fun asSlice :: "json option \<Rightarrow> json list" where
  "asSlice (Some (JArr xs)) = xs"
| "asSlice _ = []"

fun as_map :: "json option \<Rightarrow> jmap option" where
  "as_map (Some (JObj m)) = Some m"
| "as_map _ = None"

fun as_str :: "json option \<Rightarrow> string option" where
  "as_str (Some (JStr s)) = Some s"
| "as_str _ = None"

fun as_num :: "json option \<Rightarrow> rat option" where
  "as_num (Some (JNum x)) = Some x"
| "as_num _ = None"

fun as_bool :: "json option \<Rightarrow> bool option" where
  "as_bool (Some (JBool b)) = Some b"
| "as_bool _ = None"

text \<open>\<^verbatim>\<open>s, _ := v.(string)\<close>: the zero value when the type does not match.\<close>

definition str_or_empty :: "json option \<Rightarrow> string" where
  "str_or_empty v = (case as_str v of Some s \<Rightarrow> s | None \<Rightarrow> [])"

text \<open>\<^verbatim>\<open>int64(x)\<close> of a float: truncation; out of range it is the smallest integer, as the amd64 instruction gives.\<close>

definition float_to_int64 :: "rat \<Rightarrow> int" where
  "float_to_int64 x = (let n = (if 0 \<le> x then \<lfloor>x\<rfloor> else - \<lfloor>- x\<rfloor>) in if - max_int64 - 1 \<le> n \<and> n \<le> max_int64 then n else - max_int64 - 1)"

section \<open>Times\<close>

text \<open>The Unix epoch in nanoseconds after Go's zero time, and two's complement of an int64.\<close>

definition unix_epoch :: gotime where
  "unix_epoch = 62135596800 * 1000000000"

definition wrap64 :: "int \<Rightarrow> int" where
  "wrap64 i = (i + 2 ^ 63) mod 2 ^ 64 - 2 ^ 63"

definition time_Unix :: "int \<Rightarrow> gotime" where
  "time_Unix ns = unix_epoch + ns"

definition UnixNano :: "gotime \<Rightarrow> int" where
  "UnixNano t = wrap64 (t - unix_epoch)"

definition Milliseconds :: "duration \<Rightarrow> int" where
  "Milliseconds d = d sdiv 1000000"

section \<open>Nodes\<close>

record SpanEvent =
  seName :: string
  seTimeUnixNs :: int
  seAttributes :: attrs

record ExecEnvVar =
  evName :: string
  evValue :: string
  evIsSecret :: bool

record ExecInfo =
  eiCommand :: string
  eiArgs :: "string list"
  eiCwd :: string
  eiUser :: string
  eiEnv :: "ExecEnvVar list"
  eiExitCode :: "int option"
  eiKind :: string

text \<open>\<^verbatim>\<open>SpanNode\<close> and \<^verbatim>\<open>TraceInfo\<close> on the side of the store, with ids for the pointers.\<close>

record StoredSpan =
  spSpanID :: string
  spParentSpanID :: string
  spTraceID :: string
  spName :: string
  spStatus :: string
  spStartTime :: gotime
  spDuration :: duration
  spDurationMS :: int
  spAttributes :: attrs
  spChildren :: "string list"
  spEvents :: "SpanEvent list"
  spExec :: "ExecInfo option"

type_synonym span_nodes = "(string, StoredSpan) gomap"

record StoredTrace =
  tiTraceID :: string
  tiRootSpan :: "string option"
  tiStatus :: string
  tiStartTime :: gotime
  tiDuration :: duration
  tiDurationMS :: int
  tiVersion :: string
  tiCIProvider :: string
  tiCIRepo :: string
  tiUserID :: string
  tiUsername :: string
  tiURL :: string

definition mapStatus :: "jmap \<Rightarrow> string" where
  "mapStatus status =
    (case gm_get status ''code'' of
       Some (JStr code) \<Rightarrow>
         if code = ''STATUS_CODE_OK'' then ''success'' else if code = ''STATUS_CODE_ERROR'' then ''failed'' else ''running''
     | Some (JNum code) \<Rightarrow> if code = 0 then ''running'' else if code = 1 then ''success'' else if code = 2 then ''failed'' else ''running''
     | _ \<Rightarrow> ''running'')"

definition flattenAttrValue :: "codec \<Rightarrow> jmap \<Rightarrow> string option" where
  "flattenAttrValue cd v =
    (case as_str (gm_get v ''stringValue'') of
       Some sv \<Rightarrow> Some sv
     | None \<Rightarrow>
    case as_bool (gm_get v ''boolValue'') of
       Some bv \<Rightarrow> Some (if bv then ''true'' else ''false'')
     | None \<Rightarrow>
    case as_str (gm_get v ''intValue'') of
       Some iv \<Rightarrow> Some iv
     | None \<Rightarrow>
    case as_num (gm_get v ''intValue'') of
       Some iv \<Rightarrow> Some (show_int (float_to_int64 iv))
     | None \<Rightarrow>
    case as_num (gm_get v ''doubleValue'') of
       Some dv \<Rightarrow> Some (cdFormatFloat cd dv)
     | None \<Rightarrow>
    case as_map (gm_get v ''arrayValue'') of
       None \<Rightarrow> None
     | Some av \<Rightarrow>
         let strs = List.map_filter (\<lambda>item. Option.bind (as_map (Some item)) (\<lambda>im. as_str (gm_get im ''stringValue'')))
               (asSlice (gm_get av ''values''))
         in if length strs = 0 then None else Some (cdMarshal cd strs))"

text \<open>One entry of an OTLP attribute list, folded into the map of a node or of an event.\<close>

definition put_attr :: "codec \<Rightarrow> json \<Rightarrow> attrs \<Rightarrow> attrs" where
  "put_attr cd a as =
    (case as_map (Some a) of
       None \<Rightarrow> as
     | Some am \<Rightarrow>
         case as_map (gm_get am ''value'') of
           None \<Rightarrow> as
         | Some vm \<Rightarrow>
             case flattenAttrValue cd vm of
               None \<Rightarrow> as
             | Some s \<Rightarrow> gm_put (str_or_empty (gm_get am ''key'')) s as)"

definition parse_event :: "codec \<Rightarrow> json \<Rightarrow> SpanEvent option" where
  "parse_event cd e =
    (case as_map (Some e) of
       None \<Rightarrow> None
     | Some em \<Rightarrow> Some \<lparr>seName = str_or_empty (gm_get em ''name''),
         seTimeUnixNs = (case Option.bind (as_str (gm_get em ''timeUnixNano'')) Atoi of Some ns \<Rightarrow> ns | None \<Rightarrow> 0),
         seAttributes = fold (put_attr cd) (asSlice (gm_get em ''attributes'')) []\<rparr>)"

definition parseSpanEvents :: "codec \<Rightarrow> json option \<Rightarrow> SpanEvent list" where
  "parseSpanEvents cd raw = List.map_filter (parse_event cd) (asSlice raw)"

definition mapToSpanNode :: "codec \<Rightarrow> jmap \<Rightarrow> StoredSpan option" where
  "mapToSpanNode cd m =
    (let spanID = str_or_empty (gm_get m ''spanId'') in
     if spanID = [] then None
     else
       let start = (case Option.bind (as_str (gm_get m ''startTimeUnixNano'')) Atoi of Some ns \<Rightarrow> time_Unix ns | None \<Rightarrow> zero_time);
           dur = (case Option.bind (as_str (gm_get m ''endTimeUnixNano'')) Atoi of Some ns \<Rightarrow> time_sub (time_Unix ns) start | None \<Rightarrow> 0)
       in Some \<lparr>spSpanID = spanID, spParentSpanID = str_or_empty (gm_get m ''parentSpanId''),
            spTraceID = str_or_empty (gm_get m ''traceId''), spName = str_or_empty (gm_get m ''name''),
            spStatus = (case as_map (gm_get m ''status'') of Some st \<Rightarrow> mapStatus st | None \<Rightarrow> ''running''),
            spStartTime = start, spDuration = dur, spDurationMS = Milliseconds dur,
            spAttributes = fold (put_attr cd) (asSlice (gm_get m ''attributes'')) [],
            spChildren = [], spEvents = parseSpanEvents cd (gm_get m ''events''), spExec = None\<rparr>)"

definition extractSpans :: "codec \<Rightarrow> jmap \<Rightarrow> StoredSpan list" where
  "extractSpans cd raw =
    List.map_filter (\<lambda>span. Option.bind (as_map (Some span)) (mapToSpanNode cd))
      (concat (map (\<lambda>scope. asSlice (Option.bind (as_map (Some scope)) (\<lambda>m. gm_get m ''spans'')))
        (concat (map (\<lambda>batch. asSlice (Option.bind (as_map (Some batch)) (\<lambda>m. gm_get m ''scopeSpans'')))
          (asSlice (gm_get raw ''batches''))))))"

section \<open>Reconstruction\<close>

definition merge_attrs :: "attrs \<Rightarrow> attrs \<Rightarrow> attrs" where
  "merge_attrs dst src = fold (\<lambda>(k, v) as. if gm_get as k = None then gm_put k v as else as) src dst"

definition mergeSpanNode :: "StoredSpan \<Rightarrow> StoredSpan \<Rightarrow> StoredSpan" where
  "mergeSpanNode dst src = dst\<lparr>
     spStartTime := (if is_zero (spStartTime dst) \<and> \<not> is_zero (spStartTime src) then spStartTime src else spStartTime dst),
     spDuration := (if spDuration dst = 0 \<and> spDuration src \<noteq> 0 then spDuration src else spDuration dst),
     spDurationMS := (if spDuration dst = 0 \<and> spDuration src \<noteq> 0 then spDurationMS src else spDurationMS dst),
     spStatus := (if spStatus dst = ''running'' \<and> spStatus src \<noteq> ''running'' then spStatus src else spStatus dst),
     spName := (if spName dst = [] \<and> spName src \<noteq> [] then spName src else spName dst),
     spTraceID := (if spTraceID dst = [] \<and> spTraceID src \<noteq> [] then spTraceID src else spTraceID dst),
     spParentSpanID := (if spParentSpanID dst = [] \<and> spParentSpanID src \<noteq> [] then spParentSpanID src else spParentSpanID dst),
     spAttributes := merge_attrs (spAttributes dst) (spAttributes src),
     spEvents := (if length (spEvents dst) = 0 \<and> length (spEvents src) > 0 then spEvents src else spEvents dst)\<rparr>"

text \<open>The two loops of \<^verbatim>\<open>reconstruct\<close>: merging by span id, then linking.\<close>

definition merge_span :: "StoredSpan \<Rightarrow> span_nodes \<times> string list \<Rightarrow> span_nodes \<times> string list" where
  "merge_span s acc =
    (case acc of (nodes, order) \<Rightarrow>
       (case gm_get nodes (spSpanID s) of
          Some existing \<Rightarrow> (gm_put (spSpanID s) (mergeSpanNode existing s) nodes, order)
        | None \<Rightarrow> (gm_put (spSpanID s) s nodes, order @ [spSpanID s])))"

definition link_span :: "string \<Rightarrow> span_nodes \<times> string list \<Rightarrow> span_nodes \<times> string list" where
  "link_span s acc =
    (case acc of (nodes, parentless) \<Rightarrow>
       (let pid = spParentSpanID (the (gm_get nodes s)) in
        case gm_get nodes pid of
          None \<Rightarrow> (nodes, parentless @ [s])
        | Some parent \<Rightarrow> (gm_put pid (parent\<lparr>spChildren := spChildren parent @ [s]\<rparr>) nodes, parentless)))"

definition better_root :: "span_nodes \<Rightarrow> string \<Rightarrow> string option \<Rightarrow> string option" where
  "better_root nodes c rt =
    (case rt of
       None \<Rightarrow> Some c
     | Some r \<Rightarrow>
         let s = the (gm_get nodes c); rs = the (gm_get nodes r)
         in if is_zero (spStartTime s) then Some r
            else if is_zero (spStartTime rs) \<or> spStartTime s < spStartTime rs then Some c
            else if spStartTime s = spStartTime rs \<and> length (spChildren s) > length (spChildren rs) then Some c
            else Some r)"

definition pickRoot :: "span_nodes \<Rightarrow> string list \<Rightarrow> string option" where
  "pickRoot nodes candidates = fold (better_root nodes) candidates None"

definition traceStatus :: "StoredSpan option \<Rightarrow> string" where
  "traceStatus rt =
    (case rt of None \<Rightarrow> ''running'' | Some r \<Rightarrow> if spStatus r \<in> {''success'', ''failed''} then spStatus r else ''running'')"

definition duration_step :: "StoredSpan \<Rightarrow> int \<times> int \<Rightarrow> int \<times> int" where
  "duration_step s acc =
    (case acc of (minStart, maxEnd) \<Rightarrow>
       if is_zero (spStartTime s) then (minStart, maxEnd)
       else let ns = UnixNano (spStartTime s); endNS = wrap64 (ns + spDuration s)
            in (if minStart = 0 \<or> ns < minStart then ns else minStart,
                if spDuration s > 0 \<and> endNS > maxEnd then endNS else maxEnd))"

definition traceDurationMS :: "StoredSpan list \<Rightarrow> int" where
  "traceDurationMS spans =
    (case fold duration_step spans (0, 0) of (minStart, maxEnd) \<Rightarrow>
       if maxEnd \<le> minStart then 0 else wrap64 (maxEnd - minStart) sdiv 1000000)"

definition attr_or_empty :: "attrs \<Rightarrow> string \<Rightarrow> string" where
  "attr_or_empty as k = (case gm_get as k of Some v \<Rightarrow> v | None \<Rightarrow> [])"

definition link_spans :: "StoredSpan list \<Rightarrow> (span_nodes \<times> string list) \<times> string list" where
  "link_spans spans =
    (let (nodes, order) = fold merge_span spans ([], [])
     in (fold link_span order (nodes, []), order))"

definition reconstruct_spans :: "string \<Rightarrow> StoredSpan list \<Rightarrow> StoredTrace \<times> span_nodes" where
  "reconstruct_spans traceID spans =
    (let ((nodes, parentless), order) = link_spans spans;
         rt = (case pickRoot nodes parentless of
                   Some r \<Rightarrow> Some r
                 | None \<Rightarrow> if length order > 0 then pickRoot nodes order else None);
         rn = Option.bind rt (gm_get nodes);
         attr = (\<lambda>k. case rn of None \<Rightarrow> [] | Some r \<Rightarrow> attr_or_empty (spAttributes r) k);
         ms = traceDurationMS (map (\<lambda>i. the (gm_get nodes i)) order)
     in (\<lparr>tiTraceID = traceID, tiRootSpan = rt, tiStatus = traceStatus rn,
          tiStartTime = (case rn of None \<Rightarrow> zero_time | Some r \<Rightarrow> spStartTime r),
          tiDuration = wrap64 (ms * 1000000), tiDurationMS = ms,
          tiVersion = attr ''dagger.io/engine.version'', tiCIProvider = attr ''dagger.io/ci'', tiCIRepo = attr ''dagger.io/ci.repo'',
          tiUserID = [], tiUsername = [], tiURL = []\<rparr>, nodes))"

definition reconstruct :: "codec \<Rightarrow> string \<Rightarrow> jmap \<Rightarrow> StoredTrace \<times> span_nodes" where
  "reconstruct cd traceID raw = reconstruct_spans traceID (extractSpans cd raw)"

text \<open>\<^verbatim>\<open>GetTrace\<close>. Tempo is a parameter: an id gives a transport error, or a body that decodes to an object or does not.\<close>

definition hexTraceID :: "string \<Rightarrow> bool" where
  "hexTraceID s \<longleftrightarrow> 16 \<le> length s \<and> list_all is_hex s"

definition GetTrace :: "codec \<Rightarrow> (string \<Rightarrow> (error, jmap option) result) \<Rightarrow> string \<Rightarrow> (error, StoredTrace \<times> span_nodes) result" where
  "GetTrace cd tempo traceID =
    (if \<not> hexTraceID traceID then Inl (ErrOther ''invalid trace ID format'')
     else case tempo traceID of
       Inl e \<Rightarrow> Inl e
     | Inr None \<Rightarrow> Inl (ErrOther ''decode tempo response'')
     | Inr (Some raw) \<Rightarrow> Inr (reconstruct cd traceID raw))"

section \<open>The walk\<close>

text \<open>\<^verbatim>\<open>DeriveExec\<close>: a node, then each of its children. The loop over the children and the call are one recursion over a list of ids.\<close>

partial_function (option) DeriveExecs :: "(StoredSpan \<Rightarrow> ExecInfo option) \<Rightarrow> string list \<Rightarrow> span_nodes \<Rightarrow> span_nodes option" where
  "DeriveExecs execFromSpan ids nodes =
    (case ids of
       [] \<Rightarrow> Some nodes
     | i # rest \<Rightarrow>
         (case gm_get nodes i of
            None \<Rightarrow> DeriveExecs execFromSpan rest nodes
          | Some node \<Rightarrow>
              DeriveExecs execFromSpan (spChildren node) (gm_put i (node\<lparr>spExec := execFromSpan node\<rparr>) nodes) \<bind>
              (\<lambda>nodes'. DeriveExecs execFromSpan rest nodes')))"

definition DeriveExec :: "(StoredSpan \<Rightarrow> ExecInfo option) \<Rightarrow> string option \<Rightarrow> span_nodes \<Rightarrow> span_nodes option" where
  "DeriveExec execFromSpan node nodes = (case node of None \<Rightarrow> Some nodes | Some i \<Rightarrow> DeriveExecs execFromSpan [i] nodes)"

section \<open>The shape of the tree\<close>

text \<open>After the merging loop the order is the order of the keys, and no node has a child yet.\<close>

definition merged :: "span_nodes \<Rightarrow> string list \<Rightarrow> bool" where
  "merged nodes order \<longleftrightarrow> map fst nodes = order \<and> distinct order
     \<and> (\<forall>i n. gm_get nodes i = Some n \<longrightarrow> spSpanID n = i \<and> spChildren n = [])"

lemma merged_put:
  assumes "merged nodes order" "spSpanID n = i" "spChildren n = []"
  shows "merged (gm_put i n nodes) (if i \<in> set order then order else order @ [i])"
proof -
  have "spSpanID n' = j \<and> spChildren n' = []" if "gm_get (gm_put i n nodes) j = Some n'" for j n'
    using that assms unfolding merged_def update_conv' by (cases "j = i") simp_all
  moreover have "map fst nodes = order" "distinct order" using assms(1) by (simp_all add: merged_def)
  ultimately show ?thesis by (auto simp: merged_def update_keys)
qed

lemma merge_span_merged:
  assumes "merged nodes order" "spChildren s = []"
  shows "case_prod merged (merge_span s (nodes, order)) \<and> set (snd (merge_span s (nodes, order))) = insert (spSpanID s) (set order)"
proof (cases "gm_get nodes (spSpanID s)")
  case None
  then have "spSpanID s \<notin> set order" using assms(1) unfolding merged_def map_of_eq_None_iff by (metis list.set_map)
  then show ?thesis using None merged_put [OF assms(1) refl assms(2)] by (simp add: merge_span_def)
next
  case (Some old)
  then have "spSpanID (mergeSpanNode old s) = spSpanID s" "spChildren (mergeSpanNode old s) = []"
    using assms(1) unfolding merged_def by (auto simp: mergeSpanNode_def simp del: map_of_eq_Some_iff)
  moreover have "spSpanID s \<in> set order" using Some assms(1) unfolding merged_def by (metis map_of_eq_None_iff list.set_map option.distinct(1))
  ultimately show ?thesis using Some merged_put [OF assms(1), of "mergeSpanNode old s" "spSpanID s"]
    by (simp add: merge_span_def insert_absorb)
qed

lemma merge_spans_merged:
  assumes "merged nodes order" "\<forall>s \<in> set spans. spChildren s = []" "fold merge_span spans (nodes, order) = (nodes', order')"
  shows "merged nodes' order' \<and> set order' = set order \<union> spSpanID ` set spans"
  using assms
proof (induction spans arbitrary: nodes order)
  case (Cons s spans)
  obtain n1 o1 where 1: "merge_span s (nodes, order) = (n1, o1)" by fastforce
  then have "merged n1 o1" "set o1 = insert (spSpanID s) (set order)" using merge_span_merged [of nodes order s] Cons.prems by auto
  with Cons.IH [of n1 o1] Cons.prems 1 show ?case by auto
qed auto

text \<open>The linking loop, in terms of the parents that the merged nodes name.\<close>

definition parent_of :: "span_nodes \<Rightarrow> string \<Rightarrow> string" where
  "parent_of nodes i = spParentSpanID (the (gm_get nodes i))"

lemma link_spans_shape:
  assumes "\<forall>i n. gm_get nodes i = Some n \<longrightarrow> spChildren n = []"
    and "fold link_span xs (nodes, []) = (nodes', parentless)"
  shows "(\<forall>i. gm_get nodes' i = map_option (\<lambda>n. n\<lparr>spChildren := filter (\<lambda>c. parent_of nodes c = i) xs\<rparr>) (gm_get nodes i))
    \<and> parentless = filter (\<lambda>c. gm_get nodes (parent_of nodes c) = None) xs"
  using assms(2)
proof (induction xs arbitrary: nodes' parentless rule: rev_induct)
  case Nil
  have "map_option (\<lambda>n. n\<lparr>spChildren := []\<rparr>) (gm_get nodes i) = gm_get nodes i" for i
    using assms(1) by (cases "gm_get nodes i") auto
  then show ?case using Nil by simp
next
  case (snoc x xs)
  obtain n1 p1 where 1: "fold link_span xs (nodes, []) = (n1, p1)" by fastforce
  note IH = snoc.IH [OF 1]
  have step: "link_span x (n1, p1) = (nodes', parentless)" using snoc.prems 1 by simp
  have par: "spParentSpanID (the (gm_get n1 x)) = parent_of nodes x" if "gm_get nodes x \<noteq> None"
    using IH that by (auto simp: parent_of_def)
  have par': "spParentSpanID (the (gm_get n1 x)) = parent_of nodes x"
  proof (cases "gm_get nodes x")
    case None
    then show ?thesis using IH by (simp add: parent_of_def)
  qed (use par in simp)
  show ?case
  proof (cases "gm_get nodes (parent_of nodes x)")
    case None
    then have "gm_get n1 (parent_of nodes x) = None" using IH by simp
    then have "nodes' = n1" "parentless = p1 @ [x]" using step by (simp_all add: link_span_def par')
    moreover have "map_option (\<lambda>n. n\<lparr>spChildren := filter (\<lambda>c. parent_of nodes c = i) (xs @ [x])\<rparr>) (gm_get nodes i)
        = map_option (\<lambda>n. n\<lparr>spChildren := filter (\<lambda>c. parent_of nodes c = i) xs\<rparr>) (gm_get nodes i)" for i
      using None by (cases "parent_of nodes x = i") auto
    ultimately show ?thesis using IH None by simp
  next
    case (Some p)
    then have "gm_get n1 (parent_of nodes x) = Some (p\<lparr>spChildren := filter (\<lambda>c. parent_of nodes c = parent_of nodes x) xs\<rparr>)"
      using IH by simp
    then have "nodes' = gm_put (parent_of nodes x) (p\<lparr>spChildren := filter (\<lambda>c. parent_of nodes c = parent_of nodes x) xs @ [x]\<rparr>) n1"
      "parentless = p1" using step by (simp_all add: link_span_def par' Let_def)
    then show ?thesis using IH Some by (auto simp: update_conv')
  qed
qed

text \<open>The tree that \<^verbatim>\<open>reconstruct\<close> builds: every id once, under the parent that its merged record names.\<close>

lemma link_spans_facts:
  assumes "link_spans spans = ((nodes, parentless), order)" "\<forall>s \<in> set spans. spChildren s = []"
  obtains base where "merged base order" "set order = spSpanID ` set spans" "fold merge_span spans ([], []) = (base, order)"
    and "\<And>i. gm_get nodes i = map_option (\<lambda>n. n\<lparr>spChildren := filter (\<lambda>c. parent_of base c = i) order\<rparr>) (gm_get base i)"
    and "parentless = filter (\<lambda>c. gm_get base (parent_of base c) = None) order"
    and "\<And>c. parent_of nodes c = parent_of base c" "\<And>c. gm_get base c = None \<longleftrightarrow> c \<notin> set order"
proof -
  obtain base where b: "fold merge_span spans ([], []) = (base, order)" and l: "fold link_span order (base, []) = (nodes, parentless)"
    using assms(1) by (auto simp: link_spans_def split: prod.splits)
  have "merged [] []" by (simp add: merged_def)
  from merge_spans_merged [OF this assms(2) b] have m: "merged base order" "set order = spSpanID ` set spans" by auto
  then have "\<forall>i n. gm_get base i = Some n \<longrightarrow> spChildren n = []" by (simp add: merged_def)
  note sh = link_spans_shape [OF this l]
  have "parent_of nodes c = parent_of base c" for c using sh by (cases "gm_get base c") (simp_all add: parent_of_def)
  moreover have "gm_get base c = None \<longleftrightarrow> c \<notin> set order" for c using m(1) by (simp add: merged_def map_of_eq_None_iff) (metis list.set_map)
  ultimately show thesis using that m b sh by blast
qed

section \<open>When the walk returns\<close>

text \<open>\<open>(c, p)\<close> is in the relation when the node \<open>p\<close> points to the child \<open>c\<close>.\<close>

definition child_rel :: "span_nodes \<Rightarrow> (string \<times> string) set" where
  "child_rel nodes = {(c, p). \<exists>n. gm_get nodes p = Some n \<and> c \<in> set (spChildren n)}"

definition own_ancestor :: "span_nodes \<Rightarrow> string \<Rightarrow> bool" where
  "own_ancestor nodes i \<longleftrightarrow> (i, i) \<in> (child_rel nodes)\<^sup>+"

lemma acc_not_cyclic: "x \<in> Wellfounded.acc R \<Longrightarrow> (x, x) \<notin> R\<^sup>+"
proof (induction rule: acc_induct_rule)
  case (1 x)
  show ?case
  proof
    assume "(x, x) \<in> R\<^sup>+"
    then obtain y where "(x, y) \<in> R\<^sup>*" "(y, x) \<in> R" by (meson tranclD2)
    with 1 show False by (meson rtrancl_into_trancl2)
  qed
qed

lemma acc_of_not_cyclic:
  assumes "finite R" "single_valued R" "(r, r) \<notin> R\<^sup>+"
  shows "r \<in> Wellfounded.acc R"
proof -
  let ?D = "{x. (x, r) \<in> R\<^sup>*}" let ?R = "R \<inter> ?D \<times> ?D"
  have cyc: "(r, r) \<in> R\<^sup>+" if "(x, r) \<in> R\<^sup>*" "(x, x) \<in> R\<^sup>+" for x
    using that
  proof (induction rule: converse_rtrancl_induct)
    case (step x y)
    obtain z where z: "(x, z) \<in> R" "(z, x) \<in> R\<^sup>*" using step.prems by (meson tranclD)
    then have "z = y" using single_valuedD [OF assms(2) z(1) step.hyps(1)] by simp
    with rtrancl_into_trancl1 [OF z(2) step.hyps(1)] have "(y, y) \<in> R\<^sup>+" by simp
    then show ?case by (rule step.IH)
  qed
  have sub: "?R \<subseteq> R" by blast
  have "acyclic ?R"
    unfolding acyclic_def
  proof (intro allI notI)
    fix x assume x: "(x, x) \<in> ?R\<^sup>+"
    then have "(x, x) \<in> R\<^sup>+" using trancl_mono [OF x sub] by simp
    moreover obtain y where "(x, y) \<in> ?R" using tranclD [OF x] by blast
    then have "(x, r) \<in> R\<^sup>*" by simp
    ultimately show False using cyc [of x] assms(3) by simp
  qed
  moreover have "finite ?R" using assms(1) by (rule finite_Int [OF disjI1])
  ultimately have wf: "wf ?R" by (intro finite_acyclic_wf)
  have "x \<in> ?D \<longrightarrow> x \<in> Wellfounded.acc R" for x
  proof (rule wf_induct_rule [OF wf, where P = "\<lambda>x. x \<in> ?D \<longrightarrow> x \<in> Wellfounded.acc R"])
    fix x assume less: "\<And>y. (y, x) \<in> ?R \<Longrightarrow> y \<in> ?D \<longrightarrow> y \<in> Wellfounded.acc R"
    show "x \<in> ?D \<longrightarrow> x \<in> Wellfounded.acc R"
    proof (rule impI, rule accI)
      fix y assume x: "x \<in> ?D" "(y, x) \<in> R"
      then have y: "y \<in> ?D" by (auto intro: converse_rtrancl_into_rtrancl)
      with x have "(y, x) \<in> ?R" by simp
      from less [OF this] y show "y \<in> Wellfounded.acc R" by simp
    qed
  qed
  then show ?thesis by simp
qed

lemma child_rel_exec: "gm_get nodes i = Some n \<Longrightarrow> child_rel (gm_put i (n\<lparr>spExec := e\<rparr>) nodes) = child_rel nodes"
  by (auto simp: child_rel_def update_conv' simp del: map_of_eq_Some_iff split: if_splits)

lemma DeriveExecs_cons: "DeriveExecs f (i # ids) nodes = DeriveExecs f [i] nodes \<bind> DeriveExecs f ids"
  by (subst (1 2) DeriveExecs.simps) (auto simp: DeriveExecs.simps [of _ "[]"] split: option.splits)

lemma DeriveExecs_Nil [simp]: "DeriveExecs f [] nodes = Some nodes"
  by (simp add: DeriveExecs.simps)

lemma bind_Nil [simp]: "x \<bind> DeriveExecs f [] = x"
  by (cases x) simp_all

lemma DeriveExecs_list:
  assumes "\<forall>i \<in> set ids. \<forall>nodes. child_rel nodes = R \<longrightarrow> (\<exists>nodes'. DeriveExecs f [i] nodes = Some nodes' \<and> child_rel nodes' = R)"
    and "child_rel nodes = R"
  shows "\<exists>nodes'. DeriveExecs f ids nodes = Some nodes' \<and> child_rel nodes' = R"
  using assms
proof (induction ids arbitrary: nodes)
  case (Cons i ids)
  have "\<forall>nodes. child_rel nodes = R \<longrightarrow> (\<exists>nodes'. DeriveExecs f [i] nodes = Some nodes' \<and> child_rel nodes' = R)"
    using bspec [OF Cons.prems(1), of i] by simp
  from this [rule_format, OF Cons.prems(2)] obtain n1 where n1: "DeriveExecs f [i] nodes = Some n1" "child_rel n1 = R" by blast
  have "\<exists>nodes'. DeriveExecs f ids n1 = Some nodes' \<and> child_rel nodes' = R"
    by (rule Cons.IH [OF _ n1(2)]) (use Cons.prems in simp)
  with n1 show ?case by (subst DeriveExecs_cons) simp
qed simp

lemma DeriveExecs_returns:
  assumes "i \<in> Wellfounded.acc R" "child_rel nodes = R"
  shows "\<exists>nodes'. DeriveExecs f [i] nodes = Some nodes' \<and> child_rel nodes' = R"
  using assms
proof (induction i arbitrary: nodes rule: acc_induct_rule)
  case (1 i)
  show ?case
  proof (cases "gm_get nodes i")
    case None
    then show ?thesis using 1(3) by (simp add: DeriveExecs.simps [of f "[i]"])
  next
    case (Some n)
    let ?nodes = "gm_put i (n\<lparr>spExec := f n\<rparr>) nodes"
    have R: "child_rel ?nodes = R" using child_rel_exec [OF Some] 1(3) by simp
    have "(c, i) \<in> R" if "c \<in> set (spChildren n)" for c using that Some 1(3) by (auto simp: child_rel_def)
    then have "\<forall>c \<in> set (spChildren n). \<forall>nodes. child_rel nodes = R \<longrightarrow> (\<exists>nodes'. DeriveExecs f [c] nodes = Some nodes' \<and> child_rel nodes' = R)"
      using 1(2) by blast
    from DeriveExecs_list [OF this R] show ?thesis using Some by (simp add: DeriveExecs.simps [of f "[i]"])
  qed
qed

text \<open>What a walk that returns has done: it has reached every descendant, and changed nothing but their \<^verbatim>\<open>Exec\<close>.\<close>

definition below :: "span_nodes \<Rightarrow> string list \<Rightarrow> string \<Rightarrow> bool" where
  "below nodes ids k \<longleftrightarrow> (\<exists>i \<in> set ids. (k, i) \<in> (child_rel nodes)\<^sup>*)"

definition walked :: "(StoredSpan \<Rightarrow> ExecInfo option) \<Rightarrow> (string \<Rightarrow> bool) \<Rightarrow> span_nodes \<Rightarrow> span_nodes \<Rightarrow> bool" where
  "walked f P nodes nodes' \<longleftrightarrow> (\<forall>k. gm_get nodes' k = map_option (\<lambda>n. if P k then n\<lparr>spExec := f n\<rparr> else n) (gm_get nodes k))"

lemma below_Cons:
  assumes "gm_get nodes i = Some n"
  shows "below nodes (i # ids) k \<longleftrightarrow> k = i \<or> below nodes (spChildren n) k \<or> below nodes ids k"
proof -
  have c: "(c, i) \<in> child_rel nodes \<longleftrightarrow> c \<in> set (spChildren n)" for c using assms by (simp add: child_rel_def)
  have "(k, i) \<in> (child_rel nodes)\<^sup>* \<longleftrightarrow> k = i \<or> (\<exists>c. (k, c) \<in> (child_rel nodes)\<^sup>* \<and> (c, i) \<in> child_rel nodes)"
    by (metis rtrancl.simps)
  then show ?thesis unfolding below_def c by auto
qed

lemma walked_rel:
  assumes "walked f P nodes nodes'"
  shows "child_rel nodes' = child_rel nodes"
proof -
  have "map_option spChildren (gm_get nodes' k) = map_option spChildren (gm_get nodes k)" for k
    using assms by (cases "gm_get nodes k") (simp_all add: walked_def)
  then have "(\<exists>n. gm_get nodes' k = Some n \<and> c \<in> set (spChildren n)) = (\<exists>n. gm_get nodes k = Some n \<and> c \<in> set (spChildren n))" for c k
    by (metis (no_types, lifting) map_option_eq_Some)
  then show ?thesis by (simp add: child_rel_def)
qed

definition derive_ok :: "(StoredSpan \<Rightarrow> ExecInfo option) \<Rightarrow> string list \<Rightarrow> span_nodes \<Rightarrow> span_nodes \<Rightarrow> bool" where
  "derive_ok f ids nodes nodes' \<longleftrightarrow> walked f (below nodes ids) nodes nodes' \<and> (\<forall>i \<in> set ids. i \<in> Wellfounded.acc (child_rel nodes))"

lemma below_rel: "child_rel nodes' = child_rel nodes \<Longrightarrow> below nodes' ids k = below nodes ids k"
  by (simp add: below_def)

lemma derive_ok_Cons:
  assumes f: "\<And>n e. f (n\<lparr>spExec := e\<rparr>) = f n" and i: "gm_get nodes i = Some n"
    and 1: "derive_ok f (spChildren n) (gm_put i (n\<lparr>spExec := f n\<rparr>) nodes) n1" and 2: "derive_ok f rest n1 nodes'"
  shows "derive_ok f (i # rest) nodes nodes'"
proof -
  let ?nodes = "gm_put i (n\<lparr>spExec := f n\<rparr>) nodes"
  have r0: "child_rel ?nodes = child_rel nodes" by (rule child_rel_exec [OF i])
  then have r1: "child_rel n1 = child_rel nodes" using 1 walked_rel [of f "below ?nodes (spChildren n)" ?nodes n1] by (simp add: derive_ok_def)
  have "walked f (below nodes (i # rest)) nodes nodes'"
    unfolding walked_def
  proof
    fix k
    have "gm_get n1 k = map_option (\<lambda>n. if below nodes (spChildren n') k then n\<lparr>spExec := f n\<rparr> else n) (gm_get ?nodes k)"
      if "n' = n" for n' using 1 that by (simp add: derive_ok_def walked_def below_rel [OF r0])
    moreover have "gm_get nodes' k = map_option (\<lambda>n. if below nodes rest k then n\<lparr>spExec := f n\<rparr> else n) (gm_get n1 k)"
      using 2 by (simp add: derive_ok_def walked_def below_rel [OF r1])
    ultimately show "gm_get nodes' k = map_option (\<lambda>n. if below nodes (i # rest) k then n\<lparr>spExec := f n\<rparr> else n) (gm_get nodes k)"
      using f i by (cases "k = i"; cases "gm_get nodes k") (simp_all add: update_conv' below_Cons [OF i])
  qed
  moreover have "j \<in> Wellfounded.acc (child_rel nodes)" if "j \<in> set (i # rest)" for j
  proof -
    have "i \<in> Wellfounded.acc (child_rel nodes)"
    proof (rule accI)
      fix c assume "(c, i) \<in> child_rel nodes"
      then have "c \<in> set (spChildren n)" using i by (simp add: child_rel_def)
      then show "c \<in> Wellfounded.acc (child_rel nodes)" using 1 by (simp add: derive_ok_def r0)
    qed
    then show ?thesis using that 2 by (auto simp: derive_ok_def r1)
  qed
  ultimately show ?thesis by (simp add: derive_ok_def)
qed

lemma derive_ok_absent:
  assumes "gm_get nodes i = None" "derive_ok f rest nodes nodes'"
  shows "derive_ok f (i # rest) nodes nodes'"
proof -
  have no: "(c, i) \<notin> child_rel nodes" for c using assms(1) by (simp add: child_rel_def)
  then have "i \<in> Wellfounded.acc (child_rel nodes)" by (meson accI)
  moreover have "k = i" if "(k, i) \<in> (child_rel nodes)\<^sup>*" for k using that no by (metis rtrancl.cases)
  then have "below nodes (i # rest) k = (below nodes rest k \<or> k = i)" for k by (auto simp: below_def)
  moreover have "gm_get nodes k \<noteq> None \<Longrightarrow> k \<noteq> i" for k using assms(1) by auto
  ultimately show ?thesis using assms unfolding derive_ok_def walked_def by (auto intro!: option.map_cong0)
qed

lemma DeriveExecs_effect:
  assumes "\<And>n e. f (n\<lparr>spExec := e\<rparr>) = f n" and "DeriveExecs f ids nodes = Some nodes'"
  shows "derive_ok f ids nodes nodes'"
proof -
  have "(\<forall>n e. f (n\<lparr>spExec := e\<rparr>) = f n) \<longrightarrow> derive_ok f ids nodes nodes'"
  proof (rule DeriveExecs.raw_induct [where P = "\<lambda>f ids nodes nodes'. (\<forall>n e. f (n\<lparr>spExec := e\<rparr>) = f n) \<longrightarrow> derive_ok f ids nodes nodes'", OF _ assms(2)], goal_cases)
    case (1 D f ids nodes nodes')
    note IH = 1(1) and step = 1(2)
    show ?case
    proof (rule impI)
      assume f: "\<forall>n e. f (n\<lparr>spExec := e\<rparr>) = f n"
      show "derive_ok f ids nodes nodes'"
      proof (cases ids)
      case Nil
      then show ?thesis using step by (auto simp: derive_ok_def walked_def below_def option.map_ident)
    next
      case (Cons i rest)
      show ?thesis
      proof (cases "gm_get nodes i")
        case None
        then have "derive_ok f rest nodes nodes'" using step Cons IH [of f rest nodes nodes'] f by simp
        with None Cons show ?thesis by (simp add: derive_ok_absent)
      next
        case (Some n)
        then obtain n1 where "D f (spChildren n) (gm_put i (n\<lparr>spExec := f n\<rparr>) nodes) = Some n1" "D f rest n1 = Some nodes'"
          using step Cons by (auto simp: bind_eq_Some_conv)
        with IH f have "derive_ok f (spChildren n) (gm_put i (n\<lparr>spExec := f n\<rparr>) nodes) n1" "derive_ok f rest n1 nodes'" by blast+
        from derive_ok_Cons [OF _ Some this] f Cons show ?thesis by simp
      qed
      qed
    qed
  qed
  with assms(1) show ?thesis by blast
qed

section \<open>Facts about a reconstructed trace\<close>

lemma extractSpans_nodes: "s \<in> set (extractSpans cd raw) \<Longrightarrow> spChildren s = [] \<and> spSpanID s \<noteq> []"
  by (auto simp: extractSpans_def List.map_filter_def mapToSpanNode_def Let_def bind_eq_Some_conv split: if_splits)

text \<open>A span with a known start goes before one that begins later, or whose start is unknown.\<close>

definition starts_first :: "span_nodes \<Rightarrow> string \<Rightarrow> string \<Rightarrow> bool" where
  "starts_first nodes b c \<longleftrightarrow> is_zero (spStartTime (the (gm_get nodes c)))
     \<or> \<not> is_zero (spStartTime (the (gm_get nodes b))) \<and> spStartTime (the (gm_get nodes b)) \<le> spStartTime (the (gm_get nodes c))"

lemma starts_first_refl: "starts_first nodes b b"
  by (simp add: starts_first_def)

lemma starts_first_trans: "starts_first nodes a b \<Longrightarrow> starts_first nodes b c \<Longrightarrow> starts_first nodes a c"
  by (auto simp: starts_first_def)

lemma better_root_Some:
  "\<exists>r'. better_root nodes c (Some r) = Some r' \<and> r' \<in> {r, c} \<and> starts_first nodes r' r \<and> starts_first nodes r' c"
  by (auto simp: better_root_def Let_def starts_first_def)

lemma pickRoot_fold:
  "fold (better_root nodes) cs (Some r) = Some b \<Longrightarrow> b \<in> insert r (set cs) \<and> (\<forall>c \<in> insert r (set cs). starts_first nodes b c)"
proof (induction cs arbitrary: r)
  case (Cons c cs)
  obtain r' where r': "better_root nodes c (Some r) = Some r'" "r' \<in> {r, c}" "starts_first nodes r' r" "starts_first nodes r' c"
    using better_root_Some by blast
  with Cons have "b \<in> insert r' (set cs)" "\<forall>c \<in> insert r' (set cs). starts_first nodes b c" by simp_all
  with r' show ?case using starts_first_trans [of nodes b r'] by auto
qed (simp add: starts_first_refl)

lemma better_root_fold_Some: "fold (better_root nodes) cs (Some r) \<noteq> None"
proof (induction cs arbitrary: r)
  case (Cons c cs)
  obtain r' where "better_root nodes c (Some r) = Some r'" using better_root_Some by blast
  with Cons show ?case by simp
qed simp

text \<open>No candidate with a known start begins before the root that is picked.\<close>

definition earliest :: "span_nodes \<Rightarrow> string list \<Rightarrow> string \<Rightarrow> bool" where
  "earliest nodes cs b \<longleftrightarrow> b \<in> set cs \<and> (\<forall>c \<in> set cs. starts_first nodes b c)"

lemma pickRoot_None: "pickRoot nodes cs = None \<longleftrightarrow> cs = []"
  by (cases cs) (simp_all add: pickRoot_def better_root_fold_Some better_root_def)

lemma pickRoot_Nil [simp]: "pickRoot nodes [] = None"
  by (simp add: pickRoot_def)

lemma pickRoot_earliest: "pickRoot nodes cs = Some b \<Longrightarrow> earliest nodes cs b"
  by (cases cs) (use pickRoot_fold in \<open>force simp: pickRoot_def earliest_def better_root_def\<close>)+

lemma reconstruct_facts:
  assumes "reconstruct_spans tid spans = (info, nodes)" "\<forall>s \<in> set spans. spChildren s = []"
  obtains base order where "fold merge_span spans ([], []) = (base, order)" "set order = spSpanID ` set spans" "distinct order"
    "\<And>i. gm_get nodes i = map_option (\<lambda>n. n\<lparr>spChildren := filter (\<lambda>c. parent_of base c = i) order\<rparr>) (gm_get base i)"
    "\<And>i. gm_get nodes i = None \<longleftrightarrow> i \<notin> set order" "\<And>c. parent_of nodes c = parent_of base c"
    "tiRootSpan info = (case pickRoot nodes (filter (\<lambda>c. gm_get nodes (parent_of nodes c) = None) order) of
       Some r \<Rightarrow> Some r | None \<Rightarrow> pickRoot nodes order)"
proof -
  obtain parentless order where l: "link_spans spans = ((nodes, parentless), order)"
    and r: "tiRootSpan info = (case pickRoot nodes parentless of Some r \<Rightarrow> Some r | None \<Rightarrow> if length order > 0 then pickRoot nodes order else None)"
    using assms(1) by (auto simp: reconstruct_spans_def Let_def split: prod.splits)
  obtain base where b: "merged base order" "set order = spSpanID ` set spans" "fold merge_span spans ([], []) = (base, order)"
    "\<And>i. gm_get nodes i = map_option (\<lambda>n. n\<lparr>spChildren := filter (\<lambda>c. parent_of base c = i) order\<rparr>) (gm_get base i)"
    "parentless = filter (\<lambda>c. gm_get base (parent_of base c) = None) order"
    "\<And>c. parent_of nodes c = parent_of base c" "\<And>c. gm_get base c = None \<longleftrightarrow> c \<notin> set order"
    using link_spans_facts [OF l assms(2)] by blast
  have n: "gm_get nodes i = None \<longleftrightarrow> i \<notin> set order" for i using b(4,7) by simp
  then have "parentless = filter (\<lambda>c. gm_get nodes (parent_of nodes c) = None) order" using b(5,6,7) by simp
  with r have "tiRootSpan info = (case pickRoot nodes (filter (\<lambda>c. gm_get nodes (parent_of nodes c) = None) order) of
       Some r \<Rightarrow> Some r | None \<Rightarrow> pickRoot nodes order)"
    by (cases order) (simp_all add: pickRoot_def)
  moreover have "distinct order" using b(1) by (simp add: merged_def)
  ultimately show thesis by (intro that [OF b(3,2) _ b(4) n b(6)])
qed

lemma root_None:
  assumes "reconstruct_spans tid spans = (info, nodes)" "\<forall>s \<in> set spans. spChildren s = []"
  shows "tiRootSpan info = None \<longleftrightarrow> spans = []"
proof -
  obtain order where "set order = spSpanID ` set spans"
    "tiRootSpan info = (case pickRoot nodes (filter (\<lambda>c. gm_get nodes (parent_of nodes c) = None) order) of
       Some r \<Rightarrow> Some r | None \<Rightarrow> pickRoot nodes order)"
    by (rule reconstruct_facts [OF assms]) blast
  then show ?thesis by (auto simp: pickRoot_None split: option.splits)
qed

lemma child_rel_exact:
  assumes "reconstruct_spans tid spans = (info, nodes)" "\<forall>s \<in> set spans. spChildren s = []"
  shows "(c, p) \<in> child_rel nodes \<longleftrightarrow> gm_get nodes c \<noteq> None \<and> gm_get nodes p \<noteq> None \<and> parent_of nodes c = p"
proof -
  obtain base order where b: "\<And>i. gm_get nodes i = map_option (\<lambda>n. n\<lparr>spChildren := filter (\<lambda>c. parent_of base c = i) order\<rparr>) (gm_get base i)"
    "\<And>i. gm_get nodes i = None \<longleftrightarrow> i \<notin> set order" "\<And>c. parent_of nodes c = parent_of base c"
    by (rule reconstruct_facts [OF assms]) blast
  show ?thesis
  proof (cases "gm_get base p")
    case None
    then have "gm_get nodes p = None" using b(1) by simp
    then show ?thesis by (simp add: child_rel_def)
  next
    case (Some n)
    then have "gm_get nodes p = Some (n\<lparr>spChildren := filter (\<lambda>c. parent_of base c = p) order\<rparr>)" using b(1) by simp
    moreover have "c \<in> set order \<longleftrightarrow> gm_get nodes c \<noteq> None" using b(2) [of c] by simp
    ultimately show ?thesis by (auto simp: child_rel_def b(3) simp del: map_of_eq_Some_iff)
  qed
qed

lemma child_rel_tree:
  assumes "reconstruct_spans tid spans = (info, nodes)" "\<forall>s \<in> set spans. spChildren s = []"
  shows "finite (child_rel nodes)" "single_valued (child_rel nodes)"
proof -
  have "child_rel nodes \<subseteq> dom (gm_get nodes) \<times> dom (gm_get nodes)" using child_rel_exact [OF assms] by auto
  then show "finite (child_rel nodes)" by (rule finite_subset) (simp add: finite_dom_map_of)
  show "single_valued (child_rel nodes)" by (rule single_valuedI) (simp add: child_rel_exact [OF assms])
qed

lemma DeriveExec_iff:
  assumes "reconstruct_spans tid spans = (info, nodes)" "\<forall>s \<in> set spans. spChildren s = []"
    and f: "\<And>n e. f (n\<lparr>spExec := e\<rparr>) = f n"
  shows "(\<exists>nodes'. DeriveExec f (tiRootSpan info) nodes = Some nodes') \<longleftrightarrow> (\<forall>r. tiRootSpan info = Some r \<longrightarrow> \<not> own_ancestor nodes r)"
proof (cases "tiRootSpan info")
  case (Some r)
  have "r \<in> Wellfounded.acc (child_rel nodes)" if "DeriveExecs f [r] nodes = Some nodes'" for nodes'
    using DeriveExecs_effect [OF f that] by (simp add: derive_ok_def)
  then show ?thesis
    using Some acc_of_not_cyclic [OF child_rel_tree [OF assms(1,2)], of r] acc_not_cyclic [of r "child_rel nodes"]
      DeriveExecs_returns [of r "child_rel nodes" nodes f]
    by (auto simp: DeriveExec_def own_ancestor_def)
qed (simp add: DeriveExec_def)

text \<open>A root without a parent in the trace is nobody's descendant.\<close>

lemma parentless_not_own_ancestor:
  assumes "reconstruct_spans tid spans = (info, nodes)" "\<forall>s \<in> set spans. spChildren s = []"
    and "gm_get nodes (parent_of nodes r) = None"
  shows "\<not> own_ancestor nodes r"
proof
  assume "own_ancestor nodes r"
  then obtain p where "(r, p) \<in> child_rel nodes" unfolding own_ancestor_def by (meson tranclD)
  with assms(3) show False by (simp add: child_rel_exact [OF assms(1,2)])
qed

section \<open>Duplicate records\<close>

text \<open>The reference for merging: of the values that the records of a span carry, the first that is not the default.\<close>

definition first_set :: "'a \<Rightarrow> 'a list \<Rightarrow> 'a" where
  "first_set d xs = (case find (\<lambda>x. x \<noteq> d) xs of Some x \<Rightarrow> x | None \<Rightarrow> d)"

lemma first_set_Cons: "first_set d (x # xs) = (if x = d then first_set d xs else x)"
  by (simp add: first_set_def)

lemma first_set_foldl:
  assumes "\<And>a b. f (mergeSpanNode a b) = (if f a = d then f b else f a)"
  shows "f (foldl mergeSpanNode r rs) = first_set d (map f (r # rs))"
  by (induction rs arbitrary: r) (simp_all add: assms first_set_Cons, simp add: first_set_def)

lemma merge_spans_get:
  assumes "fold merge_span spans ([], []) = (base, order)" "\<forall>s \<in> set spans. spChildren s = []"
  shows "gm_get base i = (case filter (\<lambda>s. spSpanID s = i) spans of [] \<Rightarrow> None | r # rs \<Rightarrow> Some (foldl mergeSpanNode r rs))"
  using assms
proof (induction spans arbitrary: base order rule: rev_induct)
  case (snoc s spans)
  obtain b1 o1 where 1: "fold merge_span spans ([], []) = (b1, o1)" by fastforce
  with snoc.IH snoc.prems have IH: "gm_get b1 i = (case filter (\<lambda>s. spSpanID s = i) spans of [] \<Rightarrow> None | r # rs \<Rightarrow> Some (foldl mergeSpanNode r rs))"
    by auto
  have base: "gm_get base i = (if spSpanID s = i then (case gm_get b1 i of Some n \<Rightarrow> Some (mergeSpanNode n s) | None \<Rightarrow> Some s) else gm_get b1 i)"
  proof -
    have "merge_span s (b1, o1) = (base, order)" using snoc.prems(1) 1 by simp
    then show ?thesis by (auto simp: merge_span_def update_conv' split: option.splits)
  qed
  show ?case
  proof (cases "filter (\<lambda>s. spSpanID s = i) spans")
    case Nil
    then have "gm_get b1 i = None" using IH by simp
    with Nil show ?thesis by (simp add: base)
  next
    case (Cons r rs)
    then have "gm_get b1 i = Some (foldl mergeSpanNode r rs)" using IH by simp
    with Cons show ?thesis by (simp add: base)
  qed
qed simp

lemma merged_node:
  assumes "gm_get (snd (reconstruct cd tid raw)) i = Some n"
  shows "\<exists>rs. rs = filter (\<lambda>s. spSpanID s = i) (extractSpans cd raw) \<and> rs \<noteq> []
    \<and> spStatus n = first_set ''running'' (map spStatus rs) \<and> spParentSpanID n = first_set [] (map spParentSpanID rs)
    \<and> spName n = first_set [] (map spName rs) \<and> spStartTime n = first_set 0 (map spStartTime rs)
    \<and> spDuration n = first_set 0 (map spDuration rs) \<and> spEvents n = first_set [] (map spEvents rs)"
proof -
  obtain info nodes where rec: "reconstruct_spans tid (extractSpans cd raw) = (info, nodes)" by fastforce
  have ch: "\<forall>s \<in> set (extractSpans cd raw). spChildren s = []" using extractSpans_nodes by blast
  obtain base order cs where b: "fold merge_span (extractSpans cd raw) ([], []) = (base, order)"
    "gm_get nodes i = map_option (\<lambda>n. n\<lparr>spChildren := cs\<rparr>) (gm_get base i)"
    by (rule reconstruct_facts [OF rec ch]) blast
  then obtain m where m: "gm_get base i = Some m" "n = m\<lparr>spChildren := cs\<rparr>" using assms rec by (auto simp: reconstruct_def)
  obtain r rs where rs: "filter (\<lambda>s. spSpanID s = i) (extractSpans cd raw) = r # rs" "m = foldl mergeSpanNode r rs"
    using merge_spans_get [OF b(1) ch, of i] m(1) by (auto split: list.splits)
  have "spStatus m = first_set ''running'' (map spStatus (r # rs))" "spParentSpanID m = first_set [] (map spParentSpanID (r # rs))"
    "spName m = first_set [] (map spName (r # rs))" "spStartTime m = first_set 0 (map spStartTime (r # rs))"
    "spDuration m = first_set 0 (map spDuration (r # rs))" "spEvents m = first_set [] (map spEvents (r # rs))"
    unfolding rs(2) by (rule first_set_foldl; auto simp: mergeSpanNode_def is_zero_def zero_time_def)+
  then show ?thesis using rs(1) m(2) by (intro exI [of _ "r # rs"]) simp
qed

text \<open>
  The merged record of a span. Tempo returns a span as several records; the node that the tree shows has, for its status,
  parent, name, start, duration and events, the value of the first record that carries one, so a status that one record has
  reported as final is shown whatever the order of the records, and a span with a single complete record is shown as it is.
\<close>

theorem merged_record:
  assumes "gm_get (snd (reconstruct cd tid raw)) i = Some n"
  shows "\<exists>rs. rs = filter (\<lambda>s. spSpanID s = i) (extractSpans cd raw) \<and> rs \<noteq> []
    \<and> spStatus n = first_set ''running'' (map spStatus rs) \<and> spParentSpanID n = first_set [] (map spParentSpanID rs)
    \<and> spName n = first_set [] (map spName rs) \<and> spStartTime n = first_set 0 (map spStartTime rs)
    \<and> spDuration n = first_set 0 (map spDuration rs) \<and> spEvents n = first_set [] (map spEvents rs)"
  using assms by (rule merged_node)

text \<open>
  The end of a span is only known from its finish record; when that record leaves the start out, its duration is the distance
  from Go's zero time, which saturates at the largest duration, and the merge keeps it.
\<close>

lemma finish_without_start:
  assumes "mapToSpanNode cd m = Some fin" "gm_get m ''startTimeUnixNano'' = None"
    and "gm_get m ''endTimeUnixNano'' = Some (JStr e)" "Atoi e = Some ns" "spDuration start = 0"
  shows "spDuration (mergeSpanNode start fin) = max_duration"
proof -
  have "- max_int64 - 1 \<le> ns" using assms(4) by (auto simp: Atoi_def Let_def split: if_splits)
  then have "time_sub (time_Unix ns) zero_time = max_duration"
    by (simp add: time_sub_def time_Unix_def unix_epoch_def zero_time_def max_duration_def min_duration_def max_int64_def)
  then show ?thesis using assms
    by (auto simp: mapToSpanNode_def mergeSpanNode_def Let_def max_duration_def split: if_splits)
qed

section \<open>The tree\<close>

text \<open>The parents of a span, one after another, are spans of the trace up to the one after \<open>k\<close> steps, which is \<open>r\<close>.\<close>

definition leads_to :: "span_nodes \<Rightarrow> string \<Rightarrow> nat \<Rightarrow> string \<Rightarrow> bool" where
  "leads_to nodes i k r \<longleftrightarrow> (parent_of nodes ^^ k) i = r \<and> (\<forall>j \<le> k. gm_get nodes ((parent_of nodes ^^ j) i) \<noteq> None)"

lemma leads_to_Suc:
  "leads_to nodes i (Suc k) r \<longleftrightarrow> gm_get nodes i \<noteq> None \<and> leads_to nodes (parent_of nodes i) k r"
  unfolding leads_to_def less_Suc_eq_le [symmetric] All_less_Suc2 by (simp add: funpow_swap1) blast

lemma below_chain:
  assumes rel: "\<And>c p. (c, p) \<in> child_rel nodes \<longleftrightarrow> gm_get nodes c \<noteq> None \<and> gm_get nodes p \<noteq> None \<and> parent_of nodes c = p"
    and r: "gm_get nodes r \<noteq> None"
  shows "below nodes [r] i \<longleftrightarrow> (\<exists>k. leads_to nodes i k r)"
proof
  assume "below nodes [r] i"
  then have "(i, r) \<in> (child_rel nodes)\<^sup>*" by (simp add: below_def)
  then show "\<exists>k. leads_to nodes i k r"
  proof (induction rule: converse_rtrancl_induct)
    case base
    then show ?case using r by (auto simp: leads_to_def intro!: exI [of _ 0])
  next
    case (step c p)
    then obtain k where k: "leads_to nodes p k r" by blast
    have "leads_to nodes c (Suc k) r"
      using k step(1) by (simp add: leads_to_Suc rel)
    then show ?case by blast
  qed
next
  assume "\<exists>k. leads_to nodes i k r"
  then obtain k where "leads_to nodes i k r" by blast
  then have "(i, r) \<in> (child_rel nodes)\<^sup>*"
  proof (induction k arbitrary: i)
    case (Suc k)
    then have up: "leads_to nodes (parent_of nodes i) k r" by (simp add: leads_to_Suc)
    with Suc.IH have "(parent_of nodes i, r) \<in> (child_rel nodes)\<^sup>*" .
    moreover have "(i, parent_of nodes i) \<in> child_rel nodes" using Suc.prems up by (auto simp: leads_to_Suc rel leads_to_def [of _ _ k])
    ultimately show ?case by (rule converse_rtrancl_into_rtrancl [rotated])
  qed (simp add: leads_to_def)
  then show "below nodes [r] i" by (simp add: below_def)
qed

text \<open>
  C12: the tree of a trace. The spans that Tempo returned are linked as nodes, one for each span id however often it was returned; a node is, once, a child of the
  span that its record names as parent, if that span is there, and of no other. A trace with a span has a root, which is one of its spans. The tree that is
  returned, the root with what can be reached from it by child links, consists of the spans whose chain of parents leads to the root; the other
  spans are not in it. If some span has no parent in the trace, the root is such a span, and none of them is known to have started before it.
\<close>

theorem span_tree_exact:
  assumes "reconstruct cd tid raw = (info, nodes)"
  shows "(\<forall>i. gm_get nodes i \<noteq> None \<longleftrightarrow> i \<in> spSpanID ` set (extractSpans cd raw))
    \<and> (\<forall>c p. (c, p) \<in> child_rel nodes \<longleftrightarrow> gm_get nodes c \<noteq> None \<and> gm_get nodes p \<noteq> None \<and> parent_of nodes c = p)
    \<and> (\<forall>p n. gm_get nodes p = Some n \<longrightarrow> distinct (spChildren n))
    \<and> (tiRootSpan info = None \<longleftrightarrow> extractSpans cd raw = [])
    \<and> (\<forall>r. tiRootSpan info = Some r \<longrightarrow> gm_get nodes r \<noteq> None
         \<and> (\<forall>i. below nodes [r] i \<longleftrightarrow> (\<exists>k. leads_to nodes i k r)))
    \<and> (\<forall>r q. tiRootSpan info = Some r \<and> gm_get nodes q \<noteq> None \<and> gm_get nodes (parent_of nodes q) = None
         \<longrightarrow> gm_get nodes (parent_of nodes r) = None \<and> starts_first nodes r q)"
proof -
  have rec: "reconstruct_spans tid (extractSpans cd raw) = (info, nodes)" using assms by (simp add: reconstruct_def)
  have ch: "\<forall>s \<in> set (extractSpans cd raw). spChildren s = []" using extractSpans_nodes by blast
  obtain base order where b: "set order = spSpanID ` set (extractSpans cd raw)" "distinct order"
    "\<And>i. gm_get nodes i = map_option (\<lambda>n. n\<lparr>spChildren := filter (\<lambda>c. parent_of base c = i) order\<rparr>) (gm_get base i)"
    "\<And>i. gm_get nodes i = None \<longleftrightarrow> i \<notin> set order"
    "tiRootSpan info = (case pickRoot nodes (filter (\<lambda>c. gm_get nodes (parent_of nodes c) = None) order) of
       Some r \<Rightarrow> Some r | None \<Rightarrow> pickRoot nodes order)"
    by (rule reconstruct_facts [OF rec ch]) blast
  let ?free = "filter (\<lambda>c. gm_get nodes (parent_of nodes c) = None) order"
  have dist: "distinct (spChildren n)" if "gm_get nodes p = Some n" for p n using that b(2,3) by (auto simp del: map_of_eq_Some_iff)
  have none: "tiRootSpan info = None \<longleftrightarrow> extractSpans cd raw = []"
    by (rule root_None [OF rec ch])
  have first: "gm_get nodes r \<noteq> None \<and> gm_get nodes (parent_of nodes r) = None \<and> starts_first nodes r q"
    if "tiRootSpan info = Some r" "gm_get nodes q \<noteq> None" "gm_get nodes (parent_of nodes q) = None" for r q
  proof -
    have q: "q \<in> set ?free" using that b(4) by auto
    then have "?free \<noteq> []" by (metis empty_iff empty_set)
    then have "pickRoot nodes ?free \<noteq> None" by (simp add: pickRoot_None)
    then have "pickRoot nodes ?free = Some r" using that(1) b(5) by auto
    from pickRoot_earliest [OF this] q b(4) show ?thesis by (auto simp: earliest_def)
  qed
  have root: "gm_get nodes r \<noteq> None" if "tiRootSpan info = Some r" for r
  proof -
    have "r \<in> set order"
      using that b(5) pickRoot_earliest [of nodes ?free r] pickRoot_earliest [of nodes order r]
      by (auto simp: earliest_def split: option.splits)
    with b(4) show ?thesis by simp
  qed
  have nodes: "gm_get nodes i \<noteq> None \<longleftrightarrow> i \<in> spSpanID ` set (extractSpans cd raw)" for i using b(1,4) by simp
  note rel = child_rel_exact [OF rec ch]
  have below: "gm_get nodes r \<noteq> None \<and> (\<forall>i. below nodes [r] i \<longleftrightarrow> (\<exists>k. leads_to nodes i k r))"
    if "tiRootSpan info = Some r" for r
    using below_chain [OF rel root [OF that]] root [OF that] by simp
  show ?thesis
    by (intro conjI allI impI nodes none rel; (elim conjE)?) (simp_all add: dist below first)
qed

section \<open>Examples\<close>

text \<open>A trace of two spans, the child returned first, and the root twice: as it starts and as it ends.\<close>

definition demo_codec :: codec where
  "demo_codec = \<lparr>cdFormatFloat = (\<lambda>_. ''0''), cdMarshal = (\<lambda>_. ''[]'')\<rparr>"

definition demo_jspan :: "string \<Rightarrow> string \<Rightarrow> jmap \<Rightarrow> json" where
  "demo_jspan i p extra = JObj ([(''spanId'', JStr i), (''parentSpanId'', JStr p), (''startTimeUnixNano'', JStr ''5'')] @ extra)"

definition demo_jtrace :: "json list \<Rightarrow> jmap" where
  "demo_jtrace spans = [(''batches'', JArr [JObj [(''scopeSpans'', JArr [JObj [(''spans'', JArr spans)]])]])]"

definition demo_spans :: "json list" where
  "demo_spans = [demo_jspan ''c'' ''r'' [], demo_jspan ''r'' [] [],
     demo_jspan ''r'' [] [(''endTimeUnixNano'', JStr ''9''), (''status'', JObj [(''code'', JStr ''STATUS_CODE_OK'')])]]"

lemma demo_reconstruct:
  "map_option spStatus (gm_get (snd (reconstruct demo_codec ''t'' (demo_jtrace demo_spans))) ''r'') = Some ''success''"
  "tiRootSpan (fst (reconstruct demo_codec ''t'' (demo_jtrace demo_spans))) = Some ''r''"
  "gm_get (snd (reconstruct demo_codec ''t'' (demo_jtrace demo_spans))) [] = None"
  "map spParentSpanID (filter (\<lambda>s. spSpanID s = ''r'') (extractSpans demo_codec (demo_jtrace demo_spans))) = [[], []]"
  by code_simp+

theorem merged_record_witness:
  "map spStatus (filter (\<lambda>s. spSpanID s = ''r'') (extractSpans demo_codec (demo_jtrace demo_spans))) = [''running'', ''success'']
    \<and> (\<exists>n. gm_get (snd (reconstruct demo_codec ''t'' (demo_jtrace demo_spans))) ''r'' = Some n \<and> spStatus n = ''success'')"
proof -
  obtain n where n: "gm_get (snd (reconstruct demo_codec ''t'' (demo_jtrace demo_spans))) ''r'' = Some n"
    using demo_reconstruct(1) by auto
  have rs: "map spStatus (filter (\<lambda>s. spSpanID s = ''r'') (extractSpans demo_codec (demo_jtrace demo_spans))) = [''running'', ''success'']"
    by code_simp
  with merged_record [OF n] have "spStatus n = ''success''" by (simp add: first_set_Cons)
  with n rs show ?thesis by simp
qed

theorem span_tree_exact_witness:
  "tiRootSpan (fst (reconstruct demo_codec ''t'' (demo_jtrace demo_spans))) = Some ''r''
    \<and> (''c'', ''r'') \<in> child_rel (snd (reconstruct demo_codec ''t'' (demo_jtrace demo_spans)))"
proof -
  obtain info nodes where rec: "reconstruct demo_codec ''t'' (demo_jtrace demo_spans) = (info, nodes)" by (metis surj_pair)
  have "map_option spParentSpanID (gm_get (snd (reconstruct demo_codec ''t'' (demo_jtrace demo_spans))) ''c'') = Some ''r''" by code_simp
  then have "parent_of nodes ''c'' = ''r''" "gm_get nodes ''c'' \<noteq> None" by (auto simp: rec parent_of_def)
  moreover have "gm_get nodes ''r'' \<noteq> None" using demo_reconstruct(1) by (auto simp: rec)
  ultimately have "(''c'', ''r'') \<in> child_rel nodes" using conjunct1 [OF conjunct2 [OF span_tree_exact [OF rec]]] by simp
  then show ?thesis using demo_reconstruct(2) by (simp add: rec)
qed

end
