(* ===== verification/Dag_Call.thy ===== *)
theory Dag_Call
  imports Base64 Version
begin

text \<open>
  Dagql calls (\<^verbatim>\<open>src/internal/service/dag_call.go\<close>). The engine stores the call of a span as a base64 protobuf message; the
  supervisor reads it with a hand-written parser of the wire format. A message is its list of bytes, offsets are the code's, a
  varint is a 64 bit word, and a failed parse is \<^term>\<open>None\<close>. The parser of literals recurses into nested messages, each shorter
  than the one that holds it. \<^verbatim>\<open>enc_call\<close> is a reference encoder
  after the protobuf documentation, for messages with fields of every wire type, used to state the round trip.
\<close>

unbundle bit_operations_syntax

section \<open>Wire format\<close>

definition wireVarint :: nat where "wireVarint = 0"
definition wireFixed64 :: nat where "wireFixed64 = 1"
definition wireBytes :: nat where "wireBytes = 2"
definition wireFixed32 :: nat where "wireFixed32 = 5"

definition callFieldNum :: nat where "callFieldNum = 3"
definition callArgsNum :: nat where "callArgsNum = 4"
definition argNameNum :: nat where "argNameNum = 1"
definition argValueNum :: nat where "argValueNum = 2"
definition literalStringNum :: nat where "literalStringNum = 7"
definition literalListNum :: nat where "literalListNum = 8"
definition listValuesNum :: nat where "listValuesNum = 1"

lemmas wire_defs = wireVarint_def wireFixed64_def wireBytes_def wireFixed32_def
lemmas num_defs = callFieldNum_def callArgsNum_def argNameNum_def argValueNum_def literalStringNum_def literalListNum_def listValuesNum_def

record protoField =
  pfNum :: nat
  pfWire :: nat
  pfBytes :: string

abbreviation byte :: "char \<Rightarrow> nat" where
  "byte c \<equiv> of_char c"

text \<open>\<^verbatim>\<open>readVarint\<close>: the loop over the bytes from the offset; the value grows by seven bits a byte, and the eleventh byte fails.\<close>

fun varint_loop :: "string \<Rightarrow> nat \<Rightarrow> nat \<Rightarrow> 64 word \<Rightarrow> (64 word \<times> nat) option" where
  "varint_loop [] i shift v = None"
| "varint_loop (b # bs) i shift v =
    (if 64 \<le> shift then None
     else
       let v' = v OR push_bit shift (word_of_nat (byte b mod 128))
       in if byte b < 128 then Some (v', i + 1) else varint_loop bs (i + 1) (shift + 7) v')"

definition readVarint :: "string \<Rightarrow> nat \<Rightarrow> (64 word \<times> nat) option" where
  "readVarint data off = varint_loop (drop off data) off 0 0"

lemma varint_loop_next: "varint_loop bs i s v = Some (w, j) \<Longrightarrow> i < j \<and> j \<le> i + length bs"
  by (induction bs i s v rule: varint_loop.induct) (auto simp: Let_def split: if_splits)

lemma readVarint_next:
  assumes "readVarint data i = Some (w, j)"
  shows "i < j \<and> j \<le> length data"
  using varint_loop_next [OF assms [unfolded readVarint_def]] assms
  by (cases "i < length data") (auto simp: readVarint_def)

definition slice :: "string \<Rightarrow> nat \<Rightarrow> nat \<Rightarrow> string" where
  "slice data i j = take (j - i) (drop i data)"

text \<open>\<^verbatim>\<open>parseProtoFields\<close>: the loop of the top-level fields, from the offset to the end of the message.\<close>

function fields_loop :: "string \<Rightarrow> nat \<Rightarrow> protoField list \<Rightarrow> protoField list option" where
  "fields_loop data i out =
    (if i < length data then
       (case readVarint data i of
          None \<Rightarrow> None
        | Some (key, i') \<Rightarrow>
            let num = unat (drop_bit 3 key); wire = unat (key AND 7)
            in if num = 0 then None
               else if wire = wireVarint then
                 (case readVarint data i' of
                    None \<Rightarrow> None
                  | Some (_, i'') \<Rightarrow> fields_loop data i'' (out @ [\<lparr>pfNum = num, pfWire = wire, pfBytes = []\<rparr>]))
               else if wire = wireFixed64 then
                 (if i' + 8 > length data then None
                  else fields_loop data (i' + 8) (out @ [\<lparr>pfNum = num, pfWire = wire, pfBytes = slice data i' (i' + 8)\<rparr>]))
               else if wire = wireBytes then
                 (case readVarint data i' of
                    None \<Rightarrow> None
                  | Some (len, i'') \<Rightarrow>
                      if unat len > length data - i'' then None
                      else fields_loop data (i'' + unat len)
                             (out @ [\<lparr>pfNum = num, pfWire = wire, pfBytes = slice data i'' (i'' + unat len)\<rparr>]))
               else if wire = wireFixed32 then
                 (if i' + 4 > length data then None
                  else fields_loop data (i' + 4) (out @ [\<lparr>pfNum = num, pfWire = wire, pfBytes = slice data i' (i' + 4)\<rparr>]))
               else None)
     else Some out)"
  by pat_completeness auto

termination
  by (relation "measure (\<lambda>(data, i, _). length data - i)") (auto dest!: readVarint_next)

declare fields_loop.simps [simp del]

definition parseProtoFields :: "string \<Rightarrow> protoField list option" where
  "parseProtoFields data = fields_loop data 0 []"

text \<open>Every field of a message is shorter than the message.\<close>

lemma slice_length: "length (slice data i j) \<le> j - i"
  by (simp add: slice_def)

lemma fields_loop_shorter:
  assumes "fields_loop data i out = Some fs" and "\<forall>f \<in> set out. length (pfBytes f) < length data"
  shows "\<forall>f \<in> set fs. length (pfBytes f) < length data"
  using assms
proof (induction data i out rule: fields_loop.induct)
  case (1 data i out)
  show ?case
  proof (cases "i < length data")
    case False
    then show ?thesis using 1 by (simp add: fields_loop.simps)
  next
    case True
    obtain key i' where k: "readVarint data i = Some (key, i')"
      using 1 True by (auto simp: fields_loop.simps [of data i] split: option.splits)
    let ?num = "unat (drop_bit 3 key)" and ?wire = "unat (key AND 7)"
    have nz: "?num \<noteq> 0"
    proof
      assume "?num = 0"
      then show False using 1(5) True k by (simp add: fields_loop.simps [of data i])
    qed
    have i': "i < i'" "i' \<le> length data" using readVarint_next [OF k] by auto
    consider (varint) w j where "?wire = wireVarint" "readVarint data i' = Some (w, j)"
        "fields_loop data j (out @ [\<lparr>pfNum = ?num, pfWire = ?wire, pfBytes = []\<rparr>]) = Some fs"
      | (fixed) n where "?wire = wireFixed64 \<and> n = 8 \<or> ?wire = wireFixed32 \<and> n = 4" "\<not> i' + n > length data"
        "fields_loop data (i' + n) (out @ [\<lparr>pfNum = ?num, pfWire = ?wire, pfBytes = slice data i' (i' + n)\<rparr>]) = Some fs"
      | (bytes) len j where "?wire = wireBytes" "readVarint data i' = Some (len, j)" "\<not> unat len > length data - j"
        "fields_loop data (j + unat len) (out @ [\<lparr>pfNum = ?num, pfWire = ?wire, pfBytes = slice data j (j + unat len)\<rparr>]) = Some fs"
      using 1(5) True k nz
      by (auto simp: fields_loop.simps [of data i] Let_def split: option.splits if_splits)
    then show ?thesis
    proof cases
      case varint
      show ?thesis by (rule 1(1) [OF True k refl refl refl nz varint(1,2) refl varint(3)]) (use 1(6) True in auto)
    next
      case fixed
      then have "length (slice data i' (i' + n)) < length data" using i' by (auto simp: slice_def)
      with fixed 1(2,4) [OF True k refl refl refl nz] 1(6) show ?thesis by (auto simp: wire_defs)
    next
      case bytes
      then have "length (slice data j (j + unat len)) < length data"
        using i' readVarint_next [OF bytes(2)] by (auto simp: slice_def)
      then show ?thesis
        by (intro 1(3) [OF True k refl refl refl nz _ _ bytes(1,2) refl bytes(3,4)]) (use 1(6) bytes(1) in \<open>auto simp: wire_defs\<close>)
    qed
  qed
qed

corollary parseProtoFields_shorter:
  assumes "parseProtoFields data = Some fs" and "f \<in> set fs"
  shows "length (pfBytes f) < length data"
  using fields_loop_shorter [of data 0 "[]" fs] assms by (auto simp: parseProtoFields_def)

section \<open>Calls\<close>

definition protoBytes :: "protoField list \<Rightarrow> nat \<Rightarrow> string" where
  "protoBytes fs num = (case find (\<lambda>f. pfNum f = num \<and> pfWire f = wireBytes) fs of None \<Rightarrow> [] | Some f \<Rightarrow> pfBytes f)"

definition protoString :: "protoField list \<Rightarrow> nat \<Rightarrow> string" where
  "protoString fs num = protoBytes fs num"

text \<open>\<^verbatim>\<open>parseLiteralStrings\<close>: the strings of a literal, in the order of its fields; a list that does not parse is skipped.\<close>

function parseLiteralStrings :: "string \<Rightarrow> string list" where
  "parseLiteralStrings data =
    (case parseProtoFields data of
       None \<Rightarrow> []
     | Some fs \<Rightarrow> concat (map (\<lambda>f.
         if pfWire f \<noteq> wireBytes then []
         else if pfNum f = literalStringNum then [pfBytes f]
         else if pfNum f = literalListNum then
           (case parseProtoFields (pfBytes f) of
              None \<Rightarrow> []
            | Some ls \<Rightarrow> concat (map (\<lambda>lf.
                if pfNum lf = listValuesNum \<and> pfWire lf = wireBytes then parseLiteralStrings (pfBytes lf) else []) ls))
         else []) fs))"
  by pat_completeness auto

termination
  by (relation "measure length") (auto dest!: parseProtoFields_shorter intro: less_trans)

declare parseLiteralStrings.simps [simp del]

type_synonym call_args = "(string, string list) gomap"

definition parse_arg :: "protoField \<Rightarrow> call_args \<Rightarrow> call_args" where
  "parse_arg f args =
    (if pfNum f \<noteq> callArgsNum \<or> pfWire f \<noteq> wireBytes then args
     else (case parseProtoFields (pfBytes f) of
       None \<Rightarrow> args
     | Some as \<Rightarrow>
         let name = protoString as argNameNum
         in if name = [] then args
            else let values = parseLiteralStrings (protoBytes as argValueNum)
                 in if length values > 0 then gm_put name values args else args))"

definition parseDagCall :: "string \<Rightarrow> (string \<times> call_args) option" where
  "parseDagCall raw =
    (case DecodeString raw of
       None \<Rightarrow> None
     | Some data \<Rightarrow>
         (case parseProtoFields data of
            None \<Rightarrow> None
          | Some fs \<Rightarrow>
              let field = protoString fs callFieldNum; args = fold parse_arg fs []
              in if field = [] \<and> length args = 0 then None else Some (field, args)))"

definition isExecCallField :: "string \<Rightarrow> bool" where
  "isExecCallField field \<longleftrightarrow> to_lower field \<in> {''withexec'', ''exec''}"

definition isIOOperationField :: "string \<Rightarrow> bool" where
  "isIOOperationField field \<longleftrightarrow> to_lower field \<in> {''publish'', ''export'', ''import'', ''push''}"

section \<open>Reference encoder\<close>

fun enc_varint :: "nat \<Rightarrow> string" where
  "enc_varint n = (if n < 128 then [char_of n] else char_of (128 + n mod 128) # enc_varint (n div 128))"

declare enc_varint.simps [simp del]

text \<open>A field of a message is its number and what it carries; all four wire types occur.\<close>

datatype wire_value = WVarint nat | WFixed64 string | WBytes string | WFixed32 string

type_synonym wire_field = "nat \<times> wire_value"

fun wire_type :: "wire_value \<Rightarrow> nat" where
  "wire_type (WVarint n) = 0"
| "wire_type (WFixed64 b) = 1"
| "wire_type (WBytes b) = 2"
| "wire_type (WFixed32 b) = 5"

fun enc_value :: "wire_value \<Rightarrow> string" where
  "enc_value (WVarint n) = enc_varint n"
| "enc_value (WFixed64 b) = b"
| "enc_value (WBytes b) = enc_varint (length b) @ b"
| "enc_value (WFixed32 b) = b"

definition enc_field :: "wire_field \<Rightarrow> string" where
  "enc_field f = enc_varint (fst f * 8 + wire_type (snd f)) @ enc_value (snd f)"

definition enc_msg :: "wire_field list \<Rightarrow> string" where
  "enc_msg fs = concat (map enc_field fs)"

fun value_ok :: "wire_value \<Rightarrow> bool" where
  "value_ok (WVarint n) \<longleftrightarrow> n < 2 ^ 64"
| "value_ok (WFixed64 b) \<longleftrightarrow> length b = 8"
| "value_ok (WBytes b) \<longleftrightarrow> length b < 2 ^ 63"
| "value_ok (WFixed32 b) \<longleftrightarrow> length b = 4"

definition field_ok :: "wire_field \<Rightarrow> bool" where
  "field_ok f \<longleftrightarrow> 0 < fst f \<and> fst f < 2 ^ 60 \<and> value_ok (snd f)"

text \<open>A field that no reader of the numbers \<open>nums\<close> looks at: another number, or not length-delimited.\<close>

definition skipped :: "nat list \<Rightarrow> wire_field \<Rightarrow> bool" where
  "skipped nums f \<longleftrightarrow> fst f \<notin> set nums \<or> wire_type (snd f) \<noteq> 2"

text \<open>
  The messages of \<^verbatim>\<open>callpbv1\<close>, each a list of its fields in any order: the fields of a literal and of a list of literals, of an argument, and
  of a call. The last constructor of each stands for the fields that the parser does not name, of any wire type.
\<close>

datatype lit_part = LString string | LList "item_part list" | LOther wire_field
  and item_part = IValue "lit_part list" | IOther wire_field

datatype arg_part = AName string | AValue "lit_part list" | AOther wire_field

datatype call_part = CField string | CArg "arg_part list" | COther wire_field

primrec lit_field :: "lit_part \<Rightarrow> wire_field" and item_field :: "item_part \<Rightarrow> wire_field" where
  "lit_field (LString v) = (7, WBytes v)"
| "lit_field (LList items) = (8, WBytes (enc_msg (map item_field items)))"
| "lit_field (LOther f) = f"
| "item_field (IValue lit) = (1, WBytes (enc_msg (map lit_field lit)))"
| "item_field (IOther f) = f"

fun arg_field :: "arg_part \<Rightarrow> wire_field" where
  "arg_field (AName n) = (1, WBytes n)"
| "arg_field (AValue lit) = (2, WBytes (enc_msg (map lit_field lit)))"
| "arg_field (AOther f) = f"

fun call_field :: "call_part \<Rightarrow> wire_field" where
  "call_field (CField n) = (3, WBytes n)"
| "call_field (CArg arg) = (4, WBytes (enc_msg (map arg_field arg)))"
| "call_field (COther f) = f"

definition enc_call :: "call_part list \<Rightarrow> string" where
  "enc_call call = enc_msg (map call_field call)"

text \<open>The sizes fit and the unnamed fields are not named ones.\<close>

fun lit_ok :: "lit_part \<Rightarrow> bool" and item_ok :: "item_part \<Rightarrow> bool" where
  "lit_ok (LString v) \<longleftrightarrow> field_ok (lit_field (LString v))"
| "lit_ok (LList items) \<longleftrightarrow> field_ok (lit_field (LList items)) \<and> list_all item_ok items"
| "lit_ok (LOther f) \<longleftrightarrow> field_ok f \<and> skipped [7, 8] f"
| "item_ok (IValue lit) \<longleftrightarrow> field_ok (item_field (IValue lit)) \<and> list_all lit_ok lit"
| "item_ok (IOther f) \<longleftrightarrow> field_ok f \<and> skipped [1] f"

fun arg_ok :: "arg_part \<Rightarrow> bool" where
  "arg_ok (AName n) \<longleftrightarrow> field_ok (arg_field (AName n))"
| "arg_ok (AValue lit) \<longleftrightarrow> field_ok (arg_field (AValue lit)) \<and> list_all lit_ok lit"
| "arg_ok (AOther f) \<longleftrightarrow> field_ok f \<and> skipped [1, 2] f"

fun call_ok :: "call_part \<Rightarrow> bool" where
  "call_ok (CField n) \<longleftrightarrow> field_ok (call_field (CField n))"
| "call_ok (CArg arg) \<longleftrightarrow> field_ok (call_field (CArg arg)) \<and> list_all arg_ok arg"
| "call_ok (COther f) \<longleftrightarrow> field_ok f \<and> skipped [3, 4] f"

text \<open>What a message says: the strings of a literal in order, and the first name, value and field; an argument without a name or without a string does not count.\<close>

primrec lit_strings :: "lit_part \<Rightarrow> string list" and item_strings :: "item_part \<Rightarrow> string list" where
  "lit_strings (LString v) = [v]"
| "lit_strings (LList items) = concat (map item_strings items)"
| "lit_strings (LOther f) = []"
| "item_strings (IValue lit) = concat (map lit_strings lit)"
| "item_strings (IOther f) = []"

fun arg_name :: "arg_part list \<Rightarrow> string" where
  "arg_name [] = []"
| "arg_name (AName n # arg) = n"
| "arg_name (_ # arg) = arg_name arg"

fun arg_value :: "arg_part list \<Rightarrow> string list" where
  "arg_value [] = []"
| "arg_value (AValue lit # arg) = concat (map lit_strings lit)"
| "arg_value (_ # arg) = arg_value arg"

fun call_name :: "call_part list \<Rightarrow> string" where
  "call_name [] = []"
| "call_name (CField n # call) = n"
| "call_name (_ # call) = call_name call"

fun call_args :: "call_part list \<Rightarrow> call_args \<Rightarrow> call_args" where
  "call_args [] m = m"
| "call_args (CArg arg # call) m =
     call_args call (if arg_name arg \<noteq> [] \<and> arg_value arg \<noteq> [] then gm_put (arg_name arg) (arg_value arg) m else m)"
| "call_args (_ # call) m = call_args call m"

section \<open>Round trip\<close>

lemma of_nat_split: "(word_of_nat n :: 64 word) = word_of_nat (n mod 128) OR push_bit 7 (word_of_nat (n div 128))"
proof -
  have "n mod 128 = take_bit 7 n" "n div 128 = drop_bit 7 n" by (simp_all add: take_bit_eq_mod drop_bit_eq_div)
  then show ?thesis by (intro bit_word_eqI) (auto simp: bit_simps possible_bit_def)
qed

lemma varint_loop_enc:
  assumes "n < 2 ^ 64" "n * 2 ^ s < 2 ^ 64" "s < 64"
  shows "varint_loop (enc_varint n @ post) i s v = Some (v OR push_bit s (word_of_nat n), i + length (enc_varint n))"
  using assms
proof (induction n arbitrary: i s v rule: enc_varint.induct)
  case (1 n)
  show ?case
  proof (cases "n < 128")
    case True
    then show ?thesis using 1(4) by (simp add: enc_varint.simps [of n])
  next
    case False
    have "n div 128 * 2 ^ (s + 7) \<le> n * 2 ^ s"
      by (simp add: power_add)
    then have le: "n div 128 * 2 ^ (s + 7) < 2 ^ 64" using 1(3) by linarith
    have "s + 7 < 64"
    proof (rule ccontr)
      assume "\<not> s + 7 < 64"
      then have "(2::nat) ^ 64 \<le> 2 ^ (s + 7)" by (intro power_increasing) simp_all
      also have "\<dots> \<le> n div 128 * 2 ^ (s + 7)" using False by simp
      finally show False using le by simp
    qed
    moreover have "n div 128 < 2 ^ 64" using 1(2) by simp
    moreover have "(128 + n mod 128) mod 256 = 128 + n mod 128" by (simp add: mod_less_divisor)
    ultimately show ?thesis using False le 1(4) 1(1) [OF False, of "s + 7"] of_nat_split [of n]
      by (simp add: enc_varint.simps [of n] or.assoc push_bit_or)
  qed
qed

lemma readVarint_enc:
  "n < 2 ^ 64 \<Longrightarrow> readVarint (pre @ enc_varint n @ post) (length pre) = Some (word_of_nat n, length pre + length (enc_varint n))"
  using varint_loop_enc [of n 0 post "length pre" 0] by (simp add: readVarint_def)

lemma enc_varint_nonempty [simp]: "0 < length (enc_varint n)"
  by (cases "n < 128") (simp_all add: enc_varint.simps [of n])

abbreviation bytes_field :: "nat \<Rightarrow> string \<Rightarrow> protoField" where
  "bytes_field num p \<equiv> \<lparr>pfNum = num, pfWire = wireBytes, pfBytes = p\<rparr>"

fun value_bytes :: "wire_value \<Rightarrow> string" where
  "value_bytes (WVarint n) = []"
| "value_bytes (WFixed64 b) = b"
| "value_bytes (WBytes b) = b"
| "value_bytes (WFixed32 b) = b"

definition proto :: "wire_field \<Rightarrow> protoField" where
  "proto f = \<lparr>pfNum = fst f, pfWire = wire_type (snd f), pfBytes = value_bytes (snd f)\<rparr>"

lemma proto_sel [simp]: "pfNum (proto f) = fst f" "pfWire (proto f) = wire_type (snd f)" "pfBytes (proto f) = value_bytes (snd f)"
  by (simp_all add: proto_def)

lemma wire_type_less: "wire_type v < 8"
  by (cases v) simp_all

lemma key_parts:
  assumes "num < 2 ^ 60" "t < 8"
  shows "unat (drop_bit 3 (word_of_nat (num * 8 + t) :: 64 word)) = num" "unat (word_of_nat (num * 8 + t) AND (7 :: 64 word)) = t"
proof -
  define w where "w = (word_of_nat (num * 8 + t) :: 64 word)"
  have u: "unat w = num * 8 + t"
    using assms unfolding w_def by (simp only: unat_of_nat take_bit_eq_mod) simp
  have "unat (drop_bit 3 w) = num" using u assms(2) by (simp add: drop_bit_eq_div unat_div)
  moreover have "w AND 7 = take_bit 3 w" by (simp only: take_bit_eq_mask) (simp add: mask_eq_exp_minus_1)
  moreover have "unat (take_bit 3 w) = take_bit 3 (unat w)" by (simp add: take_bit_eq_mod unat_mod)
  moreover have "take_bit 3 (num * 8 + t) = t" using assms(2) by (simp add: take_bit_eq_mod)
  ultimately show "unat (drop_bit 3 (word_of_nat (num * 8 + t) :: 64 word)) = num"
    "unat (word_of_nat (num * 8 + t) AND (7 :: 64 word)) = t"
    using u by (simp_all only: w_def)
qed

text \<open>One round of the loop reads one field, whatever its wire type, and stops right behind it.\<close>

lemma fields_loop_enc:
  assumes "field_ok f"
  shows "fields_loop (pre @ enc_field f @ post) (length pre) out
    = fields_loop (pre @ enc_field f @ post) (length (pre @ enc_field f)) (out @ [proto f])"
proof -
  obtain num v where f: "f = (num, v)" by fastforce
  let ?k = "num * 8 + wire_type v" and ?d = "pre @ enc_field f @ post" and ?pre = "pre @ enc_varint (num * 8 + wire_type v)"
  have num: "0 < num" "num < 2 ^ 60" and v: "value_ok v" using assms by (auto simp: f field_ok_def)
  have d: "?d = ?pre @ enc_value v @ post" by (simp add: f enc_field_def)
  have "?k < 2 ^ 64" using num(2) wire_type_less [of v] by simp
  then have 1: "readVarint ?d (length pre) = Some (word_of_nat ?k, length ?pre)"
    using readVarint_enc [of ?k pre "enc_value v @ post"] by (simp add: f enc_field_def)
  have less: "length pre < length ?d" using enc_varint_nonempty [of ?k] by (simp add: f enc_field_def del: enc_varint_nonempty)
  note key = key_parts [OF num(2) wire_type_less [of v]]
  note step = fields_loop.simps [of ?d "length pre" out] less 1 key num
  show ?thesis
  proof (cases v)
    case (WVarint n)
    have "readVarint ?d (length ?pre) = Some (word_of_nat n, length ?pre + length (enc_varint n))"
      using readVarint_enc [of n ?pre post] v unfolding d by (simp add: WVarint)
    with step WVarint show ?thesis by (simp add: f enc_field_def proto_def wire_defs add.assoc)
  next
    case (WFixed64 b)
    with v have b: "length b = 8" by simp
    then have "slice ?d (length ?pre) (length ?pre + 8) = b" "\<not> length ?pre + 8 > length ?d"
      unfolding d by (simp_all add: slice_def WFixed64)
    with step WFixed64 b show ?thesis by (simp add: f enc_field_def proto_def wire_defs add.assoc)
  next
    case (WFixed32 b)
    with v have b: "length b = 4" by simp
    then have "slice ?d (length ?pre) (length ?pre + 4) = b" "\<not> length ?pre + 4 > length ?d"
      unfolding d by (simp_all add: slice_def WFixed32)
    with step WFixed32 b show ?thesis by (simp add: f enc_field_def proto_def wire_defs add.assoc)
  next
    case (WBytes p)
    let ?j = "length ?pre + length (enc_varint (length p))"
    have p: "length p < 2 ^ 64" using v by (simp add: WBytes)
    have "readVarint ?d (length ?pre) = Some (word_of_nat (length p), ?j)"
      using readVarint_enc [OF p, of ?pre "p @ post"] unfolding d by (simp add: WBytes)
    moreover have "unat (word_of_nat (length p) :: 64 word) = length p" using p by (simp add: unat_of_nat)
    moreover have "slice ?d ?j (?j + length p) = p" "\<not> length ?d - ?j < length p"
      unfolding d by (simp_all add: slice_def WBytes)
    ultimately show ?thesis using step WBytes by (simp add: f enc_field_def proto_def wire_defs add.assoc)
  qed
qed

lemma fields_loop_encs:
  "list_all field_ok fs \<Longrightarrow> fields_loop (pre @ enc_msg fs) (length pre) out = Some (out @ map proto fs)"
proof (induction fs arbitrary: pre out)
  case Nil
  then show ?case by (simp add: enc_msg_def fields_loop.simps)
next
  case (Cons f fs)
  with fields_loop_enc [of f pre "enc_msg fs" out] Cons.IH [of "pre @ enc_field f" "out @ [proto f]"]
  show ?case by (simp add: enc_msg_def)
qed

lemma parse_msg: "list_all field_ok fs \<Longrightarrow> parseProtoFields (enc_msg fs) = Some (map proto fs)"
  using fields_loop_encs [of fs "[]" "[]"] by (simp add: parseProtoFields_def)

text \<open>What the parser of literals takes from one field of a literal and of a list.\<close>

definition from_item :: "protoField \<Rightarrow> string list" where
  "from_item f = (if pfNum f = listValuesNum \<and> pfWire f = wireBytes then parseLiteralStrings (pfBytes f) else [])"

definition from_lit :: "protoField \<Rightarrow> string list" where
  "from_lit f = (if pfWire f \<noteq> wireBytes then []
     else if pfNum f = literalStringNum then [pfBytes f]
     else if pfNum f = literalListNum then (case parseProtoFields (pfBytes f) of None \<Rightarrow> [] | Some ls \<Rightarrow> concat (map from_item ls))
     else [])"

lemma parseLiteralStrings_from:
  "parseLiteralStrings data = (case parseProtoFields data of None \<Rightarrow> [] | Some fs \<Rightarrow> concat (map from_lit fs))"
  unfolding from_lit_def [abs_def] from_item_def [abs_def] by (rule parseLiteralStrings.simps)

lemma lit_ok_field: "lit_ok p \<Longrightarrow> field_ok (lit_field p)"
  by (cases p) simp_all

lemma item_ok_field: "item_ok p \<Longrightarrow> field_ok (item_field p)"
  by (cases p) simp_all

lemma concat_map_eq: "(\<And>x. x \<in> set xs \<Longrightarrow> f x = g x) \<Longrightarrow> concat (map f xs) = concat (map g xs)"
  by (metis map_cong)

lemma from_parts:
  "lit_ok p \<Longrightarrow> from_lit (proto (lit_field p)) = lit_strings p"
  "item_ok q \<Longrightarrow> from_item (proto (item_field q)) = item_strings q"
proof (induction p and q)
  case (LList items)
  then have "list_all field_ok (map item_field items)" by (auto simp: list_all_iff intro: item_ok_field)
  then show ?case using LList
    by (auto simp: from_lit_def parse_msg wire_defs num_defs list_all_iff comp_def intro!: concat_map_eq)
next
  case (IValue lit)
  then have "list_all field_ok (map lit_field lit)" by (auto simp: list_all_iff intro: lit_ok_field)
  then show ?case using IValue
    by (auto simp: from_item_def parseLiteralStrings_from parse_msg wire_defs num_defs list_all_iff comp_def intro!: concat_map_eq)
qed (auto simp: from_lit_def from_item_def wire_defs num_defs skipped_def)

lemma literal_strings:
  assumes "list_all lit_ok lit"
  shows "parseLiteralStrings (enc_msg (map lit_field lit)) = concat (map lit_strings lit)"
proof -
  have "list_all field_ok (map lit_field lit)" using assms by (auto simp: list_all_iff intro: lit_ok_field)
  with assms show ?thesis
    by (auto simp: parseLiteralStrings_from parse_msg list_all_iff comp_def from_parts intro!: concat_map_eq)
qed

lemma protoBytes_Cons:
  "protoBytes (f # fs) num = (if pfNum f = num \<and> pfWire f = wireBytes then pfBytes f else protoBytes fs num)"
  by (simp add: protoBytes_def)

lemma literal_nil: "parseLiteralStrings [] = []"
  by (simp add: parseLiteralStrings_from parseProtoFields_def fields_loop.simps)

lemma arg_name_parts:
  "list_all arg_ok arg \<Longrightarrow> protoString (map (proto \<circ> arg_field) arg) argNameNum = arg_name arg"
proof (induction arg)
  case (Cons p arg)
  then show ?case by (cases p) (auto simp: protoString_def protoBytes_Cons wire_defs num_defs skipped_def)
qed (simp add: protoString_def protoBytes_def)

lemma arg_value_parts:
  "list_all arg_ok arg \<Longrightarrow> parseLiteralStrings (protoBytes (map (proto \<circ> arg_field) arg) argValueNum) = arg_value arg"
proof (induction arg)
  case (Cons p arg)
  then show ?case by (cases p) (auto simp: protoBytes_Cons wire_defs num_defs skipped_def literal_strings)
qed (simp add: protoBytes_def literal_nil)

lemma parse_arg_enc:
  assumes "list_all arg_ok arg"
  shows "parse_arg (proto (call_field (CArg arg))) m
    = (if arg_name arg \<noteq> [] \<and> arg_value arg \<noteq> [] then gm_put (arg_name arg) (arg_value arg) m else m)"
proof -
  have "list_all field_ok (map arg_field arg)" using assms by (auto simp: list_all_iff elim!: arg_ok.elims)
  then show ?thesis using arg_name_parts [OF assms] arg_value_parts [OF assms]
    by (simp add: parse_arg_def parse_msg wire_defs num_defs Let_def)
qed

lemma call_name_parts:
  "list_all call_ok call \<Longrightarrow> protoString (map (proto \<circ> call_field) call) callFieldNum = call_name call"
proof (induction call)
  case (Cons p call)
  then show ?case by (cases p) (auto simp: protoString_def protoBytes_Cons wire_defs num_defs skipped_def)
qed (simp add: protoString_def protoBytes_def)

lemma call_args_parts:
  "list_all call_ok call \<Longrightarrow> fold parse_arg (map (proto \<circ> call_field) call) m = call_args call m"
proof (induction call arbitrary: m)
  case (Cons p call)
  have "fold parse_arg (map (proto \<circ> call_field) (p # call)) m = call_args call (parse_arg (proto (call_field p)) m)"
    using Cons by (simp add: comp_def)
  also have "\<dots> = call_args (p # call) m"
  proof (cases p)
    case (CArg arg)
    then show ?thesis using Cons.prems parse_arg_enc [of arg m] by simp
  qed (use Cons.prems in \<open>auto simp: parse_arg_def wire_defs num_defs skipped_def\<close>)
  finally show ?case .
qed simp

text \<open>
  C15: the parser of dagql calls reads the wire format. Take any call message, with its fields, and those of its arguments and literals, in any order, of any
  wire type, with any unnamed fields and any literals among them, numbers below 2 to the 60 and canonical varints. From the base64 text of its protobuf encoding the parser gets the first field name and, for
  each argument with a name and at least one string in its value, the strings of its value in order, the last argument of a name
  counting; it refuses exactly the calls that have neither. Unnamed fields and literals that are not strings have no effect.
\<close>

theorem dag_call_round_trip:
  assumes "list_all call_ok call"
  shows "parseDagCall (EncodeToString (enc_call call))
    = (if call_name call = [] \<and> call_args call [] = [] then None else Some (call_name call, call_args call []))"
proof -
  have "list_all field_ok (map call_field call)" using assms by (auto simp: list_all_iff elim!: call_ok.elims)
  then have "parseProtoFields (enc_call call) = Some (map (proto \<circ> call_field) call)" by (simp add: enc_call_def parse_msg)
  then show ?thesis using call_name_parts [OF assms] call_args_parts [OF assms]
    by (simp add: parseDagCall_def DecodeString_encode Let_def)
qed

text \<open>A call with a fixed and a varint field, an argument with a list of strings, a flag and a number, and an argument without a string.\<close>

definition demo_call :: "call_part list" where
  "demo_call = [COther (6, WFixed64 ''12345678''), CField ''withExec'', COther (3, WVarint 300),
     CArg [AName ''args'', AOther (9, WVarint 1), AValue [LList [IValue [LString ''go''], IOther (2, WFixed32 ''1234''), IValue [LOther (4, WVarint 1)], IValue [LString ''build'']]]],
     CArg [AValue [LOther (3, WVarint 7)], AName ''n'']]"

theorem dag_call_round_trip_witness:
  "parseDagCall (EncodeToString (enc_call demo_call)) = Some (''withExec'', [(''args'', [''go'', ''build''])])"
proof -
  have "list_all call_ok demo_call"
    by (simp add: demo_call_def field_ok_def skipped_def enc_msg_def enc_field_def enc_varint.simps)
  moreover have "call_name demo_call = ''withExec''" "call_args demo_call [] = [(''args'', [''go'', ''build''])]" by code_simp+
  ultimately show ?thesis using dag_call_round_trip [of demo_call] by simp
qed

end
