(* ===== verification/Exec_Info.thy ===== *)
theory Exec_Info
  imports Span_Tree Dag_Call
begin

text \<open>
  The view of what a span ran (\<^verbatim>\<open>src/internal/service/exec_info.go\<close>): the command, its environment with the secrets left out, and
  the exit code, from the attributes and the events of the span. \<^verbatim>\<open>json.Unmarshal\<close> into a list of strings is a parameter \<open>um\<close>,
  \<^term>\<open>None\<close> for its error; strings are bytes, and the truncation of a value goes back to the end of a UTF-8 encoding as
  \<^verbatim>\<open>utf8.DecodeLastRuneInString\<close> finds it. \<^verbatim>\<open>strings.ToUpper\<close> and \<^verbatim>\<open>strings.ToLower\<close> are those of ASCII.
\<close>

type_synonym unmarshal = "string \<Rightarrow> string list option"

definition maxExecArgv :: nat where "maxExecArgv = 256"
definition maxExecEnv :: nat where "maxExecEnv = 200"
definition maxExecValueLen :: nat where "maxExecValueLen = 4096"

definition ellipsis :: string where
  "ellipsis = [CHR 0xE2, CHR 0x80, CHR 0xA6]"

definition argv_keys :: "string list" where
  "argv_keys = [''dagger.io/exec.args'', ''process.command_args'', ''wcprof.exec.argv'', ''dagger.io/exec.argv'']"
definition cwd_keys :: "string list" where "cwd_keys = [''dagger.io/exec.cwd'', ''process.cwd'']"
definition user_keys :: "string list" where "user_keys = [''dagger.io/exec.user'', ''process.owner'']"
definition env_keys :: "string list" where "env_keys = [''dagger.io/exec.env'']"
definition secretEnv_keys :: "string list" where "secretEnv_keys = [''dagger.io/exec.secret.env'']"
definition exitCode_keys :: "string list" where "exitCode_keys = [''dagger.io/exec.exitCode'', ''exit.code'']"
definition opKind_keys :: "string list" where "opKind_keys = [''dagger.io/cache.type'', ''wcprof.op.kind'']"
definition call_keys :: "string list" where "call_keys = [''dagger.io/dag.call'']"

definition execNameMarkers :: "string list" where
  "execNameMarkers = [''exec'', ''publish'', ''push'', ''export'', ''import'', ''processrun'']"

section \<open>Small helpers\<close>

text \<open>The first result of a list of attempts, in order: the \<^verbatim>\<open>for\<close> loops that return from their body.\<close>

fun first_some :: "('a \<Rightarrow> 'b option) \<Rightarrow> 'a list \<Rightarrow> 'b option" where
  "first_some f [] = None"
| "first_some f (x # xs) = (case f x of Some y \<Rightarrow> Some y | None \<Rightarrow> first_some f xs)"

definition firstAttr :: "attrs \<Rightarrow> string list \<Rightarrow> string" where
  "firstAttr as keys =
    (case first_some (\<lambda>key. let v = attr_or_empty as key in if v \<noteq> [] then Some v else None) keys of Some v \<Rightarrow> v | None \<Rightarrow> [])"

definition decodeArgv :: "unmarshal \<Rightarrow> string \<Rightarrow> string list" where
  "decodeArgv um raw = (case um raw of Some argv \<Rightarrow> argv | None \<Rightarrow> [])"

definition capArgv :: "string list \<Rightarrow> string list" where
  "capArgv argv = (if length argv \<le> maxExecArgv then argv else take (maxExecArgv - 1) argv @ [ellipsis])"

definition firstString :: "string list \<Rightarrow> string" where
  "firstString values = (if length values = 0 then [] else hd values)"

definition upper_char :: "char \<Rightarrow> char" where
  "upper_char c = (if char_in CHR ''a'' CHR ''z'' c then char_of (of_char c - (32 :: nat)) else c)"

definition to_upper :: "string \<Rightarrow> string" where
  "to_upper s = map upper_char s"

definition isSecretName :: "string \<Rightarrow> bool" where
  "isSecretName name \<longleftrightarrow> (\<exists>marker \<in> set [''TOKEN'', ''SECRET'', ''PASSWORD'', ''KEY'', ''AUTH'']. contains (to_upper name) marker)"

text \<open>The bytes of one well-formed UTF-8 encoding.\<close>

definition cont_byte :: "char \<Rightarrow> bool" where
  "cont_byte c \<longleftrightarrow> char_in CHR 0x80 CHR 0xBF c"

fun utf8_rune :: "string \<Rightarrow> bool" where
  "utf8_rune [a] \<longleftrightarrow> char_in CHR 0x00 CHR 0x7F a"
| "utf8_rune [a, b] \<longleftrightarrow> char_in CHR 0xC2 CHR 0xDF a \<and> cont_byte b"
| "utf8_rune [a, b, c] \<longleftrightarrow> cont_byte c \<and>
     (a = CHR 0xE0 \<and> char_in CHR 0xA0 CHR 0xBF b \<or> a = CHR 0xED \<and> char_in CHR 0x80 CHR 0x9F b
      \<or> char_in CHR 0xE1 CHR 0xEF a \<and> a \<noteq> CHR 0xED \<and> cont_byte b)"
| "utf8_rune [a, b, c, d] \<longleftrightarrow> cont_byte c \<and> cont_byte d \<and>
     (a = CHR 0xF0 \<and> char_in CHR 0x90 CHR 0xBF b \<or> a = CHR 0xF4 \<and> char_in CHR 0x80 CHR 0x8F b
      \<or> char_in CHR 0xF1 CHR 0xF3 a \<and> cont_byte b)"
| "utf8_rune _ \<longleftrightarrow> False"

definition last_rune_ok :: "string \<Rightarrow> bool" where
  "last_rune_ok s \<longleftrightarrow> list_ex (\<lambda>k. k \<le> length s \<and> utf8_rune (drop (length s - k) s)) [1, 2, 3, 4]"

function trim_rune :: "string \<Rightarrow> string" where
  "trim_rune s = (if s = [] \<or> last_rune_ok s then s else trim_rune (butlast s))"
  by pat_completeness auto

termination by (relation "measure length") auto

declare trim_rune.simps [simp del]

definition capValue :: "string \<Rightarrow> string" where
  "capValue value' = (if length value' \<le> maxExecValueLen then value' else trim_rune (take maxExecValueLen value') @ ellipsis)"

definition envVar :: "string \<Rightarrow> string \<Rightarrow> bool \<Rightarrow> ExecEnvVar" where
  "envVar name value' secret =
    (if secret then \<lparr>evName = name, evValue = [], evIsSecret = True\<rparr>
     else if isSecretName name then \<lparr>evName = name, evValue = ''<redacted>'', evIsSecret = False\<rparr>
     else \<lparr>evName = name, evValue = capValue value', evIsSecret = False\<rparr>)"

definition capEnv :: "ExecEnvVar list \<Rightarrow> ExecEnvVar list" where
  "capEnv env =
    (if length env \<le> maxExecEnv then env
     else take (maxExecEnv - 1) env
       @ [\<lparr>evName = ellipsis, evValue = show_int (int (length env) - int maxExecEnv + 1) @ '' more'', evIsSecret = False\<rparr>])"

section \<open>Command, environment, exit code\<close>

definition parseArgv :: "unmarshal \<Rightarrow> attrs \<Rightarrow> string list" where
  "parseArgv um as =
    (case first_some (\<lambda>key. let raw = attr_or_empty as key; argv = decodeArgv um raw
            in if raw = [] then None else if length argv > 0 then Some (capArgv argv) else None) argv_keys of
       Some argv \<Rightarrow> argv
     | None \<Rightarrow>
    case first_some (\<lambda>key. let raw = attr_or_empty as key
            in if raw = [] then None
               else case parseDagCall raw of
                 None \<Rightarrow> None
               | Some (field, args) \<Rightarrow>
                   if \<not> isExecCallField field then None
                   else case gm_get args ''args'' of
                     Some argv \<Rightarrow> if length argv > 0 then Some (capArgv argv) else None
                   | None \<Rightarrow> None) call_keys of
       Some argv \<Rightarrow> argv
     | None \<Rightarrow> [])"

definition ioOperationArgv :: "attrs \<Rightarrow> string list" where
  "ioOperationArgv as =
    (case first_some (\<lambda>key. let raw = attr_or_empty as key
            in if raw = [] then None
               else case parseDagCall raw of
                 None \<Rightarrow> None
               | Some (field, args) \<Rightarrow>
                   if \<not> isIOOperationField field then None
                   else Some (capArgv (field # (case gm_get args ''address'' of Some vs \<Rightarrow> vs | None \<Rightarrow> [])))) call_keys of
       Some argv \<Rightarrow> argv
     | None \<Rightarrow> [])"

text \<open>\<^verbatim>\<open>strings.Cut(kv, "=")\<close>, and the entries it gives.\<close>

definition env_entry :: "(string \<Rightarrow> bool) \<Rightarrow> string \<Rightarrow> ExecEnvVar option" where
  "env_entry secret kv =
    (let name = takeWhile (\<lambda>c. c \<noteq> CHR ''='') kv; rest = dropWhile (\<lambda>c. c \<noteq> CHR ''='') kv
     in if rest = [] \<or> name = [] then None else Some (envVar name (tl rest) (secret name)))"

definition env_prefix :: string where
  "env_prefix = ''process.environment_variable.''"

definition secret_names :: "unmarshal \<Rightarrow> attrs \<Rightarrow> string list" where
  "secret_names um as = remdups (concat (map (\<lambda>key. decodeArgv um (attr_or_empty as key)) secretEnv_keys))"

definition all_env :: "unmarshal \<Rightarrow> attrs \<Rightarrow> ExecEnvVar list" where
  "all_env um as =
    (let secrets = secret_names um as; secret = (\<lambda>n. n \<in> set secrets);
         declared = concat (map (\<lambda>key. List.map_filter (env_entry secret) (decodeArgv um (attr_or_empty as key))) env_keys);
         names = sort (filter (\<lambda>key. has_prefix key env_prefix \<and> drop (length env_prefix) key \<noteq> []) (map fst as));
         semconv = map (\<lambda>key. let name = drop (length env_prefix) key in envVar name (attr_or_empty as key) (secret name)) names;
         env = declared @ semconv;
         missing = sort (filter (\<lambda>n. n \<notin> evName ` set env) secrets)
     in env @ map (\<lambda>n. \<lparr>evName = n, evValue = [], evIsSecret = True\<rparr>) missing)"

definition parseEnv :: "unmarshal \<Rightarrow> attrs \<Rightarrow> ExecEnvVar list" where
  "parseEnv um as = (let env = all_env um as in if length env = 0 then [] else capEnv env)"

definition callEnv :: "attrs \<Rightarrow> ExecEnvVar list" where
  "callEnv as =
    (case first_some (\<lambda>key. let raw = attr_or_empty as key
            in if raw = [] then None
               else case parseDagCall raw of
                 None \<Rightarrow> None
               | Some (field, args) \<Rightarrow>
                   let arg = (\<lambda>k. firstString (case gm_get args k of Some vs \<Rightarrow> vs | None \<Rightarrow> [])); name = arg ''name''
                   in if name = [] then None
                      else if to_lower field \<in> {''withenvvariable'', ''withenvironmentvariable''}
                        then Some [envVar name (arg ''value'') False]
                      else if to_lower field = ''withsecretvariable'' then Some [\<lparr>evName = name, evValue = [], evIsSecret = True\<rparr>]
                      else None) call_keys of
       Some env \<Rightarrow> env
     | None \<Rightarrow> [])"

definition parseCode :: "string \<Rightarrow> int option" where
  "parseCode raw = (if raw = [] then None else Atoi raw)"

definition parseExitCode :: "StoredSpan \<Rightarrow> int option" where
  "parseExitCode node =
    (case first_some (\<lambda>ev. if seName ev \<noteq> ''Container exited'' then None
            else parseCode (attr_or_empty (seAttributes ev) ''exit.code'')) (spEvents node) of
       Some code \<Rightarrow> Some code
     | None \<Rightarrow> first_some (\<lambda>key. parseCode (attr_or_empty (spAttributes node) key)) exitCode_keys)"

definition normalizeKind :: "string \<Rightarrow> string" where
  "normalizeKind v =
    (let l = to_lower v in
     if l \<in> {''exec'', ''call_exec''} then ''exec'' else if l = ''service_start'' then ''service_start''
     else if l = ''io'' then ''io'' else if l = ''call'' then ''call'' else ''other'')"

definition classifyExecKind :: "StoredSpan \<Rightarrow> string" where
  "classifyExecKind node =
    (case first_some (\<lambda>key. let v = attr_or_empty (spAttributes node) key in if v \<noteq> [] then Some (normalizeKind v) else None) opKind_keys of
       Some k \<Rightarrow> k
     | None \<Rightarrow>
         let name = to_lower (spName node); has = contains name in
         if has ''publish'' \<or> has ''push'' \<or> has ''export'' \<or> has ''import'' then ''io''
         else if has ''service'' \<or> has ''tunnel'' then ''service_start''
         else if has ''exec'' \<or> has ''processrun'' then ''exec''
         else if has ''call'' then ''call''
         else ''other'')"

definition isExecLikeName :: "string \<Rightarrow> bool" where
  "isExecLikeName name \<longleftrightarrow> list_ex (contains (to_lower name)) execNameMarkers"

definition execFromSpan :: "unmarshal \<Rightarrow> StoredSpan \<Rightarrow> ExecInfo option" where
  "execFromSpan um node =
    (let as = spAttributes node;
         argv = (let a = parseArgv um as in if length a = 0 then ioOperationArgv as else a);
         cwd = firstAttr as cwd_keys;
         env = parseEnv um as;
         kind = classifyExecKind node;
         callEnvVars = callEnv as;
         (env', kind') = (if length env = 0 \<and> length callEnvVars > 0 then (callEnvVars, if kind = ''other'' then ''env'' else kind) else (env, kind));
         ec = parseExitCode node
     in if length argv = 0 \<and> cwd = [] \<and> length env' = 0 \<and> ec = None \<and> \<not> isExecLikeName (spName node) then None
        else Some \<lparr>eiCommand = (if length argv > 0 then hd argv else []), eiArgs = argv, eiCwd = cwd,
          eiUser = firstAttr as user_keys, eiEnv = env', eiExitCode = ec, eiKind = kind'\<rparr>)"

section \<open>Secrets\<close>

lemma envVar_simps [simp]:
  "evName (envVar n v b) = n" "evIsSecret (envVar n v b) = b"
  "b \<Longrightarrow> evValue (envVar n v b) = []"
  by (simp_all add: envVar_def)

text \<open>An entry that keeps the secrets \<open>S\<close> hidden.\<close>

definition hides :: "string set \<Rightarrow> ExecEnvVar \<Rightarrow> bool" where
  "hides S e \<longleftrightarrow> (evName e \<in> S \<longrightarrow> evIsSecret e) \<and> (evIsSecret e \<longrightarrow> evValue e = [])
     \<and> (isSecretName (evName e) \<longrightarrow> evValue e \<in> {[], ''<redacted>''})"

lemma envVar_hides: "hides S (envVar n v b)" if "n \<in> S \<Longrightarrow> b"
  using that by (auto simp: hides_def envVar_def)

lemma env_entry_hides: "env_entry (\<lambda>n. n \<in> S) kv = Some e \<Longrightarrow> hides S e"
  by (auto simp: env_entry_def Let_def split: if_splits intro: envVar_hides)

lemma all_env_hides: "\<forall>e \<in> set (all_env um as). hides (set (secret_names um as)) e"
  by (auto simp: all_env_def Let_def List.map_filter_def intro: env_entry_hides envVar_hides) (simp add: hides_def)

lemma all_env_complete: "set (secret_names um as) \<subseteq> evName ` set (all_env um as)"
proof -
  obtain env where "all_env um as = env @ map (\<lambda>n. \<lparr>evName = n, evValue = [], evIsSecret = True\<rparr>)
      (sort (filter (\<lambda>n. n \<notin> evName ` set env) (secret_names um as)))"
    unfolding all_env_def Let_def by blast
  moreover have "n \<in> evName ` set env \<or> n \<in> set (filter (\<lambda>n. n \<notin> evName ` set env) (secret_names um as))"
    if "n \<in> set (secret_names um as)" for n using that by simp
  ultimately show ?thesis by (force simp: image_Un)
qed

lemma not_secret_ellipsis: "\<not> isSecretName ellipsis"
  by code_simp

lemma capEnv_in: "e \<in> set (capEnv env) \<Longrightarrow> e \<in> set env \<or> evName e = ellipsis \<and> \<not> evIsSecret e"
  by (auto simp: capEnv_def split: if_splits dest: in_set_takeD)

lemma parseEnv_in: "e \<in> set (parseEnv um as) \<Longrightarrow> e \<in> set (all_env um as) \<or> evName e = ellipsis \<and> \<not> evIsSecret e"
  by (auto simp: parseEnv_def Let_def dest: capEnv_in split: if_splits)

lemma first_some_Some: "first_some f xs = Some y \<Longrightarrow> \<exists>x \<in> set xs. f x = Some y"
  by (induction xs) (auto split: option.splits)

lemma callEnv_one: "callEnv as = [] \<or> (\<exists>n v b. callEnv as = [envVar n v b])"
proof -
  have "\<exists>n v b. \<lparr>evName = m, evValue = [], evIsSecret = True\<rparr> = envVar n v b" for m
    by (intro exI [of _ m] exI [of _ "[]"] exI [of _ True]) (simp add: envVar_def)
  then show ?thesis unfolding callEnv_def call_keys_def Let_def by (auto split: option.splits if_splits prod.splits)
qed

lemma callEnv_in: "e \<in> set (callEnv as) \<Longrightarrow> hides {} e"
  using callEnv_one [of as] by (auto intro: envVar_hides)

lemma execFromSpan_env:
  assumes "execFromSpan um node = Some info"
  shows "eiEnv info = parseEnv um (spAttributes node) \<or> parseEnv um (spAttributes node) = [] \<and> eiEnv info = callEnv (spAttributes node)"
  using assms by (auto simp: execFromSpan_def Let_def split: if_splits prod.splits)

lemma parseEnv_empty: "parseEnv um as = [] \<Longrightarrow> secret_names um as = []"
  using all_env_complete [of um as] by (auto simp: parseEnv_def capEnv_def Let_def split: if_splits)

text \<open>
  C14: the view of a command keeps secrets out. An environment entry whose name the span declares as secret carries no value and
  is marked, and an entry whose name looks like that of a secret carries at most the word that stands for it; this holds for the
  environment attributes of the engine, for those of the semantic conventions, and for the variables of a call. A declared secret is
  listed, unless the list is cut at its limit.
\<close>

theorem secrets_not_shown:
  assumes "execFromSpan um node = Some info"
  shows "(\<forall>e \<in> set (eiEnv info). (evName e \<in> set (secret_names um (spAttributes node)) \<and> evName e \<noteq> ellipsis \<longrightarrow> evIsSecret e)
      \<and> (evIsSecret e \<longrightarrow> evValue e = []) \<and> (isSecretName (evName e) \<longrightarrow> evValue e \<in> {[], ''<redacted>''}))
    \<and> (length (all_env um (spAttributes node)) \<le> maxExecEnv
        \<longrightarrow> (\<forall>n \<in> set (secret_names um (spAttributes node)). \<exists>e \<in> set (eiEnv info). evName e = n \<and> evIsSecret e))"
proof (intro conjI ballI impI)
  let ?as = "spAttributes node" let ?S = "set (secret_names um ?as)"
  consider "eiEnv info = parseEnv um ?as" | "?S = {}" "eiEnv info = callEnv ?as"
    using execFromSpan_env [OF assms] parseEnv_empty [of um ?as] by fastforce
  note cs = this
  {
    fix e assume "e \<in> set (eiEnv info)"
    with cs have "hides ?S e \<or> evName e = ellipsis \<and> \<not> evIsSecret e"
    proof cases
      case 1
      with \<open>e \<in> set (eiEnv info)\<close> show ?thesis using parseEnv_in [of e um ?as] all_env_hides [of um ?as] by auto
    next
      case 2
      with \<open>e \<in> set (eiEnv info)\<close> show ?thesis using callEnv_in [of e ?as] by simp
    qed
    then have "(evName e \<in> ?S \<and> evName e \<noteq> ellipsis \<longrightarrow> evIsSecret e) \<and> (evIsSecret e \<longrightarrow> evValue e = [])
        \<and> (isSecretName (evName e) \<longrightarrow> evValue e \<in> {[], ''<redacted>''})"
      using not_secret_ellipsis by (auto simp: hides_def)
  }
  then show "evName e \<in> ?S \<and> evName e \<noteq> ellipsis \<Longrightarrow> evIsSecret e" "evIsSecret e \<Longrightarrow> evValue e = []"
    "isSecretName (evName e) \<Longrightarrow> evValue e \<in> {[], ''<redacted>''}" if "e \<in> set (eiEnv info)" for e
    using that by blast+
  fix n assume short: "length (all_env um ?as) \<le> maxExecEnv" and n: "n \<in> ?S"
  then obtain e where e: "e \<in> set (all_env um ?as)" "evName e = n" using all_env_complete [of um ?as] by blast
  then have "evIsSecret e" using all_env_hides [of um ?as] n by (auto simp: hides_def)
  moreover have "eiEnv info = all_env um ?as"
    using cs n short e by cases (auto simp: parseEnv_def capEnv_def Let_def)
  ultimately show "\<exists>e \<in> set (eiEnv info). evName e = n \<and> evIsSecret e" using e by auto
qed

section \<open>Bounds\<close>

lemma trim_rune_length: "length (trim_rune s) \<le> length s"
  by (induction s rule: trim_rune.induct) (subst trim_rune.simps, auto)

lemma capValue_length: "length (capValue v) \<le> maxExecValueLen + 3"
  using trim_rune_length [of "take maxExecValueLen v"] by (simp add: capValue_def ellipsis_def maxExecValueLen_def)

lemma capArgv_length: "length (capArgv argv) \<le> maxExecArgv"
  by (simp add: capArgv_def maxExecArgv_def)

lemma envVar_length: "length (evValue (envVar n v b)) \<le> maxExecValueLen + 3"
  using capValue_length [of v] by (simp add: envVar_def maxExecValueLen_def)

lemma all_env_length: "\<forall>e \<in> set (all_env um as). length (evValue e) \<le> maxExecValueLen + 3"
  using envVar_length by (auto simp: all_env_def Let_def List.map_filter_def env_entry_def split: if_splits)

lemma callEnv_length: "length (callEnv as) \<le> 1 \<and> (\<forall>e \<in> set (callEnv as). length (evValue e) \<le> maxExecValueLen + 3)"
  using callEnv_one [of as] envVar_length by auto

lemma parse_args_length: "length (parseArgv um as) \<le> maxExecArgv" "length (ioOperationArgv as) \<le> maxExecArgv"
  using capArgv_length
  by (auto simp: parseArgv_def ioOperationArgv_def Let_def split: option.splits if_splits prod.splits dest!: first_some_Some)

text \<open>
  The size of the view is bounded, whatever the span carries: the arguments, the entries of the environment and the bytes of each
  value (the entry that says how many are left out apart).
\<close>

theorem exec_info_bounded:
  assumes "execFromSpan um node = Some info"
  shows "length (eiArgs info) \<le> 256 \<and> length (eiEnv info) \<le> 200
    \<and> (\<forall>e \<in> set (eiEnv info). evName e \<noteq> ellipsis \<longrightarrow> length (evValue e) \<le> 4099)"
proof -
  have "eiArgs info = parseArgv um (spAttributes node) \<or> eiArgs info = ioOperationArgv (spAttributes node)"
    using assms by (auto simp: execFromSpan_def Let_def split: if_splits prod.splits)
  then have "length (eiArgs info) \<le> 256" using parse_args_length(1) [of um "spAttributes node"] parse_args_length(2) [of "spAttributes node"] by (auto simp: maxExecArgv_def)
  moreover have "length (parseEnv um (spAttributes node)) \<le> 200" by (simp add: parseEnv_def capEnv_def maxExecEnv_def Let_def)
  moreover have "evName e \<noteq> ellipsis \<longrightarrow> length (evValue e) \<le> 4099" if "e \<in> set (parseEnv um (spAttributes node))" for e
    using parseEnv_in [OF that] all_env_length [of um "spAttributes node"] by (auto simp: maxExecValueLen_def)
  ultimately show ?thesis
    using execFromSpan_env [OF assms] callEnv_length [of "spAttributes node"] by (auto simp: maxExecValueLen_def)
qed

section \<open>The walk over a trace\<close>

lemma span_exec [simp]:
  "classifyExecKind (n\<lparr>spExec := e\<rparr>) = classifyExecKind n" "parseExitCode (n\<lparr>spExec := e\<rparr>) = parseExitCode n"
  by (simp_all add: classifyExecKind_def parseExitCode_def split: option.split)

lemma execFromSpan_exec [simp]: "execFromSpan um (n\<lparr>spExec := e\<rparr>) = execFromSpan um n"
  by (simp add: execFromSpan_def)

lemma reconstruct_root:
  assumes "reconstruct cd tid raw = (info, nodes)" "tiRootSpan info = Some r"
  shows "gm_get nodes r \<noteq> None"
proof -
  have rec: "reconstruct_spans tid (extractSpans cd raw) = (info, nodes)" using assms(1) by (simp add: reconstruct_def)
  have ch: "\<forall>s \<in> set (extractSpans cd raw). spChildren s = []" using extractSpans_nodes by blast
  obtain order where "\<And>i. gm_get nodes i = None \<longleftrightarrow> i \<notin> set order"
    "tiRootSpan info = (case pickRoot nodes (filter (\<lambda>c. gm_get nodes (parent_of nodes c) = None) order) of
       Some r \<Rightarrow> Some r | None \<Rightarrow> pickRoot nodes order)"
    by (rule reconstruct_facts [OF rec ch]) blast
  with assms(2) show ?thesis
    by (auto simp: earliest_def split: option.splits dest!: pickRoot_earliest)
qed

text \<open>
  C13: the walk that derives what a trace ran. It returns exactly when the root is not its own ancestor; in particular whenever some
  span of the trace has no parent in it, which is every trace that has its first span. It has then looked at the root and at
  everything below it, once each, and has changed nothing else.
\<close>

theorem exec_walk_returns:
  assumes "reconstruct cd tid raw = (info, nodes)"
  shows "((\<exists>nodes'. DeriveExec (execFromSpan um) (tiRootSpan info) nodes = Some nodes')
        \<longleftrightarrow> (\<forall>r. tiRootSpan info = Some r \<longrightarrow> \<not> own_ancestor nodes r))
    \<and> ((\<exists>q. gm_get nodes q \<noteq> None \<and> gm_get nodes (parent_of nodes q) = None)
        \<longrightarrow> (\<exists>r nodes'. tiRootSpan info = Some r \<and> DeriveExec (execFromSpan um) (tiRootSpan info) nodes = Some nodes'
              \<and> walked (execFromSpan um) (below nodes [r]) nodes nodes'))"
proof -
  have rec: "reconstruct_spans tid (extractSpans cd raw) = (info, nodes)" using assms by (simp add: reconstruct_def)
  have ch: "\<forall>s \<in> set (extractSpans cd raw). spChildren s = []" using extractSpans_nodes by blast
  have iff: "(\<exists>nodes'. DeriveExec (execFromSpan um) (tiRootSpan info) nodes = Some nodes')
      \<longleftrightarrow> (\<forall>r. tiRootSpan info = Some r \<longrightarrow> \<not> own_ancestor nodes r)"
    by (rule DeriveExec_iff [OF rec ch]) simp
  have "\<exists>r nodes'. tiRootSpan info = Some r \<and> DeriveExec (execFromSpan um) (tiRootSpan info) nodes = Some nodes'
      \<and> walked (execFromSpan um) (below nodes [r]) nodes nodes'"
    if q: "gm_get nodes q \<noteq> None" "gm_get nodes (parent_of nodes q) = None" for q
  proof -
    obtain base order where o: "\<And>i. gm_get nodes i = None \<longleftrightarrow> i \<notin> set order"
      "tiRootSpan info = (case pickRoot nodes (filter (\<lambda>c. gm_get nodes (parent_of nodes c) = None) order) of
         Some r \<Rightarrow> Some r | None \<Rightarrow> pickRoot nodes order)"
      by (rule reconstruct_facts [OF rec ch]) blast
    let ?free = "filter (\<lambda>c. gm_get nodes (parent_of nodes c) = None) order"
    have "q \<in> set ?free" using q o(1) by auto
    then have "?free \<noteq> []" by (metis empty_iff empty_set)
    then obtain r where r: "pickRoot nodes ?free = Some r" using pickRoot_None by blast
    then have "gm_get nodes (parent_of nodes r) = None" using pickRoot_earliest [OF r] by (simp add: earliest_def)
    then have "\<not> own_ancestor nodes r" by (rule parentless_not_own_ancestor [OF rec ch])
    moreover have root_r: "tiRootSpan info = Some r" using o(2) r by simp
    ultimately obtain nodes' where n: "DeriveExec (execFromSpan um) (tiRootSpan info) nodes = Some nodes'" using iff by auto
    then have "DeriveExecs (execFromSpan um) [r] nodes = Some nodes'" by (simp add: DeriveExec_def root_r)
    from DeriveExecs_effect [OF execFromSpan_exec this] root_r n show ?thesis by (auto simp: derive_ok_def)
  qed
  with iff show ?thesis by blast
qed

text \<open>
  A trace of spans that name themselves as their parents. The fallback of the reconstruction picks one of them as the root, so that
  the trace can be shown; the walk over it does not return.
\<close>

theorem self_parented_never_returns:
  assumes "extractSpans cd raw \<noteq> []" "\<forall>s \<in> set (extractSpans cd raw). spParentSpanID s = spSpanID s"
  shows "\<exists>info nodes r. reconstruct cd tid raw = (info, nodes) \<and> tiRootSpan info = Some r
    \<and> DeriveExec (execFromSpan um) (tiRootSpan info) nodes = None"
proof -
  obtain info nodes where rec: "reconstruct cd tid raw = (info, nodes)" by fastforce
  have rec': "reconstruct_spans tid (extractSpans cd raw) = (info, nodes)" using rec by (simp add: reconstruct_def)
  have ch: "\<forall>s \<in> set (extractSpans cd raw). spChildren s = []" using extractSpans_nodes by blast
  obtain r where r: "tiRootSpan info = Some r" using root_None [OF rec' ch] assms(1) by auto
  obtain n where n: "gm_get nodes r = Some n" using reconstruct_root [OF rec r] by auto
  let ?rs = "filter (\<lambda>s. spSpanID s = r) (extractSpans cd raw)"
  have "gm_get (snd (reconstruct cd tid raw)) r = Some n" using n rec by simp
  then have "?rs \<noteq> []" "spParentSpanID n = first_set [] (map spParentSpanID ?rs)" using merged_node by auto
  moreover have "map spParentSpanID ?rs = map (\<lambda>_. r) ?rs" using assms(2) by auto
  moreover have "r \<noteq> []" using \<open>?rs \<noteq> []\<close> extractSpans_nodes by (auto simp: filter_empty_conv)
  ultimately have "spParentSpanID n = r" by (cases ?rs) (simp_all add: first_set_Cons)
  then have "(r, r) \<in> child_rel nodes" using child_rel_exact [OF rec' ch] n by (simp add: parent_of_def)
  then have "own_ancestor nodes r" by (auto simp: own_ancestor_def)
  then have "\<nexists>nodes'. DeriveExec (execFromSpan um) (tiRootSpan info) nodes = Some nodes'"
    using DeriveExec_iff [OF rec' ch, of "execFromSpan um"] r by simp
  then show ?thesis using rec r by auto
qed

section \<open>Examples\<close>

text \<open>A decoder of one word, and a span that declares the secret \<open>PIN\<close> and the variable \<open>X_TOKEN\<close>.\<close>

definition demo_um :: unmarshal where
  "demo_um raw = (if raw = [] then None else Some [raw])"

definition demo_node :: StoredSpan where
  "demo_node = \<lparr>spSpanID = ''a'', spParentSpanID = [], spTraceID = [], spName = ''exec'', spStatus = ''running'', spStartTime = 0,
     spDuration = 0, spDurationMS = 0, spAttributes = [(''dagger.io/exec.secret.env'', ''PIN''), (''dagger.io/exec.env'', ''PIN=1234''),
       (''process.environment_variable.X_TOKEN'', ''abc'')], spChildren = [], spEvents = [], spExec = None\<rparr>"

lemma demo_exec: "map_option eiEnv (execFromSpan demo_um demo_node) = Some
    [\<lparr>evName = ''PIN'', evValue = [], evIsSecret = True\<rparr>, \<lparr>evName = ''X_TOKEN'', evValue = ''<redacted>'', evIsSecret = False\<rparr>]"
  by code_simp

theorem secrets_not_shown_witness:
  "\<exists>info. execFromSpan demo_um demo_node = Some info \<and> length (eiEnv info) = 2
     \<and> (\<forall>e \<in> set (eiEnv info). isSecretName (evName e) \<longrightarrow> evValue e \<in> {[], ''<redacted>''})"
proof -
  obtain info where info: "execFromSpan demo_um demo_node = Some info" using demo_exec by auto
  then have "length (eiEnv info) = 2" using demo_exec by simp
  with info secrets_not_shown [OF info] show ?thesis by blast
qed

theorem exec_info_bounded_witness: "\<exists>info. execFromSpan demo_um demo_node = Some info \<and> length (eiArgs info) \<le> 256"
proof -
  obtain info where info: "execFromSpan demo_um demo_node = Some info" using demo_exec by auto
  with exec_info_bounded [OF info] show ?thesis by blast
qed

theorem exec_walk_returns_witness:
  "\<exists>nodes'. DeriveExec (execFromSpan demo_um) (tiRootSpan (fst (reconstruct demo_codec ''t'' (demo_jtrace demo_spans))))
     (snd (reconstruct demo_codec ''t'' (demo_jtrace demo_spans))) = Some nodes'"
proof -
  obtain info nodes where rec: "reconstruct demo_codec ''t'' (demo_jtrace demo_spans) = (info, nodes)" by (metis surj_pair)
  have "map_option spParentSpanID (gm_get (snd (reconstruct demo_codec ''t'' (demo_jtrace demo_spans))) ''r'') = Some []" by code_simp
  then have "gm_get nodes ''r'' \<noteq> None" "gm_get nodes (parent_of nodes ''r'') = None"
    using demo_reconstruct(3) by (auto simp: rec parent_of_def)
  with exec_walk_returns [OF rec, of demo_um] show ?thesis by (auto simp: rec)
qed

theorem self_parented_never_returns_witness:
  "\<exists>info nodes r. reconstruct demo_codec ''t'' (demo_jtrace [demo_jspan ''a'' ''a'' []]) = (info, nodes) \<and> tiRootSpan info = Some r
     \<and> DeriveExec (execFromSpan demo_um) (tiRootSpan info) nodes = None"
proof (rule self_parented_never_returns)
  have "map spSpanID (extractSpans demo_codec (demo_jtrace [demo_jspan ''a'' ''a'' []])) = [''a'']"
    "list_all (\<lambda>s. spParentSpanID s = spSpanID s) (extractSpans demo_codec (demo_jtrace [demo_jspan ''a'' ''a'' []]))" by code_simp+
  then show "extractSpans demo_codec (demo_jtrace [demo_jspan ''a'' ''a'' []]) \<noteq> []"
    "\<forall>s \<in> set (extractSpans demo_codec (demo_jtrace [demo_jspan ''a'' ''a'' []])). spParentSpanID s = spSpanID s"
    by (auto simp: list_all_iff)
qed

end
