(* ===== verification/Trace_Handlers.thy ===== *)
theory Trace_Handlers
  imports Provisioning Exec_Info FSM_Reads
begin

text \<open>
  The handlers of the pipeline views, \<^verbatim>\<open>src/internal/handler/traces.go\<close> and \<^verbatim>\<open>handleTracesURL\<close> of \<^verbatim>\<open>server.go\<close>: the list of the
  traces of a caller, one trace with its spans and commands, and its link (\<^verbatim>\<open>src/internal/domain/pipeline_url.go\<close>). They put together
  the identity of a request, the rows of the replicated store, the span tree and the view of the commands. The
  answer of Tempo, the JSON decoder and \<^verbatim>\<open>url.Parse\<close> are arguments; a handler that does not return is \<open>None\<close>.
\<close>

section \<open>Links\<close>

record ParsedURL =
  puScheme :: string
  puHost :: string
  puUser :: bool

definition pipelineViewPath :: string where "pipelineViewPath = ''/pipelines/''"

definition PipelineViewURL :: "(string \<Rightarrow> ParsedURL option) \<Rightarrow> string \<Rightarrow> string \<Rightarrow> (error, string) result" where
  "PipelineViewURL parseURL base traceID =
    (if base = [] then Inl ErrValidation
     else case parseURL base of
       None \<Rightarrow> Inl (ErrOther ''parse pipeline url base'')
     | Some u \<Rightarrow>
         if puScheme u \<noteq> ''http'' \<and> puScheme u \<noteq> ''https'' then Inl ErrValidation
         else if puHost u = [] then Inl ErrValidation
         else if puUser u then Inl ErrValidation
         else if traceID = [] \<or> \<not> name_re 0 127 traceID then Inl ErrValidation
         else Inr (puScheme u @ ''://'' @ puHost u @ pipelineViewPath @ traceID))"

definition pipelineViewURL :: "(string \<Rightarrow> ParsedURL option) \<Rightarrow> string \<Rightarrow> string \<Rightarrow> string option" where
  "pipelineViewURL parseURL base traceID = (case PipelineViewURL parseURL base traceID of Inl _ \<Rightarrow> None | Inr u \<Rightarrow> Some u)"

section \<open>The list\<close>

definition list_filter :: "Identity \<Rightarrow> Request \<Rightarrow> TraceFilter" where
  "list_filter ident rq =
    (let f = \<lparr>fGroupIDs = [], fIncludeUnassigned = False, fUnassignedOnly = False, fUserID = [],
           fCIRepo = trim_space (Query rq ''ci_repo''), fUsername = trim_space (Query rq ''user''),
           fLimit = clampLimitParam (Query rq ''limit'')\<rparr>
     in if IsAdmin (Some ident) then
          f\<lparr>fIncludeUnassigned := True, fUnassignedOnly := (''unassigned'' \<in> set (PeekAll rq ''group_id'')),
            fGroupIDs := filter (\<lambda>gid. gid \<noteq> ''unassigned'') (PeekAll rq ''group_id'')\<rparr>
        else f\<lparr>fGroupIDs := iGroupIDs ident, fUserID := iUserID ident\<rparr>)"

definition handleTracesList :: "AuthEnv \<Rightarrow> string \<Rightarrow> Request \<Rightarrow> reval_cache \<Rightarrow> RaftStore \<Rightarrow> TraceListResult list guard_result" where
  "handleTracesList env accessName rq cache rs =
    (case resolveIdentity env accessName rq cache rs of
       None \<Rightarrow> None
     | Some (Inl e, cache, rs) \<Rightarrow> Some (Inl e, cache, rs)
     | Some (Inr ident, cache, rs) \<Rightarrow> Some (Inr (TraceMetaRepo_List (list_filter ident rq) rs), cache, rs))"

section \<open>One trace\<close>

definition authorizeTraceRequest :: "AuthEnv \<Rightarrow> string \<Rightarrow> Request \<Rightarrow> reval_cache \<Rightarrow> RaftStore \<Rightarrow> string guard_result" where
  "authorizeTraceRequest env accessName rq cache rs =
    (case resolveIdentity env accessName rq cache rs of
       None \<Rightarrow> None
     | Some (Inl e, cache, rs) \<Rightarrow> Some (Inl e, cache, rs)
     | Some (Inr ident, cache, rs) \<Rightarrow>
         (case traceIDParam rq of
            Inl e \<Rightarrow> Some (Inl e, cache, rs)
          | Inr traceID \<Rightarrow>
              (case authorizeTrace (Some ident) traceID rs of
                 Some e \<Rightarrow> Some (Inl e, cache, rs)
               | None \<Rightarrow> Some (Inr traceID, cache, rs))))"

text \<open>The stored row fills what the spans left empty, and promotes a running status to a final one.\<close>

definition enrich :: "TraceMeta \<Rightarrow> RaftStore \<Rightarrow> StoredTrace \<Rightarrow> StoredTrace" where
  "enrich mt rs trace =
    (let t = trace\<lparr>tiVersion := (if tiVersion trace = [] then tmVersion mt else tiVersion trace),
           tiCIProvider := (if tiCIProvider trace = [] then tmCIProvider mt else tiCIProvider trace),
           tiCIRepo := (if tiCIRepo trace = [] then (if tmCIRepo mt = [] then tmProjectName mt else tmCIRepo mt) else tiCIRepo trace),
           tiStatus := (if (tiStatus trace = ''running'' \<or> tiStatus trace = []) \<and> (tmStatus mt = ''success'' \<or> tmStatus mt = ''failed'')
                        then tmStatus mt else tiStatus trace)\<rparr>;
         t = (if tiDurationMS t = 0 \<and> tmDurationMS mt \<noteq> 0
              then t\<lparr>tiDurationMS := tmDurationMS mt, tiDuration := wrap64 (tmDurationMS mt * 1000000)\<rparr> else t);
         t = t\<lparr>tiUserID := tmUserID mt\<rparr>
     in if tmUserID mt \<noteq> [] then
          (case UserRepo_Get (tmUserID mt) rs of Inr u \<Rightarrow> t\<lparr>tiUsername := uUsername u\<rparr> | Inl _ \<Rightarrow> t)
        else t)"

definition handleTracesDetail ::
    "unmarshal \<Rightarrow> codec \<Rightarrow> (string \<Rightarrow> (error, jmap option) result) \<Rightarrow> (string \<Rightarrow> string option) \<Rightarrow> AuthEnv \<Rightarrow> string \<Rightarrow> Request
      \<Rightarrow> reval_cache \<Rightarrow> RaftStore \<Rightarrow> (StoredTrace \<times> span_nodes) guard_result" where
  "handleTracesDetail um cd tempo viewURL env accessName rq cache rs =
    (case authorizeTraceRequest env accessName rq cache rs of
       None \<Rightarrow> None
     | Some (Inl e, cache, rs) \<Rightarrow> Some (Inl e, cache, rs)
     | Some (Inr traceID, cache, rs) \<Rightarrow>
         (case GetTrace cd tempo traceID of
            Inl _ \<Rightarrow> Some (Inl (writeError 404 ''trace not found''), cache, rs)
          | Inr (trace, nodes) \<Rightarrow>
              let trace = (case TraceMetaRepo_Get traceID rs of Inr mt \<Rightarrow> enrich mt rs trace | Inl _ \<Rightarrow> trace);
                  trace = (case viewURL traceID of Some u \<Rightarrow> trace\<lparr>tiURL := u\<rparr> | None \<Rightarrow> trace)
              in case DeriveExec (execFromSpan um) (tiRootSpan trace) nodes of
                   None \<Rightarrow> None
                 | Some nodes \<Rightarrow> Some (Inr (trace, nodes), cache, rs)))"

definition handleTracesURL ::
    "(string \<Rightarrow> string option) \<Rightarrow> AuthEnv \<Rightarrow> string \<Rightarrow> Request \<Rightarrow> reval_cache \<Rightarrow> RaftStore \<Rightarrow> (string \<times> string) guard_result" where
  "handleTracesURL viewURL env accessName rq cache rs =
    (case authorizeTraceRequest env accessName rq cache rs of
       None \<Rightarrow> None
     | Some (Inl e, cache, rs) \<Rightarrow> Some (Inl e, cache, rs)
     | Some (Inr traceID, cache, rs) \<Rightarrow>
         if \<not> validTraceID traceID then Some (Inl (writeError 400 ''invalid trace ID''), cache, rs)
         else (case viewURL traceID of
             None \<Rightarrow> Some (Inl (writeError 500 ''pipeline url misconfigured''), cache, rs)
           | Some u \<Rightarrow> Some (Inr (traceID, u), cache, rs)))"

section \<open>Facts\<close>

lemma authorizeTraceRequest_Inr:
  assumes "authorizeTraceRequest env a rq cache rs = Some (Inr tid, cache', rs')"
  obtains ident where "resolveIdentity env a rq cache rs = Some (Inr ident, cache', rs')" "traceIDParam rq = Inr tid"
    "authorizeTrace (Some ident) tid rs' = None"
  using assms by (auto simp: authorizeTraceRequest_def split: option.splits prod.splits sum.splits)

text \<open>Who may open a trace: its owner, a member of its group, and an administrator.\<close>

definition may_open :: "Identity \<Rightarrow> string \<Rightarrow> RaftStore \<Rightarrow> bool" where
  "may_open ident tid rs \<longleftrightarrow> iRole ident = RoleAdmin
     \<or> (\<exists>m. gm_get (traces (fsm_state rs)) tid = Some m
          \<and> (tmUserID m \<noteq> [] \<and> tmUserID m = iUserID ident \<or> tmGroupID m \<noteq> [] \<and> tmGroupID m \<in> set (iGroupIDs ident)))"

lemma authorizeTrace_may_open: "authorizeTrace (Some ident) tid rs = None \<longleftrightarrow> may_open ident tid rs"
  by (auto simp: authorizeTrace_def may_open_def TraceMetaRepo_Get_def readTrace_def read_row_def IsAdmin_def HasGroup_def List.member_iff
      split: option.splits sum.splits if_splits)

lemma enrich_keeps:
  "tiTraceID (enrich m rs t) = tiTraceID t" "tiRootSpan (enrich m rs t) = tiRootSpan t" "tiUserID (enrich m rs t) = tmUserID m"
  "tiStatus (enrich m rs t) = (if (tiStatus t = ''running'' \<or> tiStatus t = []) \<and> terminal (tmStatus m) then tmStatus m else tiStatus t)"
  by (simp_all add: enrich_def terminal_def Let_def split: sum.split)

lemma listed_row:
  assumes "tbl_ok tmTraceID (traces s)" "r \<in> set (listTraces f s)"
  obtains m where "gm_get (traces s) (tmTraceID (trMeta r)) = Some m" "traceMatches f m"
proof -
  from assms(2) have "r \<in> set (rows f s)" by (auto simp: listTraces_rows dest!: in_set_takeD)
  then obtain m where m: "m \<in> set (map snd (traces s))" "trace_row f s m = Some r"
    unfolding rows_def set_map_filter by blast
  then obtain k where "gm_get (traces s) k = Some m" "tmTraceID m = k"
    using assms(1) by (auto simp: tbl_ok_def gm_ok_def)
  moreover have "tmTraceID (trMeta r) = tmTraceID m" "traceMatches f m"
    using row_key_trace(1,2) [OF m(2)] by (simp_all add: row_key_def)
  ultimately show thesis using that by simp
qed

lemma traceMatches_may_open:
  assumes "traceMatches (list_filter ident rq) m" "iUserID ident \<noteq> []" "[] \<notin> set (iGroupIDs ident)" "\<not> IsAdmin (Some ident)"
  shows "tmUserID m = iUserID ident \<or> tmGroupID m \<in> set (iGroupIDs ident)"
  using assms by (auto simp: list_filter_def traceMatches_def Let_def List.member_iff split: if_splits)

text \<open>
  C32: the list of pipelines shows nothing that the caller may not open. Every row that the list handler returns to a request can be
  opened by the same caller: its trace passes the check that the other trace routes make, in the state in which the list was read.
\<close>

theorem listed_traces_can_be_opened:
  assumes "handleTracesList env access rq cache rs = Some (Inr trs, cache', rs')" "r \<in> set trs"
    and "resolveIdentity env access rq cache rs = Some (Inr ident, cache', rs')"
    and "IsAdmin (Some ident) \<or> iUserID ident \<noteq> [] \<and> [] \<notin> set (iGroupIDs ident)"
    and "tbl_ok tmTraceID (traces (fsm_state rs'))"
  shows "authorizeTrace (Some ident) (tmTraceID (trMeta r)) rs' = None"
proof (cases "IsAdmin (Some ident)")
  case True
  then show ?thesis by (simp add: authorizeTrace_may_open may_open_def IsAdmin_def)
next
  case False
  have "r \<in> set (listTraces (list_filter ident rq) (fsm_state rs'))"
    using assms(1,2,3) by (simp add: handleTracesList_def TraceMetaRepo_List_def)
  then obtain m where m: "gm_get (traces (fsm_state rs')) (tmTraceID (trMeta r)) = Some m" "traceMatches (list_filter ident rq) m"
    by (rule listed_row [OF assms(5)])
  with traceMatches_may_open [OF m(2)] assms(4) False show ?thesis by (auto simp: authorizeTrace_may_open may_open_def)
qed

text \<open>
  C33: one trace, shown only to those who may open it. An answer of the detail handler is for the trace of the path, for a caller
  who owns it, is in its group or is an administrator; the commands are those of the walk over the tree of that trace. When the trace has a stored row,
  the answer names the owner of the row, and its status is the one the spans give when that is final, else the stored one when that is final, else
  running: a final status of the spans is shown even when the stored one differs.
\<close>

theorem trace_detail_guarded:
  assumes "handleTracesDetail um cd tempo viewURL env access rq cache rs = Some (Inr (t, nodes), cache', rs')"
  shows "\<exists>ident info base. resolveIdentity env access rq cache rs = Some (Inr ident, cache', rs')
    \<and> traceIDParam rq = Inr (tiTraceID t) \<and> may_open ident (tiTraceID t) rs'
    \<and> GetTrace cd tempo (tiTraceID t) = Inr (info, base) \<and> walked (execFromSpan um) (below base (case tiRootSpan t of None \<Rightarrow> [] | Some r \<Rightarrow> [r])) base nodes
    \<and> (\<forall>m. gm_get (traces (fsm_state rs')) (tiTraceID t) = Some m
         \<longrightarrow> tiUserID t = tmUserID m
           \<and> tiStatus t = (if terminal (tiStatus info) then tiStatus info else if terminal (tmStatus m) then tmStatus m else ''running''))"
proof -
  obtain tid info base where a: "authorizeTraceRequest env access rq cache rs = Some (Inr tid, cache', rs')"
    and g: "GetTrace cd tempo tid = Inr (info, base)"
    and t: "t = (let t = (case TraceMetaRepo_Get tid rs' of Inr mt \<Rightarrow> enrich mt rs' info | Inl _ \<Rightarrow> info)
                 in case viewURL tid of Some u \<Rightarrow> t\<lparr>tiURL := u\<rparr> | None \<Rightarrow> t)"
    and n: "DeriveExec (execFromSpan um) (tiRootSpan t) base = Some nodes"
    using assms by (auto simp: handleTracesDetail_def Let_def split: option.splits prod.splits sum.splits)
  obtain ident where i: "resolveIdentity env access rq cache rs = Some (Inr ident, cache', rs')" "traceIDParam rq = Inr tid"
    "may_open ident tid rs'"
    by (rule authorizeTraceRequest_Inr [OF a]) (use that authorizeTrace_may_open in blast)
  have info: "tiTraceID info = tid" "tiStatus info \<in> {''success'', ''failed'', ''running''}"
    using g by (auto simp: GetTrace_def reconstruct_def reconstruct_spans_def traceStatus_def Let_def split: if_splits sum.splits option.splits prod.splits)
  then have tid: "tiTraceID t = tid" by (simp add: t Let_def enrich_keeps split: option.split sum.split)
  have "walked (execFromSpan um) (below base (case tiRootSpan t of None \<Rightarrow> [] | Some r \<Rightarrow> [r])) base nodes"
  proof (cases "tiRootSpan t")
    case None
    then show ?thesis using n by (simp add: DeriveExec_def walked_def below_def option.map_ident)
  next
    case (Some r)
    with n have "DeriveExecs (execFromSpan um) [r] base = Some nodes" by (simp add: DeriveExec_def)
    from DeriveExecs_effect [OF execFromSpan_exec this] Some show ?thesis by (simp add: derive_ok_def)
  qed
  moreover have "tiUserID t = tmUserID m
      \<and> tiStatus t = (if terminal (tiStatus info) then tiStatus info else if terminal (tmStatus m) then tmStatus m else ''running'')"
    if "gm_get (traces (fsm_state rs')) tid = Some m" for m
  proof -
    have "TraceMetaRepo_Get tid rs' = Inr m" using that by (simp add: TraceMetaRepo_Get_def readTrace_def read_row_def)
    then have "tiUserID t = tmUserID m" "tiStatus t = tiStatus (enrich m rs' info)" by (simp_all add: t Let_def enrich_keeps split: option.split)
    then show ?thesis using info(2) by (auto simp: enrich_keeps terminal_def)
  qed
  ultimately show ?thesis using i g by (simp add: tid)
qed

lemma DeriveExec_reconstruct:
  assumes "reconstruct cd tid raw = (info, nodes)" "tiRootSpan info = Some r" "gm_get nodes (parent_of nodes r) = None"
  shows "\<exists>nodes'. DeriveExec (execFromSpan um) (tiRootSpan info) nodes = Some nodes'"
proof -
  have rec: "reconstruct_spans tid (extractSpans cd raw) = (info, nodes)" using assms(1) by (simp add: reconstruct_def)
  have ch: "\<forall>s \<in> set (extractSpans cd raw). spChildren s = []" using extractSpans_nodes by blast
  show ?thesis using DeriveExec_iff [OF rec ch, of "execFromSpan um"] parentless_not_own_ancestor [OF rec ch assms(3)] assms(2) by simp
qed

section \<open>Examples\<close>

definition demo_list_request :: Request where
  "demo_list_request = demo_request\<lparr>rqParams := [(''traceID'', ''t1'')]\<rparr>"

lemma demo_list_resolve:
  "resolveIdentity (svAuth demo_server) ''access'' demo_list_request [] sample_store = Some (Inr demo_identity, [], demo_raft)"
proof -
  have "bearerFromRequest ''access'' demo_list_request = bearerFromRequest ''access'' demo_request"
    by (simp add: bearerFromRequest_def demo_list_request_def Cookie_def Let_def)
  then show ?thesis using demo_resolve by (simp add: resolveIdentity_def unauthorized_def demo_server_def demo_state_def)
qed

lemma demo_traces: "traces (fsm_state demo_raft) = traces sample"
  by code_simp

theorem listed_traces_can_be_opened_witness:
  "\<exists>trs r. handleTracesList (svAuth demo_server) ''access'' demo_list_request [] sample_store = Some (Inr trs, [], demo_raft)
     \<and> r \<in> set trs \<and> tmTraceID (trMeta r) = ''t3'' \<and> authorizeTrace (Some demo_identity) ''t3'' demo_raft = None"
proof -
  let ?trs = "TraceMetaRepo_List (list_filter demo_identity demo_list_request) demo_raft"
  have l: "handleTracesList (svAuth demo_server) ''access'' demo_list_request [] sample_store = Some (Inr ?trs, [], demo_raft)"
    by (simp add: handleTracesList_def demo_list_resolve)
  have "list_ex (\<lambda>r. tmTraceID (trMeta r) = ''t3'') ?trs" by code_simp
  then obtain r where r: "r \<in> set ?trs" "tmTraceID (trMeta r) = ''t3''" by (auto simp: list_ex_iff)
  have "tbl_ok tmTraceID (traces (fsm_state demo_raft))" using fsm_inv_rest(1) [OF sample_inv] by (simp add: demo_traces)
  moreover have "IsAdmin (Some demo_identity) \<or> iUserID demo_identity \<noteq> [] \<and> [] \<notin> set (iGroupIDs demo_identity)"
    by (simp add: demo_identity_def)
  ultimately have "authorizeTrace (Some demo_identity) (tmTraceID (trMeta r)) demo_raft = None"
    using listed_traces_can_be_opened [OF l r(1) demo_list_resolve] by blast
  with l r show ?thesis by auto
qed

text \<open>An administrator with a token of the legacy file opens a trace of two spans.\<close>

definition demo_admin_env :: AuthEnv where
  "demo_admin_env = demo_env\<lparr>aeParse := (\<lambda>_ _ _. Inl ErrValidation), aeLegacy := Some (''tokens'', Inr ''abc'')\<rparr>"

definition demo_detail_request :: Request where
  "demo_detail_request = \<lparr>rqAuthorization = ''Bearer abc'', rqCookies = [], rqQuery = [], rqParams = [(''traceID'', ''0123456789abcdef'')],
     rqBody = \<lparr>bdStream = True, bdBytes = [], bdErr = None\<rparr>\<rparr>"

lemma demo_detail_authorized:
  "authorizeTraceRequest demo_admin_env ''access'' demo_detail_request [] sample_store = Some (Inr ''0123456789abcdef'', [], sample_store)"
proof -
  have "bearerFromRequest ''access'' demo_detail_request = ''abc''" "is_err (ParseAccess (aeParse demo_admin_env) (aeJWT demo_admin_env) (aeClk demo_admin_env 0) ''abc'')"
    "ValidateToken ''tokens'' (Inr ''abc'') ''abc'' = Inr ''abc''" "has_prefix ''abc'' ''dct_'' = False"
    "traceIDParam demo_detail_request = Inr ''0123456789abcdef''" by code_simp+
  then have "resolveIdentity demo_admin_env ''access'' demo_detail_request [] sample_store = Some (Inr legacy_identity, [], sample_store)"
    by (simp add: resolveIdentity_def unauthorized_def Resolve_def is_err_def demo_admin_env_def split: sum.splits)
  moreover have "authorizeTrace (Some legacy_identity) ''0123456789abcdef'' sample_store = None"
    by (simp add: authorizeTrace_may_open may_open_def legacy_identity_def)
  ultimately show ?thesis using \<open>traceIDParam demo_detail_request = _\<close> by (simp add: authorizeTraceRequest_def)
qed

theorem trace_detail_guarded_witness:
  "\<exists>t nodes. handleTracesDetail demo_um demo_codec (\<lambda>_. Inr (Some (demo_jtrace demo_spans))) (\<lambda>_. None) demo_admin_env ''access''
       demo_detail_request [] sample_store = Some (Inr (t, nodes), [], sample_store)
     \<and> traceIDParam demo_detail_request = Inr (tiTraceID t)"
proof -
  let ?rec = "reconstruct demo_codec ''0123456789abcdef'' (demo_jtrace demo_spans)"
  have "hexTraceID ''0123456789abcdef''" by code_simp
  then have g: "GetTrace demo_codec (\<lambda>_. Inr (Some (demo_jtrace demo_spans))) ''0123456789abcdef'' = Inr ?rec"
    by (simp add: GetTrace_def)
  have m: "TraceMetaRepo_Get ''0123456789abcdef'' sample_store = Inl ErrNotFound" by code_simp
  have "map_option spParentSpanID (gm_get (snd ?rec) ''r'') = Some []" "gm_get (snd ?rec) [] = None" "tiRootSpan (fst ?rec) = Some ''r''"
    by code_simp+
  then have "gm_get (snd ?rec) (parent_of (snd ?rec) ''r'') = None" "tiRootSpan (fst ?rec) = Some ''r''" by (auto simp: parent_of_def)
  with DeriveExec_reconstruct have "DeriveExec (execFromSpan demo_um) (tiRootSpan (fst ?rec)) (snd ?rec) \<noteq> None"
    by (metis option.distinct(1) prod.collapse)
  then obtain nodes where "DeriveExec (execFromSpan demo_um) (tiRootSpan (fst ?rec)) (snd ?rec) = Some nodes" by auto
  then have d: "handleTracesDetail demo_um demo_codec (\<lambda>_. Inr (Some (demo_jtrace demo_spans))) (\<lambda>_. None) demo_admin_env ''access''
       demo_detail_request [] sample_store = Some (Inr (fst ?rec, nodes), [], sample_store)"
    by (auto simp: handleTracesDetail_def demo_detail_authorized g m split: prod.split)
  from trace_detail_guarded [OF d] d show ?thesis by blast
qed

end
