(* ===== verification/Live_Hub.thy ===== *)
theory Live_Hub
  imports Prelude "HOL-Library.Sublist"
begin

text \<open>
  The hub of live updates (\<^verbatim>\<open>src/internal/repository/live_hub.go\<close>) with the handlers that use it (\<^verbatim>\<open>handleTracesLive\<close> and
  \<^verbatim>\<open>handleTracesListLive\<close> of \<^verbatim>\<open>src/internal/handler/traces.go\<close>). A client is a number and its record on the heap: the buffer of
  its channel \<^verbatim>\<open>Send\<close>, whether that channel and \<^verbatim>\<open>done\<close> are closed, whether its write pump runs, whether its handler still
  waits, and what was written to the stream. The methods of the hub run under its mutex and are one step each (broadcasts
  share the lock for reading; each of them still sends to one buffer after the other, and for a single client two of them
  come one after the other); the pumps and the handlers run between them in any order. To send on a closed channel or to close one twice is a panic, \<^term>\<open>None\<close>.
  \<^verbatim>\<open>lcOffered\<close> is no field of the code: it records the events that were broadcast to the topic while the client was subscribed.
\<close>

section \<open>State\<close>

record LiveClient =
  lcTraceID :: string
  lcSend :: "string list"
  lcSendClosed :: bool
  lcDone :: bool
  lcPumping :: bool
  lcWaiting :: bool
  lcWritten :: "string list"
  lcOffered :: "string list"

record LiveHub =
  lhClients :: "(string, nat list) gomap"
  lhHeap :: "(nat, LiveClient) gomap"

definition NewLiveHub :: LiveHub where
  "NewLiveHub = \<lparr>lhClients = [], lhHeap = []\<rparr>"

definition sendBuffer :: nat where "sendBuffer = 256"

definition NewLiveClient :: "string \<Rightarrow> LiveClient" where
  "NewLiveClient traceID = \<lparr>lcTraceID = traceID, lcSend = [], lcSendClosed = False, lcDone = False, lcPumping = False,
     lcWaiting = True, lcWritten = [], lcOffered = []\<rparr>"

definition subscribers :: "string \<Rightarrow> LiveHub \<Rightarrow> nat list" where
  "subscribers traceID h = (case gm_get (lhClients h) traceID of None \<Rightarrow> [] | Some cs \<Rightarrow> cs)"

section \<open>Channels\<close>

text \<open>\<^verbatim>\<open>close\<close> of a channel, and the non-blocking send: a full buffer skips the client.\<close>

definition close_send :: "LiveClient \<Rightarrow> LiveClient option" where
  "close_send c = (if lcSendClosed c then None else Some (c\<lparr>lcSendClosed := True\<rparr>))"

definition close_done :: "LiveClient \<Rightarrow> LiveClient option" where
  "close_done c = (if lcDone c then None else Some (c\<lparr>lcDone := True\<rparr>))"

definition try_send :: "string \<Rightarrow> LiveClient \<Rightarrow> LiveClient option" where
  "try_send data c =
    (if lcSendClosed c then None
     else let c = c\<lparr>lcOffered := lcOffered c @ [data]\<rparr>
          in Some (if length (lcSend c) < sendBuffer then c\<lparr>lcSend := lcSend c @ [data]\<rparr> else c))"

section \<open>Methods\<close>

definition Subscribe :: "string \<Rightarrow> nat \<Rightarrow> LiveClient \<Rightarrow> LiveHub \<Rightarrow> LiveHub" where
  "Subscribe traceID i c h = h\<lparr>lhClients := gm_put traceID (set_put i (subscribers traceID h)) (lhClients h),
     lhHeap := gm_put i (c\<lparr>lcPumping := True\<rparr>) (lhHeap h)\<rparr>"

definition Unsubscribe :: "string \<Rightarrow> nat \<Rightarrow> LiveHub \<Rightarrow> LiveHub option" where
  "Unsubscribe traceID i h =
    (case gm_get (lhClients h) traceID of
       None \<Rightarrow> Some h
     | Some cs \<Rightarrow>
         (let cs' = set_del i cs;
              prune = (\<lambda>h. h\<lparr>lhClients := (if cs' = [] then gm_del traceID (lhClients h) else gm_put traceID cs' (lhClients h))\<rparr>)
          in if i \<in> set cs then
               (case gm_get (lhHeap h) i of
                  None \<Rightarrow> Some (prune h)
                | Some c \<Rightarrow> map_option (\<lambda>c. prune (h\<lparr>lhHeap := gm_put i c (lhHeap h)\<rparr>)) (close_send c))
             else Some (prune h)))"

text \<open>\<^verbatim>\<open>Broadcast\<close>: \<open>data\<close> is the marshalled event, or \<^term>\<open>None\<close> when it cannot be marshalled.\<close>

fun send_all :: "string \<Rightarrow> nat list \<Rightarrow> (nat, LiveClient) gomap \<Rightarrow> (nat, LiveClient) gomap option" where
  "send_all data [] heap = Some heap"
| "send_all data (i # cs) heap =
    (case gm_get heap i of
       None \<Rightarrow> send_all data cs heap
     | Some c \<Rightarrow> (case try_send data c of None \<Rightarrow> None | Some c \<Rightarrow> send_all data cs (gm_put i c heap)))"

definition Broadcast :: "string \<Rightarrow> string option \<Rightarrow> LiveHub \<Rightarrow> LiveHub option" where
  "Broadcast traceID data h =
    (case gm_get (lhClients h) traceID of
       None \<Rightarrow> Some h
     | Some cs \<Rightarrow>
         (case data of
            None \<Rightarrow> Some h
          | Some d \<Rightarrow> map_option (\<lambda>heap. h\<lparr>lhHeap := heap\<rparr>) (send_all d cs (lhHeap h))))"

text \<open>The end of \<^verbatim>\<open>writePump\<close>, which closes \<^verbatim>\<open>done\<close>, and one message that it writes.\<close>

definition pump_exit :: "LiveClient \<Rightarrow> LiveClient option" where
  "pump_exit c = map_option (\<lambda>c. c\<lparr>lcPumping := False\<rparr>) (close_done c)"

definition pump_write :: "LiveClient \<Rightarrow> LiveClient" where
  "pump_write c = (case lcSend c of [] \<Rightarrow> c | m # ms \<Rightarrow> c\<lparr>lcSend := ms, lcWritten := lcWritten c @ [m]\<rparr>)"

definition with_client :: "nat \<Rightarrow> (LiveClient \<Rightarrow> LiveClient option) \<Rightarrow> LiveHub \<Rightarrow> LiveHub option" where
  "with_client i f h = (case gm_get (lhHeap h) i of None \<Rightarrow> Some h | Some c \<Rightarrow> map_option (\<lambda>c. h\<lparr>lhHeap := gm_put i c (lhHeap h)\<rparr>) (f c))"

section \<open>Interleavings\<close>

text \<open>
  The steps of the process. A handler makes a new client and subscribes it; when its request ends or \<^verbatim>\<open>done\<close> is closed, which the
  environment decides, it unsubscribes once and returns. A pump writes a buffered message, exits when a write or a
  keep-alive fails, and exits when the channel is closed and empty.
\<close>

inductive hub_step :: "LiveHub \<Rightarrow> LiveHub option \<Rightarrow> bool" where
  subscribe: "gm_get (lhHeap h) i = None \<Longrightarrow> hub_step h (Some (Subscribe traceID i (NewLiveClient traceID) h))"
| broadcast: "hub_step h (Broadcast traceID data h)"
| writes: "gm_get (lhHeap h) i = Some c \<Longrightarrow> lcPumping c \<Longrightarrow> lcSend c \<noteq> [] \<Longrightarrow> hub_step h (with_client i (\<lambda>c. Some (pump_write c)) h)"
| writing_fails: "gm_get (lhHeap h) i = Some c \<Longrightarrow> lcPumping c \<Longrightarrow> lcSend c \<noteq> []
    \<Longrightarrow> hub_step h (with_client i (\<lambda>c. pump_exit (c\<lparr>lcSend := tl (lcSend c)\<rparr>)) h)"
| keepalive_fails: "gm_get (lhHeap h) i = Some c \<Longrightarrow> lcPumping c \<Longrightarrow> hub_step h (with_client i pump_exit h)"
| drained: "gm_get (lhHeap h) i = Some c \<Longrightarrow> lcPumping c \<Longrightarrow> lcSendClosed c \<Longrightarrow> lcSend c = [] \<Longrightarrow> hub_step h (with_client i pump_exit h)"
| leaves: "gm_get (lhHeap h) i = Some c \<Longrightarrow> lcWaiting c
    \<Longrightarrow> hub_step h (Option.bind (Unsubscribe (lcTraceID c) i h) (with_client i (\<lambda>c. Some (c\<lparr>lcWaiting := False\<rparr>))))"

inductive hub_reachable :: "LiveHub option \<Rightarrow> bool" where
  init: "hub_reachable (Some NewLiveHub)"
| step: "hub_reachable (Some h) \<Longrightarrow> hub_step h h' \<Longrightarrow> hub_reachable h'"

section \<open>The invariant\<close>

text \<open>
  A client is in the map of its topic exactly while its handler waits, and its channel is closed exactly afterwards; a
  pump runs exactly until \<^verbatim>\<open>done\<close> is closed; what is written and buffered is a part of what was offered, in order, and all of it as
  long as no more was offered than the buffer holds and the pump has not failed.
\<close>

definition client_ok :: "LiveHub \<Rightarrow> nat \<Rightarrow> LiveClient \<Rightarrow> bool" where
  "client_ok h i c \<longleftrightarrow> (i \<in> set (subscribers (lcTraceID c) h) \<longleftrightarrow> lcWaiting c) \<and> (lcSendClosed c \<longleftrightarrow> \<not> lcWaiting c)
     \<and> (lcPumping c \<longleftrightarrow> \<not> lcDone c) \<and> length (lcSend c) \<le> sendBuffer \<and> subseq (lcWritten c @ lcSend c) (lcOffered c)
     \<and> (lcPumping c \<and> length (lcOffered c) \<le> sendBuffer \<longrightarrow> lcWritten c @ lcSend c = lcOffered c)"

definition hub_inv :: "LiveHub \<Rightarrow> bool" where
  "hub_inv h \<longleftrightarrow> gm_ok (lhClients h)
     \<and> (\<forall>t cs. gm_get (lhClients h) t = Some cs \<longrightarrow> cs \<noteq> [] \<and> distinct cs
          \<and> (\<forall>i \<in> set cs. \<exists>c. gm_get (lhHeap h) i = Some c \<and> lcTraceID c = t))
     \<and> (\<forall>i c. gm_get (lhHeap h) i = Some c \<longrightarrow> client_ok h i c)"

lemma client_okI_subscribers:
  assumes "client_ok h i c" "i \<in> set (subscribers (lcTraceID c) h') \<longleftrightarrow> i \<in> set (subscribers (lcTraceID c) h)"
  shows "client_ok h' i c"
  using assms by (simp add: client_ok_def)

lemma hub_invD:
  assumes "hub_inv h"
  shows "gm_ok (lhClients h)" "gm_get (lhClients h) t = Some cs \<Longrightarrow> cs \<noteq> [] \<and> distinct cs"
    "i \<in> set (subscribers t h) \<Longrightarrow> \<exists>c. gm_get (lhHeap h) i = Some c \<and> lcTraceID c = t"
    "gm_get (lhHeap h) i = Some c \<Longrightarrow> client_ok h i c"
proof -
  show "i \<in> set (subscribers t h) \<Longrightarrow> \<exists>c. gm_get (lhHeap h) i = Some c \<and> lcTraceID c = t"
    using assms by (cases "gm_get (lhClients h) t") (simp_all add: hub_inv_def subscribers_def)
qed (use assms in \<open>simp_all add: hub_inv_def\<close>)

lemma hub_invI:
  assumes "gm_ok (lhClients h)" "\<And>t cs. gm_get (lhClients h) t = Some cs \<Longrightarrow> cs \<noteq> [] \<and> distinct cs"
    "\<And>i t. i \<in> set (subscribers t h) \<Longrightarrow> \<exists>c. gm_get (lhHeap h) i = Some c \<and> lcTraceID c = t"
    "\<And>i c. gm_get (lhHeap h) i = Some c \<Longrightarrow> client_ok h i c"
  shows "hub_inv h"
  unfolding hub_inv_def
proof (intro conjI allI impI assms(1))
  fix t cs assume "gm_get (lhClients h) t = Some cs"
  then show "cs \<noteq> []" "distinct cs" "\<forall>i \<in> set cs. \<exists>c. gm_get (lhHeap h) i = Some c \<and> lcTraceID c = t"
    using assms(2) [of t] assms(3) [of _ t] by (auto simp: subscribers_def)
qed (rule assms(4))

text \<open>A step of one client that keeps its topic and the condition on it.\<close>

lemma with_client_inv:
  assumes inv: "hub_inv h" and c: "gm_get (lhHeap h) i = Some c"
    and f: "f c = Some c'" "lcTraceID c' = lcTraceID c" "client_ok h i c'"
  shows "\<exists>h'. with_client i f h = Some h' \<and> hub_inv h'"
proof -
  let ?h = "h\<lparr>lhHeap := gm_put i c' (lhHeap h)\<rparr>"
  have sub: "subscribers t ?h = subscribers t h" for t by (simp add: subscribers_def)
  have "hub_inv ?h"
  proof (rule hub_invI)
    fix j t assume "j \<in> set (subscribers t ?h)"
    then show "\<exists>c. gm_get (lhHeap ?h) j = Some c \<and> lcTraceID c = t"
      using hub_invD(3) [OF inv, of j t] c f(2) by (auto simp: sub update_conv')
  next
    fix j d assume "gm_get (lhHeap ?h) j = Some d"
    then have "client_ok h j d" using f(3) hub_invD(4) [OF inv, of j d] by (auto simp: update_conv' split: if_splits)
    then show "client_ok ?h j d" by (rule client_okI_subscribers) (simp add: sub)
  qed (use hub_invD(1,2) [OF inv] in simp_all)
  then show ?thesis using c f(1) by (simp add: with_client_def)
qed

lemma subscribers_put: "subscribers t (h\<lparr>lhClients := gm_put t' cs (lhClients h), lhHeap := heap\<rparr>) = (if t = t' then cs else subscribers t h)"
  by (simp add: subscribers_def update_conv')

lemma Subscribe_inv:
  assumes inv: "hub_inv h" and new: "gm_get (lhHeap h) i = None"
  shows "hub_inv (Subscribe t i (NewLiveClient t) h)"
proof -
  let ?h = "Subscribe t i (NewLiveClient t) h"
  have fresh: "i \<notin> set (subscribers t' h)" for t' using hub_invD(3) [OF inv, of i t'] new by auto
  have sub: "set (subscribers t' ?h) = (if t' = t then insert i (set (subscribers t h)) else set (subscribers t' h))" for t'
    by (simp add: Subscribe_def subscribers_put)
  show ?thesis
  proof (rule hub_invI)
    show "gm_ok (lhClients ?h)" using hub_invD(1) [OF inv] by (simp add: Subscribe_def)
  next
    fix t' cs assume "gm_get (lhClients ?h) t' = Some cs"
    moreover have "distinct (subscribers t h)" using hub_invD(2) [OF inv, of t] by (auto simp: subscribers_def split: option.split)
    ultimately show "cs \<noteq> [] \<and> distinct cs"
      using hub_invD(2) [OF inv, of t' cs] by (auto simp: Subscribe_def update_conv' List.insert_def split: if_splits)
  next
    fix j t' assume "j \<in> set (subscribers t' ?h)"
    then have "j = i \<and> t' = t \<or> j \<in> set (subscribers t' h)" by (auto simp: sub split: if_splits)
    then show "\<exists>c. gm_get (lhHeap ?h) j = Some c \<and> lcTraceID c = t'"
      using hub_invD(3) [OF inv, of j t'] fresh by (cases "j = i") (auto simp: Subscribe_def update_conv' NewLiveClient_def)
  next
    fix j c assume c: "gm_get (lhHeap ?h) j = Some c"
    show "client_ok ?h j c"
    proof (cases "j = i")
      case True
      then have "c = (NewLiveClient t)\<lparr>lcPumping := True\<rparr>" using c by (simp add: Subscribe_def update_conv')
      moreover have "i \<in> set (subscribers t ?h)" by (simp add: sub)
      ultimately show ?thesis using True by (simp add: client_ok_def NewLiveClient_def)
    next
      case False
      with c have "client_ok h j c" using hub_invD(4) [OF inv] by (simp add: Subscribe_def update_conv')
      then show ?thesis by (rule client_okI_subscribers) (use False in \<open>simp add: sub\<close>)
    qed
  qed
qed

definition sent :: "string \<Rightarrow> LiveClient \<Rightarrow> LiveClient" where
  "sent d c = c\<lparr>lcOffered := lcOffered c @ [d], lcSend := (if length (lcSend c) < sendBuffer then lcSend c @ [d] else lcSend c)\<rparr>"

lemma sent_TraceID [simp]: "lcTraceID (sent d c) = lcTraceID c"
  by (simp add: sent_def)

lemma try_send_open: "\<not> lcSendClosed c \<Longrightarrow> try_send d c = Some (sent d c)"
  by (simp add: try_send_def sent_def Let_def)

lemma send_all_open:
  assumes "distinct cs" "\<forall>i \<in> set cs. \<exists>c. gm_get heap i = Some c \<and> \<not> lcSendClosed c"
  shows "\<exists>heap'. send_all d cs heap = Some heap' \<and> (\<forall>j. gm_get heap' j = (if j \<in> set cs then map_option (sent d) (gm_get heap j) else gm_get heap j))"
  using assms
proof (induction cs arbitrary: heap)
  case (Cons i cs)
  then obtain c where c: "gm_get heap i = Some c" "\<not> lcSendClosed c" by auto
  let ?heap = "gm_put i (sent d c) heap"
  have "\<forall>j \<in> set cs. \<exists>c. gm_get ?heap j = Some c \<and> \<not> lcSendClosed c" using Cons.prems by (auto simp: update_conv')
  with Cons.IH [of ?heap] Cons.prems(1) obtain heap' where "send_all d cs ?heap = Some heap'"
    "\<forall>j. gm_get heap' j = (if j \<in> set cs then map_option (sent d) (gm_get ?heap j) else gm_get ?heap j)" by auto
  with c Cons.prems(1) show ?case by (auto simp: try_send_open update_conv')
qed simp

lemma sent_ok:
  assumes "client_ok h i c"
  shows "client_ok h i (sent d c)"
proof -
  have sub: "subseq (lcWritten c @ lcSend c) (lcOffered c)" and len: "length (lcSend c) \<le> sendBuffer"
    and eq: "lcPumping c \<and> length (lcOffered c) \<le> sendBuffer \<longrightarrow> lcWritten c @ lcSend c = lcOffered c"
    using assms by (simp_all add: client_ok_def)
  have "subseq (lcWritten c @ lcSend c @ [d]) (lcOffered c @ [d])"
    using list_emb_append_mono [OF sub, of "[d]" "[d]"] by simp
  moreover have "subseq (lcWritten c @ lcSend c) (lcOffered c @ [d])" by (rule list_emb_prefix [OF sub])
  moreover have "length (lcSend c) < sendBuffer \<and> lcWritten c @ lcSend c = lcOffered c"
    if "lcPumping c" "Suc (length (lcOffered c)) \<le> sendBuffer"
  proof -
    have e: "lcWritten c @ lcSend c = lcOffered c" using eq that by simp
    then have "length (lcSend c) \<le> length (lcOffered c)" by (metis length_append le_add2)
    with e that show ?thesis by simp
  qed
  ultimately show ?thesis using assms len by (auto simp: client_ok_def sent_def)
qed

lemma Broadcast_inv:
  assumes inv: "hub_inv h"
  shows "\<exists>h'. Broadcast t data h = Some h' \<and> hub_inv h'"
proof (cases "gm_get (lhClients h) t = None \<or> data = None")
  case True
  then show ?thesis using inv by (auto simp: Broadcast_def split: option.splits)
next
  case False
  then obtain cs d where cs: "gm_get (lhClients h) t = Some cs" "data = Some d" by auto
  have sub: "subscribers t h = cs" by (simp add: subscribers_def cs(1))
  have open_c: "\<exists>c. gm_get (lhHeap h) i = Some c \<and> \<not> lcSendClosed c" if i: "i \<in> set cs" for i
  proof -
    obtain c where c: "gm_get (lhHeap h) i = Some c" "lcTraceID c = t" using hub_invD(3) [OF inv, of i t] i sub by auto
    with hub_invD(4) [OF inv c(1)] i sub have "\<not> lcSendClosed c" by (simp add: client_ok_def)
    with c show ?thesis by blast
  qed
  obtain heap' where h': "send_all d cs (lhHeap h) = Some heap'"
    "\<And>j. gm_get heap' j = (if j \<in> set cs then map_option (sent d) (gm_get (lhHeap h) j) else gm_get (lhHeap h) j)"
    using send_all_open [of cs "lhHeap h" d] hub_invD(2) [OF inv cs(1)] open_c by blast
  let ?h = "h\<lparr>lhHeap := heap'\<rparr>"
  have subs: "subscribers t' ?h = subscribers t' h" for t' by (simp add: subscribers_def)
  have "hub_inv ?h"
  proof (rule hub_invI)
    fix j t' assume "j \<in> set (subscribers t' ?h)"
    then show "\<exists>c. gm_get (lhHeap ?h) j = Some c \<and> lcTraceID c = t'"
      using hub_invD(3) [OF inv, of j t'] by (auto simp: subs h'(2))
  next
    fix j c assume "gm_get (lhHeap ?h) j = Some c"
    then have "client_ok h j c" using hub_invD(4) [OF inv] sent_ok by (auto simp: h'(2) simp del: map_of_eq_Some_iff split: if_splits)
    then show "client_ok ?h j c" by (rule client_okI_subscribers) (simp add: subs)
  qed (use hub_invD(1,2) [OF inv] in simp_all)
  then show ?thesis using cs h'(1) by (simp add: Broadcast_def)
qed

lemma leave_inv:
  assumes inv: "hub_inv h" and c: "gm_get (lhHeap h) i = Some c" "lcWaiting c"
  shows "\<exists>h'. Option.bind (Unsubscribe (lcTraceID c) i h) (with_client i (\<lambda>c. Some (c\<lparr>lcWaiting := False\<rparr>))) = Some h' \<and> hub_inv h'"
proof -
  let ?t = "lcTraceID c"
  have ok: "client_ok h i c" using hub_invD(4) [OF inv c(1)] .
  then have i: "i \<in> set (subscribers ?t h)" "\<not> lcSendClosed c" using c(2) by (simp_all add: client_ok_def)
  then obtain cs where cs: "gm_get (lhClients h) ?t = Some cs" "i \<in> set cs" by (cases "gm_get (lhClients h) ?t") (simp_all add: subscribers_def)
  let ?cs = "set_del i cs"
  let ?cl = "if ?cs = [] then gm_del ?t (lhClients h) else gm_put ?t ?cs (lhClients h)"
  let ?c = "c\<lparr>lcSendClosed := True, lcWaiting := False\<rparr>"
  let ?h = "h\<lparr>lhHeap := gm_put i ?c (gm_put i (c\<lparr>lcSendClosed := True\<rparr>) (lhHeap h)), lhClients := ?cl\<rparr>"
  have step: "Option.bind (Unsubscribe ?t i h) (with_client i (\<lambda>c. Some (c\<lparr>lcWaiting := False\<rparr>))) = Some ?h"
    using cs c i(2) by (simp add: Unsubscribe_def close_send_def with_client_def update_conv')
  have sub: "subscribers t ?h = (if t = ?t then ?cs else subscribers t h)" for t
    by (auto simp: subscribers_def update_conv' delete_conv')
  have subt: "subscribers ?t h = cs" by (simp add: subscribers_def cs)
  have "hub_inv ?h"
  proof (rule hub_invI)
    show "gm_ok (lhClients ?h)" using hub_invD(1) [OF inv] by simp
  next
    fix t ds assume "gm_get (lhClients ?h) t = Some ds"
    then show "ds \<noteq> [] \<and> distinct ds"
      using hub_invD(2) [OF inv, of t ds] hub_invD(2) [OF inv cs(1)] by (auto simp: update_conv' delete_conv' distinct_removeAll split: if_splits)
  next
    fix j t assume "j \<in> set (subscribers t ?h)"
    then have "j \<in> set (if t = ?t then ?cs else subscribers t h)" by (simp only: sub)
    then have "j \<in> set (subscribers t h)" by (auto simp: subt split: if_splits)
    then show "\<exists>c. gm_get (lhHeap ?h) j = Some c \<and> lcTraceID c = t"
      using hub_invD(3) [OF inv, of j t] c by (auto simp: update_conv')
  next
    fix j d assume d: "gm_get (lhHeap ?h) j = Some d"
    show "client_ok ?h j d"
    proof (cases "j = i")
      case True
      then have "d = ?c" using d by (simp add: update_conv')
      moreover have "i \<notin> set (if ?t = ?t then ?cs else subscribers ?t h)" by simp
      then have "i \<notin> set (subscribers ?t ?h)" by (subst sub)
      ultimately show ?thesis using True ok by (simp add: client_ok_def)
    next
      case False
      then have "client_ok h j d" using d hub_invD(4) [OF inv, of j d] by (simp add: update_conv')
      then show ?thesis by (rule client_okI_subscribers) (subst sub, use False in \<open>auto simp: subt\<close>)
    qed
  qed
  with step show ?thesis by blast
qed

lemma pump_exit_ok:
  assumes "client_ok h i c" "lcPumping c" "suffix (lcSend d) (lcSend c)" "d = c\<lparr>lcSend := lcSend d\<rparr>"
  shows "\<exists>c'. pump_exit d = Some c' \<and> lcTraceID c' = lcTraceID c \<and> client_ok h i c'"
proof -
  have d: "lcDone d = lcDone c" "lcTraceID d = lcTraceID c" "lcWaiting d = lcWaiting c" "lcSendClosed d = lcSendClosed c"
    "lcWritten d = lcWritten c" "lcOffered d = lcOffered c"
    by (subst assms(4), simp)+
  have "subseq (lcWritten c @ lcSend d) (lcWritten c @ lcSend c)"
    using assms(3) by (intro list_emb_append_mono) (auto simp: suffix_imp_subseq)
  then have "subseq (lcWritten c @ lcSend d) (lcOffered c)" using assms(1) subseq_order.order_trans by (auto simp: client_ok_def)
  moreover have "length (lcSend d) \<le> sendBuffer" using assms(1) suffix_length_le [OF assms(3)] by (simp add: client_ok_def)
  ultimately show ?thesis using assms(1,2) by (auto simp: pump_exit_def close_done_def client_ok_def d)
qed

lemma pump_write_ok:
  assumes "client_ok h i c"
  shows "lcTraceID (pump_write c) = lcTraceID c \<and> client_ok h i (pump_write c)"
  using assms by (auto simp: pump_write_def client_ok_def split: list.split)

lemma hub_step_inv:
  assumes "hub_step h h'" "hub_inv h"
  shows "\<exists>k. h' = Some k \<and> hub_inv k"
  using assms
proof (cases rule: hub_step.cases)
  case (subscribe i traceID)
  with assms(2) show ?thesis by (simp add: Subscribe_inv)
next
  case (broadcast traceID data)
  with Broadcast_inv [OF assms(2)] show ?thesis by auto
next
  case (writes i c)
  with pump_write_ok [OF hub_invD(4) [OF assms(2) writes(2)]]
  show ?thesis using with_client_inv [OF assms(2) writes(2), of "\<lambda>c. Some (pump_write c)"] by auto
next
  case (writing_fails i c)
  have "suffix (tl (lcSend c)) (lcSend c)" by (simp add: suffix_tl)
  with pump_exit_ok [OF hub_invD(4) [OF assms(2) writing_fails(2)] writing_fails(3), of "c\<lparr>lcSend := tl (lcSend c)\<rparr>"]
  show ?thesis using with_client_inv [OF assms(2) writing_fails(2), of "\<lambda>c. pump_exit (c\<lparr>lcSend := tl (lcSend c)\<rparr>)"] writing_fails(1) by auto
next
  case (keepalive_fails i c)
  with pump_exit_ok [OF hub_invD(4) [OF assms(2) keepalive_fails(2)] keepalive_fails(3), of c]
  show ?thesis using with_client_inv [OF assms(2) keepalive_fails(2), of pump_exit] by auto
next
  case (drained i c)
  with pump_exit_ok [OF hub_invD(4) [OF assms(2) drained(2)] drained(3), of c]
  show ?thesis using with_client_inv [OF assms(2) drained(2), of pump_exit] by auto
next
  case (leaves i c)
  with leave_inv [OF assms(2) leaves(2)] show ?thesis by auto
qed

lemma hub_reachable_inv: "hub_reachable h' \<Longrightarrow> \<exists>h. h' = Some h \<and> hub_inv h"
proof (induction rule: hub_reachable.induct)
  case init
  have "hub_inv NewLiveHub" by (simp add: hub_inv_def NewLiveHub_def)
  then show ?case by simp
next
  case (step h h')
  with hub_step_inv show ?case by simp
qed

text \<open>
  C16: the live hub never panics. However subscriptions, broadcasts, the write pumps with their failures and the handlers that
  leave interleave, nothing is sent on a closed channel and no channel is closed twice. A client is registered exactly while its handler
  waits, a topic without clients has no entry, and every stream has carried events of its topic in the order in which they were
  broadcast, and all of them while its pump works and no more came than the buffer holds.
\<close>

theorem live_hub_safe:
  assumes "hub_reachable r"
  shows "\<exists>h. r = Some h
    \<and> (\<forall>t. gm_get (lhClients h) t \<noteq> Some [])
    \<and> (\<forall>i c. gm_get (lhHeap h) i = Some c \<longrightarrow>
         (i \<in> set (subscribers (lcTraceID c) h) \<longleftrightarrow> lcWaiting c) \<and> (lcSendClosed c \<longleftrightarrow> \<not> lcWaiting c)
         \<and> subseq (lcWritten c) (lcOffered c)
         \<and> (lcPumping c \<and> lcSend c = [] \<and> length (lcOffered c) \<le> 256 \<longrightarrow> lcWritten c = lcOffered c))"
proof -
  obtain h where h: "r = Some h" "hub_inv h" using hub_reachable_inv [OF assms] by blast
  have sub: "subseq (lcWritten c) (lcOffered c)" if "client_ok h i c" for i c
    using that subseq_order.order_trans [OF list_emb_prefix [OF subseq_order.order_refl]] by (auto simp: client_ok_def)
  have "(i \<in> set (subscribers (lcTraceID c) h) \<longleftrightarrow> lcWaiting c) \<and> (lcSendClosed c \<longleftrightarrow> \<not> lcWaiting c)
      \<and> subseq (lcWritten c) (lcOffered c) \<and> (lcPumping c \<and> lcSend c = [] \<and> length (lcOffered c) \<le> 256 \<longrightarrow> lcWritten c = lcOffered c)"
    if "gm_get (lhHeap h) i = Some c" for i c
    using hub_invD(4) [OF h(2) that] sub [OF hub_invD(4) [OF h(2) that]] by (auto simp: client_ok_def sendBuffer_def)
  moreover have "gm_get (lhClients h) t \<noteq> Some []" for t using hub_invD(2) [OF h(2), of t "[]"] by blast
  ultimately show ?thesis using h(1) by blast
qed

theorem live_hub_safe_witness:
  "hub_reachable (Broadcast ''t'' (Some ''e'') (Subscribe ''t'' 0 (NewLiveClient ''t'') NewLiveHub))
     \<and> (\<exists>h. Broadcast ''t'' (Some ''e'') (Subscribe ''t'' 0 (NewLiveClient ''t'') NewLiveHub) = Some h \<and> subscribers ''t'' h = [0])"
proof -
  let ?h = "Subscribe ''t'' 0 (NewLiveClient ''t'') NewLiveHub"
  have "hub_step NewLiveHub (Some ?h)" by (rule hub_step.subscribe) (simp add: NewLiveHub_def)
  then have "hub_reachable (Some ?h)" by (rule hub_reachable.step [OF hub_reachable.init])
  then have r: "hub_reachable (Broadcast ''t'' (Some ''e'') ?h)" by (rule hub_reachable.step) (rule hub_step.broadcast)
  obtain h where h: "Broadcast ''t'' (Some ''e'') ?h = Some h" using live_hub_safe [OF r] by blast
  have "map_option (subscribers ''t'') (Broadcast ''t'' (Some ''e'') ?h) = Some [0]" by code_simp
  with r h show ?thesis by auto
qed

end
