(* ===== verification/Spec2Isabelle.thy ===== *)
theory Spec2Isabelle
  imports FSM_Props Version Rate_Limiter Quota Lifecycle OAuth_Memberships OAuth_Providers Attribution History_Purge Legacy_Import CI_Lines Cache_Purge Provisioning Exec_Info Trace_Handlers Live_Hub
begin

text \<open>
  A verification development for \<^verbatim>\<open>dagger-kubernetes\<close>, a supervisor that hands out Dagger engines running
  in Kubernetes to CI jobs, and a CI wrapper that renders what the engines do.

  \<^bold>\<open>The program.\<close> Several supervisors form a Raft cluster. Users, groups, projects, API tokens and the
  records of pipelines (traces) live in a replicated state machine
  (\<^verbatim>\<open>src/internal/repository/fsm.go\<close>); every write is a command that goes through the Raft log
  (\<^verbatim>\<open>raft_store.go\<close>), every read looks at the local state. Repositories (\<^verbatim>\<open>*_repo.go\<close>) wrap commands and reads;
  services (\<^verbatim>\<open>src/internal/service\<close>) hold the rules: who a request is, which groups a user is in, whether an
  engine may be used, to which group a trace belongs, when a trace counts as failed and when it is purged. OAuth
  logins bring users and groups from a provider and are revalidated against it. The leases of engine sessions
  are local to a supervisor (\<^verbatim>\<open>session.go\<close>) and are told to the others through the log. The fleet
(\<^verbatim>\<open>fleet.go\<close>) picks a replica for a session and asks a provider for more, or for fewer: StatefulSets of Kubernetes
(\<^verbatim>\<open>k8s_provider.go\<close>), or records in memory (\<^verbatim>\<open>stub_provider.go\<close>). The handlers (\<^verbatim>\<open>src/internal/handler\<close>) put these
parts together: an engine request is authenticated, admitted, given a replica, a certificate and a lease, and a tunnel
that presents the certificate is relayed to the replica. The pipelines are shown from the spans that a Tempo server returns
(\<^verbatim>\<open>trace_store.go\<close>), with the commands they ran (\<^verbatim>\<open>exec_info.go\<close>, \<^verbatim>\<open>dag_call.go\<close>). The CI wrapper polls the
  span tree and the log lines of a trace and turns them into a stream of events.

  \<^bold>\<open>How the code is modelled.\<close> A struct is a record with the prefix of its type on the fields, an error is a value
  of \<open>error\<close> in a \<open>result\<close>, a Go map is an association list with distinct keys (\<open>gomap\<close>; where the code iterates
  over a map and the order could matter, the theorem is about every order), a time is an \<open>int\<close> of nanoseconds and an
  integer is an \<open>int\<close>, or a word where it can wrap around. A method that runs under a mutex is one
  step; a method that releases it on the way is one step for each critical section where that matters
  (\<open>fireGrace_claim\<close> and the mark in \<open>Lifecycle\<close>). Code that is not in the repository is an argument: the hash and cipher functions, the JWT library, the
  regular expressions, the answers of the identity providers, the clock, the answers of the Raft
  library (a command may be committed, refused, or committed although the caller gets an error), and the answers of
  the Kubernetes API, which may be any function of the calls made so far.

  \<^bold>\<open>The theories.\<close>

  \<^item> \<open>Prelude\<close>: Go maps, sets, strings and results, with the collections \<open>gm_simps\<close> and \<open>gm_intros\<close>. \<open>Domain\<close>: the
    entities of \<^verbatim>\<open>src/internal/domain\<close>. \<open>Index\<close>: tables with unique indices and adjacency maps.
  \<^item> \<open>Session_Store\<close>: the leases of \<^verbatim>\<open>session.go\<close>; the locale \<open>session_view\<close> is what the other
    components read of it.
  \<^item> \<open>FSM_State\<close>: all commands of \<^verbatim>\<open>fsm.go\<close>. \<open>FSM_Invariant\<close> and \<open>FSM_Run\<close>: the invariant \<open>fsm_inv\<close>, one
    lemma per operation, and the reachable states. \<open>FSM_Reads\<close>: the read helpers, with the locale
    \<open>indexed_table\<close> interpreted for each of the six indices. \<open>FSM_Snapshot\<close>: \<^verbatim>\<open>fsm_snapshot.go\<close>. \<open>FSM_Replica\<close>: the locales
    \<open>replicated\<close> and \<open>replicated_snapshots\<close> (what a Raft library asks of a state machine) and their interpretation.
    \<open>FSM_Props\<close>: the properties of the machine.
  \<^item> \<open>Raft_Store\<close>: \<^verbatim>\<open>applyCtx\<close> of \<^verbatim>\<open>raft_store.go\<close> with all answers, and every method of the repositories.
  \<^item> \<open>Group_Service\<close>, \<open>Accounts\<close>, \<open>JWT\<close>, \<open>Auth\<close>, \<open>Legacy_Import\<close>: groups (locale \<open>membership_store\<close>,
    interpreted on the repository and on the service), users, passwords and API tokens, session tokens, the resolution
    of a request to an identity, and the import of a token file.
  \<^item> \<open>OAuth\<close>, \<open>OAuth_Memberships\<close>, \<open>OAuth_Providers\<close>, \<open>Revalidator\<close>: logins, membership reconciliation,
    GitHub and OIDC, and the cache of provider answers with its single-flight protocol as a step relation.
  \<^item> \<open>Quota\<close>, \<open>Lifecycle\<close>, \<open>Attribution\<close>, \<open>History_Purge\<close>: admission to engines, disconnect
    detection, projects and attribution of traces, retention.
  \<^item> \<open>Version\<close>, \<open>Rate_Limiter\<close>: engine versions and the limiter of failed logins.
  \<^item> \<open>Fleet\<close>: \<^verbatim>\<open>domain/fleet.go\<close> and \<^verbatim>\<open>service/fleet.go\<close> over the locale \<open>fleet_provider\<close>, the contract of a
    provider. \<open>Stub_Provider\<close> interprets it on the provider in memory and shows the properties of the fleet.
    \<open>Engine_TOML\<close>: the configuration file of an engine. \<open>K8s_Provider\<close>, \<open>K8s_Props\<close>: the provider on
    Kubernetes as programs that record their calls. \<open>Cache_Purge\<close>: the purges of engine caches, with their interleavings
    as a step relation.
  \<^item> \<open>HTTP\<close>: what the handlers share: credentials, guards, bodies, parameters, the status of an error. \<open>Base64\<close>: the
    decoder they use. \<open>Provisioning\<close>: \<^verbatim>\<open>handleEngines\<close> and the data tunnel of \<^verbatim>\<open>server.go\<close> over the components above.
  \<^item> \<open>Span_Tree\<close>: the reconstruction of a span tree and the walk over it; the heap of nodes is a map from span ids, and the
    walk a \<open>partial_function\<close>. \<open>Dag_Call\<close>: the parser of dagql calls with its round trip. \<open>Exec_Info\<close>: the
    view of a command. \<open>Trace_Handlers\<close>: the list, the detail and the link of a trace in the handlers. \<open>Live_Hub\<close>: the
    hub of live updates with its channels and write pumps, as a step relation.
  \<^item> \<open>CI_Steps\<close>, \<open>CI_Stream\<close>, \<open>CI_Logs\<close>, \<open>CI_Lines\<close>: the builder of the CI event stream and its guarantees.

  \<^bold>\<open>What is shown.\<close> Every reachable replicated state is consistent, a refused command changes nothing, replicas that
  applied the same log agree and a snapshot followed by the rest of the log equals the log. Deletes cascade, tokens
  are replaced and never shared, a final trace status stays. A request gets an identity only for a live
  credential, and a logout ends every token of the session. Admission respects the limits of the groups. A
  reconciliation records the groups of the mapped names and changes only the memberships it manages. However calls interleave, one of them refreshes an entry at
  a time and none waits for ever. A trace whose tunnel was opened again before a grace timer decided is not failed by the timer, also when
  the check and the mark of its callback are taken as two steps; between them a new tunnel goes unnoticed
  (\<open>reopened_trace_failed_by_race\<close>). A running or young trace is not purged, an expired
  one is. A sweep of the fleet asks any provider only for idle and old replicas to go, and an acquisition for one replica more only below the
  limit; which replica then goes is up to the provider, and the one on Kubernetes takes the highest ordinal
  (\<open>sweep_drops_busy_pod\<close>). An update of a StatefulSet carries the resource version that was read. A version has one purge at a time, and a purge
  deletes exactly the claims without a pod that was listed and not terminating. An engine is handed out only after
  admission, always with a lease, and a tunnel goes to the replica of its lease and to no other. Spans are linked once, under their parents, the tree has those
  that lead to its root, the walk
  over it returns exactly when the root is not its own ancestor, and no secret is shown; calls of dagql are read back from the wire format with all
  fields that are skipped. The list of traces shows what its caller may open, a trace is
  answered to nobody else, and the live hub never panics.
  The CI stream starts and finishes each node once. A poll carries the lines that are fresh to its history to the steps they belong to and
  repeats none; \<open>CI_Lines\<close> says which lines the code takes for repetitions, and which it gives to the root.

  \<^bold>\<open>Bounds and fuel.\<close> \<open>Check\<close> of \<open>Revalidator\<close> runs its loop for two rounds, and \<open>Check_returns\<close> shows that they
  are enough for a call that meets no other. \<open>visit\<close> of \<open>CI_Steps\<close> gets the length of the flattened
  list as fuel, and \<open>emitTree_returns\<close> shows that this is enough for every list. \<open>free_username\<close> has the bound of 1000 attempts of
  the source. The scale-up of the stub is a loop that may run for ever, so it is a \<open>partial_function\<close>: \<open>ScaleUp_returns\<close> says when
  it returns and \<open>ScaleUp_hangs\<close> when it does not. The loops of the Kubernetes provider have the 5 attempts and
  the 150 rounds of the source. The generations of the grace timers are 64-bit words.

  \<^bold>\<open>Not modelled.\<close> The Raft library with its transport, discovery and TLS; certificates; the S3 and
  registry clients, Loki and Prometheus: the code is calls of network libraries. Routing, proxies and the copying of bytes in the
  handlers, and the handlers that only decode a body and call a service; configuration decoding; metrics and logging; the tickers
  that call the modelled sweeps; the commands that wire the processes; the generated bindings and the build module under
  \<^verbatim>\<open>src/dagger\<close>. Parts that could still be modelled: the image cache, the extraction of OTLP
  attributes, the search in telemetry and the validation of the configuration.
\<close>

end
